(* ===== verification/Bytes.thy ===== *)
theory Bytes
  imports Prelude
begin

text \<open>
  Byte-level facilities of the Rust standard library that the parsers and the
  session cache use: little-endian integers (\<open>from_le_bytes\<close>, \<open>to_le_bytes\<close>),
  \<open>chunks_exact\<close>, and \<open>String::from_utf8_lossy\<close>, which replaces every maximal
  malformed prefix of a UTF-8 sequence by U+FFFD. Floats are read as bit patterns.
\<close>

unbundle bit_operations_syntax

lemma unat_u8_less [simp]: "unat (b :: u8) < 256"
proof -
  have "unat b < 2 ^ LENGTH(8)" by (rule unsigned_less)
  then show ?thesis by simp
qed

section \<open>Little-endian words\<close>

fun le_nat :: "bytes \<Rightarrow> nat" where
  "le_nat [] = 0"
| "le_nat (b # bs) = unat b + 256 * le_nat bs"

fun le_bytes :: "nat \<Rightarrow> nat \<Rightarrow> bytes" where
  "le_bytes 0 n = []"
| "le_bytes (Suc k) n = of_nat (n mod 256) # le_bytes k (n div 256)"

definition of_le :: "bytes \<Rightarrow> 'a::len word" where
  "of_le bs = of_nat (le_nat bs)"

lemma length_le_bytes [simp]: "length (le_bytes k n) = k"
  by (induction k arbitrary: n) auto

lemma unat_of_nat_mod_256 [simp]: "unat (of_nat (n mod 256) :: u8) = n mod 256"
  by (simp add: unat_of_nat)

lemma le_nat_le_bytes: "n < 256 ^ k \<Longrightarrow> le_nat (le_bytes k n) = n"
proof (induction k arbitrary: n)
  case (Suc k)
  then have "n div 256 < 256 ^ k"
    by (simp add: less_mult_imp_div_less mult.commute)
  with Suc.IH show ?case by simp
qed simp

lemma of_le_bytes_u32 [simp]: "of_le (le_bytes 4 (unat (w :: u32))) = w"
proof -
  have "unat w < 2 ^ LENGTH(32)" by (rule unsigned_less)
  then show ?thesis by (simp add: of_le_def le_nat_le_bytes)
qed

lemma of_le_bytes_u64 [simp]: "of_le (le_bytes 8 (unat (w :: u64))) = w"
proof -
  have "unat w < 2 ^ LENGTH(64)" by (rule unsigned_less)
  then show ?thesis by (simp add: of_le_def le_nat_le_bytes)
qed

section \<open>Chunks\<close>

function chunks_exact :: "nat \<Rightarrow> 'a list \<Rightarrow> 'a list list" where
  "chunks_exact n xs =
     (if n = 0 \<or> length xs < n then [] else take n xs # chunks_exact n (drop n xs))"
  by pat_completeness auto
termination
  by (relation "measure (\<lambda>(n, xs). length xs)") auto

declare chunks_exact.simps [simp del]

lemma chunks_exact_concat:
  assumes "0 < n" and "\<forall>x\<in>set xss. length x = n"
  shows "chunks_exact n (concat xss) = xss"
  using assms(2) by (induction xss) (use assms(1) in \<open>auto simp: chunks_exact.simps [of n]\<close>)

section \<open>Lossy UTF-8 decoding\<close>

definition utf8_char_width :: "u8 \<Rightarrow> nat" where
  "utf8_char_width b =
     (if b < 0x80 then 1 else if 0xC2 \<le> b \<and> b \<le> 0xDF then 2
      else if 0xE0 \<le> b \<and> b \<le> 0xEF then 3 else if 0xF0 \<le> b \<and> b \<le> 0xF4 then 4 else 0)"

definition safe_get :: "bytes \<Rightarrow> nat \<Rightarrow> u8" where
  "safe_get bs i = (if i < length bs then bs ! i else 0)"

definition is_cont :: "u8 \<Rightarrow> bool" where
  "is_cont b \<longleftrightarrow> b AND 192 = 128"

definition second_of_3 :: "u8 \<Rightarrow> u8 \<Rightarrow> bool" where
  "second_of_3 a b \<longleftrightarrow>
     a = 0xE0 \<and> 0xA0 \<le> b \<and> b \<le> 0xBF \<or>
     0xE1 \<le> a \<and> a \<le> 0xEC \<and> 0x80 \<le> b \<and> b \<le> 0xBF \<or>
     a = 0xED \<and> 0x80 \<le> b \<and> b \<le> 0x9F \<or>
     0xEE \<le> a \<and> a \<le> 0xEF \<and> 0x80 \<le> b \<and> b \<le> 0xBF"

definition second_of_4 :: "u8 \<Rightarrow> u8 \<Rightarrow> bool" where
  "second_of_4 a b \<longleftrightarrow>
     a = 0xF0 \<and> 0x90 \<le> b \<and> b \<le> 0xBF \<or>
     0xF1 \<le> a \<and> a \<le> 0xF3 \<and> 0x80 \<le> b \<and> b \<le> 0xBF \<or>
     a = 0xF4 \<and> 0x80 \<le> b \<and> b \<le> 0x8F"

text \<open>The next chunk: is it a well-formed character, and how many bytes it takes.\<close>

definition utf8_chunk :: "bytes \<Rightarrow> bool \<times> nat" where
  "utf8_chunk bs =
     (let b = safe_get bs 0; w = utf8_char_width b in
      if w = 1 then (True, 1)
      else if w = 2 then (if is_cont (safe_get bs 1) then (True, 2) else (False, 1))
      else if w = 3 then
        (if \<not> second_of_3 b (safe_get bs 1) then (False, 1)
         else if is_cont (safe_get bs 2) then (True, 3) else (False, 2))
      else if w = 4 then
        (if \<not> second_of_4 b (safe_get bs 1) then (False, 1)
         else if \<not> is_cont (safe_get bs 2) then (False, 2)
         else if is_cont (safe_get bs 3) then (True, 4) else (False, 3))
      else (False, 1))"

lemma utf8_chunk_pos: "0 < snd (utf8_chunk bs)"
  by (simp add: utf8_chunk_def Let_def)

lemma not_cont_0 [simp]: "\<not> is_cont 0" "\<not> second_of_3 a 0" "\<not> second_of_4 a 0"
  by (auto simp: is_cont_def second_of_3_def second_of_4_def word_le_nat_alt)

lemma utf8_chunk_ok_length: "bs \<noteq> [] \<Longrightarrow> utf8_chunk bs = (True, n) \<Longrightarrow> n \<le> length bs"
  by (cases bs) (auto simp: utf8_chunk_def Let_def safe_get_def Suc_le_eq split: if_splits)

lemma safe_get_take: "i < n \<Longrightarrow> n \<le> length bs \<Longrightarrow> safe_get (take n bs @ r) i = safe_get bs i"
  by (simp add: safe_get_def nth_append)

lemma utf8_chunk_ok_append:
  assumes "bs \<noteq> []" and "utf8_chunk bs = (True, n)"
  shows "utf8_chunk (take n bs @ r) = (True, n)"
  using assms(2) utf8_chunk_ok_length [OF assms]
  by (auto simp: utf8_chunk_def [of bs] Let_def split: if_splits)
    (simp_all add: utf8_chunk_def Let_def safe_get_take)

function utf8_lossy :: "bytes \<Rightarrow> bytes" where
  "utf8_lossy bs =
     (if bs = [] then []
      else let (ok, n) = utf8_chunk bs in
        (if ok then take n bs else [0xEF, 0xBF, 0xBD]) @ utf8_lossy (drop n bs))"
  by pat_completeness auto
termination
proof (relation "measure length")
  fix bs :: bytes and x ok n
  assume "bs \<noteq> []" and "x = utf8_chunk bs" and "(ok, n) = x"
  with utf8_chunk_pos [of bs] show "(drop n bs, bs) \<in> measure length"
    by (cases "utf8_chunk bs") auto
qed simp

declare utf8_lossy.simps [simp del]

function utf8_valid :: "bytes \<Rightarrow> bool" where
  "utf8_valid bs =
     (if bs = [] then True
      else let (ok, n) = utf8_chunk bs in ok \<and> utf8_valid (drop n bs))"
  by pat_completeness auto
termination
proof (relation "measure length")
  fix bs :: bytes and x ok n
  assume "bs \<noteq> []" and "x = utf8_chunk bs" and "(ok, n) = x"
  with utf8_chunk_pos [of bs] show "(drop n bs, bs) \<in> measure length"
    by (cases "utf8_chunk bs") auto
qed simp

declare utf8_valid.simps [simp del]

lemma utf8_lossy_Nil [simp]: "utf8_lossy [] = []"
  by (simp add: utf8_lossy.simps)

lemma utf8_valid_Nil [simp]: "utf8_valid []"
  by (simp add: utf8_valid.simps)

lemma utf8_lossy_id: "utf8_valid bs \<Longrightarrow> utf8_lossy bs = bs"
proof (induction bs rule: utf8_valid.induct)
  case (1 bs)
  then show ?case
    by (cases "bs = []"; cases "utf8_chunk bs")
      (auto simp: utf8_lossy.simps [of bs] utf8_valid.simps [of bs])
qed

lemma utf8_valid_ok_append:
  assumes "bs \<noteq> []" and "utf8_chunk bs = (True, n)" and "utf8_valid r"
  shows "utf8_valid (take n bs @ r)"
  using utf8_chunk_ok_append [OF assms(1,2), of r] utf8_chunk_ok_length [OF assms(1,2)]
    utf8_chunk_pos [of bs] assms
  by (subst utf8_valid.simps) (auto simp: min_def)

lemma utf8_valid_replacement: "utf8_valid r \<Longrightarrow> utf8_valid (0xEF # 0xBF # 0xBD # r)"
  by (subst utf8_valid.simps)
    (simp add: utf8_chunk_def safe_get_def utf8_char_width_def second_of_3_def is_cont_def)

lemma utf8_lossy_valid: "utf8_valid (utf8_lossy bs)"
proof (induction bs rule: utf8_lossy.induct)
  case (1 bs)
  obtain ok n where c: "utf8_chunk bs = (ok, n)" by (cases "utf8_chunk bs")
  show ?case
  proof (cases "bs = []")
    case False
    with 1 c have "utf8_valid (utf8_lossy (drop n bs))" by simp
    with False c show ?thesis
      by (subst utf8_lossy.simps) (auto intro: utf8_valid_ok_append utf8_valid_replacement)
  qed simp
qed

lemma utf8_valid_ascii: "\<forall>b\<in>set bs. b < 0x80 \<Longrightarrow> utf8_valid bs"
  by (induction bs)
    (auto simp: utf8_valid.simps [of "_ # _"] utf8_chunk_def safe_get_def utf8_char_width_def)

section \<open>Strings as their UTF-8 bytes\<close>

definition from_utf8_lossy :: "bytes \<Rightarrow> string" where
  "from_utf8_lossy bs = map (\<lambda>b. char_of (unat b)) (utf8_lossy bs)"

definition as_bytes :: "string \<Rightarrow> bytes" where
  "as_bytes s = map (\<lambda>c. of_nat (of_char c)) s"

definition str_ok :: "string \<Rightarrow> bool" where
  "str_ok s \<longleftrightarrow> utf8_valid (as_bytes s)"

lemma as_bytes_chars [simp]: "as_bytes (map (\<lambda>b. char_of (unat b)) bs) = bs"
  using unat_u8_less by (induction bs) (simp_all add: as_bytes_def)

lemma chars_as_bytes [simp]: "map (\<lambda>b. char_of (unat b)) (as_bytes s) = s"
proof (induction s)
  case (Cons c s)
  have "of_char c < (256 :: nat)"
    using nat_of_char_less_256 by simp
  then have "unat (of_nat (of_char c) :: u8) = of_char c"
    by (simp add: unat_of_nat)
  with Cons show ?case by (simp add: as_bytes_def)
qed (simp add: as_bytes_def)

lemma length_as_bytes [simp]: "length (as_bytes s) = length s"
  by (simp add: as_bytes_def)

lemma from_utf8_lossy_as_bytes [simp]: "str_ok s \<Longrightarrow> from_utf8_lossy (as_bytes s) = s"
  by (simp add: from_utf8_lossy_def str_ok_def utf8_lossy_id)

lemma str_ok_from_utf8_lossy [simp]: "str_ok (from_utf8_lossy bs)"
  by (simp add: from_utf8_lossy_def str_ok_def utf8_lossy_valid)

lemma str_ok_ascii: "\<forall>c\<in>set s. (of_char c :: nat) < 128 \<Longrightarrow> str_ok s"
  unfolding str_ok_def as_bytes_def
  by (rule utf8_valid_ascii) (auto simp: word_less_nat_alt unat_of_nat)

end
