(* ===== verification/Wire.thy ===== *)
theory Wire
  imports Bytes
begin

text \<open>
  The bottom layer of \<open>oxionnx-proto/src/parser.rs\<close>: the error values of the
  parser (one constructor per message of the source), the wire values, and base-128
  varints. The lemmas give the number a varint denotes, that reading always
  advances by one to ten bytes, and that reading what the encoder wrote gives the
  value back at any offset of any buffer.
\<close>

section \<open>Errors and field values\<close>

datatype wire_error =
    VarintEof
  | VarintOverflow
  | Eof string nat nat nat
  | LengthTooLarge u64
  | InvalidFieldNumber u64
  | UnexpectedEndGroup u32 nat
  | UnknownWireType u8 nat
  | GroupTooDeep
  | GroupUnterminated u32
  | GroupMismatched u32 u64
  | NestingTooDeep
  | SegmentedTensor string i64 i64
  | TypeProtoAttribute string
  | SparseTensorAttribute string
  | SparseInitializer string
  | NoProgress

datatype wire_value =
    Varint u64
  | Fixed64 bytes
  | Bytes bytes
  | Fixed32 bytes
  | Group

definition MAX_NESTING_DEPTH :: nat where
  "MAX_NESTING_DEPTH = 64"

definition MAX_FIELD_NUMBER :: u64 where
  "MAX_FIELD_NUMBER = 0x1FFFFFFF"

section \<open>Varints\<close>

unbundle bit_operations_syntax

function read_varint_loop :: "bytes \<Rightarrow> nat \<Rightarrow> u64 \<Rightarrow> nat \<Rightarrow> wire_error + (u64 \<times> nat)" where
  "read_varint_loop buf pos result shift =
     (if pos \<ge> length buf then Inl VarintEof
      else let byte = buf ! pos; pos = pos + 1 in
        if shift = 63 then
          (if byte > 0x01 then Inl VarintOverflow
           else Inr (result OR push_bit 63 (ucast byte), pos))
        else let result = result OR push_bit shift (ucast (byte AND 0x7F)) in
          if byte AND 0x80 = 0 then Inr (result, pos)
          else read_varint_loop buf pos result (shift + 7))"
  by pat_completeness auto
termination
  by (relation "measure (\<lambda>(buf, pos, _, _). length buf - pos)") auto

declare read_varint_loop.simps [simp del]

definition read_varint :: "bytes \<Rightarrow> nat \<Rightarrow> wire_error + (u64 \<times> nat)" where
  "read_varint buf pos = read_varint_loop buf pos 0 0"

text \<open>The encoder the crate's own tests pair with the parser.\<close>

function encode_varint :: "u64 \<Rightarrow> bytes" where
  "encode_varint v =
     (let byte = ucast (v AND 0x7F); v = drop_bit 7 v in
      if v = 0 then [byte] else (byte OR 0x80) # encode_varint v)"
  by pat_completeness auto
termination
proof (relation "measure unat")
  fix x :: u8 and v xa :: u64
  assume xa: "xa = drop_bit 7 v" and nz: "xa \<noteq> 0"
  have "unat (drop_bit 7 v) = unat v div 128"
    by (simp add: drop_bit_eq_div unat_div)
  moreover from xa nz have "unat v > 0" by (cases "v = 0") (auto simp: unat_gt_0)
  ultimately show "(xa, v) \<in> measure unat" using xa by simp
qed simp

declare encode_varint.simps [simp del]

section \<open>What a varint means\<close>

fun base128 :: "bytes \<Rightarrow> nat" where
  "base128 [] = 0"
| "base128 (b # bs) = unat b mod 128 + 128 * base128 bs"

lemma unat_or_push_bit:
  fixes r x :: u64
  assumes "unat r < 2 ^ s" and "unat x < 2 ^ n" and "s + n \<le> 64"
  shows "unat (r OR push_bit s x) = unat r + unat x * 2 ^ s"
proof -
  have disj: "\<not> bit r i \<or> \<not> bit (push_bit s x) i" for i
  proof (cases "i < s")
    case True
    then show ?thesis by (simp add: bit_push_bit_iff)
  next
    case False
    have "\<not> bit (unat r) i"
      using assms(1) False by (metis bit_take_bit_iff take_bit_nat_eq_self)
    then show ?thesis by (simp add: bit_unsigned_iff)
  qed
  then have "r AND push_bit s x = 0"
    by (auto simp: bit_eq_iff bit_and_iff)
  then have "r OR push_bit s x = r + push_bit s x"
    by (simp add: disjunctive_add_eq_or)
  moreover have "unat (push_bit s x) = unat x * 2 ^ s"
  proof -
    have "unat x * 2 ^ s < 2 ^ n * 2 ^ s"
      using assms(2) by simp
    also have "\<dots> = (2::nat) ^ (n + s)"
      by (simp add: power_add)
    also have "\<dots> \<le> 2 ^ 64"
      using assms(3) by (intro power_increasing) auto
    finally have less: "unat x * 2 ^ s < 2 ^ 64" .
    have "unat (push_bit s x) = take_bit LENGTH(64) (push_bit s (unat x))"
      by (rule unsigned_push_bit_eq)
    also have "\<dots> = unat x * 2 ^ s"
      using less by (simp add: take_bit_nat_eq_self push_bit_eq_mult)
    finally show ?thesis .
  qed
  moreover have "unat r + unat x * 2 ^ s < 2 ^ 64"
  proof -
    have "unat r + unat x * 2 ^ s < (unat x + 1) * 2 ^ s"
      using assms(1) by simp
    also have "\<dots> \<le> 2 ^ n * 2 ^ s"
      using assms(2) by (intro mult_le_mono1) simp
    also have "\<dots> = (2::nat) ^ (n + s)"
      by (simp add: power_add)
    also have "\<dots> \<le> 2 ^ 64"
      using assms(3) by (intro power_increasing) auto
    finally show ?thesis .
  qed
  ultimately show ?thesis
    by (simp add: unat_word_ariths)
qed

lemma unat_and_127 [simp]: "unat (b AND 0x7F :: u8) = unat b mod 128"
proof -
  have "b AND 0x7F = b mod 128"
    using take_bit_eq_mask [of 7 b] by (simp add: take_bit_eq_mod mask_eq_exp_minus_1)
  then show ?thesis
    by (simp add: unat_mod)
qed

lemma unat_ucast_u8 [simp]: "unat (ucast (b :: u8) :: u64) = unat b"
proof -
  have "unat b < 2 ^ 64" by (rule less_trans [OF unat_u8_less]) simp
  then show ?thesis by (simp add: unsigned_ucast_eq take_bit_nat_eq_self)
qed

lemma bit_7_iff: "bit (b :: u8) 7 \<longleftrightarrow> 128 \<le> unat b"
proof -
  have "bit b 7 \<longleftrightarrow> bit (unat b) 7" by (simp add: bit_unsigned_iff)
  also have "\<dots> \<longleftrightarrow> odd (unat b div 2 ^ 7)" by (rule bit_iff_odd)
  also have "unat b div 2 ^ 7 = (if 128 \<le> unat b then 1 else 0)"
    using unat_u8_less [of b] by (auto intro: div_nat_eqI)
  also have "odd (if 128 \<le> unat b then 1 else 0 :: nat) \<longleftrightarrow> 128 \<le> unat b"
    by simp
  finally show ?thesis .
qed

lemma and_128_eq_0_iff [simp]: "b AND 0x80 = 0 \<longleftrightarrow> unat (b :: u8) < 128"
  using and_exp_eq_0_iff_not_bit [of b 7] by (simp add: bit_7_iff not_le)

text \<open>
  The loop's result is the base-128 value of the bytes it consumed: the accumulator
  never loses a bit, which is what the check on the tenth byte is for.
\<close>

lemma read_varint_loop_value:
  assumes "read_varint_loop buf pos r s = Inr (v, p)"
    and "unat r < 2 ^ s" and "s = 7 * k" and "k \<le> 9"
  shows "pos < p \<and> p \<le> length buf \<and> p \<le> pos + (10 - k) \<and>
     unat v = unat r + 2 ^ s * base128 (subslice pos p buf)"
  using assms
proof (induction buf pos r s arbitrary: k rule: read_varint_loop.induct)
  case (1 buf pos r s)
  let ?b = "buf ! pos"
  from 1(2) have lt: "pos < length buf"
    by (subst (asm) read_varint_loop.simps) (auto split: if_splits)
  have sub: "subslice pos p buf = ?b # subslice (Suc pos) p buf" if "pos < p" "p \<le> length buf" for p
    using that lt by (simp add: subslice_def Cons_nth_drop_Suc [symmetric] take_Cons' )
  show ?case
  proof (cases "s = 63")
    case True
    with 1(2) lt have *: "unat ?b \<le> 1" "v = r OR push_bit 63 (ucast ?b)" "p = Suc pos"
      by (subst (asm) read_varint_loop.simps, auto simp: Let_def not_less word_le_nat_alt split: if_splits)+
    have "unat v = unat r + unat ?b * 2 ^ 63"
      unfolding *(2) using unat_or_push_bit [of r 63 "ucast ?b" 1] *(1) 1(3) True by simp
    with * True 1(4,5) lt show ?thesis by (simp add: sub) (simp add: subslice_def)
  next
    case False
    with 1(4,5) have k: "k < 9" by auto
    let ?r = "r OR push_bit s (ucast (?b AND 0x7F))"
    have r: "unat ?r = unat r + (unat ?b mod 128) * 2 ^ s"
      using unat_or_push_bit [of r s "ucast (?b AND 0x7F)" 7] 1(3,4) k by simp
    have less: "unat ?r < 2 ^ (s + 7)"
    proof -
      have "unat r + (unat ?b mod 128) * 2 ^ s < 2 ^ s + 127 * 2 ^ s"
        using 1(3) by (intro add_less_le_mono mult_le_mono1) auto
      then show ?thesis by (simp add: r power_add)
    qed
    show ?thesis
    proof (cases "unat ?b < 128")
      case True
      with 1(2) False lt have "v = ?r" "p = Suc pos"
        by (subst (asm) read_varint_loop.simps, simp add: Let_def)+
      with r k lt show ?thesis by (simp add: sub) (simp add: subslice_def)
    next
      case hi: False
      with 1(2) False lt have rec: "read_varint_loop buf (Suc pos) ?r (s + 7) = Inr (v, p)"
        by (subst (asm) read_varint_loop.simps) (simp add: Let_def)
      have "Suc pos < p \<and> p \<le> length buf \<and> p \<le> Suc pos + (10 - Suc k) \<and>
          unat v = unat ?r + 2 ^ (s + 7) * base128 (subslice (Suc pos) p buf)"
        by (rule 1(1)) (use lt False hi rec less 1(4) k in auto)
      moreover from this have "unat v = unat r + 2 ^ s * base128 (subslice pos p buf)"
        by (simp add: r sub power_add algebra_simps)
      ultimately show ?thesis using k by simp linarith
    qed
  qed
qed

lemma read_varint_value:
  assumes "read_varint buf pos = Inr (v, p)"
  shows "pos < p \<and> p \<le> length buf \<and> p \<le> pos + 10 \<and> unat v = base128 (subslice pos p buf)"
  using read_varint_loop_value [of buf pos 0 0 v p 0] assms by (simp add: read_varint_def)

lemma read_varint_progress:
  "read_varint buf pos = Inr (v, p) \<Longrightarrow> pos < p \<and> p \<le> length buf"
  by (drule read_varint_value) simp

lemma read_varint_eof: "length buf \<le> pos \<Longrightarrow> read_varint buf pos = Inl VarintEof"
  by (simp add: read_varint_def read_varint_loop.simps)

section \<open>Encoding and decoding a varint\<close>

lemma unat_ucast_and_127: "unat (ucast (v AND 0x7F :: u64) :: u8) = unat v mod 128"
proof -
  have "v AND 0x7F = v mod 128"
    using take_bit_eq_mask [of 7 v] by (simp add: take_bit_eq_mod mask_eq_exp_minus_1)
  moreover have "take_bit 8 (unat v mod 128) = unat v mod 128"
    by (rule take_bit_nat_eq_self) (simp add: less_trans [OF mod_less_divisor])
  ultimately show ?thesis
    by (simp add: unsigned_ucast_eq unat_mod)
qed

lemma or_128 [simp]:
  "unat (b OR 0x80 :: u8) mod 128 = unat b mod 128" "\<not> unat (b OR 0x80 :: u8) < 128"
proof -
  have "(b OR 0x80) AND 0x7F = b AND 0x7F"
    by (simp add: bit.conj_disj_distrib2)
  then show "unat (b OR 0x80) mod 128 = unat b mod 128"
    by (metis unat_and_127)
  have "bit (b OR 0x80) 7"
    by (simp only: bit_or_iff) simp
  then show "\<not> unat (b OR 0x80) < 128"
    by (simp add: bit_7_iff)
qed

lemma unat_drop_bit_7: "unat (drop_bit 7 (v :: u64)) = unat v div 128"
  by (simp add: drop_bit_eq_div unat_div)

lemma base128_encode_varint: "base128 (encode_varint v) = unat v"
proof (induction v rule: encode_varint.induct)
  case (1 v)
  show ?case
  proof (cases "drop_bit 7 v = 0")
    case True
    then have "unat v div 128 = 0" by (metis unat_0 unat_drop_bit_7)
    with True show ?thesis
      by (simp add: encode_varint.simps [of v] unat_ucast_and_127 div_eq_0_iff)
  next
    case False
    then show ?thesis
      by (simp add: encode_varint.simps [of v] 1 unat_ucast_and_127 unat_drop_bit_7)
  qed
qed

lemma encode_varint_not_Nil [simp]: "encode_varint v \<noteq> []"
  by (subst encode_varint.simps) (simp add: Let_def)

lemma read_varint_loop_encode:
  assumes "k \<le> 9" and "unat v < 2 ^ (64 - 7 * k)"
  shows "\<exists>w. read_varint_loop (pre @ encode_varint v @ post) (length pre) r (7 * k)
           = Inr (w, length pre + length (encode_varint v))"
  using assms
proof (induction v arbitrary: pre r k rule: encode_varint.induct)
  case (1 v)
  show ?case
  proof (cases "drop_bit 7 v = 0")
    case True
    then have "unat v div 128 = 0" by (metis unat_0 unat_drop_bit_7)
    then have v: "unat v < 128" by (simp add: div_eq_0_iff)
    then have "\<not> 1 < (ucast (v AND 0x7F) :: u8)" if "k = 9"
      using that 1(3) by (simp add: word_less_nat_alt unat_ucast_and_127)
    with v True show ?thesis
      by (simp add: encode_varint.simps [of v] read_varint_loop.simps Let_def nth_append
          unat_ucast_and_127)
  next
    case False
    then have "unat v div 128 \<noteq> 0" by (metis unat_drop_bit_7 unat_eq_zero)
    then have ge: "128 \<le> unat v" by (simp add: div_eq_0_iff)
    have k: "k < 9" using 1(2,3) ge by (cases "k = 9") auto
    let ?b = "ucast (v AND 0x7F) OR 0x80 :: u8"
    have "unat (drop_bit 7 v) < 2 ^ (64 - 7 * Suc k)"
    proof -
      have "(2::nat) ^ (64 - 7 * k) = 2 ^ (64 - 7 * Suc k) * 128"
        using k power_add [of "2::nat" "64 - 7 * Suc k" 7] by simp
      with 1(3) show ?thesis
        by (simp add: unat_drop_bit_7 less_mult_imp_div_less)
    qed
    then obtain w where "read_varint_loop ((pre @ [?b]) @ encode_varint (drop_bit 7 v) @ post)
        (length (pre @ [?b])) (r OR push_bit (7 * k) (ucast (?b AND 0x7F))) (7 * Suc k)
        = Inr (w, length (pre @ [?b]) + length (encode_varint (drop_bit 7 v)))"
      using 1(1) [OF refl refl False, of "Suc k" "pre @ [?b]"] k by fastforce
    then show ?thesis using False k
      by (subst read_varint_loop.simps)
        (auto simp: encode_varint.simps [of v] Let_def nth_append add.commute)
  qed
qed

lemma read_varint_encode [simp]:
  "read_varint (pre @ encode_varint v @ post) (length pre)
     = Inr (v, length pre + length (encode_varint v))"
proof -
  obtain w where w: "read_varint (pre @ encode_varint v @ post) (length pre)
      = Inr (w, length pre + length (encode_varint v))"
    using read_varint_loop_encode [of 0 v pre post 0] unsigned_less [of v]
    by (auto simp: read_varint_def)
  from read_varint_value [OF this] have "unat w = unat v"
    by (simp add: base128_encode_varint)
  then have "w = v" by (simp add: word_unat_eq_iff)
  with w show ?thesis by simp
qed

end
