(* ===== verification/WireFields.thy ===== *)
theory WireFields
  imports Wire
begin

text \<open>
  Tags and field values of the protobuf wire format, as
  \<open>oxionnx-proto/src/parser.rs\<close> reads them by offset into one buffer: varint,
  fixed-width and length-delimited values, and groups, which are skipped.

  \<open>read_field_at\<close> and \<open>skip_group\<close> are mutually recursive in the source and are
  here. The group loop goes on at the offset that \<open>read_field_at\<close> returns; its
  recursion carries the guard \<open>pos < next\<close> so that the pair can be defined, and
  \<open>skip_group_code\<close> shows that the guard is always true, which gives the source's
  equation.
\<close>

section \<open>Reading a field\<close>

definition checked_end :: "nat \<Rightarrow> nat \<Rightarrow> nat \<Rightarrow> string \<Rightarrow> wire_error + nat" where
  "checked_end pos len buf_len what =
     (case checked_add pos len of
        Some e \<Rightarrow> if e \<le> buf_len then Inr e else Inl (Eof what len pos buf_len)
      | None \<Rightarrow> Inl (Eof what len pos buf_len))"

definition len_to_usize :: "u64 \<Rightarrow> wire_error + nat" where
  "len_to_usize len = (if unat len \<le> usize_max then Inr (unat len) else Inl (LengthTooLarge len))"

definition read_tag :: "bytes \<Rightarrow> nat \<Rightarrow> wire_error + (u32 \<times> u8 \<times> nat)" where
  "read_tag buf pos =
     rbind (read_varint buf pos) (\<lambda>(tag, next).
       let raw_field_no = drop_bit 3 tag in
       if raw_field_no = 0 \<or> raw_field_no > MAX_FIELD_NUMBER
       then Inl (InvalidFieldNumber raw_field_no)
       else Inr (ucast raw_field_no, ucast (tag AND 0x7), next))"

definition read_len_delim_at :: "bytes \<Rightarrow> nat \<Rightarrow> string \<Rightarrow> wire_error + (bytes \<times> nat)" where
  "read_len_delim_at buf pos what =
     rbind (read_varint buf pos) (\<lambda>(len, after_len).
     rbind (len_to_usize len) (\<lambda>len.
     rbind (checked_end after_len len (length buf) what) (\<lambda>e.
       Inr (subslice after_len e buf, e))))"

lemma checked_end_Inr_iff [result_simps]:
  "checked_end pos len n what = Inr e \<longleftrightarrow> e = pos + len \<and> e \<le> n \<and> e \<le> usize_max"
  by (auto simp: checked_end_def checked_add_def)

lemma len_to_usize_Inr [simp]: "len_to_usize len = Inr (unat len)"
proof -
  have "unat len < 2 ^ LENGTH(64)" by (rule unsigned_less)
  then show ?thesis by (simp add: len_to_usize_def usize_max_def)
qed

lemma read_tag_progress:
  "read_tag buf pos = Inr (f, w, p) \<Longrightarrow> pos < p \<and> p \<le> length buf"
  by (auto simp: read_tag_def result_simps Let_def split: if_splits dest: read_varint_progress)

function (sequential)
  read_field_at :: "bytes \<Rightarrow> nat \<Rightarrow> nat \<Rightarrow> wire_error + (u32 \<times> wire_value \<times> nat)" and
  skip_group :: "bytes \<Rightarrow> nat \<Rightarrow> u32 \<Rightarrow> nat \<Rightarrow> wire_error + nat" and
  skip_group_loop :: "bytes \<Rightarrow> nat \<Rightarrow> u32 \<Rightarrow> nat \<Rightarrow> wire_error + nat"
where
  "read_field_at buf pos depth =
     rbind (read_tag buf pos) (\<lambda>(field_no, wire_type, pos).
       if wire_type = 0 then
         rbind (read_varint buf pos) (\<lambda>(v, pos). Inr (field_no, Varint v, pos))
       else if wire_type = 1 then
         rbind (checked_end pos 8 (length buf) ''fixed64'') (\<lambda>e.
           Inr (field_no, Fixed64 (subslice pos e buf), e))
       else if wire_type = 2 then
         rbind (read_varint buf pos) (\<lambda>(len, pos).
         rbind (len_to_usize len) (\<lambda>len.
         rbind (checked_end pos len (length buf) ''length-delimited'') (\<lambda>e.
           Inr (field_no, Bytes (subslice pos e buf), e))))
       else if wire_type = 3 then
         rbind (skip_group buf pos field_no depth) (\<lambda>e. Inr (field_no, Group, e))
       else if wire_type = 4 then Inl (UnexpectedEndGroup field_no pos)
       else if wire_type = 5 then
         rbind (checked_end pos 4 (length buf) ''fixed32'') (\<lambda>e.
           Inr (field_no, Fixed32 (subslice pos e buf), e))
       else Inl (UnknownWireType wire_type pos))"
| "skip_group buf pos group_field_no depth =
     (if depth \<ge> MAX_NESTING_DEPTH then Inl GroupTooDeep
      else skip_group_loop buf pos group_field_no depth)"
| "skip_group_loop buf pos group_field_no depth =
     (if pos \<ge> length buf then Inl (GroupUnterminated group_field_no)
      else rbind (read_varint buf pos) (\<lambda>(tag, after_tag).
        if (ucast (tag AND 0x7) :: u8) = 4 then
          (let end_field_no = drop_bit 3 tag in
           if end_field_no \<noteq> ucast group_field_no
           then Inl (GroupMismatched group_field_no end_field_no)
           else Inr after_tag)
        else rbind (read_field_at buf pos (depth + 1)) (\<lambda>(_, _, next).
          if pos < next then skip_group_loop buf next group_field_no depth
          else Inl NoProgress)))"
  by pat_completeness auto
termination
  by (relation "measure (\<lambda>x. case x of
       Inl (buf, pos, _) \<Rightarrow> 3 * (length buf - pos)
     | Inr (Inl (buf, pos, _)) \<Rightarrow> 3 * (length buf - pos) + 2
     | Inr (Inr (buf, pos, _)) \<Rightarrow> 3 * (length buf - pos) + 1)")
    (auto dest!: read_tag_progress)

declare read_field_at.simps [simp del] skip_group.simps [simp del] skip_group_loop.simps [simp del]

definition read_field :: "bytes \<Rightarrow> nat \<Rightarrow> wire_error + (u32 \<times> wire_value \<times> nat)" where
  "read_field buf pos = read_field_at buf pos 0"

definition skip_field_value_in_buf :: "bytes \<Rightarrow> nat \<Rightarrow> u32 \<Rightarrow> u8 \<Rightarrow> wire_error + nat" where
  "skip_field_value_in_buf buf pos field_no wire_type =
     (if wire_type = 0 then rbind (read_varint buf pos) (\<lambda>(_, p). Inr p)
      else if wire_type = 1 then checked_end pos 8 (length buf) ''fixed64''
      else if wire_type = 2 then
        rbind (read_varint buf pos) (\<lambda>(len, after_len).
        rbind (len_to_usize len) (\<lambda>len.
          checked_end after_len len (length buf) ''length-delimited''))
      else if wire_type = 3 then skip_group buf pos field_no 0
      else if wire_type = 4 then Inl (UnexpectedEndGroup field_no pos)
      else if wire_type = 5 then checked_end pos 4 (length buf) ''fixed32''
      else Inl (UnknownWireType wire_type pos))"

text \<open>
  \<open>for_each_packed_varint(b, push)\<close>: the closure's captured state is the
  accumulator. On an error the caller drops that state.
\<close>

function for_each_packed_varint_from :: "bytes \<Rightarrow> nat \<Rightarrow> (u64 \<Rightarrow> 's \<Rightarrow> 's) \<Rightarrow> 's \<Rightarrow> wire_error + 's" where
  "for_each_packed_varint_from b p push s =
     (if p < length b then
        rbind (read_varint b p) (\<lambda>(v, np). for_each_packed_varint_from b np push (push v s))
      else Inr s)"
  by pat_completeness auto
termination
  by (relation "measure (\<lambda>(b, p, _, _). length b - p)") (auto dest: read_varint_progress)

declare for_each_packed_varint_from.simps [simp del]

definition for_each_packed_varint :: "bytes \<Rightarrow> (u64 \<Rightarrow> 's \<Rightarrow> 's) \<Rightarrow> 's \<Rightarrow> wire_error + 's" where
  "for_each_packed_varint b push s = for_each_packed_varint_from b 0 push s"

section \<open>Reading always advances and stays in the buffer\<close>

fun wire_size :: "wire_value \<Rightarrow> nat" where
  "wire_size (Fixed64 b) = length b"
| "wire_size (Bytes b) = length b"
| "wire_size (Fixed32 b) = length b"
| "wire_size _ = 0"

lemma field_progress:
  "read_field_at buf pos depth = Inr (f, v, p) \<Longrightarrow>
     pos < p \<and> p \<le> length buf \<and> wire_size v < length buf - pos"
  "skip_group buf pos g depth = Inr p \<Longrightarrow> pos < p \<and> p \<le> length buf"
  "skip_group_loop buf pos g depth = Inr p \<Longrightarrow> pos < p \<and> p \<le> length buf"
proof (induction buf pos depth and buf pos g depth and buf pos g depth arbitrary: f v p and p and p
    rule: read_field_at_skip_group_skip_group_loop.induct)
  case (1 buf pos depth)
  from "1.prems" obtain fn w q where tag: "read_tag buf pos = Inr (fn, w, q)"
    by (auto simp: read_field_at.simps [of buf pos depth] result_simps)
  note adv = read_tag_progress [OF tag]
  show ?case
    using "1.prems" tag adv "1.IH" [OF tag refl refl]
    by (auto simp: read_field_at.simps [of buf pos depth] result_simps
        split: if_splits dest!: read_varint_progress)
next
  case (2 buf pos g depth)
  then show ?case
    by (auto simp: skip_group.simps [of buf pos g depth] split: if_splits)
next
  case (3 buf pos g depth)
  from "3.prems" obtain tag q where tag: "pos < length buf" "read_varint buf pos = Inr (tag, q)"
    by (auto simp: skip_group_loop.simps [of buf pos g depth] result_simps split: if_splits)
  note adv = read_varint_progress [OF tag(2)]
  show ?case
  proof (cases "(ucast (tag AND 0x7) :: u8) = 4")
    case True
    with "3.prems" tag adv show ?thesis
      by (auto simp: skip_group_loop.simps [of buf pos g depth] Let_def split: if_splits)
  next
    case False
    with "3.prems" tag obtain fn w nx where
      rf: "read_field_at buf pos (depth + 1) = Inr (fn, w, nx)" and "pos < nx"
      and rec: "skip_group_loop buf nx g depth = Inr p"
      by (auto simp: skip_group_loop.simps [of buf pos g depth] result_simps split: if_splits)
    with "3.IH"(2) tag False have "nx < p \<and> p \<le> length buf" by fastforce
    with \<open>pos < nx\<close> show ?thesis by simp
  qed
qed

lemmas read_field_at_progress = field_progress(1)
lemmas skip_group_progress = field_progress(2)

lemma read_field_progress:
  "read_field buf pos = Inr (f, v, p) \<Longrightarrow>
     pos < p \<and> p \<le> length buf \<and> wire_size v < length buf - pos"
  unfolding read_field_def by (rule field_progress(1))

text \<open>The progress guard is never false, so the group loop is the source's loop.\<close>

lemma skip_group_code:
  "skip_group_loop buf pos group_field_no depth =
     (if pos \<ge> length buf then Inl (GroupUnterminated group_field_no)
      else rbind (read_varint buf pos) (\<lambda>(tag, after_tag).
        if (ucast (tag AND 0x7) :: u8) = 4 then
          (let end_field_no = drop_bit 3 tag in
           if end_field_no \<noteq> ucast group_field_no
           then Inl (GroupMismatched group_field_no end_field_no)
           else Inr after_tag)
        else rbind (read_field_at buf pos (depth + 1)) (\<lambda>(_, _, next).
          skip_group_loop buf next group_field_no depth)))"
  by (subst skip_group_loop.simps) (auto intro!: rbind_cong dest!: read_field_at_progress simp: Let_def)

text \<open>
  \<open>skip_field_value_in_buf\<close>, which the streaming parser uses, ends where
  \<open>read_field\<close> ends and fails with the same error.
\<close>

lemma skip_agrees_with_read:
  assumes "read_tag buf pos = Inr (f, w, q)"
  shows "skip_field_value_in_buf buf q f w = rbind (read_field buf pos) (\<lambda>(_, _, e). Inr e)"
  using assms
  by (cases "read_varint buf q")
    (auto simp: skip_field_value_in_buf_def read_field_def read_field_at.simps rbind_assoc)

section \<open>Encoded fields\<close>

text \<open>
  The protobuf encoding of one field, groups included, as the specification the
  reader is proved against.
\<close>

datatype pb =
    PbVarint u32 u64
  | PbFixed64 u32 bytes
  | PbBytes u32 bytes
  | PbFixed32 u32 bytes
  | PbGroup u32 "pb list"

primrec pb_field :: "pb \<Rightarrow> u32" where
  "pb_field (PbVarint f _) = f"
| "pb_field (PbFixed64 f _) = f"
| "pb_field (PbBytes f _) = f"
| "pb_field (PbFixed32 f _) = f"
| "pb_field (PbGroup f _) = f"

primrec pb_value :: "pb \<Rightarrow> wire_value" where
  "pb_value (PbVarint _ v) = Varint v"
| "pb_value (PbFixed64 _ b) = Fixed64 b"
| "pb_value (PbBytes _ b) = Bytes b"
| "pb_value (PbFixed32 _ b) = Fixed32 b"
| "pb_value (PbGroup _ _) = Group"

definition tag_word :: "u32 \<Rightarrow> u8 \<Rightarrow> u64" where
  "tag_word f wt = ucast wt OR push_bit 3 (ucast f)"

definition encode_tag :: "u32 \<Rightarrow> u8 \<Rightarrow> bytes" where
  "encode_tag f wt = encode_varint (tag_word f wt)"

primrec encode_pb :: "pb \<Rightarrow> bytes" where
  "encode_pb (PbVarint f v) = encode_tag f 0 @ encode_varint v"
| "encode_pb (PbFixed64 f b) = encode_tag f 1 @ b"
| "encode_pb (PbBytes f b) = encode_tag f 2 @ encode_varint (of_nat (length b)) @ b"
| "encode_pb (PbFixed32 f b) = encode_tag f 5 @ b"
| "encode_pb (PbGroup f xs) = encode_tag f 3 @ concat (map encode_pb xs) @ encode_tag f 4"

definition field_ok :: "u32 \<Rightarrow> bool" where
  "field_ok f \<longleftrightarrow> 0 < unat f \<and> unat f < 2 ^ 29"

primrec pb_ok :: "pb \<Rightarrow> bool" where
  "pb_ok (PbVarint f _) = field_ok f"
| "pb_ok (PbFixed64 f b) = (field_ok f \<and> length b = 8)"
| "pb_ok (PbBytes f _) = field_ok f"
| "pb_ok (PbFixed32 f b) = (field_ok f \<and> length b = 4)"
| "pb_ok (PbGroup f xs) = (field_ok f \<and> list_all pb_ok xs)"

primrec group_depth :: "pb \<Rightarrow> nat" where
  "group_depth (PbVarint _ _) = 0"
| "group_depth (PbFixed64 _ _) = 0"
| "group_depth (PbBytes _ _) = 0"
| "group_depth (PbFixed32 _ _) = 0"
| "group_depth (PbGroup _ xs) = Suc (foldr max (map group_depth xs) 0)"

lemma unat_ucast_u32 [simp]: "unat (ucast (f :: u32) :: u64) = unat f"
proof -
  have "unat f < 2 ^ LENGTH(32)" by (rule unsigned_less)
  then have "unat f < 2 ^ 64" by (rule less_trans) simp
  then show ?thesis by (simp add: unsigned_ucast_eq take_bit_nat_eq_self)
qed

lemma ucast_ucast_u32 [simp]: "(ucast (ucast (f :: u32) :: u64) :: u32) = f"
proof -
  have "unat f < 2 ^ LENGTH(32)" by (rule unsigned_less)
  then show ?thesis
    by (simp only: word_unat_eq_iff unsigned_ucast_eq [where ?'b = 64] unat_ucast_u32)
      (simp add: take_bit_nat_eq_self)
qed

lemma unat_tag_word:
  "unat f < 2 ^ 29 \<Longrightarrow> unat wt < 8 \<Longrightarrow> unat (tag_word f wt) = unat wt + 8 * unat f"
  unfolding tag_word_def using unat_or_push_bit [of "ucast wt" 3 "ucast f" 29] by simp

lemma tag_word_field:
  assumes "field_ok f" and "unat wt < 8"
  shows "drop_bit 3 (tag_word f wt) = ucast f"
  using assms by (simp add: word_unat_eq_iff drop_bit_eq_div unat_div unat_tag_word field_ok_def)

lemma tag_word_type:
  assumes "field_ok f" and "unat wt < 8"
  shows "(ucast (tag_word f wt AND 0x7) :: u8) = wt"
proof -
  have "tag_word f wt AND 0x7 = tag_word f wt mod 8"
    using take_bit_eq_mask [of 3 "tag_word f wt"] by (simp add: take_bit_eq_mod mask_eq_exp_minus_1)
  then have "unat (tag_word f wt AND 0x7) = unat wt"
    using assms by (simp add: unat_mod unat_tag_word field_ok_def)
  moreover have "take_bit 8 (unat wt) = unat wt"
    by (rule take_bit_nat_eq_self) simp
  ultimately show ?thesis
    by (simp add: word_unat_eq_iff unsigned_ucast_eq)
qed

lemma field_ok_ucast:
  "field_ok f \<Longrightarrow> (ucast f :: u64) \<noteq> 0 \<and> \<not> (ucast f :: u64) > MAX_FIELD_NUMBER"
  by (auto simp: field_ok_def word_unat_eq_iff word_less_nat_alt MAX_FIELD_NUMBER_def)

lemma read_tag_encode:
  "field_ok f \<Longrightarrow> unat wt < 8 \<Longrightarrow>
     read_tag (pre @ encode_tag f wt @ post) (length pre)
       = Inr (f, wt, length pre + length (encode_tag f wt))"
  by (simp add: read_tag_def encode_tag_def tag_word_field tag_word_type field_ok_ucast Let_def)

text \<open>
  One encoded field, at any offset and nesting depth: read exactly, or refused
  because its groups nest deeper than the limit allows. The same for a group body.
\<close>

lemma checked_end_ok:
  "length (pre @ b @ post) \<le> usize_max \<Longrightarrow>
     checked_end (length pre) (length b) (length pre + (length b + length post)) what
       = Inr (length pre + length b)"
  by (simp add: result_simps)

lemma encode_tag_Cons: "\<exists>b bs. encode_tag f wt = b # bs"
  unfolding encode_tag_def by (metis encode_varint_not_Nil list.exhaust)

lemma read_end_tag:
  "field_ok g \<Longrightarrow> skip_group_loop (pre @ encode_tag g 4 @ post) (length pre) g d
     = Inr (length pre + length (encode_tag g 4))"
  by (subst skip_group_code) (simp add: encode_tag_def tag_word_type tag_word_field)

lemma encode_pb_tag:
  obtains wt rest where "encode_pb x = encode_tag (pb_field x) wt @ rest" "unat wt < 8" "wt \<noteq> 4"
proof (cases x)
  case (PbVarint f v) then show ?thesis using that [of 0] by simp
next
  case (PbFixed64 f b) then show ?thesis using that [of 1] by simp
next
  case (PbBytes f b) then show ?thesis using that [of 2] by simp
next
  case (PbFixed32 f b) then show ?thesis using that [of 5] by simp
next
  case (PbGroup f xs) then show ?thesis using that [of 3] by simp
qed

lemma pb_ok_field: "pb_ok x \<Longrightarrow> field_ok (pb_field x)"
  by (cases x) auto

lemma skip_group_loop_Cons:
  assumes "pb_ok x"
  shows "skip_group_loop (pre @ encode_pb x @ post) (length pre) g d =
     rbind (read_field_at (pre @ encode_pb x @ post) (length pre) (Suc d)) (\<lambda>(_, _, next).
       skip_group_loop (pre @ encode_pb x @ post) next g d)"
proof -
  obtain wt rest where "encode_pb x = encode_tag (pb_field x) wt @ rest" "unat wt < 8" "wt \<noteq> 4"
    by (rule encode_pb_tag)
  with pb_ok_field [OF assms] show ?thesis
    by (subst skip_group_code) (simp add: encode_tag_def tag_word_type)
qed

abbreviation depth_ok :: "nat \<Rightarrow> pb \<Rightarrow> bool" where
  "depth_ok d x \<equiv> group_depth x + d \<le> MAX_NESTING_DEPTH \<or> group_depth x = 0"

lemma skip_group_loop_encoded:
  assumes "\<And>x pre post d. x \<in> set xs \<Longrightarrow> pb_ok x \<Longrightarrow> length (pre @ encode_pb x @ post) \<le> usize_max \<Longrightarrow>
      read_field_at (pre @ encode_pb x @ post) (length pre) d =
        (if depth_ok d x then Inr (pb_field x, pb_value x, length pre + length (encode_pb x))
         else Inl GroupTooDeep)"
    and "list_all pb_ok xs" and "field_ok g"
    and "length (pre @ concat (map encode_pb xs) @ encode_tag g 4 @ post) \<le> usize_max"
  shows "skip_group_loop (pre @ concat (map encode_pb xs) @ encode_tag g 4 @ post) (length pre) g d =
    (if \<forall>x\<in>set xs. depth_ok (Suc d) x
     then Inr (length pre + length (concat (map encode_pb xs) @ encode_tag g 4))
     else Inl GroupTooDeep)"
  using assms
proof (induction xs arbitrary: pre)
  case Nil
  then show ?case by (simp add: read_end_tag)
next
  case (Cons x xs)
  let ?rest = "concat (map encode_pb xs) @ encode_tag g 4 @ post"
  have rest: "skip_group_loop ((pre @ encode_pb x) @ ?rest) (length (pre @ encode_pb x)) g d =
      (if \<forall>x\<in>set xs. depth_ok (Suc d) x
       then Inr (length (pre @ encode_pb x) + length (concat (map encode_pb xs) @ encode_tag g 4))
       else Inl GroupTooDeep)"
    by (rule Cons.IH) (use Cons.prems in auto)
  have x: "pb_ok x" using Cons.prems(2) by simp
  have "read_field_at (pre @ encode_pb x @ ?rest) (length pre) (Suc d) =
      (if depth_ok (Suc d) x then Inr (pb_field x, pb_value x, length pre + length (encode_pb x))
       else Inl GroupTooDeep)"
    using Cons.prems x by simp
  then show ?case
    using skip_group_loop_Cons [OF x, of pre ?rest g d] rest by (auto simp: add.assoc)
qed

lemma foldr_max_le_iff: "foldr max (map f xs) 0 \<le> n \<longleftrightarrow> (\<forall>x\<in>set xs. f x \<le> (n :: nat))"
  by (induction xs) auto

lemma read_encoded:
  assumes "pb_ok x" and "length (pre @ encode_pb x @ post) \<le> usize_max"
  shows "read_field_at (pre @ encode_pb x @ post) (length pre) d =
    (if group_depth x + d \<le> MAX_NESTING_DEPTH \<or> group_depth x = 0
     then Inr (pb_field x, pb_value x, length pre + length (encode_pb x))
     else Inl GroupTooDeep)"
  using assms
proof (induction x arbitrary: pre post d)
  case (PbVarint f v)
  then show ?case
    using read_tag_encode [of f 0 pre "encode_varint v @ post"]
      read_varint_encode [of "pre @ encode_tag f 0" v post]
    by (simp add: read_field_at.simps add.assoc)
next
  case (PbFixed64 f b)
  then show ?case
    using read_tag_encode [of f 1 pre "b @ post"]
      checked_end_ok [of "pre @ encode_tag f 1" b post "''fixed64''"]
      subslice_append_exact [of "pre @ encode_tag f 1" b post]
    by (simp add: read_field_at.simps add.assoc)
next
  case (PbFixed32 f b)
  then show ?case
    using read_tag_encode [of f 5 pre "b @ post"]
      checked_end_ok [of "pre @ encode_tag f 5" b post "''fixed32''"]
      subslice_append_exact [of "pre @ encode_tag f 5" b post]
    by (simp add: read_field_at.simps add.assoc)
next
  case (PbBytes f b)
  let ?n = "encode_varint (of_nat (length b))"
  have "unat (of_nat (length b) :: u64) = length b"
    using PbBytes(2) by (simp add: usize_max_def unat_of_nat)
  with PbBytes show ?case
    using read_tag_encode [of f 2 pre "?n @ b @ post"]
      read_varint_encode [of "pre @ encode_tag f 2" "of_nat (length b)" "b @ post"]
      checked_end_ok [of "pre @ encode_tag f 2 @ ?n" b post "''length-delimited''"]
      subslice_append_exact [of "pre @ encode_tag f 2 @ ?n" b post]
    by (simp add: read_field_at.simps add.assoc)
next
  case (PbGroup f xs)
  let ?body = "concat (map encode_pb xs) @ encode_tag f 4"
  have tag: "read_tag (pre @ encode_tag f 3 @ ?body @ post) (length pre)
      = Inr (f, 3, length (pre @ encode_tag f 3))"
    using PbGroup.prems(1) read_tag_encode [of f 3 pre "?body @ post"] by simp
  show ?case
  proof (cases "d < MAX_NESTING_DEPTH")
    case False
    with tag show ?thesis
      by (simp add: read_field_at.simps skip_group.simps)
  next
    case True
    have "skip_group_loop ((pre @ encode_tag f 3) @ concat (map encode_pb xs) @ encode_tag f 4 @ post)
        (length (pre @ encode_tag f 3)) f d =
      (if \<forall>x\<in>set xs. depth_ok (Suc d) x then Inr (length (pre @ encode_tag f 3) + length ?body)
       else Inl GroupTooDeep)"
      by (rule skip_group_loop_encoded) (use PbGroup in auto)
    moreover have "(\<forall>x\<in>set xs. depth_ok (Suc d) x) \<longleftrightarrow> group_depth (PbGroup f xs) + d \<le> MAX_NESTING_DEPTH"
    proof -
      have "group_depth (PbGroup f xs) + d \<le> MAX_NESTING_DEPTH \<longleftrightarrow>
          foldr max (map group_depth xs) 0 \<le> MAX_NESTING_DEPTH - Suc d"
        using True by auto
      also have "\<dots> \<longleftrightarrow> (\<forall>x\<in>set xs. group_depth x \<le> MAX_NESTING_DEPTH - Suc d)"
        by (rule foldr_max_le_iff)
      also have "\<dots> \<longleftrightarrow> (\<forall>x\<in>set xs. depth_ok (Suc d) x)"
        using True by (intro ball_cong refl) linarith
      finally show ?thesis by simp
    qed
    ultimately show ?thesis
      using tag True by (simp add: read_field_at.simps skip_group.simps add.assoc)
  qed
qed

section \<open>Properties of the wire layer\<close>

text \<open>
  \<open>read_varint\<close> inverts the encoder at any offset of any buffer: the value comes
  back and the returned offset is just past the bytes of the varint.
\<close>

theorem varint_roundtrip:
  "read_varint (pre @ encode_varint v @ post) (length pre)
     = Inr (v, length pre + length (encode_varint v))"
  by (rule read_varint_encode)

text \<open>
  C39. A successful \<open>read_varint\<close> consumed one to ten bytes of the buffer and returned
  their base-128 value exactly: no encoding that exceeds 64 bits is truncated into
  a smaller number.
\<close>

theorem varint_exact:
  assumes "read_varint buf pos = Inr (v, p)"
  shows "pos < p \<and> p \<le> length buf \<and> p \<le> pos + 10 \<and> unat v = base128 (subslice pos p buf)"
  using assms by (rule read_varint_value)

theorem varint_exact_witness:
  "unat (300 :: u64) = base128 (subslice 1 3 [0xFF, 0xAC, 0x02, 0x00])"
proof -
  have "read_varint [0xFF, 0xAC, 0x02, 0x00] 1 = Inr (300, 3)"
    by code_simp
  from varint_exact [OF this] show ?thesis by simp
qed

text \<open>
  Reading one well-formed encoded field (a varint, a fixed-width value, a
  length-delimited payload or a group with arbitrary nested fields) at any offset
  gives its number and value and stops just past it, unless its groups nest deeper
  than \<open>MAX_NESTING_DEPTH\<close>; then it is refused with the nesting error.
\<close>

theorem read_field_roundtrip:
  assumes "pb_ok x" and "length (pre @ encode_pb x @ post) \<le> usize_max"
  shows "read_field (pre @ encode_pb x @ post) (length pre) =
    (if group_depth x \<le> MAX_NESTING_DEPTH
     then Inr (pb_field x, pb_value x, length pre + length (encode_pb x))
     else Inl GroupTooDeep)"
  using read_encoded [OF assms, of 0] by (auto simp: read_field_def)

theorem read_field_roundtrip_witness:
  "read_field (encode_pb (PbGroup 7 [PbVarint 1 300, PbBytes 2 [1, 2, 3]]) @ [0xFF]) 0
     = Inr (7, Group, length (encode_pb (PbGroup 7 [PbVarint 1 300, PbBytes 2 [1, 2, 3]])))"
proof -
  have len: "length ([] @ encode_pb (PbGroup 7 [PbVarint 1 300, PbBytes 2 [1, 2, 3]]) @ [0xFF]) \<le> usize_max"
  proof -
    have "length ([] @ encode_pb (PbGroup 7 [PbVarint 1 300, PbBytes 2 [1, 2, 3]]) @ [0xFF]) \<le> 20"
      by code_simp
    also have "20 \<le> usize_max" by (simp add: usize_max_def)
    finally show ?thesis .
  qed
  have "pb_ok (PbGroup 7 [PbVarint 1 300, PbBytes 2 [1, 2, 3]])"
    by (simp add: field_ok_def)
  from read_field_roundtrip [OF this len] show ?thesis
    by (simp add: MAX_NESTING_DEPTH_def)
qed

text \<open>
  Skipping a field's value, as the streaming parser does after it read the tag,
  ends at the same offset, or fails with the same error, as parsing the field.
\<close>

theorem skip_equals_parse:
  assumes "read_tag buf pos = Inr (f, w, q)"
  shows "skip_field_value_in_buf buf q f w = rbind (read_field buf pos) (\<lambda>(_, _, e). Inr e)"
  using assms by (rule skip_agrees_with_read)

theorem skip_equals_parse_witness:
  "skip_field_value_in_buf [0x12, 0x02, 0xAA, 0xBB] 1 2 2
     = rbind (read_field [0x12, 0x02, 0xAA, 0xBB] 0) (\<lambda>(_, _, e). Inr e)"
proof -
  have "read_tag [0x12, 0x02, 0xAA, 0xBB] 0 = Inr (2, 2, 1)" by code_simp
  from skip_equals_parse [OF this] show ?thesis .
qed

end
