(* ===== verification/Messages.thy ===== *)
theory Messages
  imports WireFields
begin

text \<open>
  The ONNX messages of \<open>oxionnx-proto/src/types.rs\<close> and the parsers of
  \<open>oxionnx-proto/src/parser.rs\<close>. Every parser of the source is one loop over the
  fields of its buffer; \<open>parse_fields\<close> is that loop, and each message gives its
  \<open>match (field, value)\<close> as a handler. Attributes, nodes and graphs nest in each
  other and are mutually recursive, with the source's bound on graph nesting.
  Graph, node and attribute messages are a mutually recursive datatype whose
  \<open>_update\<close> functions are the source's field assignments; the others are records.
\<close>

section \<open>Message types\<close>

record tensor_proto =
  tp_dims :: "i64 list"
  tp_data_type :: i32
  tp_name :: string
  tp_float_data :: "f32 list"
  tp_int32_data :: "i32 list"
  tp_int64_data :: "i64 list"
  tp_double_data :: "f64 list"
  tp_uint64_data :: "u64 list"
  tp_string_data :: "bytes list"
  tp_raw_data :: bytes
  tp_data_location :: i32
  tp_external_data :: "(string \<times> string) list"

definition tensor_default :: tensor_proto where
  "tensor_default = \<lparr>tp_dims = [], tp_data_type = 0, tp_name = [], tp_float_data = [],
     tp_int32_data = [], tp_int64_data = [], tp_double_data = [], tp_uint64_data = [],
     tp_string_data = [], tp_raw_data = [], tp_data_location = 0, tp_external_data = []\<rparr>"

record value_info_proto =
  vi_name :: string
  vi_elem_type :: i32
  vi_shape :: "i64 option list"
  vi_dim_params :: "string option list"

definition value_info_default :: value_info_proto where
  "value_info_default = \<lparr>vi_name = [], vi_elem_type = 0, vi_shape = [], vi_dim_params = []\<rparr>"

datatype attribute_value =
    AttributeValue (av_f: f32) (av_i: i64) (av_s: string) (av_t: "tensor_proto option") (av_g:
      "graph_proto option") (av_floats: "f32 list") (av_ints: "i64 list") (av_strings: "string
      list") (av_tensors: "tensor_proto list") (av_graphs: "graph_proto list")
      (av_ref_attr_name: string) (av_attr_type: i32)
and attribute_proto = AttributeProto (ap_name: string) (ap_value: attribute_value)
and node_proto =
    NodeProto (np_inputs: "string list") (np_outputs: "string list") (np_name: string) (np_op_type:
      string) (np_attributes: "attribute_proto list") (np_domain: string) (np_overload: string)
and graph_proto =
    GraphProto (gp_nodes: "node_proto list") (gp_name: string) (gp_initializers: "tensor_proto
      list") (gp_inputs: "string list") (gp_outputs: "string list") (gp_input_value_infos:
      "value_info_proto list") (gp_output_value_infos: "value_info_proto list") (gp_value_infos:
      "value_info_proto list")

definition attribute_value_default :: attribute_value where
  "attribute_value_default = AttributeValue 0 0 [] None None [] [] [] [] [] [] 0"

definition attribute_default :: attribute_proto where
  "attribute_default = AttributeProto [] attribute_value_default"

definition node_default :: node_proto where
  "node_default = NodeProto [] [] [] [] [] [] []"

definition graph_default :: graph_proto where
  "graph_default = GraphProto [] [] [] [] [] [] [] []"

primrec av_f_update :: "((f32) \<Rightarrow> (f32)) \<Rightarrow> attribute_value \<Rightarrow> attribute_value" where
  "av_f_update u (AttributeValue x0 x1 x2 x3 x4 x5 x6 x7 x8 x9 x10 x11) = AttributeValue (u x0) x1 x2 x3 x4 x5 x6 x7 x8 x9 x10 x11"

primrec av_i_update :: "((i64) \<Rightarrow> (i64)) \<Rightarrow> attribute_value \<Rightarrow> attribute_value" where
  "av_i_update u (AttributeValue x0 x1 x2 x3 x4 x5 x6 x7 x8 x9 x10 x11) = AttributeValue x0 (u x1) x2 x3 x4 x5 x6 x7 x8 x9 x10 x11"

primrec av_s_update :: "((string) \<Rightarrow> (string)) \<Rightarrow> attribute_value \<Rightarrow> attribute_value" where
  "av_s_update u (AttributeValue x0 x1 x2 x3 x4 x5 x6 x7 x8 x9 x10 x11) = AttributeValue x0 x1 (u x2) x3 x4 x5 x6 x7 x8 x9 x10 x11"

primrec av_t_update :: "((tensor_proto option) \<Rightarrow> (tensor_proto option)) \<Rightarrow> attribute_value \<Rightarrow> attribute_value" where
  "av_t_update u (AttributeValue x0 x1 x2 x3 x4 x5 x6 x7 x8 x9 x10 x11) = AttributeValue x0 x1 x2 (u x3) x4 x5 x6 x7 x8 x9 x10 x11"

primrec av_g_update :: "((graph_proto option) \<Rightarrow> (graph_proto option)) \<Rightarrow> attribute_value \<Rightarrow> attribute_value" where
  "av_g_update u (AttributeValue x0 x1 x2 x3 x4 x5 x6 x7 x8 x9 x10 x11) = AttributeValue x0 x1 x2 x3 (u x4) x5 x6 x7 x8 x9 x10 x11"

primrec av_floats_update :: "((f32 list) \<Rightarrow> (f32 list)) \<Rightarrow> attribute_value \<Rightarrow> attribute_value" where
  "av_floats_update u (AttributeValue x0 x1 x2 x3 x4 x5 x6 x7 x8 x9 x10 x11) = AttributeValue x0 x1 x2 x3 x4 (u x5) x6 x7 x8 x9 x10 x11"

primrec av_ints_update :: "((i64 list) \<Rightarrow> (i64 list)) \<Rightarrow> attribute_value \<Rightarrow> attribute_value" where
  "av_ints_update u (AttributeValue x0 x1 x2 x3 x4 x5 x6 x7 x8 x9 x10 x11) = AttributeValue x0 x1 x2 x3 x4 x5 (u x6) x7 x8 x9 x10 x11"

primrec av_strings_update :: "((string list) \<Rightarrow> (string list)) \<Rightarrow> attribute_value \<Rightarrow> attribute_value" where
  "av_strings_update u (AttributeValue x0 x1 x2 x3 x4 x5 x6 x7 x8 x9 x10 x11) = AttributeValue x0 x1 x2 x3 x4 x5 x6 (u x7) x8 x9 x10 x11"

primrec av_tensors_update :: "((tensor_proto list) \<Rightarrow> (tensor_proto list)) \<Rightarrow> attribute_value \<Rightarrow> attribute_value" where
  "av_tensors_update u (AttributeValue x0 x1 x2 x3 x4 x5 x6 x7 x8 x9 x10 x11) = AttributeValue x0 x1 x2 x3 x4 x5 x6 x7 (u x8) x9 x10 x11"

primrec av_graphs_update :: "((graph_proto list) \<Rightarrow> (graph_proto list)) \<Rightarrow> attribute_value \<Rightarrow> attribute_value" where
  "av_graphs_update u (AttributeValue x0 x1 x2 x3 x4 x5 x6 x7 x8 x9 x10 x11) = AttributeValue x0 x1 x2 x3 x4 x5 x6 x7 x8 (u x9) x10 x11"

primrec av_ref_attr_name_update :: "((string) \<Rightarrow> (string)) \<Rightarrow> attribute_value \<Rightarrow> attribute_value" where
  "av_ref_attr_name_update u (AttributeValue x0 x1 x2 x3 x4 x5 x6 x7 x8 x9 x10 x11) = AttributeValue x0 x1 x2 x3 x4 x5 x6 x7 x8 x9 (u x10) x11"

primrec av_attr_type_update :: "((i32) \<Rightarrow> (i32)) \<Rightarrow> attribute_value \<Rightarrow> attribute_value" where
  "av_attr_type_update u (AttributeValue x0 x1 x2 x3 x4 x5 x6 x7 x8 x9 x10 x11) = AttributeValue x0 x1 x2 x3 x4 x5 x6 x7 x8 x9 x10 (u x11)"

primrec np_inputs_update :: "((string list) \<Rightarrow> (string list)) \<Rightarrow> node_proto \<Rightarrow> node_proto" where
  "np_inputs_update u (NodeProto x0 x1 x2 x3 x4 x5 x6) = NodeProto (u x0) x1 x2 x3 x4 x5 x6"

primrec np_outputs_update :: "((string list) \<Rightarrow> (string list)) \<Rightarrow> node_proto \<Rightarrow> node_proto" where
  "np_outputs_update u (NodeProto x0 x1 x2 x3 x4 x5 x6) = NodeProto x0 (u x1) x2 x3 x4 x5 x6"

primrec np_name_update :: "((string) \<Rightarrow> (string)) \<Rightarrow> node_proto \<Rightarrow> node_proto" where
  "np_name_update u (NodeProto x0 x1 x2 x3 x4 x5 x6) = NodeProto x0 x1 (u x2) x3 x4 x5 x6"

primrec np_op_type_update :: "((string) \<Rightarrow> (string)) \<Rightarrow> node_proto \<Rightarrow> node_proto" where
  "np_op_type_update u (NodeProto x0 x1 x2 x3 x4 x5 x6) = NodeProto x0 x1 x2 (u x3) x4 x5 x6"

primrec np_attributes_update :: "((attribute_proto list) \<Rightarrow> (attribute_proto list)) \<Rightarrow> node_proto \<Rightarrow> node_proto" where
  "np_attributes_update u (NodeProto x0 x1 x2 x3 x4 x5 x6) = NodeProto x0 x1 x2 x3 (u x4) x5 x6"

primrec np_domain_update :: "((string) \<Rightarrow> (string)) \<Rightarrow> node_proto \<Rightarrow> node_proto" where
  "np_domain_update u (NodeProto x0 x1 x2 x3 x4 x5 x6) = NodeProto x0 x1 x2 x3 x4 (u x5) x6"

primrec np_overload_update :: "((string) \<Rightarrow> (string)) \<Rightarrow> node_proto \<Rightarrow> node_proto" where
  "np_overload_update u (NodeProto x0 x1 x2 x3 x4 x5 x6) = NodeProto x0 x1 x2 x3 x4 x5 (u x6)"

primrec gp_nodes_update :: "((node_proto list) \<Rightarrow> (node_proto list)) \<Rightarrow> graph_proto \<Rightarrow> graph_proto" where
  "gp_nodes_update u (GraphProto x0 x1 x2 x3 x4 x5 x6 x7) = GraphProto (u x0) x1 x2 x3 x4 x5 x6 x7"

primrec gp_name_update :: "((string) \<Rightarrow> (string)) \<Rightarrow> graph_proto \<Rightarrow> graph_proto" where
  "gp_name_update u (GraphProto x0 x1 x2 x3 x4 x5 x6 x7) = GraphProto x0 (u x1) x2 x3 x4 x5 x6 x7"

primrec gp_initializers_update :: "((tensor_proto list) \<Rightarrow> (tensor_proto list)) \<Rightarrow> graph_proto \<Rightarrow> graph_proto" where
  "gp_initializers_update u (GraphProto x0 x1 x2 x3 x4 x5 x6 x7) = GraphProto x0 x1 (u x2) x3 x4 x5 x6 x7"

primrec gp_inputs_update :: "((string list) \<Rightarrow> (string list)) \<Rightarrow> graph_proto \<Rightarrow> graph_proto" where
  "gp_inputs_update u (GraphProto x0 x1 x2 x3 x4 x5 x6 x7) = GraphProto x0 x1 x2 (u x3) x4 x5 x6 x7"

primrec gp_outputs_update :: "((string list) \<Rightarrow> (string list)) \<Rightarrow> graph_proto \<Rightarrow> graph_proto" where
  "gp_outputs_update u (GraphProto x0 x1 x2 x3 x4 x5 x6 x7) = GraphProto x0 x1 x2 x3 (u x4) x5 x6 x7"

primrec gp_input_value_infos_update :: "((value_info_proto list) \<Rightarrow> (value_info_proto list)) \<Rightarrow> graph_proto \<Rightarrow> graph_proto" where
  "gp_input_value_infos_update u (GraphProto x0 x1 x2 x3 x4 x5 x6 x7) = GraphProto x0 x1 x2 x3 x4 (u x5) x6 x7"

primrec gp_output_value_infos_update :: "((value_info_proto list) \<Rightarrow> (value_info_proto list)) \<Rightarrow> graph_proto \<Rightarrow> graph_proto" where
  "gp_output_value_infos_update u (GraphProto x0 x1 x2 x3 x4 x5 x6 x7) = GraphProto x0 x1 x2 x3 x4 x5 (u x6) x7"

primrec gp_value_infos_update :: "((value_info_proto list) \<Rightarrow> (value_info_proto list)) \<Rightarrow> graph_proto \<Rightarrow> graph_proto" where
  "gp_value_infos_update u (GraphProto x0 x1 x2 x3 x4 x5 x6 x7) = GraphProto x0 x1 x2 x3 x4 x5 x6 (u x7)"

primrec ap_name_update :: "(string \<Rightarrow> string) \<Rightarrow> attribute_proto \<Rightarrow> attribute_proto" where
  "ap_name_update u (AttributeProto n v) = AttributeProto (u n) v"

primrec ap_value_update :: "(attribute_value \<Rightarrow> attribute_value) \<Rightarrow> attribute_proto \<Rightarrow> attribute_proto" where
  "ap_value_update u (AttributeProto n v) = AttributeProto n (u v)"

definition push :: "'a \<Rightarrow> 'a list \<Rightarrow> 'a list" where
  "push x xs = xs @ [x]"

section \<open>The field loop\<close>

function parse_fields ::
  "(u32 \<Rightarrow> wire_value \<Rightarrow> 'm \<Rightarrow> wire_error + 'm) \<Rightarrow> bytes \<Rightarrow> nat \<Rightarrow> 'm \<Rightarrow> wire_error + 'm" where
  "parse_fields h buf pos m =
     (if pos < length buf then
        rbind (read_field buf pos) (\<lambda>(field, v, next).
        rbind (h field v m) (\<lambda>m. parse_fields h buf next m))
      else Inr m)"
  by pat_completeness auto
termination
  by (relation "measure (\<lambda>(h, buf, pos, m). length buf - pos)") (auto dest!: read_field_progress)

declare parse_fields.simps [simp del]

lemma parse_fields_cong [fundef_cong]:
  assumes "buf = buf'" and "pos = pos'" and "m = m'"
    and "\<And>f v m. wire_size v < length buf' \<Longrightarrow> h f v m = h' f v m"
  shows "parse_fields h buf pos m = parse_fields h' buf' pos' m'"
  using assms(4) unfolding assms(1-3)
proof (induction h buf' pos' m' rule: parse_fields.induct)
  case (1 h buf pos m)
  show ?case
  proof (cases "read_field buf pos")
    case (Inr r)
    obtain f v n where r: "r = (f, v, n)" by (cases r)
    with Inr have eq: "h f v m = h' f v m"
      by (intro 1(2)) (auto dest!: read_field_progress)
    have "rbind (h f v m) (\<lambda>m. parse_fields h buf n m) = rbind (h' f v m) (\<lambda>m. parse_fields h' buf n m)"
      if "pos < length buf"
      by (rule rbind_cong [OF eq])
        (rule 1(1) [OF that Inr r [symmetric] refl], use eq 1(2) in auto)
    with Inr r show ?thesis
      by (simp add: parse_fields.simps [of h buf pos m] parse_fields.simps [of h' buf pos m])
  qed (simp add: parse_fields.simps [of h buf pos m] parse_fields.simps [of h' buf pos m])
qed

text \<open>
  The loop over an encoded message is the handler folded over its fields: the
  message parsers are proved against lists of fields, never against bytes again.
\<close>

primrec fold_fields ::
  "(u32 \<Rightarrow> wire_value \<Rightarrow> 'm \<Rightarrow> wire_error + 'm) \<Rightarrow> pb list \<Rightarrow> 'm \<Rightarrow> wire_error + 'm" where
  "fold_fields h [] m = Inr m"
| "fold_fields h (x # xs) m = rbind (h (pb_field x) (pb_value x) m) (fold_fields h xs)"

definition encode_pbs :: "pb list \<Rightarrow> bytes" where
  "encode_pbs xs = concat (map encode_pb xs)"

definition pbs_ok :: "pb list \<Rightarrow> bool" where
  "pbs_ok xs \<longleftrightarrow> list_all (\<lambda>x. pb_ok x \<and> group_depth x \<le> MAX_NESTING_DEPTH) xs"

lemma encode_pbs_simps [simp]:
  "encode_pbs [] = []" "encode_pbs (x # xs) = encode_pb x @ encode_pbs xs"
  "encode_pbs (xs @ ys) = encode_pbs xs @ encode_pbs ys"
  by (simp_all add: encode_pbs_def)

lemma pbs_ok_simps [simp]:
  "pbs_ok []" "pbs_ok (x # xs) \<longleftrightarrow> pb_ok x \<and> group_depth x \<le> MAX_NESTING_DEPTH \<and> pbs_ok xs"
  "pbs_ok (xs @ ys) \<longleftrightarrow> pbs_ok xs \<and> pbs_ok ys"
  by (auto simp: pbs_ok_def)

lemma pbs_ok_map: "(\<And>y. pb_ok (f y)) \<Longrightarrow> (\<And>y. group_depth (f y) = 0) \<Longrightarrow> pbs_ok (map f ys)"
  by (simp add: pbs_ok_def list_all_iff)

lemma fold_fields_append:
  "fold_fields h (xs @ ys) m = rbind (fold_fields h xs m) (fold_fields h ys)"
  by (induction xs arbitrary: m) (auto simp: rbind_assoc intro!: rbind_cong)

lemma encode_pb_not_Nil: "encode_pb x \<noteq> []"
  by (metis append_is_Nil_conv encode_pb_tag encode_tag_Cons list.distinct(1))

lemma parse_fields_encoded_from:
  assumes "pbs_ok xs" and "length (pre @ encode_pbs xs) \<le> usize_max"
  shows "parse_fields h (pre @ encode_pbs xs) (length pre) m = fold_fields h xs m"
  using assms
proof (induction xs arbitrary: pre m)
  case Nil
  then show ?case by (simp add: parse_fields.simps)
next
  case (Cons x xs)
  have rd: "read_field (pre @ encode_pb x @ encode_pbs xs) (length pre)
      = Inr (pb_field x, pb_value x, length pre + length (encode_pb x))"
    using Cons.prems read_encoded [of x pre "encode_pbs xs" 0] by (simp add: read_field_def)
  have "parse_fields h ((pre @ encode_pb x) @ encode_pbs xs) (length (pre @ encode_pb x)) m1
      = fold_fields h xs m1" for m1
    by (rule Cons.IH) (use Cons.prems in auto)
  then show ?case
    using rd encode_pb_not_Nil [of x]
    by (simp add: parse_fields.simps [of h "pre @ encode_pb x @ encode_pbs xs" "length pre"]
        cong: rbind_cong)
qed

lemma parse_fields_encoded:
  "pbs_ok xs \<Longrightarrow> length (encode_pbs xs) \<le> usize_max \<Longrightarrow>
     parse_fields h (encode_pbs xs) 0 m = fold_fields h xs m"
  using parse_fields_encoded_from [of xs "[]" h m] by simp

lemma small_encoding:
  "length (encode_pbs xs) \<le> 1000 \<Longrightarrow> length (encode_pbs xs) \<le> usize_max"
  by (simp add: usize_max_def)

section \<open>Leaf messages\<close>

definition string_pair_field ::
  "u32 \<Rightarrow> wire_value \<Rightarrow> string \<times> string \<Rightarrow> wire_error + (string \<times> string)" where
  "string_pair_field f v kv = (case v of
     Bytes s \<Rightarrow>
       if f = 1 then Inr (from_utf8_lossy s, snd kv)
       else if f = 2 then Inr (fst kv, from_utf8_lossy s) else Inr kv
   | _ \<Rightarrow> Inr kv)"

definition parse_string_string_entry :: "bytes \<Rightarrow> wire_error + (string \<times> string)" where
  "parse_string_string_entry buf = parse_fields string_pair_field buf 0 ([], [])"

definition segment_field :: "u32 \<Rightarrow> wire_value \<Rightarrow> i64 \<times> i64 \<Rightarrow> wire_error + (i64 \<times> i64)" where
  "segment_field f v be = (case v of
     Varint n \<Rightarrow>
       if f = 1 then Inr (n, snd be) else if f = 2 then Inr (fst be, n) else Inr be
   | _ \<Rightarrow> Inr be)"

definition parse_tensor_segment :: "bytes \<Rightarrow> wire_error + (i64 \<times> i64)" where
  "parse_tensor_segment buf = parse_fields segment_field buf 0 (0, 0)"

definition tensor_field :: "u32 \<Rightarrow> wire_value \<Rightarrow> tensor_proto \<Rightarrow> wire_error + tensor_proto" where
  "tensor_field f v t = (case v of
     Varint n \<Rightarrow>
       if f = 1 then Inr (t\<lparr>tp_dims := push n (tp_dims t)\<rparr>)
       else if f = 2 then Inr (t\<lparr>tp_data_type := ucast n\<rparr>)
       else if f = 5 then Inr (t\<lparr>tp_int32_data := push (ucast n) (tp_int32_data t)\<rparr>)
       else if f = 7 then Inr (t\<lparr>tp_int64_data := push n (tp_int64_data t)\<rparr>)
       else if f = 11 then Inr (t\<lparr>tp_uint64_data := push n (tp_uint64_data t)\<rparr>)
       else if f = 14 then Inr (t\<lparr>tp_data_location := ucast n\<rparr>)
       else Inr t
   | Fixed32 b \<Rightarrow>
       if f = 4 then Inr (t\<lparr>tp_float_data := push (of_le b) (tp_float_data t)\<rparr>) else Inr t
   | Fixed64 b \<Rightarrow>
       if f = 10 then Inr (t\<lparr>tp_double_data := push (of_le b) (tp_double_data t)\<rparr>) else Inr t
   | Bytes b \<Rightarrow>
       if f = 1 then for_each_packed_varint b (\<lambda>n t. t\<lparr>tp_dims := push n (tp_dims t)\<rparr>) t
       else if f = 3 then
         rbind (parse_tensor_segment b) (\<lambda>(begin, end).
           if begin \<noteq> 0 \<or> end \<noteq> 0 then Inl (SegmentedTensor (tp_name t) begin end) else Inr t)
       else if f = 8 then Inr (t\<lparr>tp_name := from_utf8_lossy b\<rparr>)
       else if f = 4 then
         Inr (t\<lparr>tp_float_data := tp_float_data t @ map of_le (chunks_exact 4 b)\<rparr>)
       else if f = 5 then
         for_each_packed_varint b (\<lambda>n t. t\<lparr>tp_int32_data := push (ucast n) (tp_int32_data t)\<rparr>) t
       else if f = 6 then Inr (t\<lparr>tp_string_data := push b (tp_string_data t)\<rparr>)
       else if f = 7 then
         for_each_packed_varint b (\<lambda>n t. t\<lparr>tp_int64_data := push n (tp_int64_data t)\<rparr>) t
       else if f = 10 then
         Inr (t\<lparr>tp_double_data := tp_double_data t @ map of_le (chunks_exact 8 b)\<rparr>)
       else if f = 11 then
         for_each_packed_varint b (\<lambda>n t. t\<lparr>tp_uint64_data := push n (tp_uint64_data t)\<rparr>) t
       else if f = 9 then Inr (t\<lparr>tp_raw_data := b\<rparr>)
       else if f = 13 then
         rbind (parse_fields string_pair_field b 0 ([], [])) (\<lambda>kv.
           Inr (t\<lparr>tp_external_data := push kv (tp_external_data t)\<rparr>))
       else Inr t
   | Group \<Rightarrow> Inr t)"

definition parse_tensor_proto :: "bytes \<Rightarrow> wire_error + tensor_proto" where
  "parse_tensor_proto buf = parse_fields tensor_field buf 0 tensor_default"

section \<open>Value information\<close>

definition dimension_field ::
  "u32 \<Rightarrow> wire_value \<Rightarrow> i64 option \<times> string option \<Rightarrow> wire_error + (i64 option \<times> string option)" where
  "dimension_field f v d = (case v of
     Varint n \<Rightarrow> if f = 1 then Inr (Some n, snd d) else Inr d
   | Bytes s \<Rightarrow>
       if f = 2 then
         (let name = from_utf8_lossy s in if name \<noteq> [] then Inr (fst d, Some name) else Inr d)
       else Inr d
   | _ \<Rightarrow> Inr d)"

definition parse_dimension :: "bytes \<Rightarrow> wire_error + (i64 option \<times> string option)" where
  "parse_dimension buf = parse_fields dimension_field buf 0 (None, None)"

definition shape_field :: "u32 \<Rightarrow> wire_value \<Rightarrow> value_info_proto \<Rightarrow> wire_error + value_info_proto" where
  "shape_field f v vi = (case v of
     Bytes b \<Rightarrow>
       if f = 1 then
         rbind (parse_dimension b) (\<lambda>(dim_value, dim_param).
           Inr (vi\<lparr>vi_shape := push dim_value (vi_shape vi),
                  vi_dim_params := push dim_param (vi_dim_params vi)\<rparr>))
       else Inr vi
   | _ \<Rightarrow> Inr vi)"

definition parse_shape_proto_into :: "bytes \<Rightarrow> value_info_proto \<Rightarrow> wire_error + value_info_proto" where
  "parse_shape_proto_into buf vi = parse_fields shape_field buf 0 vi"

definition tensor_type_field ::
  "u32 \<Rightarrow> wire_value \<Rightarrow> value_info_proto \<Rightarrow> wire_error + value_info_proto" where
  "tensor_type_field f v vi = (case v of
     Varint n \<Rightarrow> if f = 1 then Inr (vi\<lparr>vi_elem_type := ucast n\<rparr>) else Inr vi
   | Bytes b \<Rightarrow> if f = 2 then parse_shape_proto_into b vi else Inr vi
   | _ \<Rightarrow> Inr vi)"

definition parse_tensor_type_into :: "bytes \<Rightarrow> value_info_proto \<Rightarrow> wire_error + value_info_proto" where
  "parse_tensor_type_into buf vi = parse_fields tensor_type_field buf 0 vi"

definition type_proto_field ::
  "u32 \<Rightarrow> wire_value \<Rightarrow> value_info_proto \<Rightarrow> wire_error + value_info_proto" where
  "type_proto_field f v vi = (case v of
     Bytes b \<Rightarrow> if f = 1 then parse_tensor_type_into b vi else Inr vi
   | _ \<Rightarrow> Inr vi)"

definition parse_type_proto_into :: "bytes \<Rightarrow> value_info_proto \<Rightarrow> wire_error + value_info_proto" where
  "parse_type_proto_into buf vi = parse_fields type_proto_field buf 0 vi"

definition value_info_field ::
  "u32 \<Rightarrow> wire_value \<Rightarrow> value_info_proto \<Rightarrow> wire_error + value_info_proto" where
  "value_info_field f v vi = (case v of
     Bytes b \<Rightarrow>
       if f = 1 then Inr (vi\<lparr>vi_name := from_utf8_lossy b\<rparr>)
       else if f = 2 then parse_type_proto_into b vi else Inr vi
   | _ \<Rightarrow> Inr vi)"

definition parse_value_info_proto :: "bytes \<Rightarrow> wire_error + value_info_proto" where
  "parse_value_info_proto buf = parse_fields value_info_field buf 0 value_info_default"

section \<open>Attributes, nodes and graphs\<close>

text \<open>
  The handlers take the parser of the nested message as an argument; the mutual
  recursion below passes the source's \<open>parse_graph_at\<close>, \<open>parse_attribute_at\<close> and
  \<open>parse_node_at\<close> at the depth the source passes them.
\<close>

definition attribute_field ::
  "(bytes \<Rightarrow> wire_error + graph_proto) \<Rightarrow> u32 \<Rightarrow> wire_value \<Rightarrow> attribute_proto \<Rightarrow>
    wire_error + attribute_proto" where
  "attribute_field parse_subgraph f v a = (
     let set_value = (\<lambda>u. Inr (ap_value_update u a)) in
     case v of
       Bytes b \<Rightarrow>
         if f = 1 then Inr (ap_name_update (\<lambda>_. from_utf8_lossy b) a)
         else if f = 4 then set_value (av_s_update (\<lambda>_. from_utf8_lossy b))
         else if f = 5 then
           rbind (parse_tensor_proto b) (\<lambda>t. set_value (av_t_update (\<lambda>_. Some t)))
         else if f = 6 then
           rbind (parse_subgraph b) (\<lambda>g. set_value (av_g_update (\<lambda>_. Some g)))
         else if f = 7 then
           set_value (av_floats_update (\<lambda>xs. xs @ map of_le (chunks_exact 4 b)))
         else if f = 8 then
           for_each_packed_varint b (\<lambda>n. ap_value_update (av_ints_update (push n))) a
         else if f = 9 then set_value (av_strings_update (push (from_utf8_lossy b)))
         else if f = 10 then
           rbind (parse_tensor_proto b) (\<lambda>t. set_value (av_tensors_update (push t)))
         else if f = 11 then
           rbind (parse_subgraph b) (\<lambda>g. set_value (av_graphs_update (push g)))
         else if f = 14 \<or> f = 15 then Inl (TypeProtoAttribute (ap_name a))
         else if f = 21 then set_value (av_ref_attr_name_update (\<lambda>_. from_utf8_lossy b))
         else if f = 22 \<or> f = 23 then Inl (SparseTensorAttribute (ap_name a))
         else Inr a
     | Fixed32 b \<Rightarrow>
         if f = 2 then set_value (av_f_update (\<lambda>_. of_le b))
         else if f = 7 then set_value (av_floats_update (push (of_le b)))
         else Inr a
     | Varint n \<Rightarrow>
         if f = 3 then set_value (av_i_update (\<lambda>_. n))
         else if f = 8 then set_value (av_ints_update (push n))
         else if f = 20 then set_value (av_attr_type_update (\<lambda>_. ucast n))
         else Inr a
     | _ \<Rightarrow> Inr a)"

definition node_field ::
  "(bytes \<Rightarrow> wire_error + attribute_proto) \<Rightarrow> u32 \<Rightarrow> wire_value \<Rightarrow> node_proto \<Rightarrow>
    wire_error + node_proto" where
  "node_field parse_attr f v n = (case v of
     Bytes b \<Rightarrow>
       if f = 1 then Inr (np_inputs_update (push (from_utf8_lossy b)) n)
       else if f = 2 then Inr (np_outputs_update (push (from_utf8_lossy b)) n)
       else if f = 3 then Inr (np_name_update (\<lambda>_. from_utf8_lossy b) n)
       else if f = 4 then Inr (np_op_type_update (\<lambda>_. from_utf8_lossy b) n)
       else if f = 5 then
         rbind (parse_attr b) (\<lambda>a. Inr (np_attributes_update (push a) n))
       else if f = 7 then Inr (np_domain_update (\<lambda>_. from_utf8_lossy b) n)
       else if f = 8 then Inr (np_overload_update (\<lambda>_. from_utf8_lossy b) n)
       else Inr n
   | _ \<Rightarrow> Inr n)"

definition graph_field ::
  "(bytes \<Rightarrow> wire_error + node_proto) \<Rightarrow> u32 \<Rightarrow> wire_value \<Rightarrow> graph_proto \<Rightarrow>
    wire_error + graph_proto" where
  "graph_field parse_nd f v g = (case v of
     Bytes b \<Rightarrow>
       if f = 1 then rbind (parse_nd b) (\<lambda>n. Inr (gp_nodes_update (push n) g))
       else if f = 2 then Inr (gp_name_update (\<lambda>_. from_utf8_lossy b) g)
       else if f = 5 then
         rbind (parse_tensor_proto b) (\<lambda>t. Inr (gp_initializers_update (push t) g))
       else if f = 11 then
         rbind (parse_value_info_proto b) (\<lambda>vi.
           Inr (gp_input_value_infos_update (push vi) (gp_inputs_update (push (vi_name vi)) g)))
       else if f = 12 then
         rbind (parse_value_info_proto b) (\<lambda>vi.
           Inr (gp_output_value_infos_update (push vi) (gp_outputs_update (push (vi_name vi)) g)))
       else if f = 13 then
         rbind (parse_value_info_proto b) (\<lambda>vi. Inr (gp_value_infos_update (push vi) g))
       else if f = 15 then Inl (SparseInitializer (gp_name g))
       else Inr g
   | _ \<Rightarrow> Inr g)"

lemma attribute_field_cong [fundef_cong]:
  "f = f' \<Longrightarrow> v = v' \<Longrightarrow> a = a' \<Longrightarrow> (\<And>b. v' = Bytes b \<Longrightarrow> pg b = pg' b) \<Longrightarrow>
     attribute_field pg f v a = attribute_field pg' f' v' a'"
  by (cases v') (simp_all add: attribute_field_def)

lemma node_field_cong [fundef_cong]:
  "f = f' \<Longrightarrow> v = v' \<Longrightarrow> n = n' \<Longrightarrow> (\<And>b. v' = Bytes b \<Longrightarrow> pa b = pa' b) \<Longrightarrow>
     node_field pa f v n = node_field pa' f' v' n'"
  by (cases v') (simp_all add: node_field_def)

lemma graph_field_cong [fundef_cong]:
  "f = f' \<Longrightarrow> v = v' \<Longrightarrow> g = g' \<Longrightarrow> (\<And>b. v' = Bytes b \<Longrightarrow> pn b = pn' b) \<Longrightarrow>
     graph_field pn f v g = graph_field pn' f' v' g'"
  by (cases v') (simp_all add: graph_field_def)

function (sequential)
  parse_attribute_at :: "nat \<Rightarrow> bytes \<Rightarrow> wire_error + attribute_proto" and
  parse_node_at :: "nat \<Rightarrow> bytes \<Rightarrow> wire_error + node_proto" and
  parse_graph_at :: "nat \<Rightarrow> bytes \<Rightarrow> wire_error + graph_proto"
where
  "parse_attribute_at depth buf =
     parse_fields (\<lambda>f v a. attribute_field (\<lambda>b. parse_graph_at (depth + 1) b) f v a)
       buf 0 attribute_default"
| "parse_node_at depth buf =
     parse_fields (\<lambda>f v n. node_field (\<lambda>b. parse_attribute_at depth b) f v n) buf 0 node_default"
| "parse_graph_at depth buf =
     (if depth > MAX_NESTING_DEPTH then Inl NestingTooDeep
      else parse_fields (\<lambda>f v g. graph_field (\<lambda>b. parse_node_at depth b) f v g)
        buf 0 graph_default)"
  by pat_completeness auto
termination
  by (relation "measure (\<lambda>x. case x of
       Inl (_, buf) \<Rightarrow> length buf
     | Inr (Inl (_, buf)) \<Rightarrow> length buf
     | Inr (Inr (_, buf)) \<Rightarrow> length buf)") auto

declare parse_attribute_at.simps [simp del] parse_node_at.simps [simp del]
  parse_graph_at.simps [simp del]

definition parse_attribute :: "bytes \<Rightarrow> wire_error + attribute_proto" where
  "parse_attribute buf = parse_attribute_at 0 buf"

definition parse_node :: "bytes \<Rightarrow> wire_error + node_proto" where
  "parse_node buf = parse_node_at 0 buf"

definition parse_graph :: "bytes \<Rightarrow> wire_error + graph_proto" where
  "parse_graph buf = parse_graph_at 0 buf"

end
