(* ===== verification/ModelMsg.thy ===== *)
theory ModelMsg
  imports Messages
begin

text \<open>
  The top of the ONNX file: \<open>ModelProto\<close> with its operator-set imports, metadata,
  training information and local functions, and their parsers, from
  \<open>oxionnx-proto/src/types.rs\<close> and \<open>oxionnx-proto/src/parser.rs\<close>.
\<close>

record opset_import =
  oi_domain :: string
  oi_version :: i64

record function_proto =
  fp_name :: string
  fp_domain :: string
  fp_inputs :: "string list"
  fp_outputs :: "string list"
  fp_attribute_names :: "string list"
  fp_attribute_defaults :: "attribute_proto list"
  fp_nodes :: "node_proto list"
  fp_opset_imports :: "opset_import list"
  fp_overload :: string

definition function_default :: function_proto where
  "function_default = \<lparr>fp_name = [], fp_domain = [], fp_inputs = [], fp_outputs = [],
     fp_attribute_names = [], fp_attribute_defaults = [], fp_nodes = [], fp_opset_imports = [],
     fp_overload = []\<rparr>"

record training_info =
  ti_algorithm :: string
  ti_learning_rate :: f64
  ti_training_graph :: "graph_proto option"
  ti_initialization_graph :: "graph_proto option"
  ti_initialization_bindings :: "(string \<times> string) list"
  ti_update_bindings :: "(string \<times> string) list"

definition training_default :: training_info where
  "training_default = \<lparr>ti_algorithm = [], ti_learning_rate = 0, ti_training_graph = None,
     ti_initialization_graph = None, ti_initialization_bindings = [], ti_update_bindings = []\<rparr>"

record model_proto =
  mp_ir_version :: i64
  mp_graph :: graph_proto
  mp_opset_version :: i64
  mp_producer_name :: string
  mp_producer_version :: string
  mp_domain :: string
  mp_model_version :: i64
  mp_doc_string :: string
  mp_opset_imports :: "opset_import list"
  mp_training_info :: "training_info list"
  mp_metadata_props :: "(string \<times> string) list"
  mp_functions :: "function_proto list"

definition model_default :: model_proto where
  "model_default = \<lparr>mp_ir_version = 0, mp_graph = graph_default, mp_opset_version = 0,
     mp_producer_name = [], mp_producer_version = [], mp_domain = [], mp_model_version = 0,
     mp_doc_string = [], mp_opset_imports = [], mp_training_info = [], mp_metadata_props = [],
     mp_functions = []\<rparr>"

section \<open>Parsers\<close>

definition opset_field :: "u32 \<Rightarrow> wire_value \<Rightarrow> opset_import \<Rightarrow> wire_error + opset_import" where
  "opset_field f v oi = (case v of
     Bytes s \<Rightarrow> if f = 1 then Inr (oi\<lparr>oi_domain := from_utf8_lossy s\<rparr>) else Inr oi
   | Varint n \<Rightarrow> if f = 2 then Inr (oi\<lparr>oi_version := n\<rparr>) else Inr oi
   | _ \<Rightarrow> Inr oi)"

definition parse_opset_import :: "bytes \<Rightarrow> wire_error + opset_import" where
  "parse_opset_import buf = parse_fields opset_field buf 0 \<lparr>oi_domain = [], oi_version = 0\<rparr>"

definition function_field :: "u32 \<Rightarrow> wire_value \<Rightarrow> function_proto \<Rightarrow> wire_error + function_proto" where
  "function_field f v fn = (case v of
     Bytes b \<Rightarrow>
       if f = 1 then Inr (fn\<lparr>fp_name := from_utf8_lossy b\<rparr>)
       else if f = 4 then Inr (fn\<lparr>fp_inputs := push (from_utf8_lossy b) (fp_inputs fn)\<rparr>)
       else if f = 5 then Inr (fn\<lparr>fp_outputs := push (from_utf8_lossy b) (fp_outputs fn)\<rparr>)
       else if f = 6 then
         Inr (fn\<lparr>fp_attribute_names := push (from_utf8_lossy b) (fp_attribute_names fn)\<rparr>)
       else if f = 7 then
         rbind (parse_node b) (\<lambda>n. Inr (fn\<lparr>fp_nodes := push n (fp_nodes fn)\<rparr>))
       else if f = 9 then
         rbind (parse_opset_import b) (\<lambda>oi.
           Inr (fn\<lparr>fp_opset_imports := push oi (fp_opset_imports fn)\<rparr>))
       else if f = 10 then Inr (fn\<lparr>fp_domain := from_utf8_lossy b\<rparr>)
       else if f = 11 then
         rbind (parse_attribute b) (\<lambda>a.
           Inr (fn\<lparr>fp_attribute_defaults := push a (fp_attribute_defaults fn)\<rparr>))
       else if f = 13 then Inr (fn\<lparr>fp_overload := from_utf8_lossy b\<rparr>)
       else Inr fn
   | _ \<Rightarrow> Inr fn)"

definition parse_function_proto :: "bytes \<Rightarrow> wire_error + function_proto" where
  "parse_function_proto buf = parse_fields function_field buf 0 function_default"

definition model_functions_field ::
  "u32 \<Rightarrow> wire_value \<Rightarrow> function_proto list \<Rightarrow> wire_error + function_proto list" where
  "model_functions_field f v fns = (case v of
     Bytes b \<Rightarrow>
       if f = 25 then rbind (parse_function_proto b) (\<lambda>fn. Inr (push fn fns)) else Inr fns
   | _ \<Rightarrow> Inr fns)"

definition parse_model_functions :: "bytes \<Rightarrow> wire_error + function_proto list" where
  "parse_model_functions buf = parse_fields model_functions_field buf 0 []"

definition training_field :: "u32 \<Rightarrow> wire_value \<Rightarrow> training_info \<Rightarrow> wire_error + training_info" where
  "training_field f v ti = (case v of
     Bytes b \<Rightarrow>
       if f = 1 then
         rbind (parse_graph b) (\<lambda>g. Inr (ti\<lparr>ti_initialization_graph := Some g\<rparr>))
       else if f = 2 then
         rbind (parse_graph b) (\<lambda>g.
           let ti = (if gp_name g \<noteq> [] then ti\<lparr>ti_algorithm := gp_name g\<rparr> else ti) in
           Inr (ti\<lparr>ti_training_graph := Some g\<rparr>))
       else if f = 3 then
         rbind (parse_string_string_entry b) (\<lambda>kv.
           Inr (ti\<lparr>ti_initialization_bindings := push kv (ti_initialization_bindings ti)\<rparr>))
       else if f = 4 then
         rbind (parse_string_string_entry b) (\<lambda>kv.
           Inr (ti\<lparr>ti_update_bindings := push kv (ti_update_bindings ti)\<rparr>))
       else Inr ti
   | _ \<Rightarrow> Inr ti)"

definition parse_training_info :: "bytes \<Rightarrow> wire_error + training_info" where
  "parse_training_info buf = parse_fields training_field buf 0 training_default"

definition model_field :: "u32 \<Rightarrow> wire_value \<Rightarrow> model_proto \<Rightarrow> wire_error + model_proto" where
  "model_field f v m = (case v of
     Varint n \<Rightarrow>
       if f = 1 then Inr (m\<lparr>mp_ir_version := n\<rparr>)
       else if f = 5 then Inr (m\<lparr>mp_model_version := n\<rparr>) else Inr m
   | Bytes b \<Rightarrow>
       if f = 2 then Inr (m\<lparr>mp_producer_name := from_utf8_lossy b\<rparr>)
       else if f = 3 then Inr (m\<lparr>mp_producer_version := from_utf8_lossy b\<rparr>)
       else if f = 4 then Inr (m\<lparr>mp_domain := from_utf8_lossy b\<rparr>)
       else if f = 6 then Inr (m\<lparr>mp_doc_string := from_utf8_lossy b\<rparr>)
       else if f = 7 then rbind (parse_graph b) (\<lambda>g. Inr (m\<lparr>mp_graph := g\<rparr>))
       else if f = 8 then
         rbind (parse_opset_import b) (\<lambda>oi.
           let m = (if oi_domain oi = [] then m\<lparr>mp_opset_version := oi_version oi\<rparr> else m) in
           Inr (m\<lparr>mp_opset_imports := push oi (mp_opset_imports m)\<rparr>))
       else if f = 14 then
         rbind (parse_string_string_entry b) (\<lambda>kv.
           Inr (m\<lparr>mp_metadata_props := push kv (mp_metadata_props m)\<rparr>))
       else if f = 20 then
         rbind (parse_training_info b) (\<lambda>ti.
           Inr (m\<lparr>mp_training_info := push ti (mp_training_info m)\<rparr>))
       else if f = 25 then
         rbind (parse_function_proto b) (\<lambda>fn.
           Inr (m\<lparr>mp_functions := push fn (mp_functions m)\<rparr>))
       else Inr m
   | _ \<Rightarrow> Inr m)"

definition parse_model :: "bytes \<Rightarrow> wire_error + model_proto" where
  "parse_model buf = parse_fields model_field buf 0 model_default"

section \<open>One scan or two\<close>

text \<open>
  Two field loops over one buffer, the second a projection of the first: where the
  first succeeds, the second returns the projection of its result.
\<close>

lemma parse_fields_project:
  assumes "\<And>f v m m'. h f v m = Inr m' \<Longrightarrow> g f v (p m) = Inr (p m')"
    and "parse_fields h buf pos m = Inr m'"
  shows "parse_fields g buf pos (p m) = Inr (p m')"
  using assms
proof (induction h buf pos m rule: parse_fields.induct)
  case (1 h buf pos m)
  show ?case
  proof (cases "pos < length buf")
    case True
    with "1.prems"(2) obtain f v n m1 where rd: "read_field buf pos = Inr (f, v, n)"
      and m1: "h f v m = Inr m1" and rec: "parse_fields h buf n m1 = Inr m'"
      by (auto simp: parse_fields.simps [of h buf pos m] result_simps)
    have "parse_fields g buf n (p m1) = Inr (p m')"
      by (rule "1.IH" [OF True rd refl refl m1 "1.prems"(1) rec])
    with True rd "1.prems"(1) [OF m1] show ?thesis
      by (simp add: parse_fields.simps [of g buf pos])
  next
    case False
    with "1.prems"(2) show ?thesis
      by (simp add: parse_fields.simps [of h buf pos m] parse_fields.simps [of g buf pos])
  qed
qed

lemma model_field_functions:
  "model_field f v m = Inr m' \<Longrightarrow> model_functions_field f v (mp_functions m) = Inr (mp_functions m')"
  by (auto simp: model_field_def model_functions_field_def result_simps Let_def
      split: wire_value.splits if_splits)

text \<open>
  Where \<open>parse_model\<close> succeeds, scanning the same buffer with
  \<open>parse_model_functions\<close> gives exactly the local functions that \<open>parse_model\<close>
  collected, in the same order.
\<close>

theorem functions_of_one_pass:
  assumes "parse_model buf = Inr m"
  shows "parse_model_functions buf = Inr (mp_functions m)"
proof -
  have "parse_fields model_functions_field buf 0 (mp_functions model_default) = Inr (mp_functions m)"
    by (rule parse_fields_project [where h = model_field and g = model_functions_field
          and p = mp_functions, OF model_field_functions])
      (use assms in \<open>simp_all add: parse_model_def\<close>)
  then show ?thesis by (simp add: parse_model_functions_def model_default_def)
qed

theorem functions_of_one_pass_witness:
  "parse_model_functions (encode_pbs [PbVarint 1 8, PbBytes 25 (encode_pbs [PbBytes 1 [0x66]])])
     = Inr [function_default\<lparr>fp_name := ''f''\<rparr>]"
proof -
  have len: "length (encode_pbs [PbBytes 1 [0x66]]) \<le> 1000"
    "length (encode_pbs [PbVarint 1 8, PbBytes 25 (encode_pbs [PbBytes 1 [0x66]])]) \<le> 1000"
    by code_simp+
  have str: "from_utf8_lossy [0x66] = ''f''" by code_simp
  have "parse_function_proto (encode_pbs [PbBytes 1 [0x66]]) = Inr (function_default\<lparr>fp_name := ''f''\<rparr>)"
    unfolding parse_function_proto_def
    by (subst parse_fields_encoded [OF _ small_encoding [OF len(1)]])
      (simp_all add: field_ok_def function_field_def str)
  then have "parse_model (encode_pbs [PbVarint 1 8, PbBytes 25 (encode_pbs [PbBytes 1 [0x66]])])
      = Inr (model_default\<lparr>mp_ir_version := 8, mp_functions := [function_default\<lparr>fp_name := ''f''\<rparr>]\<rparr>)"
    unfolding parse_model_def
    by (subst parse_fields_encoded [OF _ small_encoding [OF len(2)]])
      (simp_all add: field_ok_def model_field_def push_def model_default_def)
  from functions_of_one_pass [OF this] show ?thesis by simp
qed

text \<open>
  The default operator-set version is that of the last import of the default
  domain, 0 when there is none: the loop keeps the two fields in step.
\<close>

definition default_domain_version :: "opset_import list \<Rightarrow> i64" where
  "default_domain_version ois =
     (case rev (filter (\<lambda>oi. oi_domain oi = []) ois) of [] \<Rightarrow> 0 | oi # _ \<Rightarrow> oi_version oi)"

lemma parse_fields_invariant:
  assumes "\<And>f v m m'. I m \<Longrightarrow> h f v m = Inr m' \<Longrightarrow> I m'"
    and "I m" and "parse_fields h buf pos m = Inr m'"
  shows "I m'"
  using assms
proof (induction h buf pos m rule: parse_fields.induct)
  case (1 h buf pos m)
  show ?case
  proof (cases "pos < length buf")
    case True
    with "1.prems"(3) obtain f v n m1 where rd: "read_field buf pos = Inr (f, v, n)"
      and m1: "h f v m = Inr m1" and rec: "parse_fields h buf n m1 = Inr m'"
      by (auto simp: parse_fields.simps [of h buf pos m] result_simps)
    show ?thesis
      by (rule "1.IH" [OF True rd refl refl m1 "1.prems"(1) "1.prems"(1) [OF "1.prems"(2) m1] rec])
  next
    case False
    with "1.prems" show ?thesis by (simp add: parse_fields.simps [of h buf pos m])
  qed
qed

lemma default_domain_version_push:
  "default_domain_version (push oi ois) =
     (if oi_domain oi = [] then oi_version oi else default_domain_version ois)"
  by (simp add: push_def default_domain_version_def)

lemma model_field_opset:
  assumes "mp_opset_version m = default_domain_version (mp_opset_imports m)"
    and "model_field f v m = Inr m'"
  shows "mp_opset_version m' = default_domain_version (mp_opset_imports m')"
proof (cases "f = 8 \<and> (\<exists>b. v = Bytes b)")
  case True
  with assms show ?thesis
    by (auto simp: model_field_def result_simps Let_def default_domain_version_push)
next
  case False
  then have "mp_opset_version m' = mp_opset_version m" "mp_opset_imports m' = mp_opset_imports m"
    using assms(2) by (auto simp: model_field_def result_simps Let_def split: wire_value.splits if_splits)
  with assms(1) show ?thesis by simp
qed

text \<open>
  In every successfully parsed model, \<open>opset_version\<close> is the version of the last
  import with the empty domain, 0 if there is none.
\<close>

theorem opset_version_of_default_domain:
  assumes "parse_model buf = Inr m"
  shows "mp_opset_version m = default_domain_version (mp_opset_imports m)"
  by (rule parse_fields_invariant [where I = "\<lambda>m. mp_opset_version m = default_domain_version (mp_opset_imports m)",
        OF model_field_opset _ assms [unfolded parse_model_def]])
    (simp_all add: model_default_def default_domain_version_def)

theorem opset_version_of_default_domain_witness:
  "mp_opset_version (model_default\<lparr>mp_opset_version := 17, mp_opset_imports := [\<lparr>oi_domain = [], oi_version = 17\<rparr>]\<rparr>)
     = default_domain_version [\<lparr>oi_domain = [], oi_version = 17\<rparr>]"
proof -
  let ?m = "model_default\<lparr>mp_opset_version := 17, mp_opset_imports := [\<lparr>oi_domain = [], oi_version = 17\<rparr>]\<rparr>"
  have len: "length (encode_pbs [PbVarint 2 17]) \<le> 1000"
    "length (encode_pbs [PbBytes 8 (encode_pbs [PbVarint 2 17])]) \<le> 1000"
    by code_simp+
  have "parse_opset_import (encode_pbs [PbVarint 2 17]) = Inr \<lparr>oi_domain = [], oi_version = 17\<rparr>"
    unfolding parse_opset_import_def
    by (subst parse_fields_encoded [OF _ small_encoding [OF len(1)]])
      (simp_all add: field_ok_def opset_field_def)
  then have "parse_model (encode_pbs [PbBytes 8 (encode_pbs [PbVarint 2 17])]) = Inr ?m"
    unfolding parse_model_def
    by (subst parse_fields_encoded [OF _ small_encoding [OF len(2)]])
      (simp_all add: field_ok_def model_field_def push_def model_default_def)
  from opset_version_of_default_domain [OF this] show ?thesis by simp
qed

end
