(* ===== verification/Graphs.thy ===== *)
theory Graphs
  imports Prelude
begin

text \<open>
  The runtime graph of \<open>oxionnx-core/src/graph.rs\<close>: nodes, attributes with their
  subgraphs, tensor metadata, and the topological sort the session orders its nodes
  with. An operator kind is represented by the string that \<open>OpKind::as_str\<close> gives,
  which is what every consumer modelled here looks at; a hash map that the code only
  iterates or looks up by key is the association list of its iteration order.
\<close>

section \<open>Data\<close>

datatype onnx_error =
    ParseError
  | UnknownOp
  | ShapeMismatch
  | TensorNotFound
  | Unsupported
  | UnsupportedOp
  | InvalidModel
  | Internal
  | Cancelled
  | DTypeMismatch
  | Arithmetic

record tensor =
  t_data :: "f32 list"
  t_shape :: "nat list"

type_synonym tensor_map = "string \<Rightarrow> tensor option"

datatype dim = Static nat | Symbol string | UnknownDim

datatype dtype = F32 | F16 | BF16 | F64 | I8 | I16 | I32 | I64 | U8 | U16 | U32 | U64 | BoolT

definition size_bytes :: "dtype \<Rightarrow> nat" where
  "size_bytes d =
     (if d \<in> {BoolT, I8, U8} then 1
      else if d \<in> {F16, BF16, I16, U16} then 2
      else if d \<in> {F32, I32, U32} then 4 else 8)"

record tensor_info =
  in_name :: string
  in_dtype :: dtype
  in_shape :: "nat option list"
  in_dim_params :: "string option list"

definition symbolic_shape :: "tensor_info \<Rightarrow> dim list" where
  "symbolic_shape ti =
     map (\<lambda>(static_dim, param_opt).
         case static_dim of
           Some n \<Rightarrow> Static n
         | None \<Rightarrow> (case param_opt of Some (Some s) \<Rightarrow> Symbol s | _ \<Rightarrow> UnknownDim))
       (zip (in_shape ti)
         (map Some (in_dim_params ti) @ replicate (length (in_shape ti)) None))"

datatype attributes =
    Attributes (at_floats: "(string \<times> f32) list") (at_ints: "(string \<times> i64) list")
      (at_strings: "(string \<times> string) list") (at_tensors: "(string \<times> tensor) list")
      (at_float_lists: "(string \<times> f32 list) list") (at_int_lists: "(string \<times> i64 list) list")
      (at_string_lists: "(string \<times> string list) list") (at_graphs: "(string \<times> graph) list")
and node =
    Node (n_op: string) (n_name: string) (n_inputs: "string list") (n_outputs: "string list")
      (n_attrs: attributes)
and graph =
    Graph (g_name: string) (g_nodes: "node list") (g_input_names: "string list")
      (g_output_names: "string list") (g_input_infos: "tensor_info list")
      (g_output_infos: "tensor_info list")

definition no_attrs :: attributes where
  "no_attrs = Attributes [] [] [] [] [] [] [] []"

definition attr_f :: "attributes \<Rightarrow> string \<Rightarrow> f32 \<Rightarrow> f32" where
  "attr_f a name d = (case map_of (at_floats a) name of Some v \<Rightarrow> v | None \<Rightarrow> d)"

definition attr_i :: "attributes \<Rightarrow> string \<Rightarrow> i64 \<Rightarrow> i64" where
  "attr_i a name d = (case map_of (at_ints a) name of Some v \<Rightarrow> v | None \<Rightarrow> d)"

definition attr_ints :: "attributes \<Rightarrow> string \<Rightarrow> i64 list" where
  "attr_ints a name = (case map_of (at_int_lists a) name of Some v \<Rightarrow> v | None \<Rightarrow> [])"

definition attr_s :: "attributes \<Rightarrow> string \<Rightarrow> string" where
  "attr_s a name = (case map_of (at_strings a) name of Some v \<Rightarrow> v | None \<Rightarrow> [])"

definition attr_string_list :: "attributes \<Rightarrow> string \<Rightarrow> string list" where
  "attr_string_list a name = (case map_of (at_string_lists a) name of Some v \<Rightarrow> v | None \<Rightarrow> [])"

definition attr_graph :: "attributes \<Rightarrow> string \<Rightarrow> graph option" where
  "attr_graph a name = map_of (at_graphs a) name"

text \<open>How deep the subgraphs of a node or graph are nested.\<close>

primrec attributes_nesting :: "attributes \<Rightarrow> nat"
  and node_nesting :: "node \<Rightarrow> nat"
  and graph_nesting :: "graph \<Rightarrow> nat" where
  "attributes_nesting (Attributes fs is ss ts fls ils sls graphs) =
     fold max (map snd (map (map_prod id graph_nesting) graphs)) 0"
| "node_nesting (Node op name inputs outputs attrs) = attributes_nesting attrs"
| "graph_nesting (Graph name nodes input_names output_names iis ois) =
     Suc (fold max (map node_nesting nodes) 0)"

lemma fold_max_le: "fold max xs (m::nat) \<le> n \<longleftrightarrow> m \<le> n \<and> (\<forall>x\<in>set xs. x \<le> n)"
  by (induction xs arbitrary: m) auto

section \<open>Topological sort\<close>

text \<open>The map from output name to the last node that produces it.\<close>

definition insert_outputs :: "nat \<Rightarrow> string list \<Rightarrow> (string \<rightharpoonup> nat) \<Rightarrow> string \<rightharpoonup> nat" where
  "insert_outputs i outs m = fold (\<lambda>out m. m(out \<mapsto> i)) outs m"

definition producers :: "node list \<Rightarrow> string \<rightharpoonup> nat" where
  "producers nodes =
     fold (\<lambda>(i, nd) m. insert_outputs i (n_outputs nd) m) (enumerate 0 nodes) Map.empty"

text \<open>The inputs that the sort has to wait for: not elided, not known, and produced by a node.\<close>

definition pending_inputs :: "node list \<Rightarrow> string list \<Rightarrow> node \<Rightarrow> string list" where
  "pending_inputs nodes known nd =
     filter (\<lambda>inp. inp \<noteq> [] \<and> inp \<notin> set known \<and> producers nodes inp \<noteq> None) (n_inputs nd)"

definition in_degrees :: "node list \<Rightarrow> string list \<Rightarrow> nat list" where
  "in_degrees nodes known = map (\<lambda>nd. length (pending_inputs nodes known nd)) nodes"

definition dependents :: "node list \<Rightarrow> string list \<Rightarrow> nat \<Rightarrow> nat list" where
  "dependents nodes known idx =
     concat (map (\<lambda>(i, nd).
         map (\<lambda>_. i) (filter (\<lambda>inp. producers nodes inp = Some idx) (pending_inputs nodes known nd)))
       (enumerate 0 nodes))"

fun release_dependents :: "nat list \<Rightarrow> nat list \<times> nat list \<Rightarrow> nat list \<times> nat list" where
  "release_dependents [] (in_degree, queue) = (in_degree, queue)"
| "release_dependents (dep # deps) (in_degree, queue) =
     (let in_degree = in_degree[dep := in_degree ! dep - 1];
          queue = (if in_degree ! dep = 0 then queue @ [dep] else queue)
      in release_dependents deps (in_degree, queue))"

partial_function (option) kahn ::
  "(nat \<Rightarrow> nat list) \<Rightarrow> nat list \<Rightarrow> nat list \<Rightarrow> nat list \<Rightarrow> nat list option" where
  "kahn deps in_degree queue order =
     (case queue of
        [] \<Rightarrow> Some order
      | idx # queue \<Rightarrow>
          (let (in_degree, queue) = release_dependents (deps idx) (in_degree, queue)
           in kahn deps in_degree queue (order @ [idx])))"

lemma kahn_simps [simp]:
  "kahn deps in_degree [] order = Some order"
  "kahn deps in_degree (idx # queue) order =
     (let (in_degree, queue) = release_dependents (deps idx) (in_degree, queue)
      in kahn deps in_degree queue (order @ [idx]))"
  by (subst kahn.simps, simp)+

definition append_remaining :: "nat \<Rightarrow> nat list \<Rightarrow> nat list" where
  "append_remaining n order =
     (if length order < n
      then fold (\<lambda>i order. if i \<notin> set order then order @ [i] else order) [0..<n] order
      else order)"

definition topological_sort :: "graph \<Rightarrow> string list \<Rightarrow> nat list option" where
  "topological_sort g known =
     (let nodes = g_nodes g; n = length nodes; in_degree = in_degrees nodes known;
          queue = filter (\<lambda>i. in_degree ! i = 0) [0..<n]
      in map_option (append_remaining n) (kahn (dependents nodes known) in_degree queue []))"

section \<open>The loop invariant\<close>

lemma release_dependents_spec:
  assumes "\<forall>d\<in>set ds. d < length deg" and "\<forall>i < length deg. count_list ds i \<le> deg ! i"
  shows "\<exists>new. release_dependents ds (deg, q) = (map (\<lambda>i. deg ! i - count_list ds i) [0..<length deg], q @ new)
    \<and> distinct new \<and> set new = {i \<in> set ds. deg ! i = count_list ds i}"
  using assms
proof (induction ds arbitrary: deg q)
  case Nil
  then show ?case by (simp add: map_nth)
next
  case (Cons d ds)
  let ?deg = "deg[d := deg ! d - 1]"
  let ?q = "if ?deg ! d = 0 then q @ [d] else q"
  have d: "d < length deg" and pos: "0 < deg ! d"
    using Cons.prems by (auto simp: Suc_le_eq intro: Suc_leD dest!: spec [of _ d])
  have "count_list ds i \<le> ?deg ! i" if "i < length ?deg" for i
    using Cons.prems(2) that d by (cases "i = d") (auto dest!: spec [of _ i])
  then obtain new where
    rec: "release_dependents ds (?deg, ?q) = (map (\<lambda>i. ?deg ! i - count_list ds i) [0..<length ?deg], ?q @ new)"
    and new: "distinct new" "set new = {i \<in> set ds. ?deg ! i = count_list ds i}"
    using Cons.IH [of ?deg ?q] Cons.prems(1) by auto
  have deg: "map (\<lambda>i. ?deg ! i - count_list ds i) [0..<length ?deg]
      = map (\<lambda>i. deg ! i - count_list (d # ds) i) [0..<length deg]"
    using d by (auto simp: nth_list_update)
  have cnt: "deg ! i = count_list (d # ds) i \<longleftrightarrow> ?deg ! i = count_list ds i" if "i < length deg" for i
    using that pos d by (auto simp: nth_list_update)
  show ?case
  proof (cases "?deg ! d = 0")
    case True
    then have "d \<notin> set ds"
      using Cons.prems(2) d by (auto simp: count_list_0_iff [symmetric] dest!: spec [of _ d])
    with True new cnt Cons.prems(1) d pos rec deg show ?thesis
      by (intro exI [of _ "d # new"]) (auto simp: Let_def count_list_0_iff nth_list_update)
  next
    case False
    have "count_list ds d \<noteq> 0" if "?deg ! d = count_list ds d"
      using that False by simp
    then have "set new = {i \<in> set (d # ds). deg ! i = count_list (d # ds) i}"
      using new(2) cnt Cons.prems(1) d pos by (auto simp: count_list_0_iff nth_list_update)
    with False new rec deg show ?thesis
      by (intro exI [of _ new]) (simp add: Let_def)
  qed
qed

text \<open>Edges of the sort: how often node \<open>i\<close> waits for node \<open>p\<close>.\<close>

definition edge_count :: "node list \<Rightarrow> string list \<Rightarrow> nat \<Rightarrow> nat \<Rightarrow> nat" where
  "edge_count nodes known p i =
     length (filter (\<lambda>inp. producers nodes inp = Some p) (pending_inputs nodes known (nodes ! i)))"

lemma count_list_map_const: "count_list (map (\<lambda>_. i) xs) j = (if i = j then length xs else 0)"
  by (induction xs) auto

lemma count_list_concat_enumerate:
  assumes "\<And>i x. count_list (g i x) j = (if i = j then f x else 0)"
  shows "count_list (concat (map (\<lambda>(i, x). g i x) (enumerate k xs))) j
    = (if k \<le> j \<and> j < k + length xs then f (xs ! (j - k)) else 0)"
proof (induction xs arbitrary: k)
  case (Cons x xs)
  show ?case
    using Cons [of "Suc k"] assms by (auto simp: nth_Cons' not_less_eq_eq Suc_diff_Suc)
qed simp

lemma count_dependents:
  assumes "i < length nodes"
  shows "count_list (dependents nodes known p) i = edge_count nodes known p i"
proof -
  let ?f = "\<lambda>nd. length (filter (\<lambda>inp. producers nodes inp = Some p) (pending_inputs nodes known nd))"
  let ?g = "\<lambda>i nd. map (\<lambda>_. i) (filter (\<lambda>inp. producers nodes inp = Some p) (pending_inputs nodes known nd))"
  have "count_list (?g i' x) i = (if i' = i then ?f x else 0)" for i' x
    by (rule count_list_map_const)
  from count_list_concat_enumerate [of ?g, OF this, of 0 nodes] assms
  show ?thesis by (simp add: dependents_def edge_count_def)
qed

lemma set_dependents: "set (dependents nodes known p) = {i. i < length nodes \<and> 0 < edge_count nodes known p i}"
proof -
  have "i \<in> set (dependents nodes known p) \<Longrightarrow> i < length nodes" for i
    by (auto simp: dependents_def in_set_enumerate_eq)
  moreover have "i \<in> set (dependents nodes known p) \<longleftrightarrow> 0 < edge_count nodes known p i"
    if "i < length nodes" for i
    using count_dependents [OF that, of known p] count_list_0_iff [of "dependents nodes known p" i] by auto
  ultimately show ?thesis by blast
qed

lemma insert_outputs_apply [simp]:
  "insert_outputs i outs m x = (if x \<in> set outs then Some i else m x)"
  unfolding insert_outputs_def by (induction outs arbitrary: m) auto

lemma producers_from:
  "fold (\<lambda>(i, nd) m. insert_outputs i (n_outputs nd) m) (enumerate k nds) m x = Some p \<Longrightarrow>
     m x = Some p \<or> (\<exists>j < length nds. p = k + j \<and> x \<in> set (n_outputs (nds ! j)))"
proof (induction nds arbitrary: k m)
  case (Cons nd nds)
  from Cons.IH [of "Suc k"] Cons.prems
  consider "insert_outputs k (n_outputs nd) m x = Some p"
    | j where "j < length nds" "p = Suc k + j" "x \<in> set (n_outputs (nds ! j))"
    by auto
  then show ?case
  proof cases
    case 1
    then show ?thesis by (auto split: if_splits)
  next
    case 2
    then show ?thesis by (intro disjI2 exI [of _ "Suc j"]) simp
  qed
qed simp

lemma producers_Some:
  "producers nodes x = Some p \<Longrightarrow> p < length nodes \<and> x \<in> set (n_outputs (nodes ! p))"
  using producers_from [of 0 nodes Map.empty x p] by (auto simp: producers_def)

lemma producers_None_from:
  "fold (\<lambda>(i, nd) m. insert_outputs i (n_outputs nd) m) (enumerate k nds) m x = None \<longleftrightarrow>
     m x = None \<and> (\<forall>nd\<in>set nds. x \<notin> set (n_outputs nd))"
proof (induction nds arbitrary: k m)
  case (Cons nd nds)
  then show ?case by auto
qed simp

lemma producers_None: "producers nodes x = None \<longleftrightarrow> (\<forall>nd\<in>set nodes. x \<notin> set (n_outputs nd))"
  by (simp add: producers_def producers_None_from)

text \<open>What is left of an in-degree once the nodes of \<open>done\<close> are ordered.\<close>

definition waiting :: "node list \<Rightarrow> string list \<Rightarrow> nat set \<Rightarrow> nat \<Rightarrow> nat" where
  "waiting nodes known ordered i =
     length (filter (\<lambda>inp. the (producers nodes inp) \<notin> ordered) (pending_inputs nodes known (nodes ! i)))"

lemma pending_producer:
  "inp \<in> set (pending_inputs nodes known nd) \<Longrightarrow> \<exists>p. producers nodes inp = Some p"
  by (auto simp: pending_inputs_def)

lemma waiting_insert:
  assumes "idx \<notin> ordered"
  shows "waiting nodes known (insert idx ordered) i + edge_count nodes known idx i = waiting nodes known ordered i"
proof -
  let ?xs = "pending_inputs nodes known (nodes ! i)"
  have "length (filter (\<lambda>inp. the (producers nodes inp) \<notin> insert idx ordered) xs) +
      length (filter (\<lambda>inp. producers nodes inp = Some idx) xs) =
      length (filter (\<lambda>inp. the (producers nodes inp) \<notin> ordered) xs)"
    if "set xs \<subseteq> set ?xs" for xs
    using that by (induction xs) (use assms in \<open>auto dest!: pending_producer\<close>)
  then show ?thesis by (simp add: waiting_def edge_count_def)
qed

lemma waiting_0:
  "waiting nodes known ordered i = 0 \<longleftrightarrow>
     (\<forall>inp\<in>set (pending_inputs nodes known (nodes ! i)). the (producers nodes inp) \<in> ordered)"
  by (simp add: waiting_def filter_empty_conv)

definition kahn_inv :: "node list \<Rightarrow> string list \<Rightarrow> nat list \<Rightarrow> nat list \<Rightarrow> nat list \<Rightarrow> bool" where
  "kahn_inv nodes known in_degree queue order \<longleftrightarrow>
     distinct (order @ queue) \<and> set (order @ queue) \<subseteq> {..<length nodes} \<and>
     in_degree = map (waiting nodes known (set order)) [0..<length nodes] \<and>
     (\<forall>i < length nodes. waiting nodes known (set order) i = 0 \<longleftrightarrow> i \<in> set (order @ queue)) \<and>
     (\<forall>k < length order. waiting nodes known (set (take k order)) (order ! k) = 0)"

lemma kahn_inv_init:
  "kahn_inv nodes known (in_degrees nodes known)
     (filter (\<lambda>i. in_degrees nodes known ! i = 0) [0..<length nodes]) []"
proof -
  have w: "waiting nodes known {} i = length (pending_inputs nodes known (nodes ! i))" for i
    by (simp add: waiting_def)
  have "in_degrees nodes known = map (waiting nodes known {}) [0..<length nodes]"
    unfolding in_degrees_def w by (rule nth_equalityI) simp_all
  then show ?thesis
    by (auto simp: kahn_inv_def in_degrees_def w)
qed

lemma kahn_inv_step:
  assumes inv: "kahn_inv nodes known in_degree (idx # queue) order"
  shows "\<exists>in_degree' new. release_dependents (dependents nodes known idx) (in_degree, queue) = (in_degree', queue @ new)
    \<and> kahn_inv nodes known in_degree' (queue @ new) (order @ [idx])"
proof -
  let ?n = "length nodes" and ?ds = "dependents nodes known idx"
  let ?w = "waiting nodes known (set order)" and ?w' = "waiting nodes known (insert idx (set order))"
  have deg: "in_degree = map ?w [0..<?n]" and idx: "idx \<notin> set order" "idx < ?n" "idx \<notin> set queue"
    using inv by (auto simp: kahn_inv_def)
  have step: "?w' i + edge_count nodes known idx i = ?w i" for i
    by (rule waiting_insert [OF idx(1)])
  have "\<forall>i < length in_degree. count_list ?ds i \<le> in_degree ! i"
    using step by (auto simp: deg count_dependents) (metis le_add2)
  then obtain new where
    rel: "release_dependents ?ds (in_degree, queue)
      = (map (\<lambda>i. in_degree ! i - count_list ?ds i) [0..<length in_degree], queue @ new)"
    and new: "distinct new" "set new = {i \<in> set ?ds. in_degree ! i = count_list ?ds i}"
    using release_dependents_spec [of ?ds in_degree queue] by (auto simp: set_dependents deg)
  have deg': "map (\<lambda>i. in_degree ! i - count_list ?ds i) [0..<length in_degree] = map ?w' [0..<?n]"
    using step by (auto simp: deg count_dependents) (metis add_diff_cancel_right')
  have new': "set new = {i. i < ?n \<and> ?w i \<noteq> 0 \<and> ?w' i = 0}"
  proof -
    have "i \<in> set new \<longleftrightarrow> i < ?n \<and> ?w i \<noteq> 0 \<and> ?w' i = 0" for i
      using step [of i] by (auto simp: new(2) set_dependents deg count_dependents)
    then show ?thesis by blast
  qed
  have zero: "?w' i = 0 \<longleftrightarrow> ?w i = 0 \<or> i \<in> set new" if "i < ?n" for i
    using step [of i] that by (auto simp: new')
  have "?w idx = 0"
    using inv idx by (auto simp: kahn_inv_def)
  then have "kahn_inv nodes known (map ?w' [0..<?n]) (queue @ new) (order @ [idx])"
    using inv new(1) new' zero by (auto simp: kahn_inv_def nth_append less_Suc_eq)
  then show ?thesis using rel deg' by auto
qed

lemma distinct_bounded_length:
  "distinct xs \<Longrightarrow> set xs \<subseteq> {..<n} \<Longrightarrow> length xs \<le> n"
  using card_mono [of "{..<n}" "set xs"] by (simp add: distinct_card)

lemma kahn_spec:
  assumes "kahn_inv nodes known in_degree queue order"
  shows "\<exists>in_degree' order'. kahn (dependents nodes known) in_degree queue order = Some order'
    \<and> kahn_inv nodes known in_degree' [] order'"
  using assms
proof (induction "length nodes - length order" arbitrary: in_degree queue order rule: less_induct)
  case less
  show ?case
  proof (cases queue)
    case Nil
    with less.prems show ?thesis by (subst kahn.simps) auto
  next
    case (Cons idx rest)
    then obtain in_degree' new where
      rel: "release_dependents (dependents nodes known idx) (in_degree, rest) = (in_degree', rest @ new)"
      and inv: "kahn_inv nodes known in_degree' (rest @ new) (order @ [idx])"
      using kahn_inv_step less.prems by blast
    have "length (order @ [idx]) \<le> length nodes"
      by (rule distinct_bounded_length) (use inv in \<open>auto simp: kahn_inv_def\<close>)
    then have "length order < length nodes" by simp
    then have "\<exists>in_degree'' order'. kahn (dependents nodes known) in_degree' (rest @ new) (order @ [idx]) = Some order'
        \<and> kahn_inv nodes known in_degree'' [] order'"
      by (intro less.hyps inv) simp
    then show ?thesis
      using rel Cons by (subst kahn.simps) simp
  qed
qed

lemma append_remaining_fold:
  "distinct is \<Longrightarrow> fold (\<lambda>i order. if i \<notin> set order then order @ [i] else order) is order
     = order @ filter (\<lambda>i. i \<notin> set order) is"
proof (induction "is" arbitrary: order)
  case (Cons i "is")
  have "filter (\<lambda>j. j \<notin> set (order @ [i])) is = filter (\<lambda>j. j \<notin> set order) is"
    using Cons.prems by (intro filter_cong) auto
  with Cons show ?case by simp
qed simp

lemma append_remaining_eq:
  assumes "distinct order" and "set order \<subseteq> {..<n}"
  shows "append_remaining n order = order @ filter (\<lambda>i. i \<notin> set order) [0..<n]"
proof (cases "length order < n")
  case True
  then show ?thesis by (simp add: append_remaining_def append_remaining_fold)
next
  case False
  have "set order = {..<n}"
    using assms False distinct_bounded_length [OF assms]
    by (intro card_subset_eq) (auto simp: distinct_card)
  then show ?thesis using False by (simp add: append_remaining_def filter_False)
qed

lemma topological_sort_spec:
  obtains order where "topological_sort g known = Some (order @ filter (\<lambda>i. i \<notin> set order) [0..<length (g_nodes g)])"
    and "\<exists>in_degree. kahn_inv (g_nodes g) known in_degree [] order"
proof -
  obtain in_degree order where k: "kahn (dependents (g_nodes g) known) (in_degrees (g_nodes g) known)
      (filter (\<lambda>i. in_degrees (g_nodes g) known ! i = 0) [0..<length (g_nodes g)]) [] = Some order"
    and inv: "kahn_inv (g_nodes g) known in_degree [] order"
    using kahn_spec [OF kahn_inv_init, of "g_nodes g" known] by blast
  have "append_remaining (length (g_nodes g)) order
      = order @ filter (\<lambda>i. i \<notin> set order) [0..<length (g_nodes g)]"
    by (rule append_remaining_eq) (use inv in \<open>auto simp: kahn_inv_def\<close>)
  with k inv show ?thesis
    by (intro that [of order]) (auto simp: topological_sort_def Let_def)
qed

section \<open>Properties of the topological sort\<close>

lemma sort_total:
  "\<exists>order. topological_sort g known = Some order \<and> distinct order \<and>
     set order = {..<length (g_nodes g)}"
proof -
  obtain order deg where "topological_sort g known = Some (order @ filter (\<lambda>i. i \<notin> set order) [0..<length (g_nodes g)])"
    and "kahn_inv (g_nodes g) known deg [] order"
    by (rule topological_sort_spec) blast
  then show ?thesis by (auto simp: kahn_inv_def)
qed

text \<open>
  C19. The topological sort returns for every graph, cyclic or malformed ones included,
  and its result holds every node index exactly once.
\<close>

theorem topological_sort_permutation:
  "\<exists>order. topological_sort g known = Some order \<and> distinct order \<and>
     set order = {..<length (g_nodes g)}"
  by (rule sort_total)

lemma sort_producers:
  assumes acyclic: "\<And>i p inp. i < length (g_nodes g) \<Longrightarrow> p < length (g_nodes g) \<Longrightarrow>
      inp \<in> set (n_inputs (g_nodes g ! i)) \<Longrightarrow> inp \<noteq> [] \<Longrightarrow> inp \<notin> set known \<Longrightarrow>
      inp \<in> set (n_outputs (g_nodes g ! p)) \<Longrightarrow> rank p < (rank i :: nat)"
    and sorted: "topological_sort g known = Some (xs @ i # ys)"
    and inp: "inp \<in> set (n_inputs (g_nodes g ! i))" "inp \<noteq> []"
  shows "inp \<in> set known \<or> (\<forall>nd\<in>set (g_nodes g). inp \<notin> set (n_outputs nd)) \<or>
    (\<exists>p\<in>set xs. inp \<in> set (n_outputs (g_nodes g ! p)))"
proof -
  let ?nodes = "g_nodes g"
  obtain order deg where
    res: "topological_sort g known = Some (order @ filter (\<lambda>i. i \<notin> set order) [0..<length ?nodes])"
    and inv: "kahn_inv ?nodes known deg [] order"
    by (rule topological_sort_spec) blast
  have edge: "rank p < rank j"
    if "j < length ?nodes" "x \<in> set (pending_inputs ?nodes known (?nodes ! j))" "producers ?nodes x = Some p" for j x p
    using that by (auto simp: pending_inputs_def dest!: producers_Some intro: acyclic)
  have complete: "j \<in> set order" if "j < length ?nodes" for j
    using that
  proof (induction "rank j" arbitrary: j rule: less_induct)
    case less
    have "waiting ?nodes known (set order) j = 0"
      unfolding waiting_0
    proof
      fix x assume x: "x \<in> set (pending_inputs ?nodes known (?nodes ! j))"
      then obtain p where p: "producers ?nodes x = Some p" using pending_producer by blast
      then have "p < length ?nodes" by (simp add: producers_Some)
      with less x p edge show "the (producers ?nodes x) \<in> set order" by auto
    qed
    with inv less.prems show ?case by (auto simp: kahn_inv_def)
  qed
  have "filter (\<lambda>i. i \<notin> set order) [0..<length ?nodes] = []"
    using complete by (auto simp: filter_empty_conv)
  with res sorted have order: "order = xs @ i # ys" by simp
  then have zero: "waiting ?nodes known (set xs) i = 0"
    using inv by (auto simp: kahn_inv_def dest!: spec [of _ "length xs"])
  show ?thesis
  proof (cases "inp \<in> set known \<or> producers ?nodes inp = None")
    case True
    then show ?thesis by (auto simp: producers_None)
  next
    case False
    then have "inp \<in> set (pending_inputs ?nodes known (?nodes ! i))"
      using inp by (simp add: pending_inputs_def)
    with zero have "the (producers ?nodes inp) \<in> set xs" by (simp add: waiting_0)
    with False show ?thesis by (auto dest: producers_Some)
  qed
qed

text \<open>
  C18. In a graph without cycles, every node comes after the producers of its inputs:
  an input is elided, initially known, produced by no node, or an output of a node
  ordered before.
\<close>

theorem topological_sort_respects_producers:
  assumes acyclic: "\<And>i p inp. i < length (g_nodes g) \<Longrightarrow> p < length (g_nodes g) \<Longrightarrow>
      inp \<in> set (n_inputs (g_nodes g ! i)) \<Longrightarrow> inp \<noteq> [] \<Longrightarrow> inp \<notin> set known \<Longrightarrow>
      inp \<in> set (n_outputs (g_nodes g ! p)) \<Longrightarrow> rank p < (rank i :: nat)"
    and sorted: "topological_sort g known = Some (xs @ i # ys)"
    and inp: "inp \<in> set (n_inputs (g_nodes g ! i))" "inp \<noteq> []"
  shows "inp \<in> set known \<or> (\<forall>nd\<in>set (g_nodes g). inp \<notin> set (n_outputs nd)) \<or>
    (\<exists>p\<in>set xs. inp \<in> set (n_outputs (g_nodes g ! p)))"
  by (rule sort_producers [OF assms])

definition demo_graph :: graph where
  "demo_graph = Graph [] [Node ''Add'' [] [''a'', ''b''] [''y''] no_attrs,
     Node ''Relu'' [] [''x''] [''a''] no_attrs, Node ''Neg'' [] [''a''] [''b''] no_attrs] [''x''] [''y''] [] []"

lemma demo_graph_sorted: "topological_sort demo_graph [''x''] = Some [1, 2, 0]"
proof -
  have init: "in_degrees (g_nodes demo_graph) [''x''] = [2, 0, 1]"
    by code_simp
  have deps: "dependents (g_nodes demo_graph) [''x''] 0 = []"
    "dependents (g_nodes demo_graph) [''x''] (Suc 0) = [0, 2]"
    "dependents (g_nodes demo_graph) [''x''] (Suc (Suc 0)) = [0]"
    by code_simp+
  have n: "length (g_nodes demo_graph) = 3" by (simp add: demo_graph_def)
  have "[0..<3] = [0, 1, 2 :: nat]" by code_simp
  then show ?thesis
    by (simp add: topological_sort_def init n deps append_remaining_def Let_def numeral_2_eq_2 del: upt_rec_numeral)
qed

theorem topological_sort_respects_producers_witness:
  "''a'' \<in> set [''x''] \<or> (\<forall>nd\<in>set (g_nodes demo_graph). ''a'' \<notin> set (n_outputs nd)) \<or>
    (\<exists>p\<in>set [1]. ''a'' \<in> set (n_outputs (g_nodes demo_graph ! p)))"
proof (rule topological_sort_respects_producers [where rank = "\<lambda>i. if i = 0 then 3 else i"])
  show "topological_sort demo_graph [''x''] = Some ([1] @ 2 # [0])"
    by (simp add: demo_graph_sorted)
qed (auto simp: demo_graph_def less_Suc_eq nth_Cons' split: if_splits)

end
