(* ===== verification/Floats.thy ===== *)
theory Floats
  imports Prelude
begin

text \<open>
  The places where the modelled code computes with an \<open>f32\<close>: the test against zero, the
  cast \<open>as i64\<close>, and the casts of integers and of \<open>f64\<close> \<open>as f32\<close>. An \<open>f32\<close> is its bit
  pattern: sign, eight bits of exponent, 23 bits of fraction.
\<close>

definition f32_sign :: "f32 \<Rightarrow> bool" where
  "f32_sign v \<longleftrightarrow> unat v \<ge> 2 ^ 31"

definition f32_exponent :: "f32 \<Rightarrow> nat" where
  "f32_exponent v = unat v div 2 ^ 23 mod 256"

definition f32_fraction :: "f32 \<Rightarrow> nat" where
  "f32_fraction v = unat v mod 2 ^ 23"

text \<open>\<open>v != 0.0\<close>: true of everything but the two zeros, NaN included.\<close>

definition f32_nonzero :: "f32 \<Rightarrow> bool" where
  "f32_nonzero v \<longleftrightarrow> f32_exponent v \<noteq> 0 \<or> f32_fraction v \<noteq> 0"

text \<open>\<open>v as i64\<close>: towards zero, saturating, NaN to 0.\<close>

definition f32_to_i64 :: "f32 \<Rightarrow> int" where
  "f32_to_i64 v =
     (let e = f32_exponent v; m = f32_fraction v;
          mant = (if e = 0 then m else m + 2 ^ 23);
          e = max e 1;
          magnitude = (if e \<ge> 150 then mant * 2 ^ (e - 150) else mant div 2 ^ (150 - e));
          i = (if f32_sign v then - int magnitude else int magnitude)
      in if f32_exponent v = 255 \<and> m \<noteq> 0 then 0
         else max (- (2 ^ 63)) (min (2 ^ 63 - 1) i))"

text \<open>\<open>a > b\<close> on \<open>f32\<close>: false of NaN; the key of a number is its position among the others.\<close>

definition f32_nan :: "f32 \<Rightarrow> bool" where
  "f32_nan v \<longleftrightarrow> f32_exponent v = 255 \<and> f32_fraction v \<noteq> 0"

definition f32_key :: "f32 \<Rightarrow> int" where
  "f32_key v = (if f32_sign v then - int (unat v - 2 ^ 31) else int (unat v))"

definition f32_greater :: "f32 \<Rightarrow> f32 \<Rightarrow> bool" where
  "f32_greater a b \<longleftrightarrow> \<not> f32_nan a \<and> \<not> f32_nan b \<and> f32_key a > f32_key b"

fun log2 :: "nat \<Rightarrow> nat" where
  "log2 n = (if n < 2 then 0 else log2 (n div 2) + 1)"

declare log2.simps [simp del]

text \<open>\<open>n as f32\<close> for an integer that has at most 24 bits, where the cast is exact.\<close>

definition f32_of_nat :: "nat \<Rightarrow> f32" where
  "f32_of_nat n =
     (if n = 0 then 0 else let k = log2 n in of_nat ((127 + k) * 2 ^ 23 + (n * 2 ^ (23 - k) - 2 ^ 23)))"

text \<open>
  Rounding to nearest, ties to even, of \<open>m * 2 ^ e\<close>: the unit of the result's last place is
  \<open>2 ^ (E - 23)\<close> for the binade \<open>E\<close>, at least -126; a carry runs into the exponent field, and
  what exceeds the largest finite value is an infinity.
\<close>

definition div_round_even :: "nat \<Rightarrow> nat \<Rightarrow> nat" where
  "div_round_even m d =
     (let q = m div d; r = m mod d in
      if 2 * r > d \<or> (2 * r = d \<and> odd q) then q + 1 else q)"

definition f32_round :: "bool \<Rightarrow> nat \<Rightarrow> int \<Rightarrow> f32" where
  "f32_round negative m e =
     (let magnitude = (if m = 0 then 0
        else let E = max (int (log2 m) + e) (- 126); shift = E - 23 - e;
                 n = (if shift \<le> 0 then m * 2 ^ nat (- shift) else div_round_even m (2 ^ nat shift))
             in min (nat (E + 126) * 2 ^ 23 + n) (255 * 2 ^ 23))
      in of_nat (magnitude + (if negative then 2 ^ 31 else 0)))"

text \<open>\<open>i as f32\<close>, and \<open>v as f32\<close> for an \<open>f64\<close>; a NaN stays a quiet NaN with the top of its payload.\<close>

definition f32_of_int :: "int \<Rightarrow> f32" where
  "f32_of_int i = f32_round (i < 0) (nat \<bar>i\<bar>) 0"

definition f64_as_f32 :: "f64 \<Rightarrow> f32" where
  "f64_as_f32 v =
     (let negative = (unat v \<ge> 2 ^ 63); e = unat v div 2 ^ 52 mod 2048; m = unat v mod 2 ^ 52 in
      if e = 2047 then
        of_nat ((if negative then 2 ^ 31 else 0) + 255 * 2 ^ 23 + (if m = 0 then 0 else 2 ^ 22 + m div 2 ^ 29 mod 2 ^ 22))
      else f32_round negative (if e = 0 then m else m + 2 ^ 52) (int (max e 1) - 1075))"

lemma log2_bounds: "0 < n \<Longrightarrow> 2 ^ log2 n \<le> n \<and> n < 2 * 2 ^ log2 n"
proof (induction n rule: log2.induct)
  case (1 n)
  show ?case
  proof (cases "n < 2")
    case True
    with 1 show ?thesis by (simp add: log2.simps)
  next
    case False
    with 1 have "2 ^ log2 (n div 2) \<le> n div 2" "n div 2 < 2 * 2 ^ log2 (n div 2)" by simp_all
    moreover have "log2 n = log2 (n div 2) + 1" using False by (simp add: log2.simps)
    ultimately show ?thesis
      using div_mult_mod_eq [of n 2] mod_less_divisor [of 2 n] by (simp only: power_add power_one_right) linarith
  qed
qed

lemma log2_less_24: "n < 2 ^ 24 \<Longrightarrow> log2 n < 24"
proof (cases "n = 0")
  case False
  assume "n < 2 ^ 24"
  with log2_bounds [of n] False have "(2::nat) ^ log2 n < 2 ^ 24" by linarith
  then show ?thesis by (rule power_less_imp_less_exp [rotated]) simp
qed (simp add: log2.simps)

text \<open>
  The cast of an integer of at most 24 bits to \<open>f32\<close> is exact: casting back gives the
  integer. So the iteration number a Loop hands to its body is right in every iteration
  it can reach.
\<close>

theorem f32_of_nat_exact:
  assumes "n < 2 ^ 24"
  shows "f32_to_i64 (f32_of_nat n) = int n"
proof (cases "n = 0")
  case False
  let ?k = "log2 n" and ?m = "n * 2 ^ (23 - log2 n)"
  have k: "?k \<le> 23" using log2_less_24 [OF assms] by simp
  have split: "(2::nat) ^ 23 = 2 ^ ?k * 2 ^ (23 - ?k)"
    using k by (simp flip: power_add)
  have m: "2 ^ 23 \<le> ?m" "?m < 2 * 2 ^ 23"
    using log2_bounds [of n] False unfolding split by (simp_all add: mult.assoc [symmetric])
  obtain r where r: "?m - 2 ^ 23 = r" "r < 2 ^ 23" "?m = r + 2 ^ 23"
    using m by (intro that [of "?m - 2 ^ 23"]) linarith+
  let ?v = "(127 + ?k) * 2 ^ 23 + r"
  have "?v < 2 ^ 31" using k r(2) by simp
  then have "unat (of_nat ?v :: f32) = ?v"
    by (subst unat_of_nat) (rule mod_less, simp)
  then have v: "unat (f32_of_nat n) = ?v"
    using False by (simp only: f32_of_nat_def Let_def if_False r(1))
  have fraction: "f32_fraction (f32_of_nat n) = r"
    using r(2) unfolding f32_fraction_def v by (simp only: mod_mult_self3 mod_less)
  have parts: "f32_exponent (f32_of_nat n) = 127 + ?k" "\<not> f32_sign (f32_of_nat n)"
    using k r(2) \<open>?v < 2 ^ 31\<close> by (simp_all add: f32_exponent_def f32_sign_def v)
  have "(r + 2 ^ 23) div 2 ^ (150 - (127 + ?k)) = n" using k unfolding r(3) [symmetric] by simp
  moreover have "n < 2 ^ 63 - 1" using assms by simp
  ultimately show ?thesis using k
    by (cases "?k = 23") (auto simp: f32_to_i64_def Let_def parts fraction)
qed (simp add: f32_of_nat_def f32_to_i64_def f32_exponent_def f32_fraction_def f32_sign_def)

theorem f32_of_nat_exact_witness: "f32_to_i64 (f32_of_nat 1000000) = 1000000"
  using f32_of_nat_exact [of 1000000] by simp

end
