(* ===== verification/TensorDecode.thy ===== *)
theory TensorDecode
  imports Messages Graphs Floats
begin

text \<open>
  From a \<open>TensorProto\<close> to a runtime tensor (\<open>oxionnx-proto/src/types.rs\<close>, with the dtype
  table of \<open>reader.rs\<close>): the checked shape, the decoding of \<open>raw_data\<close> and of the typed
  fields, and their agreement. The two half-precision formats are converted by the crate
  \<open>half\<close>, which is the argument \<open>half\<close>.
\<close>

datatype reader_error =
    Io
  | Parse
  | MissingExternalEntry
  | UnsupportedDtype
  | RaggedRawData
  | InvalidDim
  | ShapeOverflow
  | ElementCountMismatch
  | MissingTensorData
  | InvalidExternalLocation
  | Other

record half_crate =
  f16_to_f32 :: "16 word \<Rightarrow> f32"
  bf16_to_f32 :: "16 word \<Rightarrow> f32"

section \<open>Element types\<close>

definition dtype_size_bytes :: "i32 \<Rightarrow> nat option" where
  "dtype_size_bytes data_type =
     (if data_type = 9 \<or> data_type = 3 \<or> data_type = 2 then Some 1
      else if data_type = 10 \<or> data_type = 16 \<or> data_type = 5 \<or> data_type = 4 then Some 2
      else if data_type = 1 \<or> data_type = 6 \<or> data_type = 12 then Some 4
      else if data_type = 11 \<or> data_type = 7 \<or> data_type = 13 then Some 8
      else None)"

definition bool_to_f32 :: "bool \<Rightarrow> f32" where
  "bool_to_f32 b = (if b then 0x3F800000 else 0)"

text \<open>The elements of a little-endian buffer, each converted.\<close>

definition elements :: "nat \<Rightarrow> ('a::len word \<Rightarrow> f32) \<Rightarrow> bytes \<Rightarrow> f32 list" where
  "elements width conv bs = map (\<lambda>b. conv (of_le b)) (chunks_exact width bs)"

definition bytes_to_f32 :: "half_crate \<Rightarrow> bytes \<Rightarrow> i32 \<Rightarrow> reader_error + f32 list" where
  "bytes_to_f32 half bs data_type =
     (case dtype_size_bytes data_type of
        None \<Rightarrow> Inl UnsupportedDtype
      | Some elem_size \<Rightarrow>
          if length bs mod elem_size \<noteq> 0 then Inl RaggedRawData
          else if data_type = 1 then Inr (elements 4 (\<lambda>v :: 32 word. v) bs)
          else if data_type = 10 then Inr (elements 2 (f16_to_f32 half) bs)
          else if data_type = 16 then Inr (elements 2 (bf16_to_f32 half) bs)
          else if data_type = 2 then Inr (elements 1 (\<lambda>v :: 8 word. f32_of_int (uint v)) bs)
          else if data_type = 3 then Inr (elements 1 (\<lambda>v :: 8 word. f32_of_int (sint v)) bs)
          else if data_type = 9 then Inr (elements 1 (\<lambda>v :: 8 word. bool_to_f32 (v \<noteq> 0)) bs)
          else if data_type = 4 then Inr (elements 2 (\<lambda>v :: 16 word. f32_of_int (uint v)) bs)
          else if data_type = 5 then Inr (elements 2 (\<lambda>v :: 16 word. f32_of_int (sint v)) bs)
          else if data_type = 6 then Inr (elements 4 (\<lambda>v :: 32 word. f32_of_int (sint v)) bs)
          else if data_type = 12 then Inr (elements 4 (\<lambda>v :: 32 word. f32_of_int (uint v)) bs)
          else if data_type = 7 then Inr (elements 8 (\<lambda>v :: 64 word. f32_of_int (sint v)) bs)
          else if data_type = 13 then Inr (elements 8 (\<lambda>v :: 64 word. f32_of_int (uint v)) bs)
          else if data_type = 11 then Inr (elements 8 f64_as_f32 bs)
          else Inl UnsupportedDtype)"

definition int32_field_to_f32 :: "half_crate \<Rightarrow> i32 \<Rightarrow> i32 \<Rightarrow> f32" where
  "int32_field_to_f32 half value data_type =
     (if data_type = 10 then f16_to_f32 half (ucast value)
      else if data_type = 16 then bf16_to_f32 half (ucast value)
      else if data_type = 3 then f32_of_int (sint (ucast value :: 8 word))
      else if data_type = 2 then f32_of_int (uint (ucast value :: 8 word))
      else if data_type = 5 then f32_of_int (sint (ucast value :: 16 word))
      else if data_type = 4 then f32_of_int (uint (ucast value :: 16 word))
      else if data_type = 9 then bool_to_f32 (value \<noteq> 0)
      else f32_of_int (sint value))"

section \<open>Tensors\<close>

fun checked_shape_from :: "i64 list \<Rightarrow> nat \<Rightarrow> reader_error + nat list \<times> nat" where
  "checked_shape_from [] count = Inr ([], count)"
| "checked_shape_from (dim # dims) count =
     (if sint dim < 0 then Inl InvalidDim
      else case checked_mul count (nat (sint dim)) of
        None \<Rightarrow> Inl ShapeOverflow
      | Some count \<Rightarrow> rbind (checked_shape_from dims count) (\<lambda>(shape, count). Inr (nat (sint dim) # shape, count)))"

definition checked_shape :: "tensor_proto \<Rightarrow> reader_error + nat list \<times> nat" where
  "checked_shape tp = checked_shape_from (tp_dims tp) 1"

definition finish :: "f32 list \<Rightarrow> nat list \<Rightarrow> nat \<Rightarrow> reader_error + tensor" where
  "finish xs shape count =
     (if length xs \<noteq> count then Inl ElementCountMismatch else Inr \<lparr>t_data = xs, t_shape = shape\<rparr>)"

definition tensor_from_raw_bytes :: "half_crate \<Rightarrow> tensor_proto \<Rightarrow> bytes \<Rightarrow> reader_error + tensor" where
  "tensor_from_raw_bytes half tp bs =
     rbind (checked_shape tp) (\<lambda>(shape, count).
     rbind (bytes_to_f32 half bs (tp_data_type tp)) (\<lambda>xs. finish xs shape count))"

definition canonical_field :: "half_crate \<Rightarrow> tensor_proto \<Rightarrow> f32 list option" where
  "canonical_field half tp =
     (let dt = tp_data_type tp in
      if dt = 1 \<and> tp_float_data tp \<noteq> [] then Some (tp_float_data tp)
      else if dt = 11 \<and> tp_double_data tp \<noteq> [] then Some (map f64_as_f32 (tp_double_data tp))
      else if dt = 7 \<and> tp_int64_data tp \<noteq> [] then Some (map (\<lambda>v. f32_of_int (sint v)) (tp_int64_data tp))
      else if (dt = 12 \<or> dt = 13) \<and> tp_uint64_data tp \<noteq> [] then Some (map (\<lambda>v. f32_of_int (uint v)) (tp_uint64_data tp))
      else if dt \<in> {6, 3, 2, 5, 4, 9, 10, 16} \<and> tp_int32_data tp \<noteq> [] then
        Some (map (\<lambda>v. int32_field_to_f32 half v dt) (tp_int32_data tp))
      else None)"

definition inferred_field :: "half_crate \<Rightarrow> tensor_proto \<Rightarrow> f32 list option" where
  "inferred_field half tp =
     (if tp_float_data tp \<noteq> [] then Some (tp_float_data tp)
      else if tp_int64_data tp \<noteq> [] then Some (map (\<lambda>v. f32_of_int (sint v)) (tp_int64_data tp))
      else if tp_int32_data tp \<noteq> [] then Some (map (\<lambda>v. int32_field_to_f32 half v (tp_data_type tp)) (tp_int32_data tp))
      else if tp_double_data tp \<noteq> [] then Some (map f64_as_f32 (tp_double_data tp))
      else if tp_uint64_data tp \<noteq> [] then Some (map (\<lambda>v. f32_of_int (uint v)) (tp_uint64_data tp))
      else None)"

definition decode_typed_fields :: "half_crate \<Rightarrow> tensor_proto \<Rightarrow> reader_error + f32 list option" where
  "decode_typed_fields half tp =
     (if tp_data_type tp \<noteq> 0 \<and> dtype_size_bytes (tp_data_type tp) = None then Inl UnsupportedDtype
      else case canonical_field half tp of
        Some canonical \<Rightarrow> Inr (Some canonical)
      | None \<Rightarrow> Inr (inferred_field half tp))"

definition try_to_tensor :: "half_crate \<Rightarrow> tensor_proto \<Rightarrow> reader_error + tensor" where
  "try_to_tensor half tp =
     (if tp_raw_data tp \<noteq> [] then tensor_from_raw_bytes half tp (tp_raw_data tp)
      else rbind (checked_shape tp) (\<lambda>(shape, count).
           rbind (decode_typed_fields half tp) (\<lambda>xs. case xs of
             Some xs \<Rightarrow> finish xs shape count
           | None \<Rightarrow> if count = 0 then Inr \<lparr>t_data = [], t_shape = shape\<rparr> else Inl MissingTensorData)))"

text \<open>\<open>to_tensor\<close>: a placeholder where the tensor cannot be decoded.\<close>

definition MAX_PLACEHOLDER_ELEMS :: nat where "MAX_PLACEHOLDER_ELEMS = 2 ^ 24"

definition to_tensor :: "half_crate \<Rightarrow> tensor_proto \<Rightarrow> tensor" where
  "to_tensor half tp =
     (case try_to_tensor half tp of
        Inr t \<Rightarrow> t
      | Inl _ \<Rightarrow> (case checked_shape tp of
          Inr (shape, count) \<Rightarrow>
            if count \<le> MAX_PLACEHOLDER_ELEMS then \<lparr>t_data = replicate count 0, t_shape = shape\<rparr>
            else \<lparr>t_data = [], t_shape = [0]\<rparr>
        | Inl _ \<Rightarrow> \<lparr>t_data = [], t_shape = [0]\<rparr>))"

section \<open>Value infos\<close>

definition dtype_from_elem_type :: "i32 \<Rightarrow> dtype option" where
  "dtype_from_elem_type elem_type =
     map_of [(1, F32), (2, U8), (3, I8), (4, U16), (5, I16), (6, I32), (7, I64), (9, BoolT), (10, F16),
       (11, F64), (12, U32), (13, U64), (16, BF16)] elem_type"

definition tensor_info_with_dtype :: "value_info_proto \<Rightarrow> dtype \<Rightarrow> tensor_info" where
  "tensor_info_with_dtype vi dtype =
     \<lparr>in_name = vi_name vi, in_dtype = dtype,
      in_shape = map (\<lambda>dim. case dim of
          Some d \<Rightarrow> if sint d \<ge> 0 then Some (nat (sint d)) else None
        | None \<Rightarrow> None) (vi_shape vi),
      in_dim_params = vi_dim_params vi\<rparr>"

definition to_tensor_info :: "value_info_proto \<Rightarrow> tensor_info" where
  "to_tensor_info vi =
     tensor_info_with_dtype vi (case dtype_from_elem_type (vi_elem_type vi) of Some d \<Rightarrow> d | None \<Rightarrow> F32)"

definition try_to_tensor_info :: "value_info_proto \<Rightarrow> reader_error + tensor_info" where
  "try_to_tensor_info vi =
     (case dtype_from_elem_type (vi_elem_type vi) of
        None \<Rightarrow> Inl UnsupportedDtype
      | Some d \<Rightarrow> Inr (tensor_info_with_dtype vi d))"

section \<open>What is decoded is consistent\<close>

lemma checked_shape_spec:
  "checked_shape_from dims count = Inr (shape, n) \<Longrightarrow>
     map int shape = map sint dims \<and> n = count * prod_list shape \<and> (dims = [] \<or> n \<le> usize_max)"
proof (induction dims arbitrary: count shape n)
  case (Cons dim dims)
  then obtain c where c: "checked_mul count (nat (sint dim)) = Some c" and dim: "0 \<le> sint dim"
    by (cases "checked_mul count (nat (sint dim))") (simp_all add: not_less split: if_splits)
  with Cons.prems obtain sh where sh: "checked_shape_from dims c = Inr (sh, n)" "shape = nat (sint dim) # sh"
    by (auto simp: result_simps)
  have IH: "map int sh = map sint dims" "n = c * prod_list sh" "dims = [] \<or> n \<le> usize_max"
    using Cons.IH [OF sh(1)] by blast+
  from c have "c = count * nat (sint dim)" "c \<le> usize_max" by (simp_all add: checked_mul_Some_iff)
  with IH dim show ?case by (cases dims) (simp_all add: sh(2) mult.assoc)
qed simp

lemma finish_Inr: "finish xs shape n = Inr t \<longleftrightarrow> length xs = n \<and> t = \<lparr>t_data = xs, t_shape = shape\<rparr>"
  by (auto simp: finish_def)

lemma try_to_tensor_count:
  assumes "try_to_tensor half tp = Inr t"
  obtains n where "checked_shape tp = Inr (t_shape t, n)" and "length (t_data t) = n"
proof -
  from assms obtain shape n where c: "checked_shape tp = Inr (shape, n)"
    by (auto simp: try_to_tensor_def tensor_from_raw_bytes_def rbind_Inr_iff split: if_splits)
  have "t_shape t = shape \<and> length (t_data t) = n"
  proof (cases "tp_raw_data tp = []")
    case False
    with assms c show ?thesis by (auto simp: try_to_tensor_def tensor_from_raw_bytes_def rbind_Inr_iff finish_Inr)
  next
    case True
    with assms c obtain xs where "decode_typed_fields half tp = Inr xs"
      "(case xs of Some xs \<Rightarrow> finish xs shape n
        | None \<Rightarrow> if n = 0 then Inr \<lparr>t_data = [], t_shape = shape\<rparr> else Inl MissingTensorData) = Inr t"
      by (auto simp: try_to_tensor_def rbind_Inr_iff)
    then show ?thesis by (cases xs) (auto simp: finish_Inr split: if_splits)
  qed
  with c that show ?thesis by blast
qed

lemma tensor_from_raw_bytes_shape:
  assumes "tensor_from_raw_bytes half tp bs = Inr t"
  shows "length (t_data t) = prod_list (t_shape t)"
proof -
  from assms obtain n where "checked_shape tp = Inr (t_shape t, n)" "length (t_data t) = n"
    by (auto simp: tensor_from_raw_bytes_def rbind_Inr_iff finish_Inr)
  with checked_shape_spec [of "tp_dims tp" 1] show ?thesis by (auto simp: checked_shape_def)
qed

lemma try_to_tensor_shape:
  assumes "try_to_tensor half tp = Inr t"
  shows "length (t_data t) = prod_list (t_shape t) \<and> map int (t_shape t) = map sint (tp_dims tp) \<and>
    length (t_data t) \<le> usize_max"
proof -
  obtain n where n: "checked_shape tp = Inr (t_shape t, n)" "length (t_data t) = n"
    by (rule try_to_tensor_count [OF assms])
  from checked_shape_spec [OF n(1) [unfolded checked_shape_def]] n(2) show ?thesis
    by (cases "tp_dims tp") (simp_all add: usize_max_def)
qed

text \<open>
  A tensor message that is accepted gives a tensor of exactly the declared dimensions,
  none of them negative, with one element for every position of that shape, whatever field
  carries its data; the number of elements does not overflow.
\<close>

theorem decoded_tensor_consistent:
  assumes "try_to_tensor half tp = Inr t"
  shows "length (t_data t) = prod_list (t_shape t) \<and> map int (t_shape t) = map sint (tp_dims tp) \<and>
    length (t_data t) \<le> usize_max"
  by (rule try_to_tensor_shape [OF assms])

theorem decoded_tensor_consistent_witness:
  "length (t_data \<lparr>t_data = [7, 8], t_shape = [2, 1]\<rparr>) = prod_list [2, 1]"
proof -
  let ?tp = "tensor_default\<lparr>tp_dims := [2, 1], tp_data_type := 1, tp_float_data := [7, 8]\<rparr>"
  have "try_to_tensor half ?tp = Inr \<lparr>t_data = [7, 8], t_shape = [2, 1]\<rparr>" for half
    by (simp add: try_to_tensor_def checked_shape_def checked_mul_def usize_max_def decode_typed_fields_def
        dtype_size_bytes_def canonical_field_def finish_def tensor_default_def Let_def)
  from decoded_tensor_consistent [OF this] show ?thesis by simp
qed

section \<open>Raw data and typed fields\<close>

text \<open>The \<open>raw_data\<close> of the values in a tensor's canonical typed field.\<close>

definition pack :: "nat \<Rightarrow> 'a::len word list \<Rightarrow> bytes" where
  "pack width vs = concat (map (\<lambda>v. le_bytes width (unat v)) vs)"

definition pack_raw :: "tensor_proto \<Rightarrow> bytes" where
  "pack_raw tp =
     (let dt = tp_data_type tp in
      if dt = 1 then pack 4 (tp_float_data tp)
      else if dt = 11 then pack 8 (tp_double_data tp)
      else if dt = 7 then pack 8 (tp_int64_data tp)
      else if dt = 12 then pack 4 (tp_uint64_data tp)
      else if dt = 13 then pack 8 (tp_uint64_data tp)
      else if dt = 6 then pack 4 (tp_int32_data tp)
      else if dt \<in> {5, 4, 10, 16} then pack 2 (tp_int32_data tp)
      else pack 1 (tp_int32_data tp))"

definition fields_in_range :: "tensor_proto \<Rightarrow> bool" where
  "fields_in_range tp \<longleftrightarrow>
     (tp_data_type tp = 9 \<longrightarrow> list_all (\<lambda>v. unat v < 256) (tp_int32_data tp)) \<and>
     (tp_data_type tp = 12 \<longrightarrow> list_all (\<lambda>v. unat v < 2 ^ 32) (tp_uint64_data tp))"

lemma le_nat_le_bytes_mod: "le_nat (le_bytes k n) = n mod 256 ^ k"
proof (induction k arbitrary: n)
  case (Suc k)
  have "n mod 256 + 256 * (n div 256 mod 256 ^ k) = n mod 256 ^ Suc k"
    by (simp add: mod_mult2_eq)
  with Suc show ?case by simp
qed simp

lemma of_le_le_bytes:
  "LENGTH('a::len) = 8 * k \<Longrightarrow> (of_le (le_bytes k n) :: 'a word) = of_nat n"
  by (simp add: of_le_def le_nat_le_bytes_mod word_unat_eq_iff unat_of_nat power_mult)

lemma elements_pack:
  assumes "LENGTH('a::len) = 8 * k" and "0 < k"
  shows "elements k (conv :: 'a word \<Rightarrow> f32) (pack k vs) = map (\<lambda>v. conv (of_nat (unat v))) vs"
proof -
  have "chunks_exact k (pack k vs) = map (\<lambda>v. le_bytes k (unat v)) vs"
    unfolding pack_def by (rule chunks_exact_concat) (use assms(2) in auto)
  then show ?thesis by (simp add: elements_def of_le_le_bytes [OF assms(1)] comp_def)
qed

lemma length_pack [simp]: "length (pack k vs) = k * length vs"
  by (induction vs) (simp_all add: pack_def)

lemma pack_Nil_iff [simp]: "pack k vs = [] \<longleftrightarrow> k = 0 \<or> vs = []"
  using length_pack [of k vs] by (metis length_0_conv mult_is_0)

lemmas raw_cases = bytes_to_f32_def dtype_size_bytes_def pack_raw_def Let_def elements_pack

lemma ucast_bool: "unat (v :: 32 word) < 256 \<Longrightarrow> ((ucast v :: 8 word) \<noteq> 0) = (v \<noteq> 0)"
  by (simp add: word_unat_eq_iff unsigned_ucast_eq take_bit_nat_eq_self)

lemma ucast_uint:
  assumes "unat (v :: 64 word) < 2 ^ 32"
  shows "uint (ucast v :: 32 word) = uint v"
proof -
  have "int (unat v) < int (2 ^ 32)" using assms by (simp only: of_nat_less_iff)
  then have "uint v < 2 ^ 32" by simp
  then show ?thesis by (simp add: unsigned_ucast_eq take_bit_int_eq_self)
qed

lemma pack_decodes:
  assumes "canonical_field half tp = Some xs" and "fields_in_range tp"
  shows "bytes_to_f32 half (pack_raw tp) (tp_data_type tp) = Inr xs \<and> pack_raw tp \<noteq> [] \<and>
    dtype_size_bytes (tp_data_type tp) \<noteq> None"
proof -
  define dt where "dt = tp_data_type tp"
  consider "dt = 1" "tp_float_data tp \<noteq> []" "xs = tp_float_data tp"
    | "dt = 11" "tp_double_data tp \<noteq> []" "xs = map f64_as_f32 (tp_double_data tp)"
    | "dt = 7" "tp_int64_data tp \<noteq> []" "xs = map (\<lambda>v. f32_of_int (sint v)) (tp_int64_data tp)"
    | "dt = 12" "tp_uint64_data tp \<noteq> []" "xs = map (\<lambda>v. f32_of_int (uint v)) (tp_uint64_data tp)"
    | "dt = 13" "tp_uint64_data tp \<noteq> []" "xs = map (\<lambda>v. f32_of_int (uint v)) (tp_uint64_data tp)"
    | "dt \<in> {6, 3, 2, 5, 4, 9, 10, 16}" "tp_int32_data tp \<noteq> []"
        "xs = map (\<lambda>v. int32_field_to_f32 half v dt) (tp_int32_data tp)"
    using assms(1) unfolding canonical_field_def Let_def dt_def [symmetric] by (auto split: if_splits)
  then show ?thesis
  proof cases
    case 6
    from 6(1) consider "dt = 6" | "dt = 3" | "dt = 2" | "dt = 5" | "dt = 4" | "dt = 9" | "dt = 10" | "dt = 16" by auto
    then show ?thesis
    proof cases
      case bool: 6
      have "map (\<lambda>v. bool_to_f32 ((ucast v :: 8 word) \<noteq> 0)) (tp_int32_data tp)
          = map (\<lambda>v. bool_to_f32 (v \<noteq> 0)) (tp_int32_data tp)"
        using assms(2) bool by (intro map_cong refl) (simp add: fields_in_range_def dt_def list_all_iff ucast_bool)
      with bool 6(2,3) show ?thesis by (simp add: raw_cases int32_field_to_f32_def dt_def [symmetric])
    qed (use 6(2,3) in \<open>simp_all add: raw_cases int32_field_to_f32_def dt_def [symmetric]\<close>)
  next
    case 4
    have "map (\<lambda>v. f32_of_int (uint (ucast v :: 32 word))) (tp_uint64_data tp)
        = map (\<lambda>v. f32_of_int (uint v)) (tp_uint64_data tp)"
      using assms(2) 4(1) by (intro map_cong refl) (simp add: fields_in_range_def dt_def list_all_iff ucast_uint)
    with 4 show ?thesis by (simp add: raw_cases dt_def [symmetric])
  qed (simp_all add: raw_cases dt_def [symmetric])
qed

text \<open>
  C40. The two encodings of a tensor's data agree: moving the values of the canonical typed
  field of any element type into little-endian \<open>raw_data\<close> changes neither the tensor nor the
  error. (Booleans must fit a byte and 32-bit unsigned values 32 bits.)
\<close>

theorem raw_data_agrees_with_typed_field:
  assumes "canonical_field half tp \<noteq> None" and "fields_in_range tp" and "tp_raw_data tp = []"
  shows "try_to_tensor half (tp\<lparr>tp_raw_data := pack_raw tp\<rparr>) = try_to_tensor half tp"
proof -
  obtain xs where xs: "canonical_field half tp = Some xs" using assms(1) by blast
  note dec = pack_decodes [OF xs assms(2)]
  have "decode_typed_fields half tp = Inr (Some xs)" using xs dec by (auto simp: decode_typed_fields_def)
  with dec assms(3) show ?thesis
    by (cases "checked_shape tp") (auto simp: try_to_tensor_def tensor_from_raw_bytes_def checked_shape_def)
qed

theorem raw_data_agrees_with_typed_field_witness:
  "\<forall>half. try_to_tensor half (tensor_default\<lparr>tp_dims := [2], tp_data_type := 7, tp_int64_data := [-1, 300],
      tp_raw_data := pack 8 [-1, 300 :: i64]\<rparr>)
   = try_to_tensor half (tensor_default\<lparr>tp_dims := [2], tp_data_type := 7, tp_int64_data := [-1, 300]\<rparr>)"
  using raw_data_agrees_with_typed_field [of _ "tensor_default\<lparr>tp_dims := [2], tp_data_type := 7, tp_int64_data := [-1, 300]\<rparr>"]
  by (simp add: canonical_field_def fields_in_range_def pack_raw_def tensor_default_def Let_def)

end
