(* ===== verification/Decimal.thy ===== *)
theory Decimal
  imports Prelude
begin

text \<open>
  What formatting gives: \<open>Display\<close> of integers, \<open>Debug\<close> of lists, and \<open>join\<close>; with the facts
  that names built from numbers rest on.
\<close>

fun show_nat :: "nat \<Rightarrow> string" where
  "show_nat n = (if n < 10 then [char_of (48 + n)] else show_nat (n div 10) @ [char_of (48 + n mod 10)])"

declare show_nat.simps [simp del]

lemma show_nat_chars: "set (show_nat n) \<subseteq> set (map (\<lambda>d. char_of (48 + d)) [0..<10])"
proof (induction n rule: show_nat.induct)
  case (1 n)
  have digit: "char_of (48 + d) \<in> set (map (\<lambda>d. char_of (48 + d)) [0..<10])" if "d < 10" for d :: nat
    using that unfolding set_map set_upt by (intro imageI) simp
  show ?case
    using 1 digit [of n] digit [of "n mod 10"] by (subst show_nat.simps) (cases "n < 10"; simp)
qed

lemma char_of_inj: "(a::nat) < 256 \<Longrightarrow> b < 256 \<Longrightarrow> char_of a = char_of b \<longleftrightarrow> a = b"
  by (metis of_char_of mod_less)

lemma underscore_no_digit: "CHR ''_'' \<notin> set (show_nat n)"
proof
  assume "CHR ''_'' \<in> set (show_nat n)"
  then have "CHR ''_'' \<in> set (map (\<lambda>d. char_of (48 + d :: nat)) [0..<10])" using show_nat_chars by blast
  then show False by code_simp
qed

lemma show_nat_nonempty [simp]: "show_nat n \<noteq> []" "[] \<noteq> show_nat n"
  by (subst show_nat.simps, simp)+

lemma show_nat_inj: "show_nat m = show_nat n \<Longrightarrow> m = n"
proof (induction m arbitrary: n rule: show_nat.induct)
  case (1 m)
  show ?case
  proof (cases "m < 10 \<or> n < 10")
    case True
    with 1(2) show ?thesis
      by (subst (asm) (1 2) show_nat.simps) (auto simp: char_of_inj split: if_splits)
  next
    case False
    with 1(2) have "show_nat (m div 10) = show_nat (n div 10)" "m mod 10 = n mod 10"
      by (subst (asm) (1 2) show_nat.simps, simp add: char_of_inj)+
    with 1(1) False have "m div 10 = n div 10" "m mod 10 = n mod 10" by auto
    then show ?thesis by (metis div_mult_mod_eq)
  qed
qed

definition show_int :: "int \<Rightarrow> string" where
  "show_int i = (if i < 0 then ''-'' @ show_nat (nat (- i)) else show_nat (nat i))"

fun join_strs :: "string \<Rightarrow> string list \<Rightarrow> string" where
  "join_strs sep [] = []"
| "join_strs sep [s] = s"
| "join_strs sep (s # ss) = s @ sep @ join_strs sep ss"

definition show_list :: "('a \<Rightarrow> string) \<Rightarrow> 'a list \<Rightarrow> string" where
  "show_list f xs = ''['' @ join_strs '', '' (map f xs) @ '']''"

text \<open>A separator that none of the parts contains can be told from them.\<close>

lemma split_at_separator:
  "c \<notin> set xs \<Longrightarrow> c \<notin> set ys \<Longrightarrow> xs @ c # us = ys @ c # vs \<Longrightarrow> xs = ys \<and> us = vs"
proof (induction xs arbitrary: ys)
  case Nil
  then show ?case by (cases ys) auto
next
  case (Cons x xs)
  then show ?case by (cases ys) auto
qed

lemma join_Cons: "join_strs sep (s # ss) = (if ss = [] then s else s @ sep @ join_strs sep ss)"
  by (cases ss) simp_all

lemma set_join: "set (join_strs sep ss) \<subseteq> set sep \<union> (\<Union>s\<in>set ss. set s)"
  by (induction ss) (auto simp: join_Cons)

lemma join_inj:
  "list_all (\<lambda>s. c \<notin> set s) ss \<Longrightarrow> list_all (\<lambda>s. c \<notin> set s) ts \<Longrightarrow> ss \<noteq> [[]] \<Longrightarrow> ts \<noteq> [[]] \<Longrightarrow>
     join_strs [c] ss = join_strs [c] ts \<Longrightarrow> ss = ts"
proof -
  have nonempty: "ss = ts" if "list_all (\<lambda>s. c \<notin> set s) ss" "list_all (\<lambda>s. c \<notin> set s) ts" "ss \<noteq> []" "ts \<noteq> []"
    "join_strs [c] ss = join_strs [c] ts" for ss ts
    using that
  proof (induction ss arbitrary: ts)
    case (Cons s ss)
    from Cons.prems(4) obtain t ts' where ts: "ts = t # ts'" by (cases ts) auto
    have c: "c \<notin> set s" "c \<notin> set t" using Cons.prems(1,2) by (simp_all add: ts)
    show ?case
    proof (cases "ss = []"; cases "ts' = []")
      assume "ss \<noteq> []" "ts' \<noteq> []"
      with Cons.prems(5) ts have "s @ c # join_strs [c] ss = t @ c # join_strs [c] ts'" by (simp add: join_Cons)
      with c have "s = t" "join_strs [c] ss = join_strs [c] ts'" using split_at_separator by metis+
      with Cons.IH [of ts'] Cons.prems(1,2) ts \<open>ss \<noteq> []\<close> \<open>ts' \<noteq> []\<close> show ?thesis by simp
    next
      assume "ss = []" "ts' \<noteq> []"
      with Cons.prems(5) ts have "s = t @ c # join_strs [c] ts'" by (simp add: join_Cons)
      with c show ?thesis by simp
    next
      assume "ss \<noteq> []" "ts' = []"
      with Cons.prems(5) ts have "t = s @ c # join_strs [c] ss" by (simp add: join_Cons)
      with c show ?thesis by simp
    qed (use Cons.prems(5) ts in simp)
  qed simp
  have Nil: "xs = [] \<or> xs = [[]]" if "join_strs [c] xs = []" for xs
    using that by (cases xs) (auto simp: join_Cons split: if_splits)
  assume *: "list_all (\<lambda>s. c \<notin> set s) ss" "list_all (\<lambda>s. c \<notin> set s) ts" "ss \<noteq> [[]]" "ts \<noteq> [[]]" "join_strs [c] ss = join_strs [c] ts"
  show "ss = ts"
  proof (cases "ss = [] \<or> ts = []")
    case True
    with * Nil [of ss] Nil [of ts] show ?thesis by auto
  next
    case False
    with * nonempty [of ss ts] show ?thesis by simp
  qed
qed

end
