(* ===== verification/Inline.thy ===== *)
theory Inline
  imports ModelMsg TensorDecode Decimal
begin

text \<open>
  Inlining of model-local functions (\<open>oxionnx-proto/src/model.rs\<close>): every node that calls
  a function of the model is replaced by the function's body, with the body's names put
  into the caller's and its attribute references resolved, to any depth and inside
  subgraphs, under a depth limit and a node budget.
\<close>

datatype load_error =
    ParseFailure wire_error
  | TensorFailure reader_error
  | ExternalNeedsPath
  | RepeatedAttribute
  | InvalidNumber
  | MissingLocation
  | UnreadableFile
  | InvalidRange
  | SubgraphTooDeep
  | ExpansionTooDeep
  | FunctionTooDeep
  | TooManyInputs
  | TooManyOutputs
  | NodeBudget
  | EmptyFunctionName
  | DuplicateFunction

section \<open>Renaming a body\<close>

definition MAX_FUNCTION_DEPTH :: nat where
  "MAX_FUNCTION_DEPTH = MAX_NESTING_DEPTH"

record renamer =
  rn_formals :: "string \<Rightarrow> string option"
  rn_prefix :: string

definition apply_name :: "renamer \<Rightarrow> string \<Rightarrow> string" where
  "apply_name rn name =
     (if name = [] then []
      else case rn_formals rn name of
        Some actual \<Rightarrow> actual
      | None \<Rightarrow> rn_prefix rn @ name)"

record attr_scope =
  sc_call_site :: "string \<Rightarrow> attribute_proto option"
  sc_defaults :: "string \<Rightarrow> attribute_proto option"

definition resolve_ref :: "attr_scope \<Rightarrow> string \<Rightarrow> (attribute_proto \<times> bool) option" where
  "resolve_ref scope ref_attr_name =
     (case sc_call_site scope ref_attr_name of
        Some found \<Rightarrow> Some (found, True)
      | None \<Rightarrow> map_option (\<lambda>found. (found, False)) (sc_defaults scope ref_attr_name))"

definition rename_value_info :: "renamer \<Rightarrow> value_info_proto \<Rightarrow> value_info_proto" where
  "rename_value_info rn vi = vi\<lparr>vi_name := apply_name rn (vi_name vi)\<rparr>"

definition rename_initializer :: "renamer \<Rightarrow> tensor_proto \<Rightarrow> tensor_proto" where
  "rename_initializer rn tp = tp\<lparr>tp_name := apply_name rn (tp_name tp)\<rparr>"

text \<open>An attribute that refers to one that is neither passed nor defaulted is dropped.\<close>

fun option_rmap :: "('a \<Rightarrow> 'e + 'b) \<Rightarrow> 'a option \<Rightarrow> 'e + 'b option" where
  "option_rmap f None = Inr None"
| "option_rmap f (Some x) = rbind (f x) (\<lambda>y. Inr (Some y))"

lemma option_rmap_cong [fundef_cong]:
  "m = m' \<Longrightarrow> (\<And>x. m' = Some x \<Longrightarrow> f x = g x) \<Longrightarrow> option_rmap f m = option_rmap g m'"
  by (cases m') auto

function rename_subgraph :: "renamer \<Rightarrow> attr_scope \<Rightarrow> nat \<Rightarrow> graph_proto \<Rightarrow> load_error + graph_proto"
  and rename_node :: "renamer \<Rightarrow> attr_scope \<Rightarrow> nat \<Rightarrow> node_proto \<Rightarrow> load_error + node_proto"
  and rename_attribute :: "renamer \<Rightarrow> attr_scope \<Rightarrow> nat \<Rightarrow> attribute_proto \<Rightarrow> load_error + attribute_proto option" where
  "rename_subgraph rn scope depth (GraphProto nodes name initializers inputs outputs iis ois vis) =
     (if depth > MAX_FUNCTION_DEPTH then Inl SubgraphTooDeep
      else rbind (rmap (rename_node rn scope (depth + 1)) nodes) (\<lambda>nodes.
        Inr (GraphProto nodes (rn_prefix rn @ name) (map (rename_initializer rn) initializers)
          (map (apply_name rn) inputs) (map (apply_name rn) outputs)
          (map (rename_value_info rn) iis) (map (rename_value_info rn) ois) (map (rename_value_info rn) vis))))"
| "rename_node rn scope depth (NodeProto inputs outputs name op_type attributes domain overload) =
     rbind (rmap (rename_attribute rn scope depth) attributes) (\<lambda>attributes.
       Inr (NodeProto (map (apply_name rn) inputs) (map (apply_name rn) outputs)
         (if name = [] then [] else rn_prefix rn @ name) op_type
         (concat (map (\<lambda>a. case a of Some a \<Rightarrow> [a] | None \<Rightarrow> []) attributes)) domain overload))"
| "rename_attribute rn scope depth attr =
     (case (if av_ref_attr_name (ap_value attr) = [] then Some (attr, False)
            else resolve_ref scope (av_ref_attr_name (ap_value attr))) of
        None \<Rightarrow> Inr None
      | Some (source, from_call_site) \<Rightarrow>
          let v = av_ref_attr_name_update (\<lambda>_. []) (ap_value source) in
          if from_call_site then Inr (Some (AttributeProto (ap_name attr) v))
          else rbind (option_rmap (rename_subgraph rn scope (depth + 1)) (av_g v)) (\<lambda>g.
               rbind (rmap (rename_subgraph rn scope (depth + 1)) (av_graphs v)) (\<lambda>graphs.
                 Inr (Some (AttributeProto (ap_name attr) (av_g_update (\<lambda>_. g) (av_graphs_update (\<lambda>_. graphs) v)))))))"
  by pat_completeness auto
termination
  by (relation "inv_image (less_than <*lex*> less_than)
    (case_sum (\<lambda>(_, _, d, _). (MAX_FUNCTION_DEPTH + 2 - d, 0::nat))
      (case_sum (\<lambda>(_, _, d, _). (MAX_FUNCTION_DEPTH + 2 - d, 2)) (\<lambda>(_, _, d, _). (MAX_FUNCTION_DEPTH + 2 - d, 1))))")
    auto

section \<open>Expanding calls\<close>

record expand_state =
  es_counter :: nat
  es_budget :: nat

definition spend :: "expand_state \<Rightarrow> load_error + expand_state" where
  "spend st = (if es_budget st = 0 then Inl NodeBudget else Inr (st\<lparr>es_budget := es_budget st - 1\<rparr>))"

type_synonym function_key = "string \<times> string \<times> string"

definition node_key :: "node_proto \<Rightarrow> function_key" where
  "node_key nd = (np_domain nd, np_op_type nd, np_overload nd)"

definition function_key :: "function_proto \<Rightarrow> function_key" where
  "function_key fn = (fp_domain fn, fp_name fn, fp_overload fn)"

definition call_prefix :: "nat \<Rightarrow> string \<Rightarrow> string" where
  "call_prefix counter name = ''__fn'' @ show_nat counter @ ''_'' @ name @ ''__''"

text \<open>The two loops that fill \<open>formals\<close>; the later insertion of a name wins.\<close>

definition call_formals :: "string \<Rightarrow> function_proto \<Rightarrow> node_proto \<Rightarrow> string \<Rightarrow> string option" where
  "call_formals prefix fn nd =
     (let formals = fold (\<lambda>(idx, formal) m. m(formal \<mapsto> if idx < length (np_inputs nd) then np_inputs nd ! idx else []))
            (enumerate 0 (fp_inputs fn)) Map.empty
      in fold (\<lambda>(idx, formal) m. m(formal \<mapsto>
             if idx < length (np_outputs nd) \<and> np_outputs nd ! idx \<noteq> [] then np_outputs nd ! idx else prefix @ formal))
           (enumerate 0 (fp_outputs fn)) formals)"

definition call_scope :: "function_proto \<Rightarrow> node_proto \<Rightarrow> attr_scope" where
  "call_scope fn nd =
     \<lparr>sc_call_site = map_of (rev (map (\<lambda>a. (ap_name a, a)) (np_attributes nd))),
      sc_defaults = map_of (rev (map (\<lambda>a. (ap_name a, a)) (fp_attribute_defaults fn)))\<rparr>"

text \<open>What a call site is replaced by, before the calls in it are expanded.\<close>

definition call_body :: "nat \<Rightarrow> function_proto \<Rightarrow> node_proto \<Rightarrow> load_error + node_proto list" where
  "call_body counter fn nd =
     (let prefix = call_prefix counter (fp_name fn);
          rn = \<lparr>rn_formals = call_formals prefix fn nd, rn_prefix = prefix\<rparr>
      in rmap (rename_node rn (call_scope fn nd) 0) (fp_nodes fn))"

definition has_subgraph :: "node_proto \<Rightarrow> bool" where
  "has_subgraph nd \<longleftrightarrow> list_ex (\<lambda>a. av_g (ap_value a) \<noteq> None \<or> av_graphs (ap_value a) \<noteq> []) (np_attributes nd)"

type_synonym library = "function_key \<Rightarrow> function_proto option"

text \<open>
  The loop of \<open>expand_nodes\<close> is the recursion over the nodes; its test of the depth, which
  does not change in the loop, is made at every node.
\<close>

function expand_nodes :: "library \<Rightarrow> nat \<Rightarrow> node_proto list \<Rightarrow> expand_state \<Rightarrow> load_error + (node_proto list \<times> expand_state)"
  and expand_node_subgraphs :: "library \<Rightarrow> nat \<Rightarrow> node_proto \<Rightarrow> expand_state \<Rightarrow> load_error + (node_proto \<times> expand_state)"
  and expand_attributes :: "library \<Rightarrow> nat \<Rightarrow> attribute_proto list \<Rightarrow> expand_state \<Rightarrow> load_error + (attribute_proto list \<times> expand_state)"
  and expand_graphs :: "library \<Rightarrow> nat \<Rightarrow> graph_proto list \<Rightarrow> expand_state \<Rightarrow> load_error + (graph_proto list \<times> expand_state)" where
  "expand_nodes lib depth nodes st =
     (if depth > MAX_FUNCTION_DEPTH then Inl ExpansionTooDeep
      else case nodes of
        [] \<Rightarrow> Inr ([], st)
      | nd # nodes \<Rightarrow>
          rbind (spend st) (\<lambda>st.
            case lib (node_key nd) of
              None \<Rightarrow>
                rbind (expand_node_subgraphs lib (depth + 1) nd st) (\<lambda>(nd, st).
                rbind (expand_nodes lib depth nodes st) (\<lambda>(out, st). Inr (nd # out, st)))
            | Some fn \<Rightarrow>
                if depth \<ge> MAX_FUNCTION_DEPTH then Inl FunctionTooDeep
                else if length (np_inputs nd) > length (fp_inputs fn) then Inl TooManyInputs
                else if length (np_outputs nd) > length (fp_outputs fn) then Inl TooManyOutputs
                else let st = st\<lparr>es_counter := es_counter st + 1\<rparr> in
                  rbind (call_body (es_counter st) fn nd) (\<lambda>body.
                  rbind (expand_nodes lib (depth + 1) body st) (\<lambda>(expanded, st).
                  rbind (expand_nodes lib depth nodes st) (\<lambda>(out, st). Inr (expanded @ out, st))))))"
| "expand_node_subgraphs lib depth nd st =
     (if \<not> has_subgraph nd then Inr (nd, st)
      else rbind (expand_attributes lib depth (np_attributes nd) st) (\<lambda>(attributes, st).
        Inr (np_attributes_update (\<lambda>_. attributes) nd, st)))"
| "expand_attributes lib depth attributes st =
     (case attributes of
        [] \<Rightarrow> Inr ([], st)
      | attr # attributes \<Rightarrow>
          rbind (case av_g (ap_value attr) of
              None \<Rightarrow> Inr (None, st)
            | Some sub \<Rightarrow> rbind (expand_nodes lib depth (gp_nodes sub) st) (\<lambda>(nodes, st).
                Inr (Some (gp_nodes_update (\<lambda>_. nodes) sub), st))) (\<lambda>(g, st).
          rbind (expand_graphs lib depth (av_graphs (ap_value attr)) st) (\<lambda>(graphs, st).
          rbind (expand_attributes lib depth attributes st) (\<lambda>(attributes, st).
            Inr (AttributeProto (ap_name attr) (av_g_update (\<lambda>_. g) (av_graphs_update (\<lambda>_. graphs) (ap_value attr)))
              # attributes, st)))))"
| "expand_graphs lib depth graphs st =
     (case graphs of
        [] \<Rightarrow> Inr ([], st)
      | sub # graphs \<Rightarrow>
          rbind (expand_nodes lib depth (gp_nodes sub) st) (\<lambda>(nodes, st).
          rbind (expand_graphs lib depth graphs st) (\<lambda>(graphs, st).
            Inr (gp_nodes_update (\<lambda>_. nodes) sub # graphs, st))))"
  by pat_completeness auto
termination
  by (relation "inv_image (less_than <*lex*> less_than <*lex*> less_than)
    (case_sum
      (case_sum (\<lambda>(_, d, xs, _). (MAX_FUNCTION_DEPTH + 1 - d, 0::nat, length xs))
        (\<lambda>(_, d, _, _). (MAX_FUNCTION_DEPTH + 1 - d, 3, 0::nat)))
      (case_sum (\<lambda>(_, d, xs, _). (MAX_FUNCTION_DEPTH + 1 - d, 2, length xs))
        (\<lambda>(_, d, xs, _). (MAX_FUNCTION_DEPTH + 1 - d, 1, length xs))))")
    auto

declare expand_nodes.simps [simp del] expand_node_subgraphs.simps [simp del] expand_attributes.simps [simp del]
  expand_graphs.simps [simp del]

section \<open>The pass\<close>

fun build_library :: "function_proto list \<Rightarrow> library \<Rightarrow> load_error + library" where
  "build_library [] lib = Inr lib"
| "build_library (fn # fns) lib =
     (if fp_name fn = [] then Inl EmptyFunctionName
      else if lib (function_key fn) \<noteq> None then Inl DuplicateFunction
      else build_library fns (lib(function_key fn \<mapsto> fn)))"

definition node_budget :: "nat \<Rightarrow> nat" where
  "node_budget node_count =
     max (max 100000 (min 16000000 (saturating_mul node_count 4096))) (saturating_mul node_count 4)"

definition inline_local_functions :: "graph_proto \<Rightarrow> function_proto list \<Rightarrow> load_error + graph_proto" where
  "inline_local_functions g fns =
     (if fns = [] then Inr g
      else rbind (build_library fns Map.empty) (\<lambda>library.
           rbind (expand_nodes library 0 (gp_nodes g) \<lparr>es_counter = 0, es_budget = node_budget (length (gp_nodes g))\<rparr>)
             (\<lambda>(nodes, _). Inr (gp_nodes_update (\<lambda>_. nodes) g))))"

end
