(* ===== verification/OpKinds.thy ===== *)
theory OpKinds
  imports Prelude
begin

text \<open>
  Operator kinds (\<open>enum OpKind\<close>, \<open>OpKind::parse\<close> and \<open>OpKind::as_str\<close> of
  \<open>oxionnx-core/src/graph.rs\<close>). A kind is represented by the string \<open>as_str\<close> gives, so
  parsing an operator name is replacing an alias by that string; every other name stands
  for itself, a name outside \<open>known_ops\<close> for the kind \<open>Unknown\<close> of that name.
\<close>

text \<open>The names \<open>as_str\<close> has for the kinds other than \<open>Unknown\<close>, in its order.\<close>

definition known_ops :: "string list" where
  "known_ops =
    [''MatMul'', ''Gemm'', ''Add'', ''Sub'', ''Mul'', ''Div'', ''Pow'', ''Sqrt'',
     ''Reciprocal'', ''Neg'', ''ReduceMean'', ''ReduceSum'', ''ReduceMax'', ''ReduceMin'',
     ''ReduceProd'', ''ArgMax'', ''ArgMin'', ''CumSum'', ''Range'', ''TopK'', ''Softmax'',
     ''LayerNormalization'', ''GroupNormalization'', ''BatchNormalization'', ''Gelu'',
     ''Relu'', ''Sigmoid'', ''Tanh'', ''Erf'', ''SiLU'', ''HardSigmoid'', ''HardSwish'',
     ''SimplifiedLayerNormalization'', ''Reshape'', ''Transpose'', ''Squeeze'', ''Unsqueeze'',
     ''Flatten'', ''Concat'', ''Slice'', ''Expand'', ''Split'', ''Tile'', ''Gather'',
     ''GatherElements'', ''Where'', ''ScatterElements'', ''ScatterND'', ''Conv'', ''MaxPool'',
     ''AveragePool'', ''Pad'', ''LeakyRelu'', ''PRelu'', ''Resize'', ''GlobalAveragePool'',
     ''GlobalMaxPool'', ''QuantizeLinear'', ''DequantizeLinear'', ''QLinearConv'',
     ''QLinearMatMul'', ''MatMulInteger'', ''ConvInteger'', ''DynamicQuantizeLinear'',
     ''Identity'', ''Cast'', ''Shape'', ''Constant'', ''Clip'', ''Abs'', ''Log'', ''Exp'',
     ''Ceil'', ''Floor'', ''Round'', ''Sign'', ''Mod'', ''BitShift'', ''Sin'', ''Cos'',
     ''Tan'', ''Asin'', ''Acos'', ''Atan'', ''Sinh'', ''Cosh'', ''Asinh'', ''Acosh'',
     ''Atanh'', ''Min'', ''Max'', ''Mean'', ''Sum'', ''Equal'', ''Greater'',
     ''GreaterOrEqual'', ''Less'', ''LessOrEqual'', ''And'', ''Or'', ''Xor'', ''Not'',
     ''IsInf'', ''IsNaN'', ''NonZero'', ''ConstantOfShape'', ''EyeLike'', ''Trilu'',
     ''LogSoftmax'', ''Softplus'', ''Softsign'', ''Mish'', ''Celu'', ''Elu'', ''Selu'',
     ''ThresholdedRelu'', ''InstanceNormalization'', ''LpNormalization'',
     ''MeanVarianceNormalization'', ''Dropout'', ''DepthToSpace'', ''SpaceToDepth'',
     ''ReverseSequence'', ''GatherND'', ''OneHot'', ''Compress'', ''Unique'', ''Einsum'',
     ''ConvTranspose'', ''NonMaxSuppression'', ''LSTM'', ''GRU'', ''RNN'', ''Attention'',
     ''MultiHeadAttention'', ''RotaryEmbedding'', ''GridSample'', ''RoiAlign'', ''If'',
     ''Loop'', ''Scan'', ''LinearClassifier'', ''LinearRegressor'', ''Normalizer'', ''Scaler'',
     ''LabelEncoder'', ''TreeEnsembleClassifier'', ''TreeEnsembleRegressor'',
     ''SVMClassifier'', ''SVMRegressor'', ''TfIdfVectorizer'', ''StringNormalizer'', ''DFT'',
     ''STFT'', ''BlackmanWindow'', ''HannWindow'', ''HammingWindow'', ''MelWeightMatrix'',
     ''Bernoulli'', ''ReduceL1'', ''ReduceL2'', ''ReduceLogSum'', ''ReduceLogSumExp'',
     ''ReduceSumSquare'', ''BitwiseAnd'', ''BitwiseOr'', ''BitwiseXor'', ''BitwiseNot'',
     ''Size'', ''Hardmax'', ''Shrink'', ''LRN'', ''LpPool'', ''GlobalLpPool'', ''MaxUnpool'',
     ''MaxRoiPool'', ''Upsample'', ''CastLike'', ''Det'', ''Col2Im'', ''CenterCropPad'',
     ''RandomNormal'', ''RandomUniform'', ''RandomNormalLike'', ''RandomUniformLike'',
     ''Multinomial'', ''NegativeLogLikelihoodLoss'', ''SoftmaxCrossEntropyLoss'',
     ''ConvAddRelu'', ''OxiInstanceNorm'']"

text \<open>The names \<open>parse\<close> accepts besides the kind's own, with the kind they give.\<close>

definition op_aliases :: "(string \<times> string) list" where
  "op_aliases =
    [(''LayerNorm'', ''LayerNormalization''), (''GroupNorm'', ''GroupNormalization''),
     (''Silu'', ''SiLU''), (''RMSNorm'', ''SimplifiedLayerNormalization''),
     (''CeLU'', ''Celu''), (''ai.onnx.ml.LinearClassifier'', ''LinearClassifier''),
     (''ai.onnx.ml.LinearRegressor'', ''LinearRegressor''),
     (''ai.onnx.ml.Normalizer'', ''Normalizer''), (''ai.onnx.ml.Scaler'', ''Scaler''),
     (''ai.onnx.ml.LabelEncoder'', ''LabelEncoder''),
     (''ai.onnx.ml.TreeEnsembleClassifier'', ''TreeEnsembleClassifier''),
     (''ai.onnx.ml.TreeEnsembleRegressor'', ''TreeEnsembleRegressor''),
     (''ai.onnx.ml.SVMClassifier'', ''SVMClassifier''),
     (''ai.onnx.ml.SVMRegressor'', ''SVMRegressor''),
     (''ai.onnx.ml.TfIdfVectorizer'', ''TfIdfVectorizer''),
     (''ai.onnx.ml.StringNormalizer'', ''StringNormalizer'')]"

definition op_parse :: "string \<Rightarrow> string" where
  "op_parse s = (case map_of op_aliases s of Some name \<Rightarrow> name | None \<Rightarrow> s)"

text \<open>\<open>matches!(op, OpKind::Unknown(_))\<close>\<close>

definition is_unknown :: "string \<Rightarrow> bool" where
  "is_unknown op \<longleftrightarrow> op \<notin> set known_ops"

lemma aliases_canonical: "list_all (\<lambda>p. \<not> list_ex (\<lambda>q. fst q = snd p) op_aliases) op_aliases"
  by code_simp

lemma op_parse_idem [simp]: "op_parse (op_parse s) = op_parse s"
proof (cases "map_of op_aliases s")
  case (Some name)
  then have "(s, name) \<in> set op_aliases" by (rule map_of_SomeD)
  with aliases_canonical have "\<not> list_ex (\<lambda>q. fst q = name) op_aliases"
    by (fastforce simp: list_all_iff)
  then have "map_of op_aliases name = None"
    by (auto simp: map_of_eq_None_iff list_ex_iff)
  with Some show ?thesis by (simp add: op_parse_def)
qed (simp add: op_parse_def)

end
