(* ===== verification/ModelBuild.thy ===== *)
theory ModelBuild
  imports Inline OpKinds "HOL-Library.AList"
begin

text \<open>
  From the bytes of a model to the runtime graph and its weights
  (\<open>oxionnx-proto/src/model.rs\<close>, with the external-data helpers of \<open>reader.rs\<close>): parsing,
  inlining, the initializers, the conversion of nodes and attributes with their subgraphs,
  and tensor data in files beside the model. The hash maps of an \<open>Attributes\<close> are lists of
  entries in order of insertion. The file system is an argument: what \<open>canonicalize\<close> and
  \<open>read\<close> answer. Paths are those of Unix.
\<close>

section \<open>Paths\<close>

datatype path_component = RootDir | CurDir | ParentDir | Normal string

fun split_at :: "(char \<Rightarrow> bool) \<Rightarrow> string \<Rightarrow> string list" where
  "split_at sep [] = [[]]"
| "split_at sep (c # cs) =
     (if sep c then [] # split_at sep cs
      else case split_at sep cs of [] \<Rightarrow> [[c]] | s # ss \<Rightarrow> (c # s) # ss)"

text \<open>\<open>Path::components\<close>: repeated separators and inner \<open>.\<close> are dropped.\<close>

definition components :: "string \<Rightarrow> path_component list" where
  "components path =
     (let segs = split_at (\<lambda>c. c = CHR ''/'') path;
          named = map (\<lambda>s. if s = ''..'' then ParentDir else Normal s) (filter (\<lambda>s. s \<noteq> [] \<and> s \<noteq> ''.'') segs)
      in case path of
        [] \<Rightarrow> []
      | c # _ \<Rightarrow> if c = CHR ''/'' then RootDir # named
                else if hd segs = ''.'' then CurDir # named else named)"

text \<open>\<open>Path::starts_with\<close> compares whole components; \<open>Path::join\<close> with a relative path.\<close>

definition starts_with :: "string \<Rightarrow> string \<Rightarrow> bool" where
  "starts_with path base \<longleftrightarrow> take (length (components base)) (components path) = components base"

definition join :: "string \<Rightarrow> string \<Rightarrow> string" where
  "join base relative = (if base \<noteq> [] \<and> last base \<noteq> CHR ''/'' then base @ ''/'' @ relative else base @ relative)"

record file_system =
  fs_canonicalize :: "string \<Rightarrow> string option"
  fs_read :: "string \<Rightarrow> bytes option"

definition resolve_external_path :: "file_system \<Rightarrow> string \<Rightarrow> string \<Rightarrow> reader_error + string" where
  "resolve_external_path fs base_dir location =
     (if location = [] then Inl InvalidExternalLocation
      else if hd location = CHR ''/'' \<or> hd location = CHR 0x5C then Inl InvalidExternalLocation
      else if ''..'' \<in> set (split_at (\<lambda>c. c = CHR ''/'' \<or> c = CHR 0x5C) location) then Inl InvalidExternalLocation
      else if list_ex (\<lambda>c. c = ParentDir \<or> c = RootDir) (components location) then Inl InvalidExternalLocation
      else case fs_canonicalize fs (if base_dir = [] then ''.'' else base_dir) of
        None \<Rightarrow> Inl Io
      | Some base_canonical \<Rightarrow>
          (case fs_canonicalize fs (join base_canonical location) of
             None \<Rightarrow> Inl Io
           | Some resolved \<Rightarrow>
               if \<not> starts_with resolved base_canonical then Inl InvalidExternalLocation else Inr resolved))"

section \<open>External tensor data\<close>

definition is_external :: "tensor_proto \<Rightarrow> bool" where
  "is_external tp \<longleftrightarrow> tp_data_location tp = 1 \<or> tp_external_data tp \<noteq> []"

text \<open>\<open>str::parse::<u64>\<close>: digits after an optional \<open>+\<close>, no overflow.\<close>

definition digit :: "char \<Rightarrow> nat option" where
  "digit c = (if 48 \<le> (of_char c :: nat) \<and> (of_char c :: nat) \<le> 57 then Some (of_char c - 48) else None)"

fun parse_digits :: "string \<Rightarrow> nat \<Rightarrow> nat option" where
  "parse_digits [] n = Some n"
| "parse_digits (c # cs) n =
     (case digit c of
        None \<Rightarrow> None
      | Some d \<Rightarrow> if n * 10 + d < 2 ^ 64 then parse_digits cs (n * 10 + d) else None)"

definition parse_u64 :: "string \<Rightarrow> nat option" where
  "parse_u64 s =
     (let ds = (case s of c # cs \<Rightarrow> if c = CHR ''+'' then cs else s | [] \<Rightarrow> [])
      in if ds = [] then None else parse_digits ds 0)"

record external_range =
  er_location :: "string option"
  er_offset :: nat
  er_length :: "nat option"

text \<open>The loop over \<open>external_data\<close>: later entries win, unknown keys are ignored.\<close>

fun external_entries :: "(string \<times> string) list \<Rightarrow> external_range \<Rightarrow> load_error + external_range" where
  "external_entries [] er = Inr er"
| "external_entries ((key, value) # entries) er =
     (if key = ''location'' then external_entries entries (er\<lparr>er_location := Some value\<rparr>)
      else if key = ''offset'' then
        (case parse_u64 value of None \<Rightarrow> Inl InvalidNumber
         | Some n \<Rightarrow> external_entries entries (er\<lparr>er_offset := n\<rparr>))
      else if key = ''length'' then
        (case parse_u64 value of None \<Rightarrow> Inl InvalidNumber
         | Some n \<Rightarrow> external_entries entries (er\<lparr>er_length := Some n\<rparr>))
      else external_entries entries er)"

definition of_reader :: "reader_error + 'a \<Rightarrow> load_error + 'a" where
  "of_reader r = (case r of Inl e \<Rightarrow> Inl (TensorFailure e) | Inr x \<Rightarrow> Inr x)"

text \<open>The byte range of the file, with its checks, and its decoding.\<close>

definition decode_range :: "half_crate \<Rightarrow> tensor_proto \<Rightarrow> external_range \<Rightarrow> bytes \<Rightarrow> load_error + tensor" where
  "decode_range half tp er file_data =
     (let start = er_offset er;
          stop = (case er_length er of Some len \<Rightarrow> checked_add start len | None \<Rightarrow> Some (length file_data))
      in case stop of
        None \<Rightarrow> Inl InvalidRange
      | Some stop \<Rightarrow>
          if start > stop \<or> stop > length file_data then Inl InvalidRange
          else of_reader (tensor_from_raw_bytes half tp (take (stop - start) (drop start file_data))))"

definition load_external_tensor :: "half_crate \<Rightarrow> file_system \<Rightarrow> tensor_proto \<Rightarrow> string \<Rightarrow> load_error + tensor" where
  "load_external_tensor half fs tp base_path =
     rbind (external_entries (tp_external_data tp) \<lparr>er_location = None, er_offset = 0, er_length = None\<rparr>) (\<lambda>er.
       case er_location er of
         None \<Rightarrow> Inl MissingLocation
       | Some location \<Rightarrow>
           rbind (of_reader (resolve_external_path fs base_path location)) (\<lambda>file_path.
             case fs_read fs file_path of
               None \<Rightarrow> Inl UnreadableFile
             | Some file_data \<Rightarrow> decode_range half tp er file_data))"

definition decode_tensor_proto :: "half_crate \<Rightarrow> tensor_proto \<Rightarrow> load_error + tensor" where
  "decode_tensor_proto half tp = of_reader (try_to_tensor half tp)"

definition decode_tensor_proto_ext ::
  "half_crate \<Rightarrow> file_system \<Rightarrow> tensor_proto \<Rightarrow> string option \<Rightarrow> load_error + tensor" where
  "decode_tensor_proto_ext half fs tp base_path =
     (if is_external tp then
        (case base_path of
           Some base \<Rightarrow> load_external_tensor half fs tp base
         | None \<Rightarrow> Inl ExternalNeedsPath)
      else decode_tensor_proto half tp)"

text \<open>Reading single fields of an attribute list or of the \<open>external_data\<close>.\<close>

definition external_entry :: "tensor_proto \<Rightarrow> string \<Rightarrow> string option" where
  "external_entry tp key = map_option snd (find (\<lambda>(k, _). k = key) (tp_external_data tp))"

definition typed_attr :: "(attribute_value \<Rightarrow> 'a) \<Rightarrow> i32 \<Rightarrow> attribute_proto list \<Rightarrow> string \<Rightarrow> 'a option" where
  "typed_attr field ty attrs name =
     Option.bind (find (\<lambda>a. ap_name a = name) attrs)
       (\<lambda>a. if av_attr_type (ap_value a) = ty then Some (field (ap_value a)) else None)"

definition attr_int :: "attribute_proto list \<Rightarrow> string \<Rightarrow> i64 option" where
  "attr_int = typed_attr av_i 2"

definition attr_float :: "attribute_proto list \<Rightarrow> string \<Rightarrow> f32 option" where
  "attr_float = typed_attr av_f 1"

definition attr_string :: "attribute_proto list \<Rightarrow> string \<Rightarrow> string option" where
  "attr_string = typed_attr av_s 3"

definition attr_ints_of :: "attribute_proto list \<Rightarrow> string \<Rightarrow> i64 list option" where
  "attr_ints_of = typed_attr av_ints 7"

section \<open>Attributes, nodes and graphs\<close>

primrec put_float :: "string \<Rightarrow> f32 \<Rightarrow> attributes \<Rightarrow> attributes" where
  "put_float k x (Attributes fs is ss ts fls ils sls gs) = Attributes (AList.update k x fs) is ss ts fls ils sls gs"

primrec put_int :: "string \<Rightarrow> i64 \<Rightarrow> attributes \<Rightarrow> attributes" where
  "put_int k x (Attributes fs is ss ts fls ils sls gs) = Attributes fs (AList.update k x is) ss ts fls ils sls gs"

primrec put_string :: "string \<Rightarrow> string \<Rightarrow> attributes \<Rightarrow> attributes" where
  "put_string k x (Attributes fs is ss ts fls ils sls gs) = Attributes fs is (AList.update k x ss) ts fls ils sls gs"

primrec put_tensor :: "string \<Rightarrow> tensor \<Rightarrow> attributes \<Rightarrow> attributes" where
  "put_tensor k x (Attributes fs is ss ts fls ils sls gs) = Attributes fs is ss (AList.update k x ts) fls ils sls gs"

primrec put_float_list :: "string \<Rightarrow> f32 list \<Rightarrow> attributes \<Rightarrow> attributes" where
  "put_float_list k x (Attributes fs is ss ts fls ils sls gs) = Attributes fs is ss ts (AList.update k x fls) ils sls gs"

primrec put_int_list :: "string \<Rightarrow> i64 list \<Rightarrow> attributes \<Rightarrow> attributes" where
  "put_int_list k x (Attributes fs is ss ts fls ils sls gs) = Attributes fs is ss ts fls (AList.update k x ils) sls gs"

primrec put_string_list :: "string \<Rightarrow> string list \<Rightarrow> attributes \<Rightarrow> attributes" where
  "put_string_list k x (Attributes fs is ss ts fls ils sls gs) = Attributes fs is ss ts fls ils (AList.update k x sls) gs"

primrec put_graph :: "string \<Rightarrow> graph \<Rightarrow> attributes \<Rightarrow> attributes" where
  "put_graph k x (Attributes fs is ss ts fls ils sls gs) = Attributes fs is ss ts fls ils sls (AList.update k x gs)"

text \<open>The arms of the dispatch on \<open>attr_type\<close>.\<close>

definition convert_tensor ::
  "half_crate \<Rightarrow> file_system \<Rightarrow> string option \<Rightarrow> string \<Rightarrow> tensor_proto option \<Rightarrow> attributes \<Rightarrow> load_error + attributes" where
  "convert_tensor half fs base_path name t a =
     (case t of
        None \<Rightarrow> Inr a
      | Some tp \<Rightarrow> rbind (decode_tensor_proto_ext half fs tp base_path) (\<lambda>t. Inr (put_tensor name t a)))"

definition infer_untyped ::
  "half_crate \<Rightarrow> file_system \<Rightarrow> string option \<Rightarrow> string \<Rightarrow> attribute_value \<Rightarrow> attributes \<Rightarrow> load_error + attributes" where
  "infer_untyped half fs base_path name v a =
     (let a = (if av_f v \<noteq> 0 \<and> av_f v \<noteq> 0x80000000 then put_float name (av_f v) a else a);
          a = (if av_i v \<noteq> 0 then put_int name (av_i v) a else a);
          a = (if av_s v \<noteq> [] then put_string name (av_s v) a else a);
          a = (if av_floats v \<noteq> [] then put_float_list name (av_floats v) a else a);
          a = (if av_ints v \<noteq> [] then put_int_list name (av_ints v) a else a);
          a = (if av_strings v \<noteq> [] then put_string_list name (av_strings v) a else a)
      in convert_tensor half fs base_path name (av_t v) a)"

definition convert_by_type ::
  "half_crate \<Rightarrow> file_system \<Rightarrow> string option \<Rightarrow> string \<Rightarrow> attribute_value \<Rightarrow> attributes \<Rightarrow> load_error + attributes" where
  "convert_by_type half fs base_path name v a =
     (let ty = av_attr_type v in
      if ty = 1 then Inr (put_float name (av_f v) a)
      else if ty = 2 then Inr (put_int name (av_i v) a)
      else if ty = 3 then Inr (put_string name (av_s v) a)
      else if ty = 4 then convert_tensor half fs base_path name (av_t v) a
      else if ty = 6 then Inr (put_float_list name (av_floats v) a)
      else if ty = 7 then Inr (put_int_list name (av_ints v) a)
      else if ty = 8 then Inr (put_string_list name (av_strings v) a)
      else if ty = 0 then infer_untyped half fs base_path name v a
      else Inr a)"

text \<open>The node synthesized for an initializer of a subgraph.\<close>

definition constant_node ::
  "half_crate \<Rightarrow> file_system \<Rightarrow> string option \<Rightarrow> tensor_proto \<Rightarrow> load_error + node" where
  "constant_node half fs base_path init =
     rbind (decode_tensor_proto_ext half fs init base_path) (\<lambda>t.
       Inr (Node ''Constant'' (''__const_'' @ tp_name init) [] [tp_name init] (put_tensor ''value'' t no_attrs)))"

definition assemble_graph :: "tensor_map \<Rightarrow> graph_proto \<Rightarrow> node list \<Rightarrow> graph" where
  "assemble_graph weights gp nodes =
     Graph (gp_name gp) nodes (filter (\<lambda>name. weights name = None) (gp_inputs gp)) (gp_outputs gp)
       (map to_tensor_info (gp_input_value_infos gp)) (map to_tensor_info (gp_output_value_infos gp))"

definition add_constants :: "graph_proto \<Rightarrow> node list \<Rightarrow> graph \<Rightarrow> graph" where
  "add_constants gp const_nodes g =
     (let local_init_names = map tp_name (gp_initializers gp) in
      Graph (g_name g) (const_nodes @ g_nodes g) (filter (\<lambda>n. n \<notin> set local_init_names) (g_input_names g))
        (g_output_names g) (filter (\<lambda>vi. in_name vi \<notin> set local_init_names) (g_input_infos g)) (g_output_infos g))"

lemma node_smaller: "np \<in> set (gp_nodes gp) \<Longrightarrow> size np < size gp"
  by (cases gp) (auto dest: size_list_estimation' [OF _ order_refl, where f = size])

lemma attributes_smaller: "size_list size (np_attributes np) < size np"
  by (cases np) simp

lemma subgraph_smaller:
  "av_g (ap_value a) = Some gp \<Longrightarrow> size gp < size a"
  "av_graphs (ap_value a) \<noteq> [] \<Longrightarrow> size (av_graphs (ap_value a) ! 0) < size a"
proof -
  show "av_g (ap_value a) = Some gp \<Longrightarrow> size gp < size a"
    by (cases a; cases "ap_value a") auto
  assume some: "av_graphs (ap_value a) \<noteq> []"
  have "size (av_graphs (ap_value a) ! 0) \<le> size_list size (av_graphs (ap_value a))"
    by (rule size_list_estimation' [OF nth_mem order_refl]) (use some in simp)
  also have "\<dots> < size a" by (cases a; cases "ap_value a") simp
  finally show "size (av_graphs (ap_value a) ! 0) < size a" .
qed

function build_graph_impl ::
    "half_crate \<Rightarrow> file_system \<Rightarrow> tensor_map \<Rightarrow> string option \<Rightarrow> graph_proto \<Rightarrow> load_error + graph"
  and build_node :: "half_crate \<Rightarrow> file_system \<Rightarrow> tensor_map \<Rightarrow> string option \<Rightarrow> node_proto \<Rightarrow> load_error + node"
  and build_subgraph :: "half_crate \<Rightarrow> file_system \<Rightarrow> tensor_map \<Rightarrow> string option \<Rightarrow> graph_proto \<Rightarrow> load_error + graph"
  and convert_attributes ::
    "half_crate \<Rightarrow> file_system \<Rightarrow> tensor_map \<Rightarrow> string option \<Rightarrow> attribute_proto list \<Rightarrow> attributes \<Rightarrow> load_error + attributes"
  and convert_attribute ::
    "half_crate \<Rightarrow> file_system \<Rightarrow> tensor_map \<Rightarrow> string option \<Rightarrow> attribute_proto \<Rightarrow> attributes \<Rightarrow> load_error + attributes" where
  "build_graph_impl half fs weights base_path gp =
     rbind (rmap (build_node half fs weights base_path) (gp_nodes gp)) (\<lambda>nodes. Inr (assemble_graph weights gp nodes))"
| "build_node half fs weights base_path np =
     rbind (convert_attributes half fs weights base_path (np_attributes np) no_attrs) (\<lambda>attrs.
       Inr (Node (op_parse (np_op_type np)) (np_name np) (np_inputs np) (np_outputs np) attrs))"
| "build_subgraph half fs weights base_path gp =
     rbind (build_graph_impl half fs weights base_path gp) (\<lambda>g.
     rbind (rmap (constant_node half fs base_path) (gp_initializers gp)) (\<lambda>const_nodes.
       Inr (add_constants gp const_nodes g)))"
| "convert_attributes half fs weights base_path attrs a =
     (case attrs of
        [] \<Rightarrow> Inr a
      | attr # attrs \<Rightarrow>
          rbind (convert_attribute half fs weights base_path attr a) (\<lambda>a. convert_attributes half fs weights base_path attrs a))"
| "convert_attribute half fs weights base_path attr a =
     (let name = ap_name attr; v = ap_value attr in
      case av_g v of
        Some gp \<Rightarrow> rbind (build_subgraph half fs weights base_path gp) (\<lambda>g. Inr (put_graph name g a))
      | None \<Rightarrow>
          if av_graphs v \<noteq> [] then
            (if length (av_graphs v) > 1 then Inl RepeatedAttribute
             else rbind (build_subgraph half fs weights base_path (av_graphs v ! 0)) (\<lambda>g. Inr (put_graph name g a)))
          else if av_tensors v \<noteq> [] then
            (if length (av_tensors v) > 1 then Inl RepeatedAttribute
             else rbind (decode_tensor_proto_ext half fs (av_tensors v ! 0) base_path) (\<lambda>t. Inr (put_tensor name t a)))
          else convert_by_type half fs base_path name v a)"
  by pat_completeness auto
termination
  by (relation "inv_image (less_than <*lex*> less_than)
    (case_sum
      (case_sum (\<lambda>(_, _, _, _, gp). (size gp, 0::nat)) (\<lambda>(_, _, _, _, np). (size np, 0)))
      (case_sum (\<lambda>(_, _, _, _, gp). (size gp, 1))
        (case_sum (\<lambda>(_, _, _, _, attrs, _). (size_list size attrs, 0)) (\<lambda>(_, _, _, _, attr, _). (size attr, 0)))))")
    (auto simp: attributes_smaller trans_less_add1 dest: node_smaller subgraph_smaller)

declare build_graph_impl.simps [simp del] build_node.simps [simp del] build_subgraph.simps [simp del]
  convert_attributes.simps [simp del] convert_attribute.simps [simp del]

section \<open>Loading\<close>

record raw_model_meta =
  mm_producer_name :: string
  mm_producer_version :: string
  mm_domain :: string
  mm_graph_name :: string
  mm_ir_version :: i64
  mm_opset_imports :: "(string \<times> i64) list"
  mm_metadata_props :: "(string \<times> string) list"

definition model_meta :: "model_proto \<Rightarrow> raw_model_meta" where
  "model_meta m =
     \<lparr>mm_producer_name = mp_producer_name m, mm_producer_version = mp_producer_version m, mm_domain = mp_domain m,
      mm_graph_name = gp_name (mp_graph m), mm_ir_version = mp_ir_version m,
      mm_opset_imports = map (\<lambda>i. (oi_domain i, oi_version i)) (mp_opset_imports m),
      mm_metadata_props = mp_metadata_props m\<rparr>"

fun collect_weights :: "(tensor_proto \<Rightarrow> load_error + tensor) \<Rightarrow> tensor_proto list \<Rightarrow> tensor_map \<Rightarrow> load_error + tensor_map" where
  "collect_weights dec [] weights = Inr weights"
| "collect_weights dec (init # inits) weights =
     rbind (dec init) (\<lambda>t. collect_weights dec inits (weights(tp_name init \<mapsto> t)))"

definition parse_and_inline :: "bytes \<Rightarrow> load_error + raw_model_meta \<times> graph_proto" where
  "parse_and_inline bs =
     (case parse_model bs of
        Inl e \<Rightarrow> Inl (ParseFailure e)
      | Inr model \<Rightarrow> rbind (inline_local_functions (mp_graph model) (mp_functions model)) (\<lambda>gp. Inr (model_meta model, gp)))"

text \<open>Without a base path no file is looked at; \<open>no_files\<close> stands where none is needed.\<close>

definition no_files :: file_system where
  "no_files = \<lparr>fs_canonicalize = (\<lambda>_. None), fs_read = (\<lambda>_. None)\<rparr>"

definition build_graph :: "half_crate \<Rightarrow> graph_proto \<Rightarrow> tensor_map \<Rightarrow> load_error + graph" where
  "build_graph half gp weights = build_graph_impl half no_files weights None gp"

definition build_graph_and_weights ::
  "half_crate \<Rightarrow> file_system \<Rightarrow> graph_proto \<Rightarrow> tensor_map \<Rightarrow> string option \<Rightarrow> load_error + graph \<times> tensor_map" where
  "build_graph_and_weights half fs gp weights base_path =
     rbind (build_graph_impl half fs weights base_path gp) (\<lambda>g. Inr (g, weights))"

definition load_with_metadata :: "half_crate \<Rightarrow> bytes \<Rightarrow> load_error + raw_model_meta \<times> graph \<times> tensor_map" where
  "load_with_metadata half bs =
     rbind (parse_and_inline bs) (\<lambda>(meta, gp).
     rbind (collect_weights (\<lambda>init. if is_external init then Inl ExternalNeedsPath else decode_tensor_proto half init)
       (gp_initializers gp) Map.empty) (\<lambda>weights.
     rbind (build_graph_and_weights half no_files gp weights None) (\<lambda>(g, weights). Inr (meta, g, weights))))"

definition load_with_metadata_and_path ::
  "half_crate \<Rightarrow> file_system \<Rightarrow> bytes \<Rightarrow> string \<Rightarrow> load_error + raw_model_meta \<times> graph \<times> tensor_map" where
  "load_with_metadata_and_path half fs bs base_path =
     rbind (parse_and_inline bs) (\<lambda>(meta, gp).
     rbind (collect_weights (\<lambda>init. if is_external init then load_external_tensor half fs init base_path else decode_tensor_proto half init)
       (gp_initializers gp) Map.empty) (\<lambda>weights.
     rbind (build_graph_and_weights half fs gp weights (Some base_path)) (\<lambda>(g, weights). Inr (meta, g, weights))))"

definition load :: "half_crate \<Rightarrow> bytes \<Rightarrow> load_error + graph \<times> tensor_map" where
  "load half bs = rbind (load_with_metadata half bs) (\<lambda>(_, g, weights). Inr (g, weights))"

definition load_with_path :: "half_crate \<Rightarrow> file_system \<Rightarrow> bytes \<Rightarrow> string \<Rightarrow> load_error + graph \<times> tensor_map" where
  "load_with_path half fs bs base_path =
     rbind (load_with_metadata_and_path half fs bs base_path) (\<lambda>(_, g, weights). Inr (g, weights))"

definition extract_training_info :: "bytes \<Rightarrow> load_error + training_info list" where
  "extract_training_info bs =
     (case parse_model bs of Inl e \<Rightarrow> Inl (ParseFailure e) | Inr model \<Rightarrow> Inr (mp_training_info model))"

end
