(* ===== verification/MessageEncode.thy ===== *)
theory MessageEncode
  imports ModelMsg
begin

text \<open>
  The ONNX messages as protobuf fields: the abstract contract of the parsers. Each
  message has an encoding as a list of fields, repeated numbers packed or not, and
  each parser is proved to invert it. For graphs the contract has the nesting bound:
  a graph whose subgraphs nest deeper than \<open>MAX_NESTING_DEPTH\<close> is refused.
\<close>

section \<open>Repeated fields\<close>

lemma fold_fields_repeated:
  assumes "\<And>x m. x \<in> set xs \<Longrightarrow>
      h (pb_field (c x)) (pb_value (c x)) m = (if P x then Inr (u x m) else Inl e)"
  shows "fold_fields h (map c xs) m = (if \<forall>x\<in>set xs. P x then Inr (fold u xs m) else Inl e)"
  using assms by (induction xs arbitrary: m) auto

lemma fold_fields_all:
  assumes "\<And>x m. x \<in> set xs \<Longrightarrow> h (pb_field (c x)) (pb_value (c x)) m = Inr (u x m)"
  shows "fold_fields h (map c xs) m = Inr (fold u xs m)"
  using fold_fields_repeated [of xs h c "\<lambda>_. True" u undefined m] assms by simp

lemma fold_fields_Nil [simp]: "fold_fields h [] = Inr"
  by (rule ext) simp

lemma fold_push [simp]: "fold push xs ys = ys @ xs"
  by (induction xs arbitrary: ys) (simp_all add: push_def)

lemma fold_push_map [simp]: "fold (\<lambda>x. push (f x)) xs ys = ys @ map f xs"
  by (induction xs arbitrary: ys) (simp_all add: push_def)

lemma packed_varints_from:
  "for_each_packed_varint_from (pre @ concat (map encode_varint ns)) (length pre) push_v s
     = Inr (fold push_v ns s)"
proof (induction ns arbitrary: pre s)
  case (Cons n ns)
  have "for_each_packed_varint_from ((pre @ encode_varint n) @ concat (map encode_varint ns))
      (length (pre @ encode_varint n)) push_v (push_v n s) = Inr (fold push_v ns (push_v n s))"
    by (rule Cons)
  then show ?case
    using encode_varint_not_Nil [of n]
    by (subst for_each_packed_varint_from.simps) simp
qed (simp add: for_each_packed_varint_from.simps)

lemma packed_varints [simp]:
  "for_each_packed_varint (concat (map encode_varint ns)) push_v s = Inr (fold push_v ns s)"
  using packed_varints_from [of "[]"] by (simp add: for_each_packed_varint_def)

definition packed_le :: "nat \<Rightarrow> 'a::len word list \<Rightarrow> bytes" where
  "packed_le k xs = concat (map (\<lambda>x. le_bytes k (unat x)) xs)"

lemma packed_f32 [simp]: "map of_le (chunks_exact 4 (packed_le 4 xs)) = (xs :: f32 list)"
  by (simp add: packed_le_def chunks_exact_concat o_def)

lemma packed_f64 [simp]: "map of_le (chunks_exact 8 (packed_le 8 xs)) = (xs :: f64 list)"
  by (simp add: packed_le_def chunks_exact_concat o_def)

lemma ucast_scast_i32 [simp]: "(ucast (scast (n :: i32) :: u64) :: i32) = n"
proof (rule bit_word_eqI)
  fix i assume "i < LENGTH(32)"
  then show "bit (ucast (scast n :: u64) :: i32) i \<longleftrightarrow> bit n i"
    by (cases "i = 31") (auto simp: bit_simps min_def)
qed

lemma length_encoded_member:
  "x \<in> set xs \<Longrightarrow> length (encode_pb x) \<le> length (encode_pbs xs)"
  by (induction xs) auto

lemma length_payload:
  "PbBytes f b \<in> set xs \<Longrightarrow> length (encode_pbs xs) \<le> usize_max \<Longrightarrow> length b \<le> usize_max"
  by (drule length_encoded_member) simp

section \<open>Leaf messages\<close>

text \<open>
  A repeated number field: packed (one length-delimited field, none for an empty
  list) or one field per element.
\<close>

definition repeated_varint :: "bool \<Rightarrow> u32 \<Rightarrow> u64 list \<Rightarrow> pb list" where
  "repeated_varint packed f ns =
     (if packed then (if ns = [] then [] else [PbBytes f (concat (map encode_varint ns))])
      else map (PbVarint f) ns)"

definition repeated_f32 :: "bool \<Rightarrow> u32 \<Rightarrow> f32 list \<Rightarrow> pb list" where
  "repeated_f32 packed f xs =
     (if packed then (if xs = [] then [] else [PbBytes f (packed_le 4 xs)])
      else map (\<lambda>x. PbFixed32 f (le_bytes 4 (unat x))) xs)"

definition repeated_f64 :: "bool \<Rightarrow> u32 \<Rightarrow> f64 list \<Rightarrow> pb list" where
  "repeated_f64 packed f xs =
     (if packed then (if xs = [] then [] else [PbBytes f (packed_le 8 xs)])
      else map (\<lambda>x. PbFixed64 f (le_bytes 8 (unat x))) xs)"

definition message_field :: "u32 \<Rightarrow> pb list \<Rightarrow> pb" where
  "message_field f xs = PbBytes f (encode_pbs xs)"

definition string_field :: "u32 \<Rightarrow> string \<Rightarrow> pb" where
  "string_field f s = PbBytes f (as_bytes s)"

lemma pb_message [simp]:
  "pb_field (message_field f xs) = f" "pb_value (message_field f xs) = Bytes (encode_pbs xs)"
  "pb_field (string_field f s) = f" "pb_value (string_field f s) = Bytes (as_bytes s)"
  "group_depth (message_field f xs) = 0" "group_depth (string_field f s) = 0"
  "pb_ok (message_field f xs) = field_ok f" "pb_ok (string_field f s) = field_ok f"
  by (simp_all add: message_field_def string_field_def)

lemma pbs_ok_repeated [simp]:
  "field_ok f \<Longrightarrow> pbs_ok (repeated_varint p f ns)"
  "field_ok f \<Longrightarrow> pbs_ok (repeated_f32 p f xs)"
  "field_ok f \<Longrightarrow> pbs_ok (repeated_f64 p f ys)"
  "field_ok f \<Longrightarrow> pbs_ok (map (\<lambda>z. message_field f (g z)) zs)"
  "field_ok f \<Longrightarrow> pbs_ok (map (string_field f) ss)"
  by (auto simp: repeated_varint_def repeated_f32_def repeated_f64_def pbs_ok_def list_all_iff)

definition string_pair_fields :: "string \<times> string \<Rightarrow> pb list" where
  "string_pair_fields kv = [string_field 1 (fst kv), string_field 2 (snd kv)]"

definition tensor_fields :: "bool \<Rightarrow> tensor_proto \<Rightarrow> pb list" where
  "tensor_fields packed t =
     repeated_varint packed 1 (tp_dims t) @
     [PbVarint 2 (scast (tp_data_type t))] @
     repeated_f32 packed 4 (tp_float_data t) @
     repeated_varint packed 5 (map scast (tp_int32_data t)) @
     map (PbBytes 6) (tp_string_data t) @
     repeated_varint packed 7 (tp_int64_data t) @
     [string_field 8 (tp_name t), PbBytes 9 (tp_raw_data t)] @
     repeated_f64 packed 10 (tp_double_data t) @
     repeated_varint packed 11 (tp_uint64_data t) @
     map (\<lambda>kv. message_field 13 (string_pair_fields kv)) (tp_external_data t) @
     [PbVarint 14 (scast (tp_data_location t))]"

definition tensor_ok :: "tensor_proto \<Rightarrow> bool" where
  "tensor_ok t \<longleftrightarrow> str_ok (tp_name t) \<and>
     list_all (\<lambda>(k, v). str_ok k \<and> str_ok v) (tp_external_data t)"

declare field_ok_def [simp]

lemma string_pair_encoded:
  "str_ok (fst kv) \<Longrightarrow> str_ok (snd kv) \<Longrightarrow> length (encode_pbs (string_pair_fields kv)) \<le> usize_max \<Longrightarrow>
     parse_fields string_pair_field (encode_pbs (string_pair_fields kv)) 0 ([], []) = Inr kv"
  by (subst parse_fields_encoded) (simp_all add: string_pair_fields_def string_pair_field_def)

lemma tensor_numbers [simp]:
  "fold_fields tensor_field (repeated_varint p 1 ns) t = Inr (t\<lparr>tp_dims := tp_dims t @ ns\<rparr>)"
  "fold_fields tensor_field (repeated_varint p 7 ns) t = Inr (t\<lparr>tp_int64_data := tp_int64_data t @ ns\<rparr>)"
  "fold_fields tensor_field (repeated_varint p 11 ns) t = Inr (t\<lparr>tp_uint64_data := tp_uint64_data t @ ns\<rparr>)"
  "fold_fields tensor_field (repeated_varint p 5 (map scast is)) t
     = Inr (t\<lparr>tp_int32_data := tp_int32_data t @ is\<rparr>)"
proof -
  have *: "fold (\<lambda>n t. t\<lparr>tp_dims := push n (tp_dims t)\<rparr>) ns t = t\<lparr>tp_dims := tp_dims t @ ns\<rparr>"
    "fold (\<lambda>n t. t\<lparr>tp_int64_data := push n (tp_int64_data t)\<rparr>) ns t = t\<lparr>tp_int64_data := tp_int64_data t @ ns\<rparr>"
    "fold (\<lambda>n t. t\<lparr>tp_uint64_data := push n (tp_uint64_data t)\<rparr>) ns t = t\<lparr>tp_uint64_data := tp_uint64_data t @ ns\<rparr>"
    by (induction ns arbitrary: t) (simp_all add: push_def)
  have **: "fold (\<lambda>n t. t\<lparr>tp_int32_data := push (ucast n) (tp_int32_data t)\<rparr>) (map scast is :: u64 list) t
      = t\<lparr>tp_int32_data := tp_int32_data t @ is\<rparr>"
    by (induction "is" arbitrary: t) (simp_all add: push_def)
  have m: "fold_fields tensor_field (map (PbVarint 1) ns) t = Inr (fold (\<lambda>n t. t\<lparr>tp_dims := push n (tp_dims t)\<rparr>) ns t)"
    "fold_fields tensor_field (map (PbVarint 7) ns) t = Inr (fold (\<lambda>n t. t\<lparr>tp_int64_data := push n (tp_int64_data t)\<rparr>) ns t)"
    "fold_fields tensor_field (map (PbVarint 11) ns) t = Inr (fold (\<lambda>n t. t\<lparr>tp_uint64_data := push n (tp_uint64_data t)\<rparr>) ns t)"
    "fold_fields tensor_field (map (PbVarint 5) ms) t
      = Inr (fold (\<lambda>n t. t\<lparr>tp_int32_data := push (ucast n) (tp_int32_data t)\<rparr>) ms t)" for ms
    by (rule fold_fields_all; simp add: tensor_field_def)+
  show "fold_fields tensor_field (repeated_varint p 1 ns) t = Inr (t\<lparr>tp_dims := tp_dims t @ ns\<rparr>)"
    "fold_fields tensor_field (repeated_varint p 7 ns) t = Inr (t\<lparr>tp_int64_data := tp_int64_data t @ ns\<rparr>)"
    "fold_fields tensor_field (repeated_varint p 11 ns) t = Inr (t\<lparr>tp_uint64_data := tp_uint64_data t @ ns\<rparr>)"
    "fold_fields tensor_field (repeated_varint p 5 (map scast is)) t
     = Inr (t\<lparr>tp_int32_data := tp_int32_data t @ is\<rparr>)"
    by (auto simp: repeated_varint_def m * ** tensor_field_def simp del: map_map)
qed

lemma tensor_floats [simp]:
  "fold_fields tensor_field (repeated_f32 p 4 xs) t = Inr (t\<lparr>tp_float_data := tp_float_data t @ xs\<rparr>)"
  "fold_fields tensor_field (repeated_f64 p 10 ys) t = Inr (t\<lparr>tp_double_data := tp_double_data t @ ys\<rparr>)"
proof -
  have "fold_fields tensor_field (map (\<lambda>x. PbFixed32 4 (le_bytes 4 (unat x))) xs) t
      = Inr (t\<lparr>tp_float_data := tp_float_data t @ xs\<rparr>)"
    by (induction xs arbitrary: t) (simp_all add: tensor_field_def push_def)
  then show "fold_fields tensor_field (repeated_f32 p 4 xs) t = Inr (t\<lparr>tp_float_data := tp_float_data t @ xs\<rparr>)"
    by (auto simp: repeated_f32_def tensor_field_def)
  have "fold_fields tensor_field (map (\<lambda>x. PbFixed64 10 (le_bytes 8 (unat x))) ys) t
      = Inr (t\<lparr>tp_double_data := tp_double_data t @ ys\<rparr>)"
    by (induction ys arbitrary: t) (simp_all add: tensor_field_def push_def)
  then show "fold_fields tensor_field (repeated_f64 p 10 ys) t = Inr (t\<lparr>tp_double_data := tp_double_data t @ ys\<rparr>)"
    by (auto simp: repeated_f64_def tensor_field_def)
qed

lemma tensor_strings [simp]:
  "fold_fields tensor_field (map (PbBytes 6) bs) t = Inr (t\<lparr>tp_string_data := tp_string_data t @ bs\<rparr>)"
  by (induction bs arbitrary: t) (simp_all add: tensor_field_def push_def)

lemma tensor_external [simp]:
  assumes "list_all (\<lambda>(k, v). str_ok k \<and> str_ok v) kvs"
    and "\<forall>kv\<in>set kvs. length (encode_pbs (string_pair_fields kv)) \<le> usize_max"
  shows "fold_fields tensor_field (map (\<lambda>kv. message_field 13 (string_pair_fields kv)) kvs) t
    = Inr (t\<lparr>tp_external_data := tp_external_data t @ kvs\<rparr>)"
  using assms
  by (induction kvs arbitrary: t) (auto simp: tensor_field_def push_def string_pair_encoded)

lemma tensor_encoded:
  assumes "tensor_ok t" and "length (encode_pbs (tensor_fields p t)) \<le> usize_max"
  shows "parse_tensor_proto (encode_pbs (tensor_fields p t)) = Inr t"
proof -
  have "\<forall>kv\<in>set (tp_external_data t). length (encode_pbs (string_pair_fields kv)) \<le> usize_max"
  proof
    fix kv assume "kv \<in> set (tp_external_data t)"
    then have "PbBytes 13 (encode_pbs (string_pair_fields kv)) \<in> set (tensor_fields p t)"
      by (auto simp: tensor_fields_def message_field_def)
    then show "length (encode_pbs (string_pair_fields kv)) \<le> usize_max"
      using assms(2) by (rule length_payload)
  qed
  moreover have "pbs_ok (tensor_fields p t)"
    by (simp add: tensor_fields_def pbs_ok_map)
  ultimately show ?thesis
    using assms
    by (simp add: parse_tensor_proto_def parse_fields_encoded)
      (simp add: tensor_fields_def fold_fields_append tensor_default_def tensor_ok_def tensor_field_def)
qed

section \<open>Value information\<close>

lemma fits_message:
  "message_field f ys \<in> set xs \<Longrightarrow> length (encode_pbs xs) \<le> usize_max \<Longrightarrow>
     length (encode_pbs ys) \<le> usize_max"
  unfolding message_field_def by (rule length_payload)

definition dimension_fields :: "i64 option \<times> string option \<Rightarrow> pb list" where
  "dimension_fields d =
     (case fst d of None \<Rightarrow> [] | Some n \<Rightarrow> [PbVarint 1 n]) @
     (case snd d of None \<Rightarrow> [] | Some s \<Rightarrow> [string_field 2 s])"

definition shape_fields :: "value_info_proto \<Rightarrow> pb list" where
  "shape_fields vi =
     map (\<lambda>d. message_field 1 (dimension_fields d)) (zip (vi_shape vi) (vi_dim_params vi))"

definition tensor_type_fields :: "value_info_proto \<Rightarrow> pb list" where
  "tensor_type_fields vi = [PbVarint 1 (scast (vi_elem_type vi)), message_field 2 (shape_fields vi)]"

definition value_info_fields :: "value_info_proto \<Rightarrow> pb list" where
  "value_info_fields vi =
     [string_field 1 (vi_name vi), message_field 2 [message_field 1 (tensor_type_fields vi)]]"

definition dimension_ok :: "i64 option \<times> string option \<Rightarrow> bool" where
  "dimension_ok d \<longleftrightarrow> (case snd d of None \<Rightarrow> True | Some s \<Rightarrow> s \<noteq> [] \<and> str_ok s)"

definition value_info_ok :: "value_info_proto \<Rightarrow> bool" where
  "value_info_ok vi \<longleftrightarrow> str_ok (vi_name vi) \<and> length (vi_shape vi) = length (vi_dim_params vi) \<and>
     list_all dimension_ok (zip (vi_shape vi) (vi_dim_params vi))"

lemma dimension_encoded:
  assumes "dimension_ok d" and "length (encode_pbs (dimension_fields d)) \<le> usize_max"
  shows "parse_dimension (encode_pbs (dimension_fields d)) = Inr d"
proof -
  have "fold_fields dimension_field (dimension_fields d) (None, None) = Inr d"
    using assms(1) by (cases d)
      (auto simp: dimension_fields_def dimension_field_def dimension_ok_def Let_def split: option.splits)
  then show ?thesis
    using assms(2) unfolding parse_dimension_def
    by (subst parse_fields_encoded) (auto simp: dimension_fields_def split: option.splits)
qed

lemma shape_encoded:
  assumes "list_all dimension_ok ds"
    and "\<forall>d\<in>set ds. length (encode_pbs (dimension_fields d)) \<le> usize_max"
  shows "fold_fields shape_field (map (\<lambda>d. message_field 1 (dimension_fields d)) ds) vi =
    Inr (vi\<lparr>vi_shape := vi_shape vi @ map fst ds, vi_dim_params := vi_dim_params vi @ map snd ds\<rparr>)"
  using assms
  by (induction ds arbitrary: vi) (auto simp: shape_field_def push_def dimension_encoded)

lemma value_info_encoded:
  assumes "value_info_ok vi" and "length (encode_pbs (value_info_fields vi)) \<le> usize_max"
  shows "parse_value_info_proto (encode_pbs (value_info_fields vi)) = Inr vi"
proof -
  have len1: "length (encode_pbs [message_field 1 (tensor_type_fields vi)]) \<le> usize_max"
    by (rule fits_message [of 2, OF _ assms(2)]) (simp add: value_info_fields_def)
  then have len2: "length (encode_pbs (tensor_type_fields vi)) \<le> usize_max"
    by (rule fits_message [of 1, rotated]) simp
  then have len3: "length (encode_pbs (shape_fields vi)) \<le> usize_max"
    by (rule fits_message [of 2, rotated]) (simp add: tensor_type_fields_def)
  have len4: "\<forall>d\<in>set (zip (vi_shape vi) (vi_dim_params vi)).
      length (encode_pbs (dimension_fields d)) \<le> usize_max"
    by (rule ballI, rule fits_message [of 1, OF _ len3]) (simp add: shape_fields_def)
  have ok: "pbs_ok (shape_fields vi)" "pbs_ok (tensor_type_fields vi)" "pbs_ok (value_info_fields vi)"
    by (simp_all add: shape_fields_def tensor_type_fields_def value_info_fields_def)
  have shape: "parse_shape_proto_into (encode_pbs (shape_fields vi)) v =
      Inr (v\<lparr>vi_shape := vi_shape v @ vi_shape vi, vi_dim_params := vi_dim_params v @ vi_dim_params vi\<rparr>)" for v
    unfolding parse_shape_proto_into_def parse_fields_encoded [OF ok(1) len3]
    using assms(1) len4 by (simp add: shape_fields_def value_info_ok_def shape_encoded)
  have tt: "parse_tensor_type_into (encode_pbs (tensor_type_fields vi)) v =
      Inr (v\<lparr>vi_elem_type := vi_elem_type vi, vi_shape := vi_shape v @ vi_shape vi,
        vi_dim_params := vi_dim_params v @ vi_dim_params vi\<rparr>)" for v
    unfolding parse_tensor_type_into_def parse_fields_encoded [OF ok(2) len2]
    by (simp add: tensor_type_fields_def tensor_type_field_def shape)
  have "parse_type_proto_into (encode_pbs [message_field 1 (tensor_type_fields vi)]) v =
      parse_tensor_type_into (encode_pbs (tensor_type_fields vi)) v" for v
    unfolding parse_type_proto_into_def
    by (subst parse_fields_encoded [OF _ len1]) (simp_all add: type_proto_field_def)
  then show ?thesis
    using assms(1) unfolding parse_value_info_proto_def parse_fields_encoded [OF ok(3) assms(2)]
    by (simp add: value_info_fields_def value_info_field_def value_info_default_def tt value_info_ok_def)
qed

section \<open>Properties of the leaf parsers\<close>

text \<open>
  Parsing an encoded tensor gives every field of it back (dimensions, type, name, all
  typed data lists, raw data, external data location), whether its repeated numbers are
  packed into one field or written one field per element.
\<close>

theorem tensor_roundtrip:
  assumes "tensor_ok t" and "length (encode_pbs (tensor_fields packed t)) \<le> usize_max"
  shows "parse_tensor_proto (encode_pbs (tensor_fields packed t)) = Inr t"
  using assms by (rule tensor_encoded)

theorem tensor_roundtrip_witness:
  "parse_tensor_proto (encode_pbs (tensor_fields False
     (tensor_default\<lparr>tp_dims := [2, 1], tp_data_type := 1, tp_name := ''w'',
        tp_float_data := [3, 5], tp_int32_data := [7],
        tp_external_data := [(''location'', ''a.bin'')]\<rparr>)))
   = Inr (tensor_default\<lparr>tp_dims := [2, 1], tp_data_type := 1, tp_name := ''w'',
        tp_float_data := [3, 5], tp_int32_data := [7],
        tp_external_data := [(''location'', ''a.bin'')]\<rparr>)"
    (is "parse_tensor_proto (encode_pbs (tensor_fields False ?t)) = _")
proof -
  have "tensor_ok ?t"
    by (simp add: tensor_ok_def tensor_default_def str_ok_ascii)
  moreover have fields: "tensor_fields False ?t = [PbVarint 1 2, PbVarint 1 1, PbVarint 2 1,
      PbFixed32 4 (le_bytes 4 (unat (3 :: f32))), PbFixed32 4 (le_bytes 4 (unat (5 :: f32))),
      PbVarint 5 7, string_field 8 ''w'', PbBytes 9 [],
      message_field 13 [string_field 1 ''location'', string_field 2 ''a.bin''], PbVarint 14 0]"
    by (simp add: tensor_fields_def tensor_default_def repeated_varint_def repeated_f32_def
        repeated_f64_def string_pair_fields_def)
  have "length (encode_pbs (tensor_fields False ?t)) \<le> 1000"
    unfolding fields by code_simp
  ultimately show ?thesis by (intro tensor_roundtrip small_encoding)
qed

end
