(* ===== verification/GraphEncode.thy ===== *)
theory GraphEncode
  imports MessageEncode
begin

text \<open>
  Encodings of attributes, nodes, graphs and models, the nesting depth of a graph,
  and the round trips: the contract of the mutually recursive part of
  \<open>oxionnx-proto/src/parser.rs\<close>, with its bound on graph nesting.
\<close>

section \<open>Encodings and nesting\<close>

definition opt_list :: "'a option \<Rightarrow> 'a list" where
  "opt_list x = (case x of None \<Rightarrow> [] | Some y \<Rightarrow> [y])"

lemma opt_list_simps [simp]: "opt_list None = []" "opt_list (Some x) = [x]"
  "set (opt_list y) = set_option y"
  by (auto simp: opt_list_def split: option.split)

definition deepest :: "nat list \<Rightarrow> nat" where
  "deepest ns = foldr max ns 0"

lemma deepest_simps [simp]: "deepest [] = 0" "deepest (n # ns) = max n (deepest ns)"
  by (simp_all add: deepest_def)

lemma deepest_le_iff: "k + deepest ns \<le> m \<longleftrightarrow> k \<le> m \<and> (\<forall>n\<in>set ns. k + n \<le> m)"
  by (induction ns) auto

lemma deepest_max_le_iff:
  "k + max (deepest ns) (deepest ns') \<le> m \<longleftrightarrow> k \<le> m \<and> (\<forall>n\<in>set ns \<union> set ns'. k + n \<le> m)"
  using deepest_le_iff [of k ns m] deepest_le_iff [of k ns' m] by auto

primrec attribute_value_fields :: "bool \<Rightarrow> attribute_value \<Rightarrow> pb list"
  and attribute_fields :: "bool \<Rightarrow> attribute_proto \<Rightarrow> pb list"
  and node_fields :: "bool \<Rightarrow> node_proto \<Rightarrow> pb list"
  and graph_fields :: "bool \<Rightarrow> graph_proto \<Rightarrow> pb list" where
  "attribute_value_fields p (AttributeValue f i s t g floats ints strings tensors graphs ref ty) =
     [PbFixed32 2 (le_bytes 4 (unat f)), PbVarint 3 i, string_field 4 s] @
     map (\<lambda>t. message_field 5 (tensor_fields p t)) (opt_list t) @
     map (message_field 6) (opt_list (map_option (graph_fields p) g)) @
     repeated_f32 p 7 floats @ repeated_varint p 8 ints @ map (string_field 9) strings @
     map (\<lambda>t. message_field 10 (tensor_fields p t)) tensors @
     map (message_field 11) (map (graph_fields p) graphs) @
     [PbVarint 20 (scast ty), string_field 21 ref]"
| "attribute_fields p (AttributeProto n v) = string_field 1 n # attribute_value_fields p v"
| "node_fields p (NodeProto inputs outputs name op attrs domn overload) =
     map (string_field 1) inputs @ map (string_field 2) outputs @
     [string_field 3 name, string_field 4 op] @
     map (message_field 5) (map (attribute_fields p) attrs) @
     [string_field 7 domn, string_field 8 overload]"
| "graph_fields p (GraphProto nodes name inits inputs outputs ivis ovis vis) =
     map (message_field 1) (map (node_fields p) nodes) @ [string_field 2 name] @
     map (\<lambda>t. message_field 5 (tensor_fields p t)) inits @
     map (\<lambda>vi. message_field 11 (value_info_fields vi)) ivis @
     map (\<lambda>vi. message_field 12 (value_info_fields vi)) ovis @
     map (\<lambda>vi. message_field 13 (value_info_fields vi)) vis"

primrec attribute_value_nest :: "attribute_value \<Rightarrow> nat"
  and attribute_nest :: "attribute_proto \<Rightarrow> nat"
  and node_nest :: "node_proto \<Rightarrow> nat"
  and graph_nest :: "graph_proto \<Rightarrow> nat" where
  "attribute_value_nest (AttributeValue f i s t g floats ints strings tensors graphs ref ty) =
     max (deepest (map Suc (opt_list (map_option graph_nest g))))
       (deepest (map Suc (map graph_nest graphs)))"
| "attribute_nest (AttributeProto n v) = attribute_value_nest v"
| "node_nest (NodeProto inputs outputs name op attrs domn overload) =
     deepest (map attribute_nest attrs)"
| "graph_nest (GraphProto nodes name inits inputs outputs ivis ovis vis) =
     deepest (map node_nest nodes)"

text \<open>
  What a message must satisfy to have an encoding: strings are valid UTF-8, and the
  input and output names of a graph are those of its value infos.
\<close>

primrec attribute_value_ok :: "attribute_value \<Rightarrow> bool"
  and attribute_ok :: "attribute_proto \<Rightarrow> bool"
  and node_ok :: "node_proto \<Rightarrow> bool"
  and graph_ok :: "graph_proto \<Rightarrow> bool" where
  "attribute_value_ok (AttributeValue f i s t g floats ints strings tensors graphs ref ty) \<longleftrightarrow>
     str_ok s \<and> pred_option tensor_ok t \<and> pred_option (\<lambda>b. b) (map_option graph_ok g) \<and>
     list_all str_ok strings \<and> list_all tensor_ok tensors \<and>
     list_all (\<lambda>b. b) (map graph_ok graphs) \<and> str_ok ref"
| "attribute_ok (AttributeProto n v) \<longleftrightarrow> str_ok n \<and> attribute_value_ok v"
| "node_ok (NodeProto inputs outputs name op attrs domn overload) \<longleftrightarrow>
     list_all str_ok inputs \<and> list_all str_ok outputs \<and> str_ok name \<and> str_ok op \<and>
     list_all (\<lambda>b. b) (map attribute_ok attrs) \<and> str_ok domn \<and> str_ok overload"
| "graph_ok (GraphProto nodes name inits inputs outputs ivis ovis vis) \<longleftrightarrow>
     list_all (\<lambda>b. b) (map node_ok nodes) \<and> str_ok name \<and> list_all tensor_ok inits \<and>
     list_all value_info_ok ivis \<and> list_all value_info_ok ovis \<and> list_all value_info_ok vis \<and>
     inputs = map vi_name ivis \<and> outputs = map vi_name ovis"

lemma nested_pbs_ok [simp]:
  "pbs_ok (attribute_value_fields p v)" "pbs_ok (attribute_fields p a)"
  "pbs_ok (node_fields p n)" "pbs_ok (graph_fields p g)"
proof -
  show v: "pbs_ok (attribute_value_fields p v)" for v
    by (cases v) (simp add: pbs_ok_map)
  show "pbs_ok (attribute_fields p a)"
    by (cases a) (simp add: v)
  show "pbs_ok (node_fields p n)"
    by (cases n) (simp add: pbs_ok_map)
  show "pbs_ok (graph_fields p g)"
    by (cases g) (simp add: pbs_ok_map)
qed

section \<open>Attribute, node and graph fields in turn\<close>

lemma attribute_numbers [simp]:
  "fold_fields (attribute_field pg) (repeated_f32 p 7 xs) (AttributeProto n (AttributeValue f i s t g fs is ss ts gs r ty))
     = Inr (AttributeProto n (AttributeValue f i s t g (fs @ xs) is ss ts gs r ty))"
  "fold_fields (attribute_field pg) (repeated_varint p 8 ys) (AttributeProto n (AttributeValue f i s t g fs is ss ts gs r ty))
     = Inr (AttributeProto n (AttributeValue f i s t g fs (is @ ys) ss ts gs r ty))"
proof -
  have "fold_fields (attribute_field pg) (map (\<lambda>x. PbFixed32 7 (le_bytes 4 (unat x))) xs)
      (AttributeProto n (AttributeValue f i s t g fs is ss ts gs r ty))
    = Inr (AttributeProto n (AttributeValue f i s t g (fs @ xs) is ss ts gs r ty))"
    by (induction xs arbitrary: fs) (simp_all add: attribute_field_def push_def)
  then show "fold_fields (attribute_field pg) (repeated_f32 p 7 xs) (AttributeProto n (AttributeValue f i s t g fs is ss ts gs r ty))
     = Inr (AttributeProto n (AttributeValue f i s t g (fs @ xs) is ss ts gs r ty))"
    by (auto simp: repeated_f32_def attribute_field_def)
  have "fold_fields (attribute_field pg) (map (PbVarint 8) ys)
      (AttributeProto n (AttributeValue f i s t g fs is ss ts gs r ty))
    = Inr (AttributeProto n (AttributeValue f i s t g fs (is @ ys) ss ts gs r ty))"
    by (induction ys arbitrary: "is") (simp_all add: attribute_field_def push_def)
  moreover have "fold (\<lambda>n. ap_value_update (av_ints_update (push n))) ys
      (AttributeProto n (AttributeValue f i s t g fs is ss ts gs r ty))
    = AttributeProto n (AttributeValue f i s t g fs (is @ ys) ss ts gs r ty)"
    by (induction ys arbitrary: "is") (simp_all add: push_def)
  ultimately show "fold_fields (attribute_field pg) (repeated_varint p 8 ys) (AttributeProto n (AttributeValue f i s t g fs is ss ts gs r ty))
     = Inr (AttributeProto n (AttributeValue f i s t g fs (is @ ys) ss ts gs r ty))"
    by (auto simp: repeated_varint_def attribute_field_def)
qed

lemma attribute_strings [simp]:
  "list_all str_ok xs \<Longrightarrow>
   fold_fields (attribute_field pg) (map (string_field 9) xs) (AttributeProto n (AttributeValue f i s t g fs is ss ts gs r ty))
     = Inr (AttributeProto n (AttributeValue f i s t g fs is (ss @ xs) ts gs r ty))"
  by (induction xs arbitrary: ss) (simp_all add: attribute_field_def push_def)

lemma attribute_tensors [simp]:
  "list_all tensor_ok xs \<Longrightarrow> \<forall>x\<in>set xs. length (encode_pbs (tensor_fields p x)) \<le> usize_max \<Longrightarrow>
   fold_fields (attribute_field pg) (map (\<lambda>t. message_field 10 (tensor_fields p t)) xs)
       (AttributeProto n (AttributeValue f i s t g fs is ss ts gs r ty))
     = Inr (AttributeProto n (AttributeValue f i s t g fs is ss (ts @ xs) gs r ty))"
  by (induction xs arbitrary: ts) (simp_all add: attribute_field_def push_def tensor_encoded)

lemma attribute_graphs [simp]:
  "\<forall>x\<in>set xs. pg (encode_pbs (graph_fields p x)) = (if P x then Inr x else Inl NestingTooDeep) \<Longrightarrow>
   fold_fields (attribute_field pg) (map (message_field 11) (map (graph_fields p) xs))
       (AttributeProto n (AttributeValue f i s t g fs is ss ts gs r ty))
     = (if \<forall>x\<in>set xs. P x
        then Inr (AttributeProto n (AttributeValue f i s t g fs is ss ts (gs @ xs) r ty))
        else Inl NestingTooDeep)"
  by (induction xs arbitrary: gs) (auto simp: attribute_field_def push_def)

lemma node_strings [simp]:
  "list_all str_ok xs \<Longrightarrow> fold_fields (node_field pa) (map (string_field 1) xs) (NodeProto is os n op as d ov)
     = Inr (NodeProto (is @ xs) os n op as d ov)"
  "list_all str_ok xs \<Longrightarrow> fold_fields (node_field pa) (map (string_field 2) xs) (NodeProto is os n op as d ov)
     = Inr (NodeProto is (os @ xs) n op as d ov)"
  by (induction xs arbitrary: "is" os) (simp_all add: node_field_def push_def)

lemma node_attributes [simp]:
  "\<forall>x\<in>set xs. pa (encode_pbs (attribute_fields p x)) = (if P x then Inr x else Inl NestingTooDeep) \<Longrightarrow>
   fold_fields (node_field pa) (map (message_field 5) (map (attribute_fields p) xs)) (NodeProto is os n op as d ov)
     = (if \<forall>x\<in>set xs. P x then Inr (NodeProto is os n op (as @ xs) d ov) else Inl NestingTooDeep)"
  by (induction xs arbitrary: as) (auto simp: node_field_def push_def)

lemma graph_nodes [simp]:
  "\<forall>x\<in>set xs. pn (encode_pbs (node_fields p x)) = (if P x then Inr x else Inl NestingTooDeep) \<Longrightarrow>
   fold_fields (graph_field pn) (map (message_field 1) (map (node_fields p) xs)) (GraphProto ns n is ins os iv ov vs)
     = (if \<forall>x\<in>set xs. P x then Inr (GraphProto (ns @ xs) n is ins os iv ov vs) else Inl NestingTooDeep)"
  by (induction xs arbitrary: ns) (auto simp: graph_field_def push_def)

lemma graph_tensors [simp]:
  "list_all tensor_ok xs \<Longrightarrow> \<forall>x\<in>set xs. length (encode_pbs (tensor_fields p x)) \<le> usize_max \<Longrightarrow>
   fold_fields (graph_field pn) (map (\<lambda>t. message_field 5 (tensor_fields p t)) xs) (GraphProto ns n is ins os iv ov vs)
     = Inr (GraphProto ns n (is @ xs) ins os iv ov vs)"
  by (induction xs arbitrary: "is") (simp_all add: graph_field_def push_def tensor_encoded)

lemma graph_value_infos [simp]:
  assumes "list_all value_info_ok xs" and "\<forall>x\<in>set xs. length (encode_pbs (value_info_fields x)) \<le> usize_max"
  shows "fold_fields (graph_field pn) (map (\<lambda>vi. message_field 11 (value_info_fields vi)) xs) (GraphProto ns n is ins os iv ov vs)
     = Inr (GraphProto ns n is (ins @ map vi_name xs) os (iv @ xs) ov vs)"
    "fold_fields (graph_field pn) (map (\<lambda>vi. message_field 12 (value_info_fields vi)) xs) (GraphProto ns n is ins os iv ov vs)
     = Inr (GraphProto ns n is ins (os @ map vi_name xs) iv (ov @ xs) vs)"
    "fold_fields (graph_field pn) (map (\<lambda>vi. message_field 13 (value_info_fields vi)) xs) (GraphProto ns n is ins os iv ov vs)
     = Inr (GraphProto ns n is ins os iv ov (vs @ xs))"
  using assms
  by (induction xs arbitrary: ins os iv ov vs) (simp_all add: graph_field_def push_def value_info_encoded)

section \<open>Round trip of graphs\<close>

lemma attribute_value_encoded:
  assumes ok: "str_ok s" "pred_option tensor_ok t" "list_all str_ok strings" "list_all tensor_ok tensors"
      "str_ok ref"
    and fits: "\<forall>x\<in>set (opt_list t) \<union> set tensors. length (encode_pbs (tensor_fields p x)) \<le> usize_max"
    and sub: "\<forall>x\<in>set (opt_list g) \<union> set graphs.
      pg (encode_pbs (graph_fields p x)) = (if P x then Inr x else Inl NestingTooDeep)"
  shows "fold_fields (attribute_field pg)
      (attribute_value_fields p (AttributeValue f i s t g floats ints strings tensors graphs ref ty))
      (AttributeProto n attribute_value_default)
    = (if \<forall>x\<in>set (opt_list g) \<union> set graphs. P x
       then Inr (AttributeProto n (AttributeValue f i s t g floats ints strings tensors graphs ref ty))
       else Inl NestingTooDeep)"
proof -
  have t: "fold_fields (attribute_field pg) (map (\<lambda>t. message_field 5 (tensor_fields p t)) (opt_list t))
      (AttributeProto n (AttributeValue f i s None None [] [] [] [] [] [] 0))
    = Inr (AttributeProto n (AttributeValue f i s t None [] [] [] [] [] [] 0))"
    using ok(2) fits by (cases t) (simp_all add: attribute_field_def tensor_encoded)
  have g: "fold_fields (attribute_field pg) (map (message_field 6) (opt_list (map_option (graph_fields p) g)))
      (AttributeProto n (AttributeValue f i s t None [] [] [] [] [] [] 0))
    = (if \<forall>x\<in>set (opt_list g). P x then Inr (AttributeProto n (AttributeValue f i s t g [] [] [] [] [] [] 0))
       else Inl NestingTooDeep)"
    using sub by (cases g) (simp_all add: attribute_field_def)
  have gs: "fold_fields (attribute_field pg) (map (message_field 11) (map (graph_fields p) graphs))
      (AttributeProto n (AttributeValue f i s t g floats ints strings tensors [] [] 0))
    = (if \<forall>x\<in>set graphs. P x then Inr (AttributeProto n (AttributeValue f i s t g floats ints strings tensors graphs [] 0))
       else Inl NestingTooDeep)"
    by (subst attribute_graphs [where P = P]) (use sub in auto)
  show ?thesis
    unfolding attribute_value_fields.simps fold_fields_append
    using ok fits t g gs
    by (auto simp: attribute_field_def attribute_value_default_def simp del: map_map)
qed

abbreviation fits :: "pb list \<Rightarrow> bool" where
  "fits xs \<equiv> length (encode_pbs xs) \<le> usize_max"

lemma nested_encoded:
  "attribute_value_ok v \<Longrightarrow> fits (attribute_value_fields p v) \<Longrightarrow> d \<le> MAX_NESTING_DEPTH \<Longrightarrow>
     fold_fields (\<lambda>f w a. attribute_field (\<lambda>b. parse_graph_at (d + 1) b) f w a)
         (attribute_value_fields p v) (AttributeProto nm attribute_value_default)
       = (if d + attribute_value_nest v \<le> MAX_NESTING_DEPTH then Inr (AttributeProto nm v)
          else Inl NestingTooDeep)"
  "attribute_ok a \<Longrightarrow> fits (attribute_fields p a) \<Longrightarrow> d \<le> MAX_NESTING_DEPTH \<Longrightarrow>
     parse_attribute_at d (encode_pbs (attribute_fields p a))
       = (if d + attribute_nest a \<le> MAX_NESTING_DEPTH then Inr a else Inl NestingTooDeep)"
  "node_ok n \<Longrightarrow> fits (node_fields p n) \<Longrightarrow> d \<le> MAX_NESTING_DEPTH \<Longrightarrow>
     parse_node_at d (encode_pbs (node_fields p n))
       = (if d + node_nest n \<le> MAX_NESTING_DEPTH then Inr n else Inl NestingTooDeep)"
  "graph_ok g \<Longrightarrow> fits (graph_fields p g) \<Longrightarrow>
     parse_graph_at d (encode_pbs (graph_fields p g))
       = (if d + graph_nest g \<le> MAX_NESTING_DEPTH then Inr g else Inl NestingTooDeep)"
proof (induction v and a and n and g arbitrary: d nm and d and d and d)
  case (AttributeValue f i s t g floats ints strings tensors graphs ref ty)
  let ?xs = "attribute_value_fields p (AttributeValue f i s t g floats ints strings tensors graphs ref ty)"
  have ft: "\<forall>x\<in>set (opt_list t) \<union> set tensors. fits (tensor_fields p x)"
  proof
    fix x assume "x \<in> set (opt_list t) \<union> set tensors"
    then consider "message_field 5 (tensor_fields p x) \<in> set ?xs"
      | "message_field 10 (tensor_fields p x) \<in> set ?xs" by auto
    then show "fits (tensor_fields p x)"
      using AttributeValue.prems(2) by cases (blast intro: fits_message)+
  qed
  have sub: "\<forall>x\<in>set (opt_list g) \<union> set graphs. parse_graph_at (d + 1) (encode_pbs (graph_fields p x))
      = (if d + Suc (graph_nest x) \<le> MAX_NESTING_DEPTH then Inr x else Inl NestingTooDeep)"
  proof
    fix x assume x: "x \<in> set (opt_list g) \<union> set graphs"
    then consider "message_field 6 (graph_fields p x) \<in> set ?xs"
      | "message_field 11 (graph_fields p x) \<in> set ?xs" by auto
    then have "fits (graph_fields p x)"
      using AttributeValue.prems(2) by cases (blast intro: fits_message)+
    moreover have "graph_ok x"
      using x AttributeValue.prems(1) by (cases g) (auto simp: list_all_iff)
    ultimately show "parse_graph_at (d + 1) (encode_pbs (graph_fields p x))
        = (if d + Suc (graph_nest x) \<le> MAX_NESTING_DEPTH then Inr x else Inl NestingTooDeep)"
      using x AttributeValue.IH by auto
  qed
  have "d + attribute_value_nest (AttributeValue f i s t g floats ints strings tensors graphs ref ty)
        \<le> MAX_NESTING_DEPTH
      \<longleftrightarrow> (\<forall>x\<in>set (opt_list g) \<union> set graphs. d + Suc (graph_nest x) \<le> MAX_NESTING_DEPTH)"
    unfolding attribute_value_nest.simps deepest_max_le_iff
    using AttributeValue.prems(3) by (cases g) auto
  then show ?case
    using AttributeValue.prems(1) attribute_value_encoded [OF _ _ _ _ _ ft sub] by simp
next
  case (AttributeProto n v)
  have "fits (attribute_value_fields p v)"
    using AttributeProto.prems(2) by simp
  note v = AttributeProto.IH [OF _ this AttributeProto.prems(3), of n]
  show ?case
    unfolding parse_attribute_at.simps [of d] parse_fields_encoded [OF nested_pbs_ok(2) AttributeProto.prems(2)]
    using AttributeProto.prems(1) v by (simp add: attribute_default_def attribute_field_def [of _ 1])
next
  case (NodeProto inputs outputs name op attrs domn overload)
  let ?xs = "node_fields p (NodeProto inputs outputs name op attrs domn overload)"
  have "\<forall>x\<in>set attrs. parse_attribute_at d (encode_pbs (attribute_fields p x))
      = (if d + attribute_nest x \<le> MAX_NESTING_DEPTH then Inr x else Inl NestingTooDeep)"
  proof
    fix x assume x: "x \<in> set attrs"
    then have "message_field 5 (attribute_fields p x) \<in> set ?xs" by auto
    then have "fits (attribute_fields p x)" using NodeProto.prems(2) by (rule fits_message)
    then show "parse_attribute_at d (encode_pbs (attribute_fields p x))
        = (if d + attribute_nest x \<le> MAX_NESTING_DEPTH then Inr x else Inl NestingTooDeep)"
      using NodeProto.IH [OF x] NodeProto.prems x by (simp add: list_all_iff)
  qed
  note attrs = node_attributes [where P = "\<lambda>x. d + attribute_nest x \<le> MAX_NESTING_DEPTH", OF this]
  show ?case
    unfolding parse_node_at.simps [of d] parse_fields_encoded [OF nested_pbs_ok(3) NodeProto.prems(2)]
    unfolding node_fields.simps fold_fields_append
    using NodeProto.prems attrs
    by (auto simp: node_field_def node_default_def deepest_le_iff simp del: map_map)
next
  case (GraphProto nodes name inits inputs outputs ivis ovis vis)
  let ?xs = "graph_fields p (GraphProto nodes name inits inputs outputs ivis ovis vis)"
  show ?case
  proof (cases "d \<le> MAX_NESTING_DEPTH")
    case False
    then show ?thesis by (simp add: parse_graph_at.simps)
  next
    case True
    have "\<forall>x\<in>set nodes. parse_node_at d (encode_pbs (node_fields p x))
        = (if d + node_nest x \<le> MAX_NESTING_DEPTH then Inr x else Inl NestingTooDeep)"
    proof
      fix x assume x: "x \<in> set nodes"
      then have "message_field 1 (node_fields p x) \<in> set ?xs" by auto
      then have "fits (node_fields p x)" using GraphProto.prems(2) by (rule fits_message)
      then show "parse_node_at d (encode_pbs (node_fields p x))
          = (if d + node_nest x \<le> MAX_NESTING_DEPTH then Inr x else Inl NestingTooDeep)"
        using GraphProto.IH [OF x] GraphProto.prems x True by (simp add: list_all_iff)
    qed
    note nodes = graph_nodes [where P = "\<lambda>x. d + node_nest x \<le> MAX_NESTING_DEPTH", OF this]
    have ft: "\<forall>x\<in>set inits. fits (tensor_fields p x)"
      by (rule ballI, rule fits_message [of 5, OF _ GraphProto.prems(2)]) simp
    have fv: "\<forall>x\<in>set ivis. fits (value_info_fields x)" "\<forall>x\<in>set ovis. fits (value_info_fields x)"
        "\<forall>x\<in>set vis. fits (value_info_fields x)"
      by (rule ballI, rule fits_message [of 11, OF _ GraphProto.prems(2)], simp)
        (rule ballI, rule fits_message [of 12, OF _ GraphProto.prems(2)], simp,
         rule ballI, rule fits_message [of 13, OF _ GraphProto.prems(2)], simp)
    show ?thesis
      unfolding parse_graph_at.simps [of d] parse_fields_encoded [OF nested_pbs_ok(4) GraphProto.prems(2)]
      unfolding graph_fields.simps fold_fields_append
      using GraphProto.prems True nodes ft fv
      by (auto simp: graph_field_def graph_default_def deepest_le_iff simp del: map_map)
  qed
qed

section \<open>The depth bound on arbitrary input\<close>

lemma deepest_push: "deepest (map f (push x xs)) = max (deepest (map f xs)) (f x)"
  by (induction xs) (auto simp: push_def)

lemma graph_update_nest [simp]:
  "graph_nest (gp_name_update u g) = graph_nest g"
  "graph_nest (gp_initializers_update u1 g) = graph_nest g"
  "graph_nest (gp_inputs_update u2 g) = graph_nest g"
  "graph_nest (gp_outputs_update u2 g) = graph_nest g"
  "graph_nest (gp_input_value_infos_update u3 g) = graph_nest g"
  "graph_nest (gp_output_value_infos_update u3 g) = graph_nest g"
  "graph_nest (gp_value_infos_update u3 g) = graph_nest g"
  "graph_nest (gp_nodes_update (push n) g) = max (graph_nest g) (node_nest n)"
  by (cases g; simp add: deepest_push)+

lemma node_update_nest [simp]:
  "node_nest (np_inputs_update u n) = node_nest n"
  "node_nest (np_outputs_update u n) = node_nest n"
  "node_nest (np_name_update u1 n) = node_nest n"
  "node_nest (np_op_type_update u1 n) = node_nest n"
  "node_nest (np_domain_update u1 n) = node_nest n"
  "node_nest (np_overload_update u1 n) = node_nest n"
  "node_nest (np_attributes_update (push a) n) = max (node_nest n) (attribute_nest a)"
  by (cases n; simp add: deepest_push)+

lemma attribute_update_nest [simp]:
  "attribute_nest (ap_name_update u a) = attribute_nest a"
  "attribute_nest (ap_value_update (av_s_update u) a) = attribute_nest a"
  "attribute_nest (ap_value_update (av_t_update u1) a) = attribute_nest a"
  "attribute_nest (ap_value_update (av_floats_update u2) a) = attribute_nest a"
  "attribute_nest (ap_value_update (av_ints_update u3) a) = attribute_nest a"
  "attribute_nest (ap_value_update (av_strings_update u4) a) = attribute_nest a"
  "attribute_nest (ap_value_update (av_tensors_update u5) a) = attribute_nest a"
  "attribute_nest (ap_value_update (av_ref_attr_name_update u) a) = attribute_nest a"
  "attribute_nest (ap_value_update (av_f_update u6) a) = attribute_nest a"
  "attribute_nest (ap_value_update (av_i_update u7) a) = attribute_nest a"
  "attribute_nest (ap_value_update (av_attr_type_update u6) a) = attribute_nest a"
  "attribute_nest (ap_value_update (av_graphs_update (push g)) a)
     = max (attribute_nest a) (Suc (graph_nest g))"
  by (cases a, rename_tac x v, case_tac v, simp add: deepest_push [unfolded comp_def])+

lemma attribute_update_g_nest:
  "attribute_nest (ap_value_update (av_g_update (\<lambda>_. Some g)) a) \<le> max (attribute_nest a) (Suc (graph_nest g))"
  by (cases a, rename_tac x v, case_tac v) auto

lemma packed_varints_invariant:
  assumes "\<And>n m. I m \<Longrightarrow> I (f n m)" and "I m" and "for_each_packed_varint_from b p f m = Inr m'"
  shows "I m'"
  using assms
proof (induction b p f m rule: for_each_packed_varint_from.induct)
  case (1 b p f m)
  show ?case
  proof (cases "p < length b")
    case True
    with "1.prems"(3) obtain v q where rd: "read_varint b p = Inr (v, q)"
      and rec: "for_each_packed_varint_from b q f (f v m) = Inr m'"
      by (auto simp: for_each_packed_varint_from.simps [of b p f m] result_simps)
    show ?thesis
      by (rule "1.IH" [OF True rd refl]) (simp_all add: "1.prems"(1,2) rec)
  next
    case False
    with "1.prems" show ?thesis by (simp add: for_each_packed_varint_from.simps [of b p f m])
  qed
qed

text \<open>The field loop calls its handler on values smaller than its buffer only.\<close>

lemma parse_fields_bounded:
  assumes "\<And>f v m m'. I m \<Longrightarrow> wire_size v < length buf \<Longrightarrow> h f v m = Inr m' \<Longrightarrow> I m'"
    and "I m" and "parse_fields h buf pos m = Inr m'"
  shows "I m'"
proof (rule parse_fields_invariant [where I = I])
  let ?h = "\<lambda>f v m. if wire_size v < length buf then h f v m else Inl NoProgress"
  show "parse_fields ?h buf pos m = Inr m'"
    using assms(3) by (subst parse_fields_cong [of buf buf pos pos m m ?h h]) auto
  show "I m'" if "I m" "?h f v m = Inr m'" for f v m m'
    using that assms(1) by (auto split: if_splits)
qed (rule assms(2))

lemma nested_depth:
  "parse_attribute_at d b = Inr a \<Longrightarrow> d \<le> MAX_NESTING_DEPTH \<Longrightarrow> d + attribute_nest a \<le> MAX_NESTING_DEPTH"
  "parse_node_at d b = Inr n \<Longrightarrow> d \<le> MAX_NESTING_DEPTH \<Longrightarrow> d + node_nest n \<le> MAX_NESTING_DEPTH"
  "parse_graph_at d b = Inr g \<Longrightarrow> d + graph_nest g \<le> MAX_NESTING_DEPTH"
proof (induction d b and d b and d b arbitrary: a and n and g
    rule: parse_attribute_at_parse_node_at_parse_graph_at.induct)
  case (1 d b)
  let ?I = "\<lambda>a. d + attribute_nest a \<le> MAX_NESTING_DEPTH"
  note sub = "1.IH"
  show ?case
  proof (rule parse_fields_bounded [where I = ?I, OF _ _ "1.prems"(1) [unfolded parse_attribute_at.simps [of d b]]])
    show "?I attribute_default"
      using "1.prems"(2) by (simp add: attribute_default_def attribute_value_default_def)
    fix f v m m'
    assume m: "?I m" and v: "wire_size v < length b"
      and m': "attribute_field (\<lambda>b. parse_graph_at (d + 1) b) f v m = Inr m'"
    show "?I m'"
    proof (cases "v")
      case (Bytes bs)
      have "?I (ap_value_update (av_g_update (\<lambda>_. Some g)) m)"
        if "parse_graph_at (d + 1) bs = Inr g" for g
        using sub [OF _ _ that] v m Bytes attribute_update_g_nest [of g m] by auto
      moreover have "?I (ap_value_update (av_graphs_update (push g)) m)"
        if "parse_graph_at (d + 1) bs = Inr g" for g
        using sub [OF _ _ that] v m Bytes by auto
      moreover have "?I m'" 
        if "for_each_packed_varint bs (\<lambda>n. ap_value_update (av_ints_update (push n))) m = Inr m'"
        by (rule packed_varints_invariant [where I = ?I, OF _ m that [unfolded for_each_packed_varint_def]])
          simp
      ultimately show ?thesis
        using m m' Bytes by (auto simp: attribute_field_def Let_def result_simps split: if_splits)
    qed (use m m' in \<open>auto simp: attribute_field_def Let_def split: if_splits\<close>)
  qed
next
  case (2 d b)
  let ?I = "\<lambda>n. d + node_nest n \<le> MAX_NESTING_DEPTH"
  show ?case
  proof (rule parse_fields_bounded [where I = ?I, OF _ _ "2.prems"(1) [unfolded parse_node_at.simps [of d b]]])
    show "?I node_default"
      using "2.prems"(2) by (simp add: node_default_def)
    fix f v m m'
    assume "?I m" and "wire_size v < length b" and "node_field (\<lambda>b. parse_attribute_at d b) f v m = Inr m'"
    moreover have "d + attribute_nest a \<le> MAX_NESTING_DEPTH"
      if "length bs < length b" "parse_attribute_at d bs = Inr a" for bs a
      by (rule "2.IH" [of "Bytes bs" bs]) (simp_all add: that "2.prems"(2))
    ultimately show "?I m'"
      by (cases v) (auto simp: node_field_def result_simps nat_add_max_right split: if_splits)
  qed
next
  case (3 d b)
  let ?I = "\<lambda>g. d + graph_nest g \<le> MAX_NESTING_DEPTH"
  have d: "\<not> d > MAX_NESTING_DEPTH"
    using "3.prems" by (auto simp: parse_graph_at.simps [of d b])
  then have "parse_fields (\<lambda>f v g. graph_field (\<lambda>b. parse_node_at d b) f v g) b 0 graph_default = Inr g"
    using "3.prems" by (simp add: parse_graph_at.simps [of d b])
  then show ?case
  proof (rule parse_fields_bounded [where I = ?I, rotated 2])
    show "?I graph_default"
      using d by (simp add: graph_default_def)
    fix f v m m'
    assume "?I m" and "wire_size v < length b" and "graph_field (\<lambda>b. parse_node_at d b) f v m = Inr m'"
    moreover have "d + node_nest n \<le> MAX_NESTING_DEPTH"
      if "length bs < length b" "parse_node_at d bs = Inr n" for bs n
      by (rule "3.IH" [OF d, of "Bytes bs" bs]) (use that d in simp_all)
    ultimately show "?I m'"
      by (cases v) (auto simp: graph_field_def result_simps nat_add_max_right split: if_splits)
  qed
qed

section \<open>Properties of the graph parsers\<close>

text \<open>
  Parsing an encoded graph, with its nodes, attributes, tensors, value infos and
  subgraphs to any depth and with repeated numbers packed or not, gives the graph back
  unless its subgraphs nest deeper than \<open>MAX_NESTING_DEPTH\<close>; then, and only then, it is
  refused with the nesting error.
\<close>

theorem graph_roundtrip:
  assumes "graph_ok g" and "length (encode_pbs (graph_fields packed g)) \<le> usize_max"
  shows "parse_graph (encode_pbs (graph_fields packed g))
    = (if graph_nest g \<le> MAX_NESTING_DEPTH then Inr g else Inl NestingTooDeep)"
  using nested_encoded(4) [OF assms, of 0] by (simp add: parse_graph_def)

definition relu_graph :: graph_proto where
  "relu_graph = GraphProto [NodeProto [''x''] [''y''] [] ''Relu'' [] [] []] ''g'' []
     [''x''] [''y''] [value_info_default\<lparr>vi_name := ''x''\<rparr>] [value_info_default\<lparr>vi_name := ''y''\<rparr>] []"

definition if_graph :: graph_proto where
  "if_graph = GraphProto
     [NodeProto [''c''] [''y''] [] ''If''
       [AttributeProto ''then_branch''
         (AttributeValue 0 0 [] None (Some relu_graph) [] [3, 4] [] [] [] [] 5)] [] []]
     ''outer'' [] [] [] [] [] []"

theorem graph_roundtrip_witness:
  "parse_graph (encode_pbs (graph_fields True if_graph)) = Inr if_graph"
proof -
  have "graph_ok if_graph"
    by (simp add: if_graph_def relu_graph_def str_ok_ascii value_info_ok_def value_info_default_def)
  moreover have "length (encode_pbs (graph_fields True if_graph)) \<le> 1000" by code_simp
  moreover have "graph_nest if_graph = 1"
    by (simp add: if_graph_def relu_graph_def)
  ultimately show ?thesis
    using graph_roundtrip [of if_graph True] small_encoding by (simp add: MAX_NESTING_DEPTH_def)
qed

text \<open>
  C15. Whatever bytes it is given, \<open>parse_graph\<close> never returns a graph whose subgraphs
  nest deeper than \<open>MAX_NESTING_DEPTH\<close>.
\<close>

theorem parsed_nesting_bounded:
  assumes "parse_graph b = Inr g"
  shows "graph_nest g \<le> MAX_NESTING_DEPTH"
  using nested_depth(3) [of 0 b g] assms by (simp add: parse_graph_def)

theorem parsed_nesting_bounded_witness:
  "graph_nest if_graph \<le> MAX_NESTING_DEPTH"
proof -
  have "graph_ok if_graph"
    by (simp add: if_graph_def relu_graph_def str_ok_ascii value_info_ok_def value_info_default_def)
  moreover have "length (encode_pbs (graph_fields True if_graph)) \<le> 1000" by code_simp
  ultimately have "parse_graph_at 0 (encode_pbs (graph_fields True if_graph)) = Inr if_graph"
    using nested_encoded(4) [of if_graph True 0] small_encoding
    by (simp add: MAX_NESTING_DEPTH_def) (simp add: if_graph_def relu_graph_def)
  then have "parse_graph (encode_pbs (graph_fields True if_graph)) = Inr if_graph"
    by (simp add: parse_graph_def)
  from parsed_nesting_bounded [OF this] show ?thesis .
qed

end
