(* ===== verification/ModelEncode.thy ===== *)
theory ModelEncode
  imports GraphEncode
begin

text \<open>
  Encodings of local functions, training information and whole models, the round
  trip of \<open>parse_model\<close>, and its tolerance of fields it does not know.
\<close>

section \<open>Encodings\<close>

definition opset_fields :: "opset_import \<Rightarrow> pb list" where
  "opset_fields oi = [string_field 1 (oi_domain oi), PbVarint 2 (oi_version oi)]"

definition function_fields :: "bool \<Rightarrow> function_proto \<Rightarrow> pb list" where
  "function_fields p fn =
     [string_field 1 (fp_name fn)] @ map (string_field 4) (fp_inputs fn) @
     map (string_field 5) (fp_outputs fn) @ map (string_field 6) (fp_attribute_names fn) @
     map (message_field 7) (map (node_fields p) (fp_nodes fn)) @
     map (message_field 9) (map opset_fields (fp_opset_imports fn)) @
     [string_field 10 (fp_domain fn)] @
     map (message_field 11) (map (attribute_fields p) (fp_attribute_defaults fn)) @
     [string_field 13 (fp_overload fn)]"

definition training_fields :: "bool \<Rightarrow> training_info \<Rightarrow> pb list" where
  "training_fields p ti =
     map (message_field 1) (map (graph_fields p) (opt_list (ti_initialization_graph ti))) @
     map (message_field 2) (map (graph_fields p) (opt_list (ti_training_graph ti))) @
     map (message_field 3) (map string_pair_fields (ti_initialization_bindings ti)) @
     map (message_field 4) (map string_pair_fields (ti_update_bindings ti))"

definition model_fields :: "bool \<Rightarrow> model_proto \<Rightarrow> pb list" where
  "model_fields p m =
     [PbVarint 1 (mp_ir_version m), string_field 2 (mp_producer_name m),
      string_field 3 (mp_producer_version m), string_field 4 (mp_domain m),
      PbVarint 5 (mp_model_version m), string_field 6 (mp_doc_string m),
      message_field 7 (graph_fields p (mp_graph m))] @
     map (message_field 8) (map opset_fields (mp_opset_imports m)) @
     map (message_field 14) (map string_pair_fields (mp_metadata_props m)) @
     map (message_field 20) (map (training_fields p) (mp_training_info m)) @
     map (message_field 25) (map (function_fields p) (mp_functions m))"

definition pair_ok :: "string \<times> string \<Rightarrow> bool" where
  "pair_ok kv \<longleftrightarrow> str_ok (fst kv) \<and> str_ok (snd kv)"

definition opset_ok :: "opset_import \<Rightarrow> bool" where
  "opset_ok oi \<longleftrightarrow> str_ok (oi_domain oi)"

definition function_ok :: "function_proto \<Rightarrow> bool" where
  "function_ok fn \<longleftrightarrow> str_ok (fp_name fn) \<and> list_all str_ok (fp_inputs fn) \<and>
     list_all str_ok (fp_outputs fn) \<and> list_all str_ok (fp_attribute_names fn) \<and>
     list_all node_ok (fp_nodes fn) \<and> list_all opset_ok (fp_opset_imports fn) \<and>
     str_ok (fp_domain fn) \<and> list_all attribute_ok (fp_attribute_defaults fn) \<and>
     str_ok (fp_overload fn)"

text \<open>
  The parser never sets a learning rate, and it takes the algorithm from the name of
  the training graph.
\<close>

definition training_ok :: "training_info \<Rightarrow> bool" where
  "training_ok ti \<longleftrightarrow> ti_learning_rate ti = 0 \<and>
     ti_algorithm ti = (case ti_training_graph ti of None \<Rightarrow> [] | Some g \<Rightarrow> gp_name g) \<and>
     list_all graph_ok (opt_list (ti_initialization_graph ti)) \<and>
     list_all graph_ok (opt_list (ti_training_graph ti)) \<and>
     list_all pair_ok (ti_initialization_bindings ti) \<and> list_all pair_ok (ti_update_bindings ti)"

definition model_ok :: "model_proto \<Rightarrow> bool" where
  "model_ok m \<longleftrightarrow> str_ok (mp_producer_name m) \<and> str_ok (mp_producer_version m) \<and>
     str_ok (mp_domain m) \<and> str_ok (mp_doc_string m) \<and> graph_ok (mp_graph m) \<and>
     list_all opset_ok (mp_opset_imports m) \<and> list_all pair_ok (mp_metadata_props m) \<and>
     list_all training_ok (mp_training_info m) \<and> list_all function_ok (mp_functions m) \<and>
     mp_opset_version m = default_domain_version (mp_opset_imports m)"

definition function_nest :: "function_proto \<Rightarrow> nat" where
  "function_nest fn =
     max (deepest (map node_nest (fp_nodes fn))) (deepest (map attribute_nest (fp_attribute_defaults fn)))"

definition training_nest :: "training_info \<Rightarrow> nat" where
  "training_nest ti =
     max (deepest (map graph_nest (opt_list (ti_initialization_graph ti))))
       (deepest (map graph_nest (opt_list (ti_training_graph ti))))"

definition model_nest :: "model_proto \<Rightarrow> nat" where
  "model_nest m =
     max (graph_nest (mp_graph m))
       (max (deepest (map training_nest (mp_training_info m)))
         (deepest (map function_nest (mp_functions m))))"

section \<open>Sub-messages of a message\<close>

text \<open>
  A repeated sub-message whose parser returns the message or the nesting error: the
  handler pushes each in turn, or the whole message is refused.
\<close>

lemma repeated_messages:
  assumes "\<And>b m. h f (Bytes b) m = rbind (parse b) (\<lambda>x. Inr (u x m))"
    and "\<forall>x\<in>set xs. parse (encode_pbs (enc x)) = (if P x then Inr x else Inl NestingTooDeep)"
  shows "fold_fields h (map (message_field f) (map enc xs)) m
    = (if \<forall>x\<in>set xs. P x then Inr (fold u xs m) else Inl NestingTooDeep)"
  using assms(2) by (induction xs arbitrary: m) (auto simp: assms(1))

lemma fits_members:
  assumes "fits (ys @ map (message_field f) (map enc xs) @ zs)"
  shows "\<forall>x\<in>set xs. fits (enc x)"
  by (rule ballI, rule fits_message [of f, OF _ assms]) simp

lemma pbs_ok_messages [simp]: "field_ok f \<Longrightarrow> pbs_ok (map (message_field f) (map enc xs))"
  by (rule pbs_ok_map [of "message_field f"]) simp_all

lemma ball_nested_if:
  assumes "\<forall>x\<in>set xs. fits (enc x)" and "list_all ok xs"
    and "\<And>x. ok x \<Longrightarrow> fits (enc x) \<Longrightarrow> parse (encode_pbs (enc x)) = (if P x then Inr x else Inl e)"
  shows "\<forall>x\<in>set xs. parse (encode_pbs (enc x)) = (if P x then Inr x else Inl e)"
  using assms by (auto simp: list_all_iff)

section \<open>Functions and training information\<close>

lemma opset_encoded:
  "opset_ok oi \<Longrightarrow> fits (opset_fields oi) \<Longrightarrow> parse_opset_import (encode_pbs (opset_fields oi)) = Inr oi"
  unfolding parse_opset_import_def
  by (subst parse_fields_encoded) (simp_all add: opset_fields_def opset_field_def opset_ok_def)

lemma pair_encoded:
  "pair_ok kv \<Longrightarrow> fits (string_pair_fields kv) \<Longrightarrow>
     parse_string_string_entry (encode_pbs (string_pair_fields kv)) = Inr kv"
  by (simp add: parse_string_string_entry_def string_pair_encoded pair_ok_def)

lemma function_strings:
  "list_all str_ok xs \<Longrightarrow> fold_fields function_field (map (string_field 4) xs) fn
     = Inr (fn\<lparr>fp_inputs := fp_inputs fn @ xs\<rparr>)"
  "list_all str_ok xs \<Longrightarrow> fold_fields function_field (map (string_field 5) xs) fn
     = Inr (fn\<lparr>fp_outputs := fp_outputs fn @ xs\<rparr>)"
  "list_all str_ok xs \<Longrightarrow> fold_fields function_field (map (string_field 6) xs) fn
     = Inr (fn\<lparr>fp_attribute_names := fp_attribute_names fn @ xs\<rparr>)"
  by (induction xs arbitrary: fn) (simp_all add: function_field_def push_def)

lemma function_folds:
  "fold (\<lambda>x fn. fn\<lparr>fp_nodes := push x (fp_nodes fn)\<rparr>) ns fn = fn\<lparr>fp_nodes := fp_nodes fn @ ns\<rparr>"
  "fold (\<lambda>x fn. fn\<lparr>fp_opset_imports := push x (fp_opset_imports fn)\<rparr>) ois fn
     = fn\<lparr>fp_opset_imports := fp_opset_imports fn @ ois\<rparr>"
  "fold (\<lambda>x fn. fn\<lparr>fp_attribute_defaults := push x (fp_attribute_defaults fn)\<rparr>) as fn
     = fn\<lparr>fp_attribute_defaults := fp_attribute_defaults fn @ as\<rparr>"
  by (induction ns arbitrary: fn, simp_all add: push_def)
    (induction ois arbitrary: fn, simp_all add: push_def,
     induction as arbitrary: fn, simp_all add: push_def)

lemma function_encoded:
  assumes ok: "function_ok fn" and len: "fits (function_fields p fn)"
  shows "parse_function_proto (encode_pbs (function_fields p fn))
    = (if function_nest fn \<le> MAX_NESTING_DEPTH then Inr fn else Inl NestingTooDeep)"
proof -
  have fit: "\<forall>n\<in>set (fp_nodes fn). fits (node_fields p n)"
      "\<forall>oi\<in>set (fp_opset_imports fn). fits (opset_fields oi)"
      "\<forall>a\<in>set (fp_attribute_defaults fn). fits (attribute_fields p a)"
    by (rule ballI, rule fits_message [of 7, OF _ len], simp add: function_fields_def,
        rule ballI, rule fits_message [of 9, OF _ len], simp add: function_fields_def,
        rule ballI, rule fits_message [of 11, OF _ len], simp add: function_fields_def)
  have nodes: "fold_fields function_field (map (message_field 7) (map (node_fields p) (fp_nodes fn))) m
      = (if \<forall>n\<in>set (fp_nodes fn). node_nest n \<le> MAX_NESTING_DEPTH
         then Inr (m\<lparr>fp_nodes := fp_nodes m @ fp_nodes fn\<rparr>) else Inl NestingTooDeep)" for m
    unfolding function_folds(1) [symmetric]
    by (rule repeated_messages [where parse = parse_node])
      (use ok fit nested_encoded(3) [of _ p 0] in
        \<open>auto simp: function_field_def parse_node_def function_ok_def list_all_iff\<close>)
  have opsets: "fold_fields function_field (map (message_field 9) (map opset_fields (fp_opset_imports fn))) m
      = Inr (m\<lparr>fp_opset_imports := fp_opset_imports m @ fp_opset_imports fn\<rparr>)" for m
    using repeated_messages [of function_field 9 parse_opset_import _ "fp_opset_imports fn" opset_fields "\<lambda>_. True"]
      ok fit opset_encoded
    by (auto simp: function_field_def function_ok_def list_all_iff simp flip: function_folds simp del: map_map)
  have attrs: "fold_fields function_field (map (message_field 11) (map (attribute_fields p) (fp_attribute_defaults fn))) m
      = (if \<forall>a\<in>set (fp_attribute_defaults fn). attribute_nest a \<le> MAX_NESTING_DEPTH
         then Inr (m\<lparr>fp_attribute_defaults := fp_attribute_defaults m @ fp_attribute_defaults fn\<rparr>)
         else Inl NestingTooDeep)" for m
    unfolding function_folds(3) [symmetric]
    by (rule repeated_messages [where parse = parse_attribute])
      (use ok fit nested_encoded(2) [of _ p 0] in
        \<open>auto simp: function_field_def parse_attribute_def function_ok_def list_all_iff\<close>)
  have pb: "pbs_ok (function_fields p fn)"
    by (simp add: function_fields_def del: map_map)
  have "function_nest fn \<le> MAX_NESTING_DEPTH \<longleftrightarrow>
      (\<forall>n\<in>set (fp_nodes fn). node_nest n \<le> MAX_NESTING_DEPTH) \<and>
      (\<forall>a\<in>set (fp_attribute_defaults fn). attribute_nest a \<le> MAX_NESTING_DEPTH)"
    using deepest_max_le_iff [of 0] by (auto simp: function_nest_def)
  then show ?thesis
    unfolding parse_function_proto_def parse_fields_encoded [OF pb len]
    unfolding function_fields_def fold_fields_append
    using ok nodes opsets attrs
    by (auto simp: function_strings function_field_def function_default_def function_ok_def
        simp del: map_map)
qed

lemma training_folds:
  "fold (\<lambda>x ti. ti\<lparr>ti_initialization_bindings := push x (ti_initialization_bindings ti)\<rparr>) xs ti
     = ti\<lparr>ti_initialization_bindings := ti_initialization_bindings ti @ xs\<rparr>"
  "fold (\<lambda>x ti. ti\<lparr>ti_update_bindings := push x (ti_update_bindings ti)\<rparr>) xs ti
     = ti\<lparr>ti_update_bindings := ti_update_bindings ti @ xs\<rparr>"
  by (induction xs arbitrary: ti) (simp_all add: push_def)

lemma training_encoded:
  assumes ok: "training_ok ti" and len: "fits (training_fields p ti)"
  shows "parse_training_info (encode_pbs (training_fields p ti))
    = (if training_nest ti \<le> MAX_NESTING_DEPTH then Inr ti else Inl NestingTooDeep)"
proof -
  have fit: "\<forall>g\<in>set (opt_list (ti_initialization_graph ti)). fits (graph_fields p g)"
      "\<forall>g\<in>set (opt_list (ti_training_graph ti)). fits (graph_fields p g)"
      "\<forall>kv\<in>set (ti_initialization_bindings ti). fits (string_pair_fields kv)"
      "\<forall>kv\<in>set (ti_update_bindings ti). fits (string_pair_fields kv)"
    by (rule ballI, rule fits_message [of 1, OF _ len], simp add: training_fields_def,
        rule ballI, rule fits_message [of 2, OF _ len], simp add: training_fields_def,
        rule ballI, rule fits_message [of 3, OF _ len], simp add: training_fields_def,
        rule ballI, rule fits_message [of 4, OF _ len], simp add: training_fields_def)
  have graph: "parse_graph (encode_pbs (graph_fields p g))
      = (if graph_nest g \<le> MAX_NESTING_DEPTH then Inr g else Inl NestingTooDeep)"
    if "graph_ok g" "fits (graph_fields p g)" for g
    using nested_encoded(4) [OF that, of 0] by (simp add: parse_graph_def)
  have init: "fold_fields training_field (map (message_field 1) (map (graph_fields p) (opt_list (ti_initialization_graph ti)))) training_default
      = (if \<forall>g\<in>set (opt_list (ti_initialization_graph ti)). graph_nest g \<le> MAX_NESTING_DEPTH
         then Inr (training_default\<lparr>ti_initialization_graph := ti_initialization_graph ti\<rparr>) else Inl NestingTooDeep)"
    using ok fit(1) graph
    by (cases "ti_initialization_graph ti") (auto simp: training_field_def training_ok_def training_default_def)
  have train: "fold_fields training_field (map (message_field 2) (map (graph_fields p) (opt_list (ti_training_graph ti)))) (training_default\<lparr>ti_initialization_graph := ig\<rparr>)
      = (if \<forall>g\<in>set (opt_list (ti_training_graph ti)). graph_nest g \<le> MAX_NESTING_DEPTH
         then Inr (training_default\<lparr>ti_initialization_graph := ig, ti_algorithm := ti_algorithm ti,
           ti_training_graph := ti_training_graph ti\<rparr>) else Inl NestingTooDeep)" for ig
    using ok fit(2) graph
    by (cases "ti_training_graph ti") (auto simp: training_field_def training_ok_def training_default_def Let_def)
  have binds: "fold_fields training_field (map (message_field 3) (map string_pair_fields (ti_initialization_bindings ti))) m
      = Inr (m\<lparr>ti_initialization_bindings := ti_initialization_bindings m @ ti_initialization_bindings ti\<rparr>)"
      "fold_fields training_field (map (message_field 4) (map string_pair_fields (ti_update_bindings ti))) m
      = Inr (m\<lparr>ti_update_bindings := ti_update_bindings m @ ti_update_bindings ti\<rparr>)" for m
    using repeated_messages [of training_field 3 parse_string_string_entry _ "ti_initialization_bindings ti" string_pair_fields "\<lambda>_. True"]
      repeated_messages [of training_field 4 parse_string_string_entry _ "ti_update_bindings ti" string_pair_fields "\<lambda>_. True"]
      ok fit pair_encoded
    by (auto simp: training_field_def training_ok_def list_all_iff simp flip: training_folds simp del: map_map)
  have pb: "pbs_ok (training_fields p ti)"
    by (simp add: training_fields_def del: map_map)
  have "training_nest ti \<le> MAX_NESTING_DEPTH \<longleftrightarrow>
      (\<forall>g\<in>set (opt_list (ti_initialization_graph ti)). graph_nest g \<le> MAX_NESTING_DEPTH) \<and>
      (\<forall>g\<in>set (opt_list (ti_training_graph ti)). graph_nest g \<le> MAX_NESTING_DEPTH)"
    unfolding training_nest_def using deepest_max_le_iff [of 0] by auto
  then show ?thesis
    unfolding parse_training_info_def parse_fields_encoded [OF pb len]
    unfolding training_fields_def fold_fields_append
    using ok init train binds
    by (auto simp: training_default_def training_ok_def simp del: map_map opt_list_simps)
qed

section \<open>Models\<close>

lemma model_folds:
  "fold (\<lambda>x m. m\<lparr>mp_metadata_props := push x (mp_metadata_props m)\<rparr>) kvs m
     = m\<lparr>mp_metadata_props := mp_metadata_props m @ kvs\<rparr>"
  "fold (\<lambda>x m. m\<lparr>mp_training_info := push x (mp_training_info m)\<rparr>) tis m
     = m\<lparr>mp_training_info := mp_training_info m @ tis\<rparr>"
  "fold (\<lambda>x m. m\<lparr>mp_functions := push x (mp_functions m)\<rparr>) fns m
     = m\<lparr>mp_functions := mp_functions m @ fns\<rparr>"
  by (induction kvs arbitrary: m, simp_all add: push_def)
    (induction tis arbitrary: m, simp_all add: push_def,
     induction fns arbitrary: m, simp_all add: push_def)

lemma model_opsets:
  assumes "list_all opset_ok ois" and "\<forall>oi\<in>set ois. fits (opset_fields oi)"
    and "mp_opset_version m = default_domain_version (mp_opset_imports m)"
  shows "fold_fields model_field (map (message_field 8) (map opset_fields ois)) m
    = Inr (m\<lparr>mp_opset_imports := mp_opset_imports m @ ois,
        mp_opset_version := default_domain_version (mp_opset_imports m @ ois)\<rparr>)"
  using assms
proof (induction ois arbitrary: m)
  case (Cons oi ois)
  let ?m = "m\<lparr>mp_opset_imports := push oi (mp_opset_imports m),
      mp_opset_version := default_domain_version (push oi (mp_opset_imports m))\<rparr>"
  have "model_field 8 (Bytes (encode_pbs (opset_fields oi))) m = Inr ?m"
    using Cons.prems by (simp add: model_field_def opset_encoded default_domain_version_push Let_def)
  moreover have "fold_fields model_field (map (message_field 8) (map opset_fields ois)) ?m
    = Inr (?m\<lparr>mp_opset_imports := mp_opset_imports ?m @ ois,
        mp_opset_version := default_domain_version (mp_opset_imports ?m @ ois)\<rparr>)"
    by (rule Cons.IH) (use Cons.prems in auto)
  ultimately show ?case by (simp add: push_def)
qed simp

lemma model_encoded:
  assumes ok: "model_ok m" and len: "length (encode_pbs (model_fields p m)) \<le> usize_max"
  shows "parse_model (encode_pbs (model_fields p m))
    = (if model_nest m \<le> MAX_NESTING_DEPTH then Inr m else Inl NestingTooDeep)"
proof -
  have fit: "fits (graph_fields p (mp_graph m))"
      "\<forall>oi\<in>set (mp_opset_imports m). fits (opset_fields oi)"
      "\<forall>kv\<in>set (mp_metadata_props m). fits (string_pair_fields kv)"
      "\<forall>ti\<in>set (mp_training_info m). fits (training_fields p ti)"
      "\<forall>fn\<in>set (mp_functions m). fits (function_fields p fn)"
    by (rule fits_message [of 7, OF _ len], simp add: model_fields_def,
        rule ballI, rule fits_message [of 8, OF _ len], simp add: model_fields_def,
        rule ballI, rule fits_message [of 14, OF _ len], simp add: model_fields_def,
        rule ballI, rule fits_message [of 20, OF _ len], simp add: model_fields_def,
        rule ballI, rule fits_message [of 25, OF _ len], simp add: model_fields_def)
  have graph: "parse_graph (encode_pbs (graph_fields p (mp_graph m)))
      = (if graph_nest (mp_graph m) \<le> MAX_NESTING_DEPTH then Inr (mp_graph m) else Inl NestingTooDeep)"
    using nested_encoded(4) [OF _ fit(1), of 0] ok by (simp add: parse_graph_def model_ok_def)
  have props: "fold_fields model_field (map (message_field 14) (map string_pair_fields (mp_metadata_props m))) m'
      = Inr (m'\<lparr>mp_metadata_props := mp_metadata_props m' @ mp_metadata_props m\<rparr>)" for m'
    using repeated_messages [of model_field 14 parse_string_string_entry _ "mp_metadata_props m" string_pair_fields "\<lambda>_. True"]
      ok fit pair_encoded
    by (auto simp: model_field_def model_ok_def list_all_iff simp flip: model_folds simp del: map_map)
  have training: "fold_fields model_field (map (message_field 20) (map (training_fields p) (mp_training_info m))) m'
      = (if \<forall>ti\<in>set (mp_training_info m). training_nest ti \<le> MAX_NESTING_DEPTH
         then Inr (m'\<lparr>mp_training_info := mp_training_info m' @ mp_training_info m\<rparr>) else Inl NestingTooDeep)" for m'
    unfolding model_folds(2) [symmetric]
    by (rule repeated_messages [where parse = parse_training_info])
      (use ok fit training_encoded in \<open>auto simp: model_field_def model_ok_def list_all_iff\<close>)
  have funs: "fold_fields model_field (map (message_field 25) (map (function_fields p) (mp_functions m))) m'
      = (if \<forall>fn\<in>set (mp_functions m). function_nest fn \<le> MAX_NESTING_DEPTH
         then Inr (m'\<lparr>mp_functions := mp_functions m' @ mp_functions m\<rparr>) else Inl NestingTooDeep)" for m'
    unfolding model_folds(3) [symmetric]
    by (rule repeated_messages [where parse = parse_function_proto])
      (use ok fit function_encoded in \<open>auto simp: model_field_def model_ok_def list_all_iff\<close>)
  have pb: "pbs_ok (model_fields p m)"
    by (simp add: model_fields_def del: map_map)
  have "model_nest m \<le> MAX_NESTING_DEPTH \<longleftrightarrow> graph_nest (mp_graph m) \<le> MAX_NESTING_DEPTH \<and>
      (\<forall>ti\<in>set (mp_training_info m). training_nest ti \<le> MAX_NESTING_DEPTH) \<and>
      (\<forall>fn\<in>set (mp_functions m). function_nest fn \<le> MAX_NESTING_DEPTH)"
    unfolding model_nest_def using deepest_max_le_iff [of 0] by auto
  then show ?thesis
    unfolding parse_model_def parse_fields_encoded [OF pb len]
    unfolding model_fields_def fold_fields_append
    using ok graph props training funs fit(2)
    by (auto simp: model_opsets model_field_def model_default_def model_ok_def
        default_domain_version_def [of "[]"] simp del: map_map)
qed

text \<open>
  C6. Parsing an encoded model gives every field of the model back: the header fields,
  the graph, operator-set imports, metadata, training information and local functions;
  it is refused, with the nesting error, exactly when some graph in it nests deeper than
  \<open>MAX_NESTING_DEPTH\<close>.
\<close>

theorem model_roundtrip:
  assumes ok: "model_ok m" and len: "length (encode_pbs (model_fields p m)) \<le> usize_max"
  shows "parse_model (encode_pbs (model_fields p m))
    = (if model_nest m \<le> MAX_NESTING_DEPTH then Inr m else Inl NestingTooDeep)"
  using assms by (rule model_encoded)

theorem model_roundtrip_witness:
  "parse_model (encode_pbs (model_fields True (model_default\<lparr>mp_ir_version := 8, mp_graph := if_graph,
       mp_opset_version := 17, mp_opset_imports := [\<lparr>oi_domain = [], oi_version = 17\<rparr>]\<rparr>)))
     = Inr (model_default\<lparr>mp_ir_version := 8, mp_graph := if_graph,
       mp_opset_version := 17, mp_opset_imports := [\<lparr>oi_domain = [], oi_version = 17\<rparr>]\<rparr>)"
    (is "_ = Inr ?m")
proof -
  have ok: "model_ok ?m"
    by (simp add: model_ok_def model_default_def if_graph_def relu_graph_def str_ok_ascii
        value_info_ok_def value_info_default_def opset_ok_def default_domain_version_def)
  have fields: "model_fields True ?m =
      [PbVarint 1 8, string_field 2 [], string_field 3 [], string_field 4 [], PbVarint 5 0,
       string_field 6 [], message_field 7 (graph_fields True if_graph),
       message_field 8 [string_field 1 [], PbVarint 2 17]]"
    by (simp add: model_fields_def model_default_def opset_fields_def)
  have "length (encode_pbs (model_fields True ?m)) \<le> 1000"
    unfolding fields by code_simp
  moreover have "model_nest ?m = 1"
    by (simp add: model_nest_def model_default_def if_graph_def relu_graph_def)
  ultimately show ?thesis
    using model_roundtrip [OF ok] small_encoding by (simp add: MAX_NESTING_DEPTH_def)
qed

section \<open>Unknown fields\<close>

lemma fold_fields_ignored:
  assumes "\<And>m. h (pb_field u) (pb_value u) m = Inr m"
  shows "fold_fields h (xs @ u # ys) m = fold_fields h (xs @ ys) m"
  unfolding fold_fields_append by (rule rbind_cong) (simp_all add: assms)

lemma parse_fields_ignored:
  assumes "\<And>m. h (pb_field u) (pb_value u) m = Inr m"
    and "pbs_ok (xs @ u # ys)" and "fits (xs @ u # ys)"
  shows "parse_fields h (encode_pbs (xs @ u # ys)) 0 m = parse_fields h (encode_pbs (xs @ ys)) 0 m"
proof -
  have "parse_fields h (encode_pbs (xs @ u # ys)) 0 m = fold_fields h (xs @ u # ys) m"
    by (rule parse_fields_encoded [OF assms(2,3)])
  also have "\<dots> = fold_fields h (xs @ ys) m"
    by (rule fold_fields_ignored) (rule assms(1))
  also have "\<dots> = parse_fields h (encode_pbs (xs @ ys)) 0 m"
    by (rule parse_fields_encoded [symmetric]) (use assms in auto)
  finally show ?thesis .
qed

text \<open>
  A field with a number the parser does not know, of any wire type (a group
  included), anywhere among the fields of a model, a graph or a tensor, does not change
  the result, whether that is a message or an error.
\<close>

theorem unknown_fields_ignored:
  assumes "pbs_ok (xs @ u # ys)" and "length (encode_pbs (xs @ u # ys)) \<le> usize_max"
    and "unat (pb_field u) > 25"
  shows "parse_model (encode_pbs (xs @ u # ys)) = parse_model (encode_pbs (xs @ ys)) \<and>
    parse_graph (encode_pbs (xs @ u # ys)) = parse_graph (encode_pbs (xs @ ys)) \<and>
    parse_node (encode_pbs (xs @ u # ys)) = parse_node (encode_pbs (xs @ ys)) \<and>
    parse_attribute (encode_pbs (xs @ u # ys)) = parse_attribute (encode_pbs (xs @ ys)) \<and>
    parse_tensor_proto (encode_pbs (xs @ u # ys)) = parse_tensor_proto (encode_pbs (xs @ ys))"
proof -
  note ignored = parse_fields_ignored [OF _ assms(1,2)]
  have n: "pb_field u \<noteq> k" if "unat k \<le> 25" for k
    using that assms(3) by auto
  show ?thesis
    unfolding parse_model_def parse_graph_def parse_node_def parse_attribute_def parse_tensor_proto_def
      parse_graph_at.simps [of 0] parse_node_at.simps [of 0] parse_attribute_at.simps [of 0]
    by (intro conjI if_cong refl ignored)
      (auto simp: n model_field_def graph_field_def node_field_def attribute_field_def
        tensor_field_def Let_def split: wire_value.split)
qed

theorem unknown_fields_ignored_witness:
  "parse_model (encode_pbs ([PbVarint 1 8] @ PbGroup 99 [PbVarint 1 5] # [PbVarint 5 2]))
     = parse_model (encode_pbs ([PbVarint 1 8] @ [PbVarint 5 2]))"
proof -
  have "length (encode_pbs ([PbVarint 1 8] @ PbGroup 99 [PbVarint 1 5] # [PbVarint 5 2])) \<le> 1000"
    by code_simp
  then have "length (encode_pbs ([PbVarint 1 8] @ PbGroup 99 [PbVarint 1 5] # [PbVarint 5 2])) \<le> usize_max"
    by (rule small_encoding)
  from unknown_fields_ignored [OF _ this] show ?thesis
    by (simp add: MAX_NESTING_DEPTH_def)
qed

end
