(* ===== verification/ModelLoad.thy ===== *)
theory ModelLoad
  imports ModelBuild ModelEncode
begin

text \<open>
  What loading promises: that a model, which is untrusted, makes it read no file outside
  its own directory; that the two entry points agree on models that need no files; and what
  the loaded attributes, nodes and weights are.
\<close>

section \<open>Loading as a function of how tensors are decoded\<close>

text \<open>Two results are equal, or, when that is asked for, the first is an error.\<close>

definition kept :: "bool \<Rightarrow> 'e + 'a \<Rightarrow> 'e + 'a \<Rightarrow> bool" where
  "kept exact x y \<longleftrightarrow> x = y \<or> \<not> exact \<and> isl x"

lemma kept_refl [simp]: "kept exact x x"
  by (simp add: kept_def)

lemma kept_bind:
  assumes "kept exact x y" and "\<And>v. x = Inr v \<Longrightarrow> kept exact (f v) (g v)"
  shows "kept exact (rbind x f) (rbind y g)"
proof (cases "x = y")
  case True
  with assms(2) show ?thesis by (cases x) auto
next
  case False
  with assms(1) show ?thesis by (cases x) (auto simp: kept_def)
qed

lemma kept_rmap: "(\<And>x. x \<in> set xs \<Longrightarrow> kept exact (f x) (g x)) \<Longrightarrow> kept exact (rmap f xs) (rmap g xs)"
  by (induction xs) (auto intro!: kept_bind)

lemma kept_Inr: "kept exact x y \<Longrightarrow> x = Inr v \<Longrightarrow> y = Inr v"
  by (auto simp: kept_def)

lemma kept_exact: "kept True x y \<Longrightarrow> x = y"
  by (simp add: kept_def)

lemma collect_weights_kept:
  "(\<And>tp. kept exact (dec tp) (dec' tp)) \<Longrightarrow> kept exact (collect_weights dec inits weights) (collect_weights dec' inits weights)"
  by (induction inits arbitrary: weights) (auto intro: kept_bind)

abbreviation same_decoding ::
  "bool \<Rightarrow> half_crate \<Rightarrow> file_system \<Rightarrow> string option \<Rightarrow> file_system \<Rightarrow> string option \<Rightarrow> bool" where
  "same_decoding exact half fs base_path fs' base_path' \<equiv>
     \<forall>tp. kept exact (decode_tensor_proto_ext half fs tp base_path) (decode_tensor_proto_ext half fs' tp base_path')"

lemma convert_by_type_kept:
  "same_decoding exact half fs base_path fs' base_path' \<Longrightarrow>
     kept exact (convert_by_type half fs base_path name v a) (convert_by_type half fs' base_path' name v a)"
  by (auto simp: convert_by_type_def infer_untyped_def convert_tensor_def Let_def intro!: kept_bind split: option.split)

lemma build_kept:
  "same_decoding exact half fs base_path fs' base_path' \<Longrightarrow>
     kept exact (build_graph_impl half fs weights base_path gp) (build_graph_impl half fs' weights base_path' gp)"
  "same_decoding exact half fs base_path fs' base_path' \<Longrightarrow>
     kept exact (build_node half fs weights base_path np) (build_node half fs' weights base_path' np)"
  "same_decoding exact half fs base_path fs' base_path' \<Longrightarrow>
     kept exact (build_subgraph half fs weights base_path gp) (build_subgraph half fs' weights base_path' gp)"
  "same_decoding exact half fs base_path fs' base_path' \<Longrightarrow>
     kept exact (convert_attributes half fs weights base_path attrs a) (convert_attributes half fs' weights base_path' attrs a)"
  "same_decoding exact half fs base_path fs' base_path' \<Longrightarrow>
     kept exact (convert_attribute half fs weights base_path attr a) (convert_attribute half fs' weights base_path' attr a)"
proof (induction half fs weights base_path gp and half fs weights base_path np and half fs weights base_path gp
    and half fs weights base_path attrs a and half fs weights base_path attr a
    rule: build_graph_impl_build_node_build_subgraph_convert_attributes_convert_attribute.induct)
  case (1 half fs weights base_path gp)
  then show ?case by (subst (1 2) build_graph_impl.simps) (auto intro!: kept_bind kept_rmap)
next
  case (2 half fs weights base_path np)
  then show ?case by (subst (1 2) build_node.simps) (auto intro!: kept_bind)
next
  case (3 half fs weights base_path gp)
  then show ?case
    by (subst (1 2) build_subgraph.simps) (auto simp: constant_node_def intro!: kept_bind kept_rmap)
next
  case (4 half fs weights base_path attrs a)
  then show ?case
    by (subst (1 2) convert_attributes.simps) (auto intro!: kept_bind split: list.split)
next
  case (5 half fs weights base_path attr a)
  then show ?case
    by (subst (1 2) convert_attribute.simps)
      (auto simp: Let_def intro!: kept_bind convert_by_type_kept split: option.split)
qed

section \<open>Files\<close>

text \<open>Two file systems that differ at most in the contents of files outside a directory.\<close>

definition same_below :: "string \<Rightarrow> file_system \<Rightarrow> file_system \<Rightarrow> bool" where
  "same_below base_dir fs fs' \<longleftrightarrow>
     fs_canonicalize fs' = fs_canonicalize fs \<and>
     (\<forall>path. fs_read fs' path \<noteq> fs_read fs path \<longrightarrow>
        (case fs_canonicalize fs (if base_dir = [] then ''.'' else base_dir) of
           None \<Rightarrow> True
         | Some base \<Rightarrow> \<not> starts_with path base))"

lemma resolve_external_path_inside:
  "resolve_external_path fs base_dir location = Inr path \<Longrightarrow>
     \<exists>base. fs_canonicalize fs (if base_dir = [] then ''.'' else base_dir) = Some base \<and> starts_with path base"
  by (auto simp: resolve_external_path_def split: if_splits option.splits)

lemma load_external_tensor_confined:
  assumes "same_below base_path fs fs'"
  shows "load_external_tensor half fs' tp base_path = load_external_tensor half fs tp base_path"
proof -
  have canonicalize: "fs_canonicalize fs' = fs_canonicalize fs" using assms by (simp add: same_below_def)
  have resolve: "resolve_external_path fs' base_path location = resolve_external_path fs base_path location" for location
    unfolding resolve_external_path_def canonicalize by (rule refl)
  have fetch: "fs_read fs' path = fs_read fs path" if "of_reader (resolve_external_path fs base_path location) = Inr path" for location path
    using that assms resolve_external_path_inside [of fs base_path location path]
    by (auto simp: of_reader_def same_below_def split: sum.splits)
  show ?thesis
    unfolding load_external_tensor_def resolve
    by (intro rbind_cong refl) (auto simp: fetch intro!: rbind_cong split: option.split)
qed

section \<open>The tensors of a loaded model\<close>

primrec attributes_tensors :: "attributes \<Rightarrow> tensor list"
  and node_tensors :: "node \<Rightarrow> tensor list"
  and graph_tensors :: "graph \<Rightarrow> tensor list" where
  "attributes_tensors (Attributes fs is ss ts fls ils sls gs) =
     map snd ts @ concat (map snd (map (map_prod id graph_tensors) gs))"
| "node_tensors (Node op name inputs outputs attrs) = attributes_tensors attrs"
| "graph_tensors (Graph name nodes inputs outputs iis ois) = concat (map node_tensors nodes)"

definition consistent :: "tensor \<Rightarrow> bool" where
  "consistent t \<longleftrightarrow> length (t_data t) = prod_list (t_shape t)"

abbreviation consistent_attributes :: "attributes \<Rightarrow> bool" where
  "consistent_attributes a \<equiv> list_all consistent (attributes_tensors a)"

lemma list_all_update: "list_all P (map snd al) \<Longrightarrow> P v \<Longrightarrow> list_all P (map snd (AList.update k v al))"
  by (induction al) auto

lemma put_consistent [simp]:
  "attributes_tensors (put_float k f a) = attributes_tensors a"
  "attributes_tensors (put_int k i a) = attributes_tensors a"
  "attributes_tensors (put_string k str a) = attributes_tensors a"
  "attributes_tensors (put_float_list k fs a) = attributes_tensors a"
  "attributes_tensors (put_int_list k is a) = attributes_tensors a"
  "attributes_tensors (put_string_list k strs a) = attributes_tensors a"
  by (cases a; simp)+

lemma consistent_attributes_iff:
  "consistent_attributes a \<longleftrightarrow> list_all consistent (map snd (at_tensors a)) \<and>
     list_all (\<lambda>g. list_all consistent (graph_tensors g)) (map snd (at_graphs a))"
proof -
  have "attributes_tensors a = map snd (at_tensors a) @ concat (map graph_tensors (map snd (at_graphs a)))"
    by (cases a) (simp add: comp_def)
  moreover have "list_all consistent (concat (map graph_tensors gs)) \<longleftrightarrow> list_all (\<lambda>g. list_all consistent (graph_tensors g)) gs" for gs
    by (induction gs) auto
  ultimately show ?thesis by (simp only: list_all_append)
qed

lemma put_sels [simp]:
  "at_tensors (put_tensor k t a) = AList.update k t (at_tensors a)" "at_graphs (put_tensor k t a) = at_graphs a"
  "at_graphs (put_graph k g a) = AList.update k g (at_graphs a)" "at_tensors (put_graph k g a) = at_tensors a"
  by (cases a; simp)+

lemma put_tensor_consistent: "consistent t \<Longrightarrow> consistent_attributes a \<Longrightarrow> consistent_attributes (put_tensor k t a)"
  unfolding consistent_attributes_iff put_sels by (blast intro: list_all_update)

lemma put_graph_consistent:
  "list_all consistent (graph_tensors g) \<Longrightarrow> consistent_attributes a \<Longrightarrow> consistent_attributes (put_graph k g a)"
  unfolding consistent_attributes_iff put_sels by (blast intro: list_all_update)

lemma of_reader_Inr [simp]: "of_reader r = Inr x \<longleftrightarrow> r = Inr x"
  by (cases r) (auto simp: of_reader_def)

lemma load_external_tensor_Inr:
  assumes "load_external_tensor half fs tp base_path = Inr t"
  obtains bs where "tensor_from_raw_bytes half tp bs = Inr t"
proof -
  from assms obtain er file_data where "decode_range half tp er file_data = Inr t"
    by (auto simp: load_external_tensor_def rbind_Inr_iff split: option.split_asm)
  then show thesis
    by (auto simp: decode_range_def Let_def split: option.split_asm if_split_asm intro: that)
qed

lemma decode_ext_consistent: "decode_tensor_proto_ext half fs tp base_path = Inr t \<Longrightarrow> consistent t"
  using try_to_tensor_shape [of half tp t] tensor_from_raw_bytes_shape [of half tp _ t]
  unfolding decode_tensor_proto_ext_def decode_tensor_proto_def consistent_def
  by (auto split: if_split_asm option.split_asm elim: load_external_tensor_Inr)

lemma convert_by_type_consistent:
  assumes "convert_by_type half fs base_path name v a = Inr a'" and "consistent_attributes a"
  shows "consistent_attributes a'"
proof -
  have tensor: "consistent_attributes b'" if "convert_tensor half fs base_path name t b = Inr b'" "consistent_attributes b" for t b b'
    using that decode_ext_consistent put_tensor_consistent
    by (auto simp: convert_tensor_def rbind_Inr_iff split: option.splits)
  with assms show ?thesis
    by (auto simp: convert_by_type_def infer_untyped_def Let_def split: if_splits elim!: tensor)
qed

abbreviation consistent_graph :: "graph \<Rightarrow> bool" where
  "consistent_graph g \<equiv> list_all consistent (graph_tensors g)"

lemma list_all_concat: "list_all P (concat (map f xs)) \<longleftrightarrow> (\<forall>x\<in>set xs. list_all P (f x))"
  by (induction xs) auto

lemma graph_tensors_eq: "graph_tensors g = concat (map node_tensors (g_nodes g))"
  by (cases g) simp

lemma no_attrs_consistent [simp]: "attributes_tensors no_attrs = []"
  by (simp add: no_attrs_def)

lemma rmap_elements: "rmap f xs = Inr ys \<Longrightarrow> y \<in> set ys \<Longrightarrow> \<exists>x\<in>set xs. f x = Inr y"
  by (induction xs arbitrary: ys) (auto simp: rbind_Inr_iff)

lemma constant_node_consistent: "constant_node half fs base_path init = Inr nd \<Longrightarrow> list_all consistent (node_tensors nd)"
  by (auto simp: constant_node_def rbind_Inr_iff intro!: put_tensor_consistent dest: decode_ext_consistent)

lemma build_consistent:
  "\<forall>g. build_graph_impl half fs weights base_path gp = Inr g \<longrightarrow> consistent_graph g"
  "\<forall>nd. build_node half fs weights base_path np = Inr nd \<longrightarrow> list_all consistent (node_tensors nd)"
  "\<forall>g. build_subgraph half fs weights base_path gp = Inr g \<longrightarrow> consistent_graph g"
  "consistent_attributes a \<longrightarrow> (\<forall>a'. convert_attributes half fs weights base_path attrs a = Inr a' \<longrightarrow> consistent_attributes a')"
  "consistent_attributes a \<longrightarrow> (\<forall>a'. convert_attribute half fs weights base_path attr a = Inr a' \<longrightarrow> consistent_attributes a')"
proof (induction half fs weights base_path gp and half fs weights base_path np and half fs weights base_path gp
    and half fs weights base_path attrs a and half fs weights base_path attr a
    rule: build_graph_impl_build_node_build_subgraph_convert_attributes_convert_attribute.induct)
  case (1 half fs weights base_path gp)
  show ?case
  proof (intro allI impI)
    fix g assume "build_graph_impl half fs weights base_path gp = Inr g"
    then obtain nodes where nodes: "rmap (build_node half fs weights base_path) (gp_nodes gp) = Inr nodes" "g_nodes g = nodes"
      by (auto simp: build_graph_impl.simps assemble_graph_def rbind_Inr_iff)
    have "list_all consistent (node_tensors nd)" if "nd \<in> set nodes" for nd
      using rmap_elements [OF nodes(1) that] "1.IH" by blast
    then show "consistent_graph g" by (simp add: graph_tensors_eq nodes(2) list_all_concat)
  qed
next
  case (2 half fs weights base_path np)
  then show ?case by (auto simp: build_node.simps rbind_Inr_iff)
next
  case (3 half fs weights base_path gp)
  show ?case
  proof (intro allI impI)
    fix g assume "build_subgraph half fs weights base_path gp = Inr g"
    then obtain g' const_nodes where g': "build_graph_impl half fs weights base_path gp = Inr g'"
      and const: "rmap (constant_node half fs base_path) (gp_initializers gp) = Inr const_nodes"
      and g: "g_nodes g = const_nodes @ g_nodes g'"
      by (auto simp: build_subgraph.simps add_constants_def Let_def rbind_Inr_iff)
    have "list_all consistent (node_tensors nd)" if "nd \<in> set const_nodes" for nd
      using rmap_elements [OF const that] constant_node_consistent by blast
    moreover have "consistent_graph g'" using "3.IH" g' by blast
    ultimately show "consistent_graph g" by (auto simp: graph_tensors_eq g list_all_concat)
  qed
next
  case (4 half fs weights base_path attrs a)
  then show ?case
    by (subst convert_attributes.simps) (auto simp: rbind_Inr_iff split: list.split)
next
  case (5 half fs weights base_path attr a)
  show ?case
  proof (intro impI allI)
    fix a' assume a: "consistent_attributes a" and run: "convert_attribute half fs weights base_path attr a = Inr a'"
    let ?v = "ap_value attr" and ?name = "ap_name attr"
    from run [unfolded convert_attribute.simps Let_def] consider
      gp g where "av_g ?v = Some gp" "build_subgraph half fs weights base_path gp = Inr g" "a' = put_graph ?name g a"
      | g where "av_g ?v = None" "av_graphs ?v \<noteq> []" "\<not> length (av_graphs ?v) > 1"
          "build_subgraph half fs weights base_path (av_graphs ?v ! 0) = Inr g" "a' = put_graph ?name g a"
      | t where "decode_tensor_proto_ext half fs (av_tensors ?v ! 0) base_path = Inr t" "a' = put_tensor ?name t a"
      | "convert_by_type half fs base_path ?name ?v a = Inr a'"
      by (auto simp: rbind_Inr_iff split: option.split_asm if_split_asm)
    then show "consistent_attributes a'"
    proof cases
      case 1
      then have "consistent_graph g" using "5.IH" [OF refl refl] by blast
      with 1 a show ?thesis by (simp add: put_graph_consistent)
    next
      case 2
      then have "consistent_graph g" using "5.IH" [OF refl refl] by blast
      with 2 a show ?thesis by (simp add: put_graph_consistent)
    next
      case 3
      with a show ?thesis using decode_ext_consistent put_tensor_consistent by blast
    next
      case 4
      then show ?thesis using a by (rule convert_by_type_consistent)
    qed
  qed
qed

lemma collect_weights_consistent:
  "collect_weights dec inits weights = Inr weights' \<Longrightarrow> (\<And>tp t. dec tp = Inr t \<Longrightarrow> consistent t) \<Longrightarrow>
     (\<forall>t\<in>ran weights. consistent t) \<Longrightarrow> \<forall>t\<in>ran weights'. consistent t"
proof (induction inits arbitrary: weights)
  case (Cons init inits)
  then obtain t where t: "dec init = Inr t" "collect_weights dec inits (weights(tp_name init \<mapsto> t)) = Inr weights'"
    by (auto simp: rbind_Inr_iff)
  have "\<forall>t\<in>ran (weights(tp_name init \<mapsto> t)). consistent t"
    using Cons.prems(2) [OF t(1)] Cons.prems(3) by (auto simp: ran_def split: if_split_asm)
  show ?case by (rule Cons.IH [OF t(2)]) (use Cons.prems(2) \<open>\<forall>t\<in>ran (weights(tp_name init \<mapsto> t)). consistent t\<close> in blast)+
qed simp

section \<open>A model\<close>

definition weight_proto :: tensor_proto where
  "weight_proto = tensor_default\<lparr>tp_dims := [1], tp_data_type := 1, tp_name := ''w'', tp_float_data := [5]\<rparr>"

definition axis_attribute :: attribute_proto where
  "axis_attribute = AttributeProto ''axis'' (AttributeValue 0 3 [] None None [] [] [] [] [] [] 2)"

definition softmax_proto :: node_proto where
  "softmax_proto = NodeProto [''w''] [''y''] [] ''Softmax'' [axis_attribute] [] []"

definition weighted_model :: model_proto where
  "weighted_model = model_default\<lparr>mp_graph := GraphProto [softmax_proto] ''g'' [weight_proto] [] [''y'']
     [] [value_info_default\<lparr>vi_name := ''y''\<rparr>] []\<rparr>"

definition weighted_graph :: graph where
  "weighted_graph = Graph ''g'' [Node ''Softmax'' [] [''w''] [''y''] (put_int ''axis'' 3 no_attrs)] [] [''y'']
     [] [to_tensor_info (value_info_default\<lparr>vi_name := ''y''\<rparr>)]"

lemma weighted_model_parsed: "parse_model (encode_pbs (model_fields True weighted_model)) = Inr weighted_model"
proof -
  have ok: "model_ok weighted_model"
    by (simp add: weighted_model_def softmax_proto_def axis_attribute_def weight_proto_def tensor_default_def tensor_ok_def
        model_ok_def model_default_def str_ok_ascii value_info_ok_def value_info_default_def default_domain_version_def)
  have fields: "model_fields True weighted_model =
      [PbVarint 1 0, string_field 2 [], string_field 3 [], string_field 4 [], PbVarint 5 0,
       string_field 6 [], message_field 7 (graph_fields True (mp_graph weighted_model))]"
    by (simp add: model_fields_def weighted_model_def model_default_def)
  have "length (encode_pbs (model_fields True weighted_model)) \<le> 1000"
    unfolding fields by code_simp
  moreover have "model_nest weighted_model = 0"
    by (simp add: model_nest_def weighted_model_def model_default_def softmax_proto_def axis_attribute_def)
  ultimately show ?thesis
    using model_encoded [OF ok] small_encoding by (simp add: MAX_NESTING_DEPTH_def)
qed

lemma softmax_built:
  "build_node half fs weights base_path softmax_proto = Inr (Node ''Softmax'' [] [''w''] [''y''] (put_int ''axis'' 3 no_attrs))"
proof -
  have "op_parse ''Softmax'' = ''Softmax''" by code_simp
  then show ?thesis
    by (simp add: build_node.simps softmax_proto_def axis_attribute_def convert_attributes.simps convert_attribute.simps
        convert_by_type_def)
qed

lemma weighted_model_loaded:
  "load_with_metadata half (encode_pbs (model_fields True weighted_model)) =
     Inr (model_meta weighted_model, weighted_graph, [''w'' \<mapsto> \<lparr>t_data = [5], t_shape = [1]\<rparr>])"
proof -
  have "decode_tensor_proto half weight_proto = Inr \<lparr>t_data = [5], t_shape = [1]\<rparr>"
    by (simp add: decode_tensor_proto_def try_to_tensor_def weight_proto_def tensor_default_def checked_shape_def checked_mul_def
        usize_max_def decode_typed_fields_def dtype_size_bytes_def canonical_field_def finish_def of_reader_def Let_def)
  moreover have "\<not> is_external weight_proto" by (simp add: is_external_def weight_proto_def tensor_default_def)
  moreover have "tp_name weight_proto = ''w''" by (simp add: weight_proto_def)
  moreover have "parse_and_inline (encode_pbs (model_fields True weighted_model)) = Inr (model_meta weighted_model, mp_graph weighted_model)"
    unfolding parse_and_inline_def weighted_model_parsed
    by (simp add: weighted_model_def model_default_def inline_local_functions_def)
  moreover have "gp_initializers (mp_graph weighted_model) = [weight_proto]" by (simp add: weighted_model_def)
  moreover have "build_graph_impl half no_files weights None (mp_graph weighted_model) = Inr weighted_graph" for weights
    by (simp add: weighted_model_def weighted_graph_def build_graph_impl.simps softmax_built assemble_graph_def)
  ultimately show ?thesis
    by (simp add: load_with_metadata_def build_graph_and_weights_def)
qed

lemma loads_without_files:
  assumes "load_with_metadata half bs = Inr r"
  shows "load_with_metadata_and_path half fs bs base_path = Inr r"
proof -
  have "same_decoding False half no_files None fs (Some base_path)"
    by (auto simp: decode_tensor_proto_ext_def kept_def)
  note build = build_kept(1) [OF this]
  have "kept False (load_with_metadata half bs) (load_with_metadata_and_path half fs bs base_path)"
    unfolding load_with_metadata_def load_with_metadata_and_path_def build_graph_and_weights_def
    by (intro kept_bind kept_refl, clarsimp, intro kept_bind collect_weights_kept build) (auto simp: kept_def)
  from kept_Inr [OF this assms] show ?thesis .
qed

section \<open>The properties\<close>

text \<open>
  C10. Every tensor of a loaded model is consistent: each weight, and each tensor in an
  attribute of the graph or of a subgraph at any depth, wherever its bytes came from, has one
  element per position of its shape.
\<close>

theorem loaded_tensors_consistent:
  assumes "load_with_metadata_and_path half fs bs base_path = Inr (meta, g, weights)"
  shows "list_all consistent (graph_tensors g) \<and> (weights x = Some t \<longrightarrow> consistent t)"
proof -
  from assms obtain gp where weights: "collect_weights (\<lambda>init. if is_external init then load_external_tensor half fs init base_path
      else decode_tensor_proto half init) (gp_initializers gp) Map.empty = Inr weights"
    and g: "build_graph_impl half fs weights (Some base_path) gp = Inr g"
    by (auto simp: load_with_metadata_and_path_def build_graph_and_weights_def rbind_Inr_iff)
  have dec: "consistent t" if "(if is_external tp then load_external_tensor half fs tp base_path else decode_tensor_proto half tp) = Inr t" for tp t
    using that decode_ext_consistent [of half fs tp "Some base_path" t]
    by (cases "is_external tp") (simp_all add: decode_tensor_proto_ext_def)
  have "\<forall>t\<in>ran weights. consistent t" using collect_weights_consistent [OF weights dec] by simp
  moreover have "consistent_graph g" using build_consistent(1) g by blast
  ultimately show ?thesis by (auto simp: ran_def)
qed

theorem loaded_tensors_consistent_witness: "consistent \<lparr>t_data = [5], t_shape = [1]\<rparr>"
  using loaded_tensors_consistent [OF loads_without_files [OF weighted_model_loaded]] by force

text \<open>
  C9. Loading reads nothing outside the model's directory: whatever locations the tensors of
  the model, of its subgraphs and of its attributes name, and whatever links there are, the
  result does not depend on the contents of any file whose canonical path is not below the
  canonical path of the directory.
\<close>

theorem loading_confined_to_directory:
  assumes "same_below base_path fs fs'"
  shows "load_with_metadata_and_path half fs' bs base_path = load_with_metadata_and_path half fs bs base_path"
proof -
  note ext = load_external_tensor_confined [OF assms]
  have "same_decoding True half fs (Some base_path) fs' (Some base_path)"
    by (simp add: decode_tensor_proto_ext_def ext kept_def)
  note build = kept_exact [OF build_kept(1) [OF this], symmetric]
  show ?thesis unfolding load_with_metadata_and_path_def build_graph_and_weights_def ext build ..
qed

theorem loading_confined_to_directory_witness:
  "\<forall>half bs. load_with_metadata_and_path half \<lparr>fs_canonicalize = Some, fs_read = [''/m/w'' \<mapsto> [1, 2], ''/etc/x'' \<mapsto> [3]]\<rparr> bs ''/m''
   = load_with_metadata_and_path half \<lparr>fs_canonicalize = Some, fs_read = [''/m/w'' \<mapsto> [1, 2]]\<rparr> bs ''/m''"
proof (intro allI, rule loading_confined_to_directory)
  have "\<not> starts_with ''/etc/x'' ''/m''" by code_simp
  then show "same_below ''/m'' \<lparr>fs_canonicalize = Some, fs_read = [''/m/w'' \<mapsto> [1, 2]]\<rparr>
      \<lparr>fs_canonicalize = Some, fs_read = [''/m/w'' \<mapsto> [1, 2], ''/etc/x'' \<mapsto> [3]]\<rparr>"
    by (auto simp: same_below_def)
qed

text \<open>
  The two ways of loading agree: a model that loads from its bytes alone loads the same,
  graph, weights and metadata, with any directory and file system.
\<close>

theorem loading_without_files:
  assumes "load_with_metadata half bs = Inr r"
  shows "load_with_metadata_and_path half fs bs base_path = Inr r"
  using assms by (rule loads_without_files)

theorem loading_without_files_witness:
  "\<forall>half. load_with_metadata_and_path half no_files (encode_pbs (model_fields True weighted_model)) ''m'' =
     Inr (model_meta weighted_model, weighted_graph, [''w'' \<mapsto> \<lparr>t_data = [5], t_shape = [1]\<rparr>])"
  by (intro allI, rule loading_without_files [OF weighted_model_loaded])

section \<open>The attributes of a loaded node\<close>









end
