(* ===== verification/InlineProof.thy ===== *)
theory InlineProof
  imports Inline
begin

text \<open>
  What inlining promises of its result. The successful runs of the expansion are an inductive
  relation (\<open>expands\<close>), one rule per way a node is treated; the properties are by induction
  over its rules: no call is left anywhere, and every node that is emitted was paid for from
  the budget.
\<close>

section \<open>Successful expansions\<close>

inductive expands :: "library \<Rightarrow> nat \<Rightarrow> node_proto list \<Rightarrow> expand_state \<Rightarrow> node_proto list \<Rightarrow> expand_state \<Rightarrow> bool"
  and expands_attributes :: "library \<Rightarrow> nat \<Rightarrow> attribute_proto list \<Rightarrow> expand_state \<Rightarrow> attribute_proto list \<Rightarrow> expand_state \<Rightarrow> bool"
  and expands_graphs :: "library \<Rightarrow> nat \<Rightarrow> graph_proto list \<Rightarrow> expand_state \<Rightarrow> graph_proto list \<Rightarrow> expand_state \<Rightarrow> bool"
  for lib :: library where
  expands_Nil: "expands lib d [] st [] st"
| expands_plain: "spend st = Inr st1 \<Longrightarrow> lib (node_key nd) = None \<Longrightarrow> \<not> has_subgraph nd \<Longrightarrow>
    expands lib d nodes st1 out st2 \<Longrightarrow> expands lib d (nd # nodes) st (nd # out) st2"
| expands_control: "spend st = Inr st1 \<Longrightarrow> lib (node_key nd) = None \<Longrightarrow> has_subgraph nd \<Longrightarrow>
    expands_attributes lib (Suc d) (np_attributes nd) st1 attributes st2 \<Longrightarrow> expands lib d nodes st2 out st3 \<Longrightarrow>
    expands lib d (nd # nodes) st (np_attributes_update (\<lambda>_. attributes) nd # out) st3"
| expands_call: "spend st = Inr st1 \<Longrightarrow> lib (node_key nd) = Some fn \<Longrightarrow> d < MAX_FUNCTION_DEPTH \<Longrightarrow>
    length (np_inputs nd) \<le> length (fp_inputs fn) \<Longrightarrow> length (np_outputs nd) \<le> length (fp_outputs fn) \<Longrightarrow>
    call_body (Suc (es_counter st1)) fn nd = Inr body \<Longrightarrow>
    expands lib (Suc d) body (st1\<lparr>es_counter := Suc (es_counter st1)\<rparr>) expanded st2 \<Longrightarrow>
    expands lib d nodes st2 out st3 \<Longrightarrow> expands lib d (nd # nodes) st (expanded @ out) st3"
| attributes_Nil: "expands_attributes lib d [] st [] st"
| attributes_Cons: "av_g (ap_value a) = None \<and> g = None \<and> st1 = st \<or>
      (\<exists>sub nodes. av_g (ap_value a) = Some sub \<and> expands lib d (gp_nodes sub) st nodes st1 \<and>
        g = Some (gp_nodes_update (\<lambda>_. nodes) sub)) \<Longrightarrow>
    expands_graphs lib d (av_graphs (ap_value a)) st1 graphs st2 \<Longrightarrow>
    expands_attributes lib d attributes st2 out st3 \<Longrightarrow>
    expands_attributes lib d (a # attributes) st
      (AttributeProto (ap_name a) (av_g_update (\<lambda>_. g) (av_graphs_update (\<lambda>_. graphs) (ap_value a))) # out) st3"
| graphs_Nil: "expands_graphs lib d [] st [] st"
| graphs_Cons: "expands lib d (gp_nodes sub) st nodes st1 \<Longrightarrow> expands_graphs lib d graphs st1 out st2 \<Longrightarrow>
    expands_graphs lib d (sub # graphs) st (gp_nodes_update (\<lambda>_. nodes) sub # out) st2"

lemma expansion_expands:
  "\<forall>out st'. expand_nodes lib d nodes st = Inr (out, st') \<longrightarrow> expands lib d nodes st out st'"
  "\<forall>nd' st'. expand_node_subgraphs lib d nd st = Inr (nd', st') \<longrightarrow>
     (\<not> has_subgraph nd \<and> nd' = nd \<and> st' = st) \<or>
     (\<exists>attributes'. has_subgraph nd \<and> expands_attributes lib d (np_attributes nd) st attributes' st' \<and>
        nd' = np_attributes_update (\<lambda>_. attributes') nd)"
  "\<forall>out st'. expand_attributes lib d attributes st = Inr (out, st') \<longrightarrow> expands_attributes lib d attributes st out st'"
  "\<forall>out st'. expand_graphs lib d graphs st = Inr (out, st') \<longrightarrow> expands_graphs lib d graphs st out st'"
proof (induction lib d nodes st and lib d nd st and lib d attributes st and lib d graphs st
    rule: expand_nodes_expand_node_subgraphs_expand_attributes_expand_graphs.induct)
  case (1 lib depth nodes st)
  show ?case
  proof (intro allI impI)
    fix out st' assume run: "expand_nodes lib depth nodes st = Inr (out, st')"
    then have depth: "\<not> depth > MAX_FUNCTION_DEPTH" by (auto simp: expand_nodes.simps split: if_splits)
    show "expands lib depth nodes st out st'"
    proof (cases nodes)
      case Nil
      with run depth show ?thesis by (simp add: expand_nodes.simps expands_Nil)
    next
      case (Cons nd rest)
      obtain st1 where st1: "spend st = Inr st1"
        using run depth Cons by (subst (asm) expand_nodes.simps) (auto simp: rbind_Inr_iff)
      show ?thesis
      proof (cases "lib (node_key nd)")
        case None
        from run depth Cons st1 None obtain nd' st2 out' where n: "expand_node_subgraphs lib (depth + 1) nd st1 = Inr (nd', st2)"
          "expand_nodes lib depth rest st2 = Inr (out', st')" "out = nd' # out'"
          by (subst (asm) expand_nodes.simps) (auto simp: rbind_Inr_iff)
        have rest: "expands lib depth rest st2 out' st'"
          using "1.IH"(2) [OF depth Cons st1 None n(1) refl] n(2) by blast
        from "1.IH"(1) [OF depth Cons st1 None] n(1)
        consider "\<not> has_subgraph nd" "nd' = nd" "st2 = st1"
          | attributes where "has_subgraph nd" "expands_attributes lib (depth + 1) (np_attributes nd) st1 attributes st2"
            "nd' = np_attributes_update (\<lambda>_. attributes) nd" by blast
        then show ?thesis
          using rest n(3) Cons st1 None by cases (auto intro: expands_plain expands_control)
      next
        case (Some fn)
        from run depth Cons st1 Some have ok: "\<not> depth \<ge> MAX_FUNCTION_DEPTH" "\<not> length (np_inputs nd) > length (fp_inputs fn)"
          "\<not> length (np_outputs nd) > length (fp_outputs fn)"
          by (subst (asm) expand_nodes.simps, simp add: rbind_Inr_iff Let_def split: if_splits)+
        let ?st = "st1\<lparr>es_counter := es_counter st1 + 1\<rparr>"
        from run depth Cons st1 Some ok obtain body expanded st2 out' where
          c: "call_body (es_counter ?st) fn nd = Inr body" "expand_nodes lib (depth + 1) body ?st = Inr (expanded, st2)"
          "expand_nodes lib depth rest st2 = Inr (out', st')" "out = expanded @ out'"
          by (subst (asm) expand_nodes.simps) (auto simp: rbind_Inr_iff Let_def)
        have "expands lib (depth + 1) body ?st expanded st2"
          using "1.IH"(3) [OF depth Cons st1 Some ok refl c(1)] c(2) by blast
        moreover have "expands lib depth rest st2 out' st'"
          using "1.IH"(4) [OF depth Cons st1 Some ok refl c(1,2) refl] c(3) by blast
        ultimately show ?thesis
          unfolding Cons c(4) using st1 Some ok c(1) by (intro expands_call [where fn = fn]) simp_all
      qed
    qed
  qed
next
  case (2 lib depth nd st)
  then show ?case by (subst expand_node_subgraphs.simps) (auto simp: rbind_Inr_iff)
next
  case (3 lib depth attributes st)
  show ?case
  proof (intro allI impI)
    fix out st' assume run: "expand_attributes lib depth attributes st = Inr (out, st')"
    show "expands_attributes lib depth attributes st out st'"
    proof (cases attributes)
      case Nil
      with run show ?thesis by (simp add: expand_attributes.simps attributes_Nil)
    next
      case (Cons a rest)
      let ?g = "case av_g (ap_value a) of None \<Rightarrow> Inr (None, st)
            | Some sub \<Rightarrow> rbind (expand_nodes lib depth (gp_nodes sub) st) (\<lambda>(nodes, st).
                Inr (Some (gp_nodes_update (\<lambda>_. nodes) sub), st))"
      from run Cons obtain g st1 graphs st2 out' where
        r: "?g = Inr (g, st1)" "expand_graphs lib depth (av_graphs (ap_value a)) st1 = Inr (graphs, st2)"
        "expand_attributes lib depth rest st2 = Inr (out', st')"
        "out = AttributeProto (ap_name a) (av_g_update (\<lambda>_. g) (av_graphs_update (\<lambda>_. graphs) (ap_value a))) # out'"
        by (subst (asm) expand_attributes.simps) (auto simp: rbind_Inr_iff)
      have g: "av_g (ap_value a) = None \<and> g = None \<and> st1 = st \<or>
        (\<exists>sub nodes. av_g (ap_value a) = Some sub \<and> expands lib depth (gp_nodes sub) st nodes st1 \<and>
          g = Some (gp_nodes_update (\<lambda>_. nodes) sub))"
      proof (cases "av_g (ap_value a)")
        case (Some sub)
        with r(1) obtain nodes where "expand_nodes lib depth (gp_nodes sub) st = Inr (nodes, st1)"
          "g = Some (gp_nodes_update (\<lambda>_. nodes) sub)" by (auto simp: rbind_Inr_iff)
        with "3.IH"(1) [OF Cons Some] Some show ?thesis by blast
      qed (use r(1) in simp)
      have "expands_graphs lib depth (av_graphs (ap_value a)) st1 graphs st2"
        using "3.IH"(2) [OF Cons r(1) refl] r(2) by blast
      moreover have "expands_attributes lib depth rest st2 out' st'"
        using "3.IH"(3) [OF Cons r(1) refl r(2) refl] r(3) by blast
      ultimately show ?thesis using attributes_Cons [OF g] r(4) Cons by blast
    qed
  qed
next
  case (4 lib depth graphs st)
  show ?case
  proof (intro allI impI)
    fix out st' assume run: "expand_graphs lib depth graphs st = Inr (out, st')"
    show "expands_graphs lib depth graphs st out st'"
    proof (cases graphs)
      case Nil
      with run show ?thesis by (simp add: expand_graphs.simps graphs_Nil)
    next
      case (Cons sub rest)
      from run Cons obtain nodes st1 out' where r: "expand_nodes lib depth (gp_nodes sub) st = Inr (nodes, st1)"
        "expand_graphs lib depth rest st1 = Inr (out', st')" "out = gp_nodes_update (\<lambda>_. nodes) sub # out'"
        by (subst (asm) expand_graphs.simps) (auto simp: rbind_Inr_iff)
      from "4.IH"(1) [OF Cons] "4.IH"(2) [OF Cons r(1) refl] r Cons show ?thesis
        by (auto intro: graphs_Cons)
    qed
  qed
qed

section \<open>No call is left, and every node is paid for\<close>

text \<open>The operator keys of all nodes, in subgraphs to any depth.\<close>

primrec value_keys :: "attribute_value \<Rightarrow> function_key list"
  and attribute_keys :: "attribute_proto \<Rightarrow> function_key list"
  and node_keys :: "node_proto \<Rightarrow> function_key list"
  and graph_keys :: "graph_proto \<Rightarrow> function_key list" where
  "value_keys (AttributeValue f i s t g fs is ss ts graphs r ty) =
     concat (case map_option graph_keys g of None \<Rightarrow> [] | Some ks \<Rightarrow> [ks]) @ concat (map graph_keys graphs)"
| "attribute_keys (AttributeProto name v) = value_keys v"
| "node_keys (NodeProto inputs outputs name op_type attributes domain overload) =
     (domain, op_type, overload) # concat (map attribute_keys attributes)"
| "graph_keys (GraphProto nodes name initializers inputs outputs iis ois vis) = concat (map node_keys nodes)"

lemma node_keys_eq: "node_keys nd = node_key nd # concat (map attribute_keys (np_attributes nd))"
  by (cases nd) (simp add: node_key_def)

lemma graph_keys_eq: "graph_keys g = concat (map node_keys (gp_nodes g))"
  by (cases g) simp

lemma attribute_keys_eq: "attribute_keys a =
    (case av_g (ap_value a) of None \<Rightarrow> [] | Some g \<Rightarrow> graph_keys g) @ concat (map graph_keys (av_graphs (ap_value a)))"
  by (cases a; cases "ap_value a") (auto split: option.split)

lemma update_sels [simp]:
  "np_attributes (np_attributes_update u nd) = u (np_attributes nd)"
  "node_key (np_attributes_update u nd) = node_key nd"
  "gp_nodes (gp_nodes_update v g) = v (gp_nodes g)"
  "av_g (av_g_update w x) = w (av_g x)"
  "av_graphs (av_g_update w x) = av_graphs x"
  "av_graphs (av_graphs_update y x) = y (av_graphs x)"
      apply (cases nd, simp)
     apply (cases nd, simp add: node_key_def)
    apply (cases g, simp)
   apply (cases x, simp)+
  done

lemma no_subgraph_keys: "\<not> has_subgraph nd \<Longrightarrow> concat (map attribute_keys (np_attributes nd)) = []"
  by (auto simp: has_subgraph_def list_ex_iff attribute_keys_eq)

definition resolved_keys :: "library \<Rightarrow> function_key list \<Rightarrow> expand_state \<Rightarrow> expand_state \<Rightarrow> bool" where
  "resolved_keys lib ks st st' \<longleftrightarrow> (\<forall>k\<in>set ks. lib k = None) \<and> length ks + es_budget st' \<le> es_budget st"

lemma spend_budget: "spend st = Inr st1 \<Longrightarrow> es_budget st = Suc (es_budget st1)"
  by (auto simp: spend_def split: if_splits)

lemma resolved_keys_trans:
  "resolved_keys lib ks st st1 \<Longrightarrow> resolved_keys lib ks' st1 st2 \<Longrightarrow> resolved_keys lib (ks @ ks') st st2"
  by (auto simp: resolved_keys_def)

lemma resolved_keys_spend:
  "spend st = Inr st1 \<Longrightarrow> lib k = None \<Longrightarrow> resolved_keys lib ks st1 st2 \<Longrightarrow> resolved_keys lib (k # ks) st st2"
  using spend_budget [of st st1] by (auto simp: resolved_keys_def)

lemma expands_resolved:
  "expands lib d nodes st out st' \<Longrightarrow> resolved_keys lib (concat (map node_keys out)) st st'"
  "expands_attributes lib d attributes st attributes' st' \<Longrightarrow>
     resolved_keys lib (concat (map attribute_keys attributes')) st st'"
  "expands_graphs lib d graphs st graphs' st' \<Longrightarrow> resolved_keys lib (concat (map graph_keys graphs')) st st'"
proof (induction rule: expands_expands_attributes_expands_graphs.inducts)
  case (expands_plain st st1 nd d nodes out st2)
  then have plain: "\<not> has_subgraph nd" by simp
  have "node_keys nd = [node_key nd]" by (simp only: node_keys_eq no_subgraph_keys [OF plain])
  moreover have "resolved_keys lib (node_key nd # concat (map node_keys out)) st st2"
    using expands_plain by (intro resolved_keys_spend)
  ultimately show ?case by simp
next
  case (expands_control st st1 nd d attributes st2 nodes out st3)
  have "resolved_keys lib (node_key nd # concat (map attribute_keys attributes) @ concat (map node_keys out)) st st3"
    using expands_control by (intro resolved_keys_spend resolved_keys_trans)
  then show ?case by (simp add: node_keys_eq [of "np_attributes_update (\<lambda>_. attributes) nd"])
next
  case (expands_call st st1 nd fn body d expanded st2 nodes out st3)
  then have budget: "es_budget st = Suc (es_budget st1)" by (intro spend_budget)
  have "resolved_keys lib (concat (map node_keys expanded) @ concat (map node_keys out))
      (st1\<lparr>es_counter := Suc (es_counter st1)\<rparr>) st3"
    using expands_call by (intro resolved_keys_trans)
  with budget show ?case by (simp add: resolved_keys_def)
next
  case (attributes_Cons a g st1 st d graphs st2 attributes attributes' st3)
  have "resolved_keys lib (case g of None \<Rightarrow> [] | Some g \<Rightarrow> graph_keys g) st st1"
    using attributes_Cons by (auto simp: graph_keys_eq resolved_keys_def)
  then have "resolved_keys lib (((case g of None \<Rightarrow> [] | Some g \<Rightarrow> graph_keys g) @ concat (map graph_keys graphs))
      @ concat (map attribute_keys attributes')) st st3"
    using attributes_Cons by (intro resolved_keys_trans)
  then show ?case by (simp del: attribute_keys.simps add: attribute_keys_eq [of "AttributeProto _ _"])
next
  case (graphs_Cons d sub st nodes st1 graphs out st2)
  have "resolved_keys lib (concat (map node_keys nodes) @ concat (map graph_keys out)) st st2"
    using graphs_Cons by (intro resolved_keys_trans)
  then show ?case by (simp add: graph_keys_eq [of "gp_nodes_update _ _"])
qed (simp_all add: resolved_keys_def)

lemma build_library_keys:
  "build_library fns lib = Inr lib' \<Longrightarrow>
     (\<forall>fn\<in>set fns. lib' (function_key fn) = Some fn) \<and> (\<forall>k v. lib k = Some v \<longrightarrow> lib' k = Some v)"
proof (induction fns arbitrary: lib)
  case (Cons fn fns)
  then have new: "lib (function_key fn) = None" and rest: "build_library fns (lib(function_key fn \<mapsto> fn)) = Inr lib'"
    by (auto split: if_splits)
  from Cons.IH [OF rest] have IH: "\<forall>fn\<in>set fns. lib' (function_key fn) = Some fn"
    "\<And>k v. (lib(function_key fn \<mapsto> fn)) k = Some v \<Longrightarrow> lib' k = Some v" by blast+
  have "lib' k = Some v" if "lib k = Some v" for k v
    using IH(2) [of k v] that new by (cases "k = function_key fn") (auto simp del: split_paired_All split_paired_Ex)
  with IH(1) IH(2) [of "function_key fn" fn] show ?case by (simp del: split_paired_All)
qed simp

lemma inlined_resolved:
  assumes "inline_local_functions g fns = Inr g'" and "fns \<noteq> []"
  obtains lib where "build_library fns Map.empty = Inr lib" and "\<forall>k\<in>set (graph_keys g'). lib k = None"
    and "length (graph_keys g') \<le> node_budget (length (gp_nodes g))"
proof -
  let ?st = "\<lparr>es_counter = 0, es_budget = node_budget (length (gp_nodes g))\<rparr>"
  from assms obtain lib nodes st' where lib: "build_library fns Map.empty = Inr lib"
    and "expand_nodes lib 0 (gp_nodes g) ?st = Inr (nodes, st')" and g': "g' = gp_nodes_update (\<lambda>_. nodes) g"
    by (auto simp: inline_local_functions_def rbind_Inr_iff)
  then have "expands lib 0 (gp_nodes g) ?st nodes st'" using expansion_expands(1) by blast
  from expands_resolved(1) [OF this] show ?thesis
    by (intro that [OF lib]) (auto simp: g' graph_keys_eq resolved_keys_def)
qed

text \<open>A model with one call of a function whose body is one \<open>Relu\<close> node.\<close>

definition relu_function :: function_proto where
  "relu_function = function_default\<lparr>fp_name := ''F'', fp_inputs := [''a''], fp_outputs := [''b''],
     fp_nodes := [NodeProto [''a''] [''b''] ''n'' ''Relu'' [] [] []], fp_domain := ''d''\<rparr>"

definition calling_graph :: graph_proto where
  "calling_graph = GraphProto [NodeProto [''x''] [''y''] [] ''F'' [] ''d'' []] ''g'' [] [''x''] [''y''] [] [] []"

definition inlined_graph :: graph_proto where
  "inlined_graph = GraphProto [NodeProto [''x''] [''y''] ''__fn1_F__n'' ''Relu'' [] [] []] ''g'' [] [''x''] [''y''] [] [] []"

lemma show_nat_one: "show_nat (Suc 0) = ''1''"
  by code_simp

lemma inline_relu_function: "inline_local_functions calling_graph [relu_function] = Inr inlined_graph"
  by (simp add: inline_local_functions_def calling_graph_def relu_function_def function_default_def inlined_graph_def
      function_key_def node_key_def expand_nodes.simps expand_node_subgraphs.simps has_subgraph_def spend_def node_budget_def
      saturating_mul_def call_body_def call_prefix_def show_nat_one call_formals_def call_scope_def apply_name_def
      MAX_FUNCTION_DEPTH_def MAX_NESTING_DEPTH_def Let_def)

text \<open>
  C16. After inlining no call is left: no node of the graph, nor of any subgraph of any of
  its nodes at any depth, has the domain, name and overload of one of the model's functions.
\<close>

theorem inlined_graph_has_no_calls:
  assumes "inline_local_functions g fns = Inr g'" and "fn \<in> set fns"
  shows "function_key fn \<notin> set (graph_keys g')"
proof -
  have "fns \<noteq> []" using assms(2) by auto
  from inlined_resolved [OF assms(1) this] build_library_keys [of fns Map.empty] assms(2) show ?thesis
    by (metis option.distinct(1))
qed

theorem inlined_graph_has_no_calls_witness: "(''d'', ''F'', []) \<notin> set (graph_keys inlined_graph)"
  using inlined_graph_has_no_calls [OF inline_relu_function, of relu_function]
  by (simp add: function_key_def relu_function_def function_default_def)

text \<open>
  C38. Inlining cannot blow up: whatever the functions call, the graph it returns has, in all
  its subgraphs together, at most as many nodes as the budget, which depends on the number
  of nodes of the main graph alone.
\<close>

theorem inlined_size_bounded:
  assumes "inline_local_functions g fns = Inr g'" and "fns \<noteq> []"
  shows "length (graph_keys g') \<le> max (max 100000 (min 16000000 (4096 * length (gp_nodes g)))) (4 * length (gp_nodes g))"
proof -
  from inlined_resolved [OF assms] have "length (graph_keys g') \<le> node_budget (length (gp_nodes g))" by blast
  also have "\<dots> \<le> max (max 100000 (min 16000000 (4096 * length (gp_nodes g)))) (4 * length (gp_nodes g))"
    unfolding node_budget_def saturating_mul_def by (auto simp: min_def max_def)
  finally show ?thesis .
qed

theorem inlined_size_bounded_witness: "length (graph_keys inlined_graph) \<le> 100000"
  using inlined_size_bounded [OF inline_relu_function] by (simp add: calling_graph_def)

end
