(* ===== verification/InlineMeaning.thy ===== *)
theory InlineMeaning
  imports InlineProof
begin

text \<open>
  Inlining preserves meaning. A call means: bind the formal inputs to the arguments, run the
  body with its attribute references resolved in an environment of its own, and hand over the
  formal outputs. For models whose names are written once and whose nodes carry no subgraph,
  running the inlined nodes gives every name of the model the value the calls give it; what
  is used on the way is that the prefixes of different expansions never meet.
\<close>

section \<open>The meaning of nodes and of calls\<close>

type_synonym 'v env = "string \<Rightarrow> 'v option"

text \<open>An operator: its key, its attributes and its arguments, an omitted one \<open>None\<close>.\<close>

type_synonym 'v operator = "function_key \<Rightarrow> attribute_proto list \<Rightarrow> 'v option list \<Rightarrow> 'v list option"

definition fetch :: "'v env \<Rightarrow> string \<Rightarrow> 'v option" where
  "fetch env name = (if name = [] then None else env name)"

fun assign :: "string list \<Rightarrow> 'v option list \<Rightarrow> 'v env \<Rightarrow> 'v env" where
  "assign (name # names) (Some v # vs) env = assign names vs (if name = [] then env else env(name \<mapsto> v))"
| "assign (name # names) (None # vs) env = assign names vs env"
| "assign _ _ env = env"

primrec run_with ::
  "(node_proto \<Rightarrow> 'v option list \<Rightarrow> 'v option list option) \<Rightarrow> node_proto list \<Rightarrow> 'v env \<Rightarrow> 'v env option" where
  "run_with f [] env = Some env"
| "run_with f (nd # nodes) env =
     (case f nd (map (fetch env) (np_inputs nd)) of
        None \<Rightarrow> None
      | Some vs \<Rightarrow> run_with f nodes (assign (np_outputs nd) vs env))"

definition apply_operator :: "'v operator \<Rightarrow> node_proto \<Rightarrow> 'v option list \<Rightarrow> 'v option list option" where
  "apply_operator ops nd args = map_option (map Some) (ops (node_key nd) (np_attributes nd) args)"

definition resolve_attribute :: "attr_scope \<Rightarrow> attribute_proto \<Rightarrow> attribute_proto option" where
  "resolve_attribute scope a =
     map_option (\<lambda>source. AttributeProto (ap_name a) (av_ref_attr_name_update (\<lambda>_. []) (ap_value source)))
       (if av_ref_attr_name (ap_value a) = [] then Some a
        else map_option fst (resolve_ref scope (av_ref_attr_name (ap_value a))))"

definition resolve_attributes :: "attr_scope \<Rightarrow> attribute_proto list \<Rightarrow> attribute_proto list" where
  "resolve_attributes scope attributes = List.map_filter (resolve_attribute scope) attributes"

definition called_body :: "function_proto \<Rightarrow> node_proto \<Rightarrow> node_proto list" where
  "called_body fn nd = map (np_attributes_update (resolve_attributes (call_scope fn nd))) (fp_nodes fn)"

definition arguments :: "function_proto \<Rightarrow> 'v option list \<Rightarrow> 'v env" where
  "arguments fn args x = (case map_of (zip (fp_inputs fn) args) x of Some v \<Rightarrow> v | None \<Rightarrow> None)"

text \<open>What a node means when calls may be nested to a depth.\<close>

primrec meaning :: "nat \<Rightarrow> library \<Rightarrow> 'v operator \<Rightarrow> node_proto \<Rightarrow> 'v option list \<Rightarrow> 'v option list option" where
  "meaning 0 lib ops nd args = (case lib (node_key nd) of None \<Rightarrow> apply_operator ops nd args | Some fn \<Rightarrow> None)"
| "meaning (Suc n) lib ops nd args =
     (case lib (node_key nd) of
        None \<Rightarrow> apply_operator ops nd args
      | Some fn \<Rightarrow> map_option (\<lambda>env. map (fetch env) (fp_outputs fn))
          (run_with (meaning n lib ops) (called_body fn nd) (arguments fn args)))"

section \<open>Well-formed models\<close>

definition flat_attribute :: "attribute_proto \<Rightarrow> bool" where
  "flat_attribute a \<longleftrightarrow> av_g (ap_value a) = None \<and> av_graphs (ap_value a) = []"

definition outputs_of :: "node_proto list \<Rightarrow> string list" where
  "outputs_of nodes = filter (\<lambda>x. x \<noteq> []) (concat (map np_outputs nodes))"

definition names_of :: "node_proto list \<Rightarrow> string set" where
  "names_of nodes = (\<Union>nd\<in>set nodes. set (np_inputs nd) \<union> set (np_outputs nd))"

text \<open>
  Every name is written once, no node writes what it reads, and no node has a subgraph.
\<close>

definition straight_line :: "node_proto list \<Rightarrow> bool" where
  "straight_line nodes \<longleftrightarrow>
     distinct (outputs_of nodes) \<and>
     list_all (\<lambda>nd. list_all (\<lambda>x. x = [] \<or> x \<notin> set (np_inputs nd)) (np_outputs nd) \<and>
       list_all flat_attribute (np_attributes nd)) nodes"

definition proper_function :: "function_proto \<Rightarrow> bool" where
  "proper_function fn \<longleftrightarrow>
     distinct (fp_inputs fn @ fp_outputs fn) \<and> [] \<notin> set (fp_inputs fn @ fp_outputs fn) \<and>
     straight_line (fp_nodes fn) \<and> list_all flat_attribute (fp_attribute_defaults fn) \<and>
     list_all (\<lambda>x. x \<notin> set (fp_inputs fn)) (outputs_of (fp_nodes fn))"

section \<open>What running changes, and running under other names\<close>

lemma assign_other: "x \<notin> set names \<or> x = [] \<Longrightarrow> assign names vs env x = env x"
  by (induction names vs env rule: assign.induct) auto

lemma outputs_of_Nil [simp]: "outputs_of [] = []"
  by (simp add: outputs_of_def)

lemma outputs_of_Cons: "outputs_of (nd # nodes) = filter (\<lambda>x. x \<noteq> []) (np_outputs nd) @ outputs_of nodes"
  by (simp add: outputs_of_def)

lemma outputs_of_append: "outputs_of (nodes @ nodes') = outputs_of nodes @ outputs_of nodes'"
  by (simp add: outputs_of_def)

lemma run_with_other: "run_with f nodes env = Some env' \<Longrightarrow> x \<notin> set (outputs_of nodes) \<Longrightarrow> env' x = env x"
proof (induction nodes arbitrary: env)
  case (Cons nd nodes)
  then have "x \<notin> set (np_outputs nd) \<or> x = []" by (auto simp: outputs_of_Cons)
  with Cons assign_other show ?case by (fastforce simp: outputs_of_Cons split: option.splits)
qed simp

lemma run_with_append:
  "run_with f (nodes @ nodes') env = Option.bind (run_with f nodes env) (run_with f nodes')"
  by (induction nodes arbitrary: env) (auto split: option.split)

definition renames :: "(string \<Rightarrow> string) \<Rightarrow> string set \<Rightarrow> bool" where
  "renames f W \<longleftrightarrow> f [] = [] \<and> (\<forall>w\<in>W. f w \<noteq> [] \<and> (\<forall>x. x \<noteq> [] \<and> x \<noteq> w \<longrightarrow> f x \<noteq> f w))"

definition matches :: "(string \<Rightarrow> string) \<Rightarrow> 'v env \<Rightarrow> 'v env \<Rightarrow> bool" where
  "matches f env env' \<longleftrightarrow> (\<forall>x. x \<noteq> [] \<longrightarrow> env x = fetch env' (f x))"

definition renamed_node :: "(string \<Rightarrow> string) \<Rightarrow> node_proto \<Rightarrow> node_proto \<Rightarrow> bool" where
  "renamed_node f nd nd' \<longleftrightarrow> node_key nd' = node_key nd \<and> np_attributes nd' = np_attributes nd \<and>
     np_inputs nd' = map f (np_inputs nd) \<and> np_outputs nd' = map f (np_outputs nd)"

lemma matches_fetch: "renames f W \<Longrightarrow> matches f env env' \<Longrightarrow> fetch env' (f x) = fetch env x"
  by (cases "x = []") (auto simp: renames_def matches_def fetch_def)

lemma matches_upd:
  "renames f W \<Longrightarrow> w \<in> W \<Longrightarrow> w \<noteq> [] \<Longrightarrow> matches f env env' \<Longrightarrow> matches f (env(w \<mapsto> v)) (env'(f w \<mapsto> v))"
  by (auto simp: renames_def matches_def fetch_def)

lemma assign_matches:
  "renames f W \<Longrightarrow> set names - {[]} \<subseteq> W \<Longrightarrow> matches f env env' \<Longrightarrow>
     matches f (assign names vs env) (assign (map f names) vs env')"
proof (induction names vs env arbitrary: env' rule: assign.induct)
  case (1 name names v vs env)
  show ?case
  proof (cases "name = []")
    case True
    with 1 show ?thesis by (simp add: renames_def)
  next
    case False
    with 1 have "f name \<noteq> []" and "matches f (env(name \<mapsto> v)) (env'(f name \<mapsto> v))"
      by (auto simp: renames_def intro!: matches_upd [of f W])
    with 1 False show ?thesis by (auto simp: fun_upd_def)
  qed
qed auto

lemma run_with_renamed:
  assumes "list_all2 (renamed_node f) nodes nodes'" and "renames f (set (outputs_of nodes))"
    and same: "\<And>nd nd' args. node_key nd' = node_key nd \<Longrightarrow> np_attributes nd' = np_attributes nd \<Longrightarrow> m nd' args = m nd args"
  shows "matches f env env' \<Longrightarrow> rel_option (matches f) (run_with m nodes env) (run_with m nodes' env')"
  using assms(1,2)
proof (induction arbitrary: env env' rule: list_all2_induct)
  case (Cons nd nodes nd' nodes')
  have args: "map (fetch env') (np_inputs nd') = map (fetch env) (np_inputs nd)"
    using Cons.hyps(1) matches_fetch [OF Cons.prems(2,1)] by (simp add: renamed_node_def)
  moreover have "m nd' (map (fetch env') (np_inputs nd')) = m nd (map (fetch env') (np_inputs nd'))"
    using Cons.hyps(1) by (intro same) (simp_all add: renamed_node_def)
  ultimately have m: "m nd' (map (fetch env') (np_inputs nd')) = m nd (map (fetch env) (np_inputs nd))" by simp
  have rest: "rel_option (matches f) (run_with m nodes (assign (np_outputs nd) vs env))
      (run_with m nodes' (assign (np_outputs nd') vs env'))" for vs
  proof (rule Cons.IH)
    have "set (np_outputs nd) - {[]} \<subseteq> set (outputs_of (nd # nodes))" by (auto simp: outputs_of_Cons)
    from assign_matches [OF Cons.prems(2) this Cons.prems(1)] Cons.hyps(1)
    show "matches f (assign (np_outputs nd) vs env) (assign (np_outputs nd') vs env')"
      by (simp add: renamed_node_def)
    show "renames f (set (outputs_of nodes))" using Cons.prems(2) by (simp add: renames_def outputs_of_Cons)
  qed
  show ?case unfolding run_with.simps m by (cases "m nd (map (fetch env) (np_inputs nd))") (simp_all add: rest)
qed simp

lemma meaning_same:
  "node_key nd' = node_key nd \<Longrightarrow> np_attributes nd' = np_attributes nd \<Longrightarrow> meaning n lib ops nd' args = meaning n lib ops nd args"
  by (cases n) (auto simp: apply_operator_def called_body_def call_scope_def split: option.split)

section \<open>The body of a call\<close>

definition flat_scope :: "attr_scope \<Rightarrow> bool" where
  "flat_scope scope \<longleftrightarrow> (\<forall>k a. sc_call_site scope k = Some a \<or> sc_defaults scope k = Some a \<longrightarrow> flat_attribute a)"

lemma renamed_attribute_flat:
  assumes "flat_scope scope" and "flat_attribute a"
  shows "rename_attribute rn scope d a = Inr (resolve_attribute scope a)"
    and "resolve_attribute scope a = Some a' \<Longrightarrow> flat_attribute a'"
proof -
  have *: "flat_attribute source"
    if "(if av_ref_attr_name (ap_value a) = [] then Some a
        else map_option fst (resolve_ref scope (av_ref_attr_name (ap_value a)))) = Some source" for source
    using that assms by (auto simp: resolve_ref_def flat_scope_def split: if_splits option.splits)
  have sels: "av_g (av_ref_attr_name_update (\<lambda>_. r) v) = av_g v" "av_graphs (av_ref_attr_name_update (\<lambda>_. r) v) = av_graphs v"
    "av_g_update (\<lambda>_. av_g v) v = v" "av_graphs_update (\<lambda>_. av_graphs v) v = v" for r v
    by (cases v; simp)+
  show "resolve_attribute scope a = Some a' \<Longrightarrow> flat_attribute a'"
    using * by (auto simp: resolve_attribute_def flat_attribute_def sels split: if_splits)
  show "rename_attribute rn scope d a = Inr (resolve_attribute scope a)"
  proof (cases "if av_ref_attr_name (ap_value a) = [] then Some (a, False) else resolve_ref scope (av_ref_attr_name (ap_value a))")
    case None
    then show ?thesis by (auto simp: resolve_attribute_def split: if_splits)
  next
    case (Some p)
    obtain source c where p: "p = (source, c)" by force
    with Some have "flat_attribute source" by (intro *) (auto split: if_splits)
    moreover define v where "v = av_ref_attr_name_update (\<lambda>_. []) (ap_value source)"
    ultimately have "av_g v = None" "av_graphs v = []" by (simp_all add: sels flat_attribute_def)
    then have "av_g_update (\<lambda>_. None) (av_graphs_update (\<lambda>_. []) v) = v" using sels(3,4) [of v] by simp
    with Some p v_def \<open>av_g v = None\<close> \<open>av_graphs v = []\<close> show ?thesis
      by (auto simp: resolve_attribute_def Let_def split: if_splits)
  qed
qed

lemma rmap_attributes_flat:
  "flat_scope scope \<Longrightarrow> list_all flat_attribute attributes \<Longrightarrow>
     rmap (rename_attribute rn scope d) attributes = Inr (map (resolve_attribute scope) attributes)"
  by (induction attributes) (simp_all add: renamed_attribute_flat(1) del: rename_attribute.simps)

lemma resolved_flat:
  "flat_scope scope \<Longrightarrow> list_all flat_attribute attributes \<Longrightarrow> list_all flat_attribute (resolve_attributes scope attributes)"
  by (induction attributes)
    (auto simp: resolve_attributes_def List.map_filter_def renamed_attribute_flat(2))

lemma concat_options: "concat (map (case_option [] (\<lambda>a. [a]) \<circ> f) xs) = List.map_filter f xs"
  by (induction xs) (auto simp: List.map_filter_def split: option.split)

lemma rename_node_flat:
  assumes "flat_scope scope" and "list_all flat_attribute (np_attributes nd)"
  obtains nd' where "rename_node rn scope d nd = Inr nd'"
    and "renamed_node (apply_name rn) (np_attributes_update (resolve_attributes scope) nd) nd'"
  using assms
  by (cases nd) (simp add: rmap_attributes_flat renamed_node_def node_key_def resolve_attributes_def concat_options)

lemma call_body_renamed:
  assumes "call_body c fn nd = Inr body" and "flat_scope (call_scope fn nd)"
    and "list_all (\<lambda>nd. list_all flat_attribute (np_attributes nd)) (fp_nodes fn)"
  shows "list_all2 (renamed_node (apply_name \<lparr>rn_formals = call_formals (call_prefix c (fp_name fn)) fn nd,
      rn_prefix = call_prefix c (fp_name fn)\<rparr>)) (called_body fn nd) body"
proof -
  let ?rn = "\<lparr>rn_formals = call_formals (call_prefix c (fp_name fn)) fn nd, rn_prefix = call_prefix c (fp_name fn)\<rparr>"
  have "list_all2 (renamed_node (apply_name ?rn)) (map (np_attributes_update (resolve_attributes (call_scope fn nd))) nodes) out"
    if "rmap (rename_node ?rn (call_scope fn nd) 0) nodes = Inr out"
      "list_all (\<lambda>nd. list_all flat_attribute (np_attributes nd)) nodes" for nodes out
    using that
  proof (induction nodes arbitrary: out)
    case (Cons n nodes)
    then obtain n' where "rename_node ?rn (call_scope fn nd) 0 n = Inr n'"
      and "renamed_node (apply_name ?rn) (np_attributes_update (resolve_attributes (call_scope fn nd)) n) n'"
      using rename_node_flat [OF assms(2), of n] by (metis list.pred_inject(2))
    with Cons show ?case by (auto simp: rbind_Inr_iff simp del: rename_node.simps)
  qed simp
  from this [OF _ assms(3)] assms(1) show ?thesis unfolding call_body_def called_body_def Let_def .
qed

section \<open>Fresh names\<close>

definition generated :: "nat \<Rightarrow> string \<Rightarrow> bool" where
  "generated k x \<longleftrightarrow> take (length (''__fn'' @ show_nat k @ ''_'')) x = ''__fn'' @ show_nat k @ ''_''"

definition old :: "nat \<Rightarrow> string \<Rightarrow> bool" where
  "old c x \<longleftrightarrow> (\<forall>k>c. \<not> generated k x)"

lemma generated_iff: "generated k x \<longleftrightarrow> (\<exists>rest. x = ''__fn'' @ show_nat k @ ''_'' @ rest)"
proof -
  have "take (length p) x = p \<longleftrightarrow> (\<exists>rest. x = p @ rest)" for p :: string
    by (metis append_eq_conv_conj append_take_drop_id)
  from this [of "''__fn'' @ show_nat k @ ''_''"] show ?thesis by (simp add: generated_def)
qed

lemma generated_unique: "generated j x \<Longrightarrow> generated k x \<Longrightarrow> j = k"
  unfolding generated_iff
  by (elim exE, rule show_nat_inj, rule split_at_separator [OF underscore_no_digit underscore_no_digit, THEN conjunct1]) simp

lemma prefixed_generated: "generated k (call_prefix k name @ x)"
  by (auto simp: generated_iff call_prefix_def)

lemma prefixed_old: "k \<le> c \<Longrightarrow> old c (call_prefix k name @ x)"
  unfolding old_def using generated_unique [OF prefixed_generated] by fastforce

lemma old_mono: "old c x \<Longrightarrow> c \<le> c' \<Longrightarrow> old c' x"
  by (auto simp: old_def)

lemma old_not_prefixed: "old c x \<Longrightarrow> x \<noteq> call_prefix (Suc c) name @ y"
  using prefixed_generated [of "Suc c" name y] by (auto simp: old_def)

lemma old_empty [simp]: "old c []"
  by (simp add: old_def generated_def)

section \<open>The names of an expanded body\<close>

lemma fold_bind_other:
  "y \<notin> set xs \<Longrightarrow> fold (\<lambda>(i, x) m. m(x \<mapsto> g i x)) (enumerate n xs) m y = m y"
  by (induction xs arbitrary: n m) auto

lemma fold_bind_at:
  "distinct xs \<Longrightarrow> i < length xs \<Longrightarrow> fold (\<lambda>(i, x) m. m(x \<mapsto> g i x)) (enumerate n xs) m (xs ! i) = Some (g (n + i) (xs ! i))"
proof (induction xs arbitrary: n m i)
  case (Cons x xs)
  show ?case
  proof (cases i)
    case 0
    with Cons.prems show ?thesis by (simp add: fold_bind_other del: fun_upd_apply) simp
  next
    case (Suc j)
    with Cons.prems Cons.IH [of j "Suc n"] show ?thesis by simp
  qed
qed simp

lemma call_formals_at:
  assumes "proper_function fn"
  shows "i < length (fp_inputs fn) \<Longrightarrow> call_formals pf fn nd (fp_inputs fn ! i) = Some (if i < length (np_inputs nd) then np_inputs nd ! i else [])"
    and "i < length (fp_outputs fn) \<Longrightarrow> call_formals pf fn nd (fp_outputs fn ! i) =
      Some (if i < length (np_outputs nd) \<and> np_outputs nd ! i \<noteq> [] then np_outputs nd ! i else pf @ fp_outputs fn ! i)"
    and "x \<notin> set (fp_inputs fn) \<Longrightarrow> x \<notin> set (fp_outputs fn) \<Longrightarrow> call_formals pf fn nd x = None"
proof -
  from assms have dist: "distinct (fp_inputs fn)" "distinct (fp_outputs fn)" "set (fp_inputs fn) \<inter> set (fp_outputs fn) = {}"
    by (auto simp: proper_function_def)
  then have "i < length (fp_inputs fn) \<Longrightarrow> fp_inputs fn ! i \<notin> set (fp_outputs fn)"
    using nth_mem by fastforce
  then show "i < length (fp_inputs fn) \<Longrightarrow> call_formals pf fn nd (fp_inputs fn ! i) = Some (if i < length (np_inputs nd) then np_inputs nd ! i else [])"
    using dist by (simp add: call_formals_def Let_def fold_bind_other fold_bind_at)
  show "i < length (fp_outputs fn) \<Longrightarrow> call_formals pf fn nd (fp_outputs fn ! i) =
      Some (if i < length (np_outputs nd) \<and> np_outputs nd ! i \<noteq> [] then np_outputs nd ! i else pf @ fp_outputs fn ! i)"
    using dist by (simp add: call_formals_def Let_def fold_bind_at)
  show "x \<notin> set (fp_inputs fn) \<Longrightarrow> x \<notin> set (fp_outputs fn) \<Longrightarrow> call_formals pf fn nd x = None"
    by (simp add: call_formals_def Let_def fold_bind_other)
qed

definition expansion :: "nat \<Rightarrow> function_proto \<Rightarrow> node_proto \<Rightarrow> string \<Rightarrow> string" where
  "expansion c fn nd = apply_name \<lparr>rn_formals = call_formals (call_prefix c (fp_name fn)) fn nd, rn_prefix = call_prefix c (fp_name fn)\<rparr>"

text \<open>What becomes of a name of the body.\<close>

lemma expansion_cases [consumes 2, case_names inner argument result]:
  assumes "proper_function fn" and "x \<noteq> []"
  obtains (inner) "x \<notin> set (fp_inputs fn)" "expansion c fn nd x = call_prefix c (fp_name fn) @ x"
  | (argument) i where "i < length (fp_inputs fn)" "x = fp_inputs fn ! i"
      "expansion c fn nd x = (if i < length (np_inputs nd) then np_inputs nd ! i else [])"
  | (result) i where "x \<notin> set (fp_inputs fn)" "i < length (fp_outputs fn)" "x = fp_outputs fn ! i"
      "i < length (np_outputs nd)" "np_outputs nd ! i \<noteq> []" "expansion c fn nd x = np_outputs nd ! i"
proof (cases "x \<in> set (fp_inputs fn)")
  case True
  then obtain i where "i < length (fp_inputs fn)" "x = fp_inputs fn ! i" by (auto simp: in_set_conv_nth)
  with assms that(2) [of i] show thesis by (auto simp: expansion_def apply_name_def call_formals_at(1))
next
  case outside: False
  show thesis
  proof (cases "x \<in> set (fp_outputs fn)")
    case True
    then obtain i where "i < length (fp_outputs fn)" "x = fp_outputs fn ! i" by (auto simp: in_set_conv_nth)
    then have at: "expansion c fn nd x = (if i < length (np_outputs nd) \<and> np_outputs nd ! i \<noteq> [] then np_outputs nd ! i
        else call_prefix c (fp_name fn) @ x)"
      using assms by (simp add: expansion_def apply_name_def call_formals_at(2))
    show thesis
    proof (cases "i < length (np_outputs nd) \<and> np_outputs nd ! i \<noteq> []")
      case True
      with at outside \<open>i < length (fp_outputs fn)\<close> \<open>x = fp_outputs fn ! i\<close> that(3) [of i] show thesis by simp
    next
      case False
      with at have "expansion c fn nd x = call_prefix c (fp_name fn) @ x" by auto
      with outside show thesis by (rule that(1))
    qed
  next
    case False
    with assms outside that(1) show thesis by (auto simp: expansion_def apply_name_def call_formals_at(3))
  qed
qed

lemma expansion_empty [simp]: "expansion c fn nd [] = []"
  by (simp add: expansion_def apply_name_def)

lemma distinct_filter_nth:
  "distinct (filter P xs) \<Longrightarrow> i < length xs \<Longrightarrow> j < length xs \<Longrightarrow> P (xs ! i) \<Longrightarrow> xs ! i = xs ! j \<Longrightarrow> i = j"
proof (induction xs arbitrary: i j)
  case (Cons x xs)
  have "P x \<Longrightarrow> k < length xs \<Longrightarrow> xs ! k \<noteq> x" for k using Cons.prems(1) nth_mem by fastforce
  with Cons show ?case by (cases i; cases j) (auto split: if_splits)
qed simp

text \<open>A call site, seen from the environment the inlined nodes run in.\<close>

definition call_site :: "nat \<Rightarrow> function_proto \<Rightarrow> node_proto \<Rightarrow> bool" where
  "call_site c fn nd \<longleftrightarrow> proper_function fn \<and> (\<forall>x\<in>set (np_inputs nd) \<union> set (np_outputs nd). old c x) \<and>
     distinct (filter (\<lambda>x. x \<noteq> []) (np_outputs nd)) \<and>
     (\<forall>x\<in>set (np_outputs nd). x \<noteq> [] \<longrightarrow> x \<notin> set (np_inputs nd))"

lemma call_siteD:
  assumes "call_site c fn nd"
  shows site_proper: "proper_function fn"
    and site_names: "x \<in> set (np_inputs nd) \<union> set (np_outputs nd) \<Longrightarrow> old c x"
    and site_once: "distinct (filter (\<lambda>x. x \<noteq> []) (np_outputs nd))"
    and site_apart: "y \<in> set (np_outputs nd) \<Longrightarrow> y \<noteq> [] \<Longrightarrow> y \<notin> set (np_inputs nd)"
  using assms by (auto simp: call_site_def)

lemma expansion_old:
  assumes "call_site c fn nd"
  shows "old (Suc c) (expansion (Suc c) fn nd x)"
proof (cases "x = []")
  case False
  from site_proper [OF assms(1)] False show ?thesis
    by (cases rule: expansion_cases [where nd = nd and c = "Suc c"])
      (auto intro: prefixed_old old_mono [OF site_names [OF assms(1)]])
qed simp

lemma expansion_renames:
  assumes "call_site c fn nd"
  shows "renames (expansion (Suc c) fn nd) (set (outputs_of (fp_nodes fn)))"
  unfolding renames_def
proof (intro conjI ballI allI impI)
  fix w assume w: "w \<in> set (outputs_of (fp_nodes fn))"
  then have "w \<noteq> []" "w \<notin> set (fp_inputs fn)"
    using site_proper [OF assms(1)] by (auto simp: proper_function_def list_all_iff outputs_of_def)
  show "expansion (Suc c) fn nd w \<noteq> []"
    using site_proper [OF assms(1)] \<open>w \<noteq> []\<close> by (cases rule: expansion_cases [where nd = nd and c = "Suc c"]) (use \<open>w \<noteq> []\<close> \<open>w \<notin> set (fp_inputs fn)\<close> in auto)
  fix x assume x: "x \<noteq> [] \<and> x \<noteq> w"
  then have "x \<noteq> []" by simp
  have out: "np_outputs nd ! i \<noteq> call_prefix (Suc c) (fp_name fn) @ y" if "i < length (np_outputs nd)" for i y
    using that site_names [OF assms(1), of "np_outputs nd ! i"] by (intro old_not_prefixed) auto
  have inp: "np_inputs nd ! i \<noteq> call_prefix (Suc c) (fp_name fn) @ y" if "i < length (np_inputs nd)" for i y
    using that site_names [OF assms(1), of "np_inputs nd ! i"] by (intro old_not_prefixed) auto
  show "expansion (Suc c) fn nd x \<noteq> expansion (Suc c) fn nd w"
    using site_proper [OF assms(1)] \<open>w \<noteq> []\<close>
  proof (cases rule: expansion_cases [where nd = nd and c = "Suc c"])
    case inner
    note w = this
    show ?thesis
      using site_proper [OF assms(1)] \<open>x \<noteq> []\<close> by (cases rule: expansion_cases [where nd = nd and c = "Suc c"]) (use w x out inp in \<open>auto simp: call_prefix_def\<close>)
  next
    case (result i)
    show ?thesis
      using site_proper [OF assms(1)] \<open>x \<noteq> []\<close>
    proof (cases rule: expansion_cases [where nd = nd and c = "Suc c"])
      case (result j)
      with x \<open>w = fp_outputs fn ! i\<close> have "i \<noteq> j" by auto
      with result \<open>i < length (np_outputs nd)\<close> \<open>np_outputs nd ! i \<noteq> []\<close> \<open>expansion (Suc c) fn nd w = np_outputs nd ! i\<close>
        distinct_filter_nth [OF site_once [OF assms(1)], of i j] show ?thesis by auto
    next
      case (argument j)
      have "np_inputs nd ! j \<noteq> np_outputs nd ! i" if "j < length (np_inputs nd)"
        using result site_apart [OF assms(1), of "np_outputs nd ! i"] nth_mem [OF that] by (metis nth_mem)
      with argument result show ?thesis by auto
    qed (use result out out [symmetric] in auto)
  qed (use \<open>w \<notin> set (fp_inputs fn)\<close> in auto)
qed simp

lemma expansion_new:
  assumes "call_site c fn nd" and "w \<in> set (outputs_of (fp_nodes fn))"
  shows "expansion (Suc c) fn nd w \<in> set (np_outputs nd) \<or> \<not> old c (expansion (Suc c) fn nd w)"
proof -
  from assms site_proper [OF assms(1)] have "w \<noteq> []" "w \<notin> set (fp_inputs fn)"
    by (auto simp: proper_function_def list_all_iff outputs_of_def)
  from site_proper [OF assms(1)] \<open>w \<noteq> []\<close> show ?thesis
    by (cases rule: expansion_cases [where nd = nd and c = "Suc c"])
      (use \<open>w \<notin> set (fp_inputs fn)\<close> old_not_prefixed [of c] in \<open>auto simp: nth_mem\<close>)
qed

lemma arguments_match:
  assumes "call_site c fn nd" and "\<And>x. env x \<noteq> None \<Longrightarrow> old c x" and "\<And>x. x \<in> set (np_outputs nd) \<Longrightarrow> x \<noteq> [] \<Longrightarrow> env x = None"
    and "length (np_inputs nd) \<le> length (fp_inputs fn)"
  shows "matches (expansion (Suc c) fn nd) (arguments fn (map (fetch env) (np_inputs nd))) env"
  unfolding matches_def
proof (intro allI impI)
  fix x :: string assume "x \<noteq> []"
  have outside: "arguments fn (map (fetch env) (np_inputs nd)) x = None" if "x \<notin> set (fp_inputs fn)"
    using that by (auto simp: arguments_def dest: map_of_SomeD set_zip_leftD split: option.split)
  show "arguments fn (map (fetch env) (np_inputs nd)) x = fetch env (expansion (Suc c) fn nd x)"
    using site_proper [OF assms(1)] \<open>x \<noteq> []\<close>
  proof (cases rule: expansion_cases [where nd = nd and c = "Suc c"])
    case inner
    with outside old_not_prefixed [of c] assms(2) show ?thesis by (force simp: fetch_def)
  next
    case (argument i)
    have dist: "distinct (fp_inputs fn)" using site_proper [OF assms(1)] by (simp add: proper_function_def)
    show ?thesis
    proof (cases "i < length (np_inputs nd)")
      case True
      have "map_of (zip (fp_inputs fn) (map (fetch env) (np_inputs nd))) (fp_inputs fn ! i) = Some (fetch env (np_inputs nd ! i))"
        using True argument(1) assms(4) dist
        by (intro map_of_is_SomeI) (auto simp: set_zip map_fst_zip_take intro!: exI [of _ i])
      with argument True show ?thesis by (simp add: arguments_def)
    next
      case False
      have "map_of (zip (fp_inputs fn) (map (fetch env) (np_inputs nd))) (fp_inputs fn ! i) = None"
        using False argument(1) dist by (auto simp: map_of_eq_None_iff set_zip nth_eq_iff_index_eq)
      with argument False show ?thesis by (simp add: arguments_def fetch_def)
    qed
  next
    case (result i)
    with outside assms(3) [of "np_outputs nd ! i"] show ?thesis by (simp add: fetch_def)
  qed
qed

text \<open>The nodes a call becomes, before the calls in them are expanded.\<close>

lemma renamed_outputs:
  "list_all2 (renamed_node f) nodes nodes' \<Longrightarrow> renames f (set (outputs_of nodes)) \<Longrightarrow>
     outputs_of nodes' = map f (outputs_of nodes)"
proof (induction rule: list_all2_induct)
  case (Cons nd nodes nd' nodes')
  have "filter (\<lambda>x. x \<noteq> []) (map f names) = map f (filter (\<lambda>x. x \<noteq> []) names)"
    if "set (filter (\<lambda>x. x \<noteq> []) names) \<subseteq> set (outputs_of (nd # nodes))" for names
    using that Cons.prems by (induction names) (auto simp: renames_def)
  from this [of "np_outputs nd"] Cons show ?case
    by (auto simp: outputs_of_Cons renamed_node_def renames_def)
qed simp

lemma renamed_straight_line:
  assumes "list_all2 (renamed_node f) nodes nodes'" and "renames f (set (outputs_of nodes))" and "straight_line nodes"
  shows "straight_line nodes'"
proof -
  have "inj_on f (set (outputs_of nodes))"
    using assms(2) by (auto simp: inj_on_def renames_def outputs_of_def)
  then have "distinct (outputs_of nodes')"
    using assms(3) renamed_outputs [OF assms(1,2)] by (simp add: straight_line_def distinct_map)
  moreover have "list_all (\<lambda>x. x = [] \<or> x \<notin> set (np_inputs nd')) (np_outputs nd') \<and> list_all flat_attribute (np_attributes nd')"
    if nd': "nd' \<in> set nodes'" for nd'
  proof -
    from assms(1) nd' obtain nd where nd: "nd \<in> set nodes" "renamed_node f nd nd'"
      by (metis list_all2_conv_all_nth in_set_conv_nth)
    have "f w \<noteq> f x" if w: "w \<in> set (np_outputs nd)" "w \<noteq> []" and x: "x \<in> set (np_inputs nd)" for w x
    proof -
      have W: "w \<in> set (outputs_of nodes)" using w nd(1) by (auto simp: outputs_of_def)
      have "w \<noteq> x" using assms(3) nd(1) w x by (auto simp: straight_line_def list_all_iff)
      with W assms(2) show ?thesis unfolding renames_def by metis
    qed
    moreover have "f [] = []" using assms(2) by (simp add: renames_def)
    ultimately show ?thesis using nd assms(3) by (fastforce simp: renamed_node_def straight_line_def list_all_iff)
  qed
  ultimately show ?thesis unfolding straight_line_def list_all_iff by blast
qed

lemma called_straight_line:
  assumes "proper_function fn" and "list_all flat_attribute (np_attributes nd)"
  shows "flat_scope (call_scope fn nd)" and "straight_line (called_body fn nd)"
    and "outputs_of (called_body fn nd) = outputs_of (fp_nodes fn)"
proof -
  have at: "map_of (rev (map (\<lambda>a. (ap_name a, a)) as)) k = Some a \<Longrightarrow> a \<in> set as" for as k a
    by (auto dest: map_of_SomeD)
  show flat: "flat_scope (call_scope fn nd)"
    using assms by (auto simp: flat_scope_def call_scope_def proper_function_def list_all_iff dest!: at)
  have sels: "np_outputs (np_attributes_update u n) = np_outputs n" "np_inputs (np_attributes_update u n) = np_inputs n" for u n
    by (cases n; simp)+
  show outs: "outputs_of (called_body fn nd) = outputs_of (fp_nodes fn)"
    by (simp add: called_body_def outputs_of_def sels comp_def)
  have "distinct (outputs_of (called_body fn nd))" and nodes: "n \<in> set (fp_nodes fn) \<Longrightarrow>
      list_all (\<lambda>x. x = [] \<or> x \<notin> set (np_inputs n)) (np_outputs n) \<and> list_all flat_attribute (np_attributes n)" for n
    using assms(1) outs by (simp_all add: proper_function_def straight_line_def list_all_iff)
  moreover have "list_all flat_attribute (resolve_attributes (call_scope fn nd) (np_attributes n))" if "n \<in> set (fp_nodes fn)" for n
    using nodes [OF that] flat by (simp add: resolved_flat)
  ultimately show "straight_line (called_body fn nd)"
    by (simp add: straight_line_def called_body_def list_all_iff sels)
qed

section \<open>Inlined nodes compute what the calls mean\<close>

text \<open>
  \<open>env\<close> is the environment of the model with calls, \<open>env'\<close> the one the inlined nodes run in;
  \<open>c0\<close> expansions were made when the nodes were written, \<open>c\<close> up to now.
\<close>

definition agrees :: "nat \<Rightarrow> nat \<Rightarrow> 'v env \<Rightarrow> 'v env \<Rightarrow> bool" where
  "agrees c0 c env env' \<longleftrightarrow> (\<forall>x. old c0 x \<longrightarrow> env x = env' x) \<and> (\<forall>x. env' x \<noteq> None \<longrightarrow> old c x)"

definition ready :: "nat \<Rightarrow> nat \<Rightarrow> node_proto list \<Rightarrow> 'v env \<Rightarrow> 'v env \<Rightarrow> bool" where
  "ready c0 c nodes env env' \<longleftrightarrow> c0 \<le> c \<and> straight_line nodes \<and> (\<forall>x\<in>names_of nodes. old c0 x) \<and>
     agrees c0 c env env' \<and> (\<forall>x\<in>set (outputs_of nodes). env' x = None)"

lemma straight_line_Cons: "straight_line (nd # nodes) \<Longrightarrow> straight_line nodes"
  by (auto simp: straight_line_def outputs_of_Cons)

lemma outputs_of_names: "x \<in> set (outputs_of nodes) \<Longrightarrow> x \<in> names_of nodes"
  by (auto simp: outputs_of_def names_of_def)

lemma names_of_Cons: "names_of (nd # nodes) = set (np_inputs nd) \<union> set (np_outputs nd) \<union> names_of nodes"
  by (simp add: names_of_def)

lemma ready_rest:
  assumes "ready c0 c (nd # nodes) env env'" and agrees: "agrees c0 c' (assign (np_outputs nd) vs env) env1" and "c \<le> c'"
  shows "ready c0 c' nodes (assign (np_outputs nd) vs env) env1"
proof -
  have "env1 x = None" if x: "x \<in> set (outputs_of nodes)" for x
  proof -
    have old: "old c0 x" using assms(1) outputs_of_names [OF x] by (simp add: ready_def names_of_Cons)
    have "distinct (outputs_of (nd # nodes))" using assms(1) by (simp add: ready_def straight_line_def)
    moreover have "x \<noteq> []" using x by (simp add: outputs_of_def)
    ultimately have "x \<notin> set (np_outputs nd)" using x by (auto simp: outputs_of_Cons)
    then have "assign (np_outputs nd) vs env x = env x" by (simp add: assign_other)
    also have "\<dots> = None" using assms(1) old x by (simp add: ready_def agrees_def outputs_of_Cons)
    finally show ?thesis using agrees old by (simp add: agrees_def)
  qed
  with assms show ?thesis by (auto simp: ready_def names_of_Cons dest: straight_line_Cons)
qed

lemma ready_args:
  "ready c0 c (nd # nodes) env env' \<Longrightarrow> map (fetch env) (np_inputs nd) = map (fetch env') (np_inputs nd)"
  by (auto simp: ready_def agrees_def names_of_Cons fetch_def)

lemma assign_pointwise: "env x = env' x \<Longrightarrow> assign names vs env x = assign names vs env' x"
proof (induction names vs env arbitrary: env' rule: assign.induct)
  case (1 name names v vs env)
  then show ?case unfolding assign.simps by (intro 1(1)) simp
qed simp_all

lemma plain_agrees:
  assumes "ready c0 c (nd # nodes) env env'"
  shows "agrees c0 c (assign (np_outputs nd) vs env) (assign (np_outputs nd) vs env')"
  unfolding agrees_def
proof (intro conjI allI impI)
  fix x assume "old c0 x"
  with assms show "assign (np_outputs nd) vs env x = assign (np_outputs nd) vs env' x"
    by (intro assign_pointwise) (simp add: ready_def agrees_def)
next
  fix x assume bound: "assign (np_outputs nd) vs env' x \<noteq> None"
  show "old c x"
  proof (cases "x \<in> set (np_outputs nd)")
    case True
    with assms show ?thesis by (auto simp: ready_def names_of_Cons intro: old_mono)
  next
    case False
    with bound assms show ?thesis by (simp add: assign_other ready_def agrees_def)
  qed
qed

lemma ready_call_site:
  "ready c0 c (nd # nodes) env env' \<Longrightarrow> proper_function fn \<Longrightarrow> call_site c fn nd"
  by (auto simp: ready_def call_site_def names_of_Cons straight_line_def outputs_of_Cons list_all_iff intro: old_mono)

lemma call_ready:
  assumes ready: "ready c0 c (nd # nodes) env env'" and fn: "proper_function fn" and body: "call_body (Suc c) fn nd = Inr body"
  shows "list_all2 (renamed_node (expansion (Suc c) fn nd)) (called_body fn nd) body"
    and "ready (Suc c) (Suc c) body env' env'"
proof -
  note site = ready_call_site [OF ready fn]
  have "list_all flat_attribute (np_attributes nd)" using ready by (simp add: ready_def straight_line_def)
  note called = called_straight_line [OF fn this]
  have nodes: "list_all (\<lambda>nd. list_all flat_attribute (np_attributes nd)) (fp_nodes fn)"
    using fn by (auto simp: proper_function_def straight_line_def list_all_iff)
  show renamed: "list_all2 (renamed_node (expansion (Suc c) fn nd)) (called_body fn nd) body"
    using call_body_renamed [OF body called(1) nodes] by (simp add: expansion_def)
  have renames: "renames (expansion (Suc c) fn nd) (set (outputs_of (called_body fn nd)))"
    using expansion_renames [OF site] by (simp add: called(3))
  have "old (Suc c) x" if "x \<in> names_of body" for x
  proof -
    from that obtain n' where n': "n' \<in> set body" "x \<in> set (np_inputs n') \<union> set (np_outputs n')" by (auto simp: names_of_def)
    with renamed obtain n where "renamed_node (expansion (Suc c) fn nd) n n'" by (metis list_all2_conv_all_nth in_set_conv_nth)
    with n'(2) expansion_old [OF site] show ?thesis by (auto simp: renamed_node_def)
  qed
  moreover have "env' x = None" if "x \<in> set (outputs_of body)" for x
  proof -
    from that renamed_outputs [OF renamed renames] obtain w where w: "w \<in> set (outputs_of (fp_nodes fn))" "x = expansion (Suc c) fn nd w"
      by (auto simp: called(3))
    have "x \<noteq> []" using that by (simp add: outputs_of_def)
    with expansion_new [OF site w(1)] w(2) ready show ?thesis
      by (auto simp: ready_def agrees_def outputs_of_Cons)
  qed
  moreover have "agrees (Suc c) (Suc c) env' env'"
    using ready old_mono [of c _ "Suc c"] by (simp add: ready_def agrees_def)
  ultimately show "ready (Suc c) (Suc c) body env' env'"
    using renamed_straight_line [OF renamed renames called(2)] by (simp add: ready_def)
qed

lemma assign_at:
  "distinct (filter (\<lambda>x. x \<noteq> []) names) \<Longrightarrow> i < length names \<Longrightarrow> i < length vs \<Longrightarrow> names ! i \<noteq> [] \<Longrightarrow>
     assign names vs env (names ! i) = (case vs ! i of None \<Rightarrow> env (names ! i) | Some v \<Rightarrow> Some v)"
proof (induction names vs env arbitrary: i rule: assign.induct)
  case (1 name names v vs env)
  show ?case
  proof (cases i)
    case 0
    with 1 show ?thesis by (simp add: assign_other)
  next
    case (Suc j)
    let ?env = "if name = [] then env else env(name \<mapsto> v)"
    have same: "?env (names ! j) = env (names ! j)"
      using 1(2,3,5) Suc nth_mem [of j names] by auto
    have "assign names vs ?env (names ! j) = (case vs ! j of None \<Rightarrow> ?env (names ! j) | Some v \<Rightarrow> Some v)"
      using 1(2-) Suc by (intro 1(1)) (auto split: if_splits)
    with same Suc show ?thesis by (simp only: assign.simps nth_Cons_Suc)
  qed
next
  case (2 name names vs env)
  show ?case
  proof (cases i)
    case 0
    with 2 show ?thesis by (simp add: assign_other)
  next
    case (Suc j)
    have "assign names vs env (names ! j) = (case vs ! j of None \<Rightarrow> env (names ! j) | Some v \<Rightarrow> Some v)"
      using 2(2-) Suc by (intro 2(1)) (auto split: if_splits)
    with Suc show ?thesis by (simp only: assign.simps nth_Cons_Suc)
  qed
qed auto

lemma call_agrees:
  assumes ready: "ready c0 c (nd # nodes) env env'" and fn: "proper_function fn" and body: "call_body (Suc c) fn nd = Inr body"
    and run: "run_with m body env' = Some env1" and result: "matches (expansion (Suc c) fn nd) called env1"
    and inlined: "agrees (Suc c) c' env1 env2" and few: "length (np_outputs nd) \<le> length (fp_outputs fn)"
  shows "agrees c0 c' (assign (np_outputs nd) (map (fetch called) (fp_outputs fn)) env) env2"
proof -
  note site = ready_call_site [OF ready fn]
  note call = call_ready [OF ready fn body]
  have "list_all flat_attribute (np_attributes nd)" using ready by (simp add: ready_def straight_line_def)
  note called = called_straight_line [OF fn this]
  have renames: "renames (expansion (Suc c) fn nd) (set (outputs_of (called_body fn nd)))"
    using expansion_renames [OF site] by (simp add: called(3))
  have "assign (np_outputs nd) (map (fetch called) (fp_outputs fn)) env x = env2 x" if old: "old c0 x" for x
  proof -
    have "old c x" using old ready by (auto simp: ready_def intro: old_mono)
    then have here: "env2 x = env1 x" using inlined old_mono [of c x "Suc c"] by (simp add: agrees_def)
    have before: "env x = env' x" using ready old by (simp add: ready_def agrees_def)
    show ?thesis
    proof (cases "x \<in> set (np_outputs nd) \<and> x \<noteq> []")
      case True
      then obtain i where i: "i < length (np_outputs nd)" "x = np_outputs nd ! i" by (auto simp: in_set_conv_nth)
      then have j: "i < length (fp_outputs fn)" "fp_outputs fn ! i \<noteq> []"
        using few fn nth_mem [of i "fp_outputs fn"] by (auto simp: proper_function_def simp del: nth_mem)
      have "expansion (Suc c) fn nd (fp_outputs fn ! i) = x"
        using i j True fn by (simp add: expansion_def apply_name_def call_formals_at(2))
      then have "called (fp_outputs fn ! i) = env1 x"
        using result j True by (simp add: matches_def fetch_def)
      moreover have "env' x = None" using ready True by (auto simp: ready_def outputs_of_Cons)
      moreover have "distinct (filter (\<lambda>x. x \<noteq> []) (np_outputs nd))" by (rule site_once [OF site])
      ultimately show ?thesis
        using assign_at [of "np_outputs nd" i "map (fetch called) (fp_outputs fn)" env] i j True before here
        by (simp add: fetch_def split: option.split)
    next
      case False
      have "x \<notin> set (outputs_of body)"
      proof
        assume "x \<in> set (outputs_of body)"
        moreover from this have "x \<noteq> []" by (simp add: outputs_of_def)
        ultimately obtain w where w: "w \<in> set (outputs_of (fp_nodes fn))" "x = expansion (Suc c) fn nd w" "x \<noteq> []"
          unfolding renamed_outputs [OF call(1) renames] called(3) by auto
        with expansion_new [OF site w(1)] False \<open>old c x\<close> show False by auto
      qed
      then have "env1 x = env' x" by (rule run_with_other [OF run])
      moreover have "assign (np_outputs nd) (map (fetch called) (fp_outputs fn)) env x = env x"
        using False by (intro assign_other) auto
      ultimately show ?thesis using before here by simp
    qed
  qed
  with inlined show ?thesis by (simp add: agrees_def)
qed

lemma spend_counter: "spend st = Inr st1 \<Longrightarrow> es_counter st1 = es_counter st"
  by (auto simp: spend_def split: if_splits)

lemma expands_counter:
  "expands lib d nodes st out st' \<Longrightarrow> es_counter st \<le> es_counter st'"
  "expands_attributes lib d attributes st attributes' st' \<Longrightarrow> es_counter st \<le> es_counter st'"
  "expands_graphs lib d graphs st graphs' st' \<Longrightarrow> es_counter st \<le> es_counter st'"
  by (induction rule: expands_expands_attributes_expands_graphs.inducts) (auto dest!: spend_counter)

lemma meaning_plain: "lib (node_key nd) = None \<Longrightarrow> meaning n lib ops nd = apply_operator ops nd"
  by (cases n) (auto simp: fun_eq_iff)

lemma flat_no_subgraph: "straight_line (nd # nodes) \<Longrightarrow> \<not> has_subgraph nd"
  by (auto simp: straight_line_def has_subgraph_def list_all_iff list_ex_iff flat_attribute_def)

lemma expands_meaning:
  assumes lib: "\<And>k fn. lib k = Some fn \<Longrightarrow> proper_function fn"
  shows "expands lib d nodes st out st' \<Longrightarrow>
    (\<forall>c0 env env'. ready c0 (es_counter st) nodes env env' \<longrightarrow>
      rel_option (agrees c0 (es_counter st')) (run_with (meaning (MAX_FUNCTION_DEPTH - d) lib ops) nodes env)
        (run_with (apply_operator ops) out env'))"
    and "expands_attributes lib d attributes st attributes' st' \<Longrightarrow> True"
    and "expands_graphs lib d graphs st graphs' st' \<Longrightarrow> True"
proof (induction rule: expands_expands_attributes_expands_graphs.inducts)
  case (expands_Nil d st)
  then show ?case by (simp add: ready_def)
next
  case (expands_plain st st1 nd d nodes out st2)
  show ?case
  proof (intro allI impI)
    fix c0 and env env' :: "'a env" assume ready: "ready c0 (es_counter st) (nd # nodes) env env'"
    have eq: "es_counter st1 = es_counter st" using expands_plain by (simp add: spend_counter)
    have plain: "meaning n lib ops nd = apply_operator ops nd" for n using expands_plain by (simp add: meaning_plain)
    show "rel_option (agrees c0 (es_counter st2)) (run_with (meaning (MAX_FUNCTION_DEPTH - d) lib ops) (nd # nodes) env)
        (run_with (apply_operator ops) (nd # out) env')"
    proof (cases "apply_operator ops nd (map (fetch env') (np_inputs nd))")
      case None
      then show ?thesis unfolding run_with.simps plain ready_args [OF ready] by simp
    next
      case (Some vs)
      have "ready c0 (es_counter st1) nodes (assign (np_outputs nd) vs env) (assign (np_outputs nd) vs env')"
        using ready_rest [OF ready plain_agrees [OF ready] order_refl] eq by simp
      with Some expands_plain show ?thesis unfolding run_with.simps plain ready_args [OF ready] by simp
    qed
  qed
next
  case (expands_control st st1 nd d attributes st2 nodes out st3)
  then show ?case using flat_no_subgraph unfolding ready_def by blast
next
  case (expands_call st st1 nd fn d body expanded st2 nodes out st3)
  show ?case
  proof (intro allI impI)
    fix c0 and env env' :: "'a env" assume ready: "ready c0 (es_counter st) (nd # nodes) env env'"
    let ?c = "es_counter st" let ?m = "meaning (MAX_FUNCTION_DEPTH - Suc d) lib ops"
    have eq: "es_counter st1 = ?c" using expands_call by (simp add: spend_counter)
    have fn: "proper_function fn" using expands_call lib by blast
    have body: "call_body (Suc ?c) fn nd = Inr body" using expands_call eq by simp
    note call = call_ready [OF ready fn body]
    have depth: "MAX_FUNCTION_DEPTH - d = Suc (MAX_FUNCTION_DEPTH - Suc d)" using expands_call by simp
    have site: "call_site ?c fn nd" by (rule ready_call_site [OF ready fn])
    have flat: "list_all flat_attribute (np_attributes nd)" using ready by (simp add: ready_def straight_line_def)
    note called = called_straight_line [OF fn flat]
    have few: "length (np_inputs nd) \<le> length (fp_inputs fn)" "length (np_outputs nd) \<le> length (fp_outputs fn)"
      using expands_call by simp_all
    have "matches (expansion (Suc ?c) fn nd) (arguments fn (map (fetch env') (np_inputs nd))) env'"
      using ready few by (intro arguments_match [OF site]) (auto simp: ready_def agrees_def outputs_of_Cons)
    then have renamed: "rel_option (matches (expansion (Suc ?c) fn nd))
        (run_with ?m (called_body fn nd) (arguments fn (map (fetch env') (np_inputs nd)))) (run_with ?m body env')"
      using expansion_renames [OF site] called(3) by (intro run_with_renamed [OF call(1)]) (auto intro: meaning_same)
    have inner: "rel_option (agrees (Suc ?c) (es_counter st2)) (run_with ?m body env') (run_with (apply_operator ops) expanded env')"
      using expands_call call(2) eq by simp
    have node: "run_with (meaning (MAX_FUNCTION_DEPTH - d) lib ops) (nd # nodes) env =
        (case run_with ?m (called_body fn nd) (arguments fn (map (fetch env') (np_inputs nd))) of None \<Rightarrow> None
         | Some called \<Rightarrow> run_with (meaning (MAX_FUNCTION_DEPTH - d) lib ops) nodes
             (assign (np_outputs nd) (map (fetch called) (fp_outputs fn)) env))"
      unfolding run_with.simps ready_args [OF ready] depth meaning.simps using expands_call by (simp split: option.split)
    show "rel_option (agrees c0 (es_counter st3)) (run_with (meaning (MAX_FUNCTION_DEPTH - d) lib ops) (nd # nodes) env)
        (run_with (apply_operator ops) (expanded @ out) env')"
    proof (cases "run_with ?m body env'")
      case None
      with renamed inner show ?thesis unfolding node by (simp add: run_with_append)
    next
      case (Some env1)
      with renamed obtain res where res: "run_with ?m (called_body fn nd) (arguments fn (map (fetch env') (np_inputs nd))) = Some res"
        "matches (expansion (Suc ?c) fn nd) res env1" by (auto simp: option_rel_Some2)
      from Some inner obtain env2 where env2: "run_with (apply_operator ops) expanded env' = Some env2"
        "agrees (Suc ?c) (es_counter st2) env1 env2" by (auto simp: option_rel_Some1)
      have "agrees c0 (es_counter st2) (assign (np_outputs nd) (map (fetch res) (fp_outputs fn)) env) env2"
        by (rule call_agrees [OF ready fn body Some res(2) env2(2) few(2)])
      moreover have "?c \<le> es_counter st2"
        using expands_counter(1) [of lib "Suc d" body] expands_call eq by fastforce
      ultimately have "ready c0 (es_counter st2) nodes (assign (np_outputs nd) (map (fetch res) (fp_outputs fn)) env) env2"
        by (rule ready_rest [OF ready])
      with expands_call res(1) env2(1) show ?thesis unfolding node by (simp add: run_with_append)
    qed
  qed
qed simp_all

lemma build_library_from:
  "build_library fns lib = Inr lib' \<Longrightarrow> lib' k = Some fn \<Longrightarrow> fn \<in> set fns \<or> lib k = Some fn"
proof (induction fns arbitrary: lib)
  case (Cons f fns)
  then have "build_library fns (lib(function_key f \<mapsto> f)) = Inr lib'" by (simp split: if_splits)
  from Cons.IH [OF this Cons.prems(2)] show ?case by (auto split: if_splits)
qed simp

text \<open>The main graph: nothing is generated yet, so its names need only avoid the prefix.\<close>

definition reserved :: "string \<Rightarrow> bool" where
  "reserved x \<longleftrightarrow> take 4 x = ''__fn''"

lemma old_unreserved: "\<not> reserved x \<Longrightarrow> old c x"
  by (auto simp: reserved_def old_def generated_iff)

lemma inlined_meaning:
  assumes "inline_local_functions g fns = Inr g'" and "build_library fns Map.empty = Inr lib"
    and "list_all proper_function fns" and "straight_line (gp_nodes g)"
    and "\<forall>x\<in>names_of (gp_nodes g). \<not> reserved x" and "\<forall>x. env x \<noteq> None \<longrightarrow> \<not> reserved x"
    and "\<forall>x\<in>set (outputs_of (gp_nodes g)). env x = None"
  shows "rel_option (\<lambda>env1 env2. \<forall>x. \<not> reserved x \<longrightarrow> env2 x = env1 x)
    (run_with (meaning MAX_FUNCTION_DEPTH lib ops) (gp_nodes g) env) (run_with (apply_operator ops) (gp_nodes g') env)"
proof (cases "fns = []")
  case True
  then have "lib = Map.empty" "g' = g" using assms(1,2) by (simp_all add: inline_local_functions_def)
  then have "meaning n lib ops = apply_operator ops" for n by (intro ext) (simp add: meaning_plain)
  with \<open>g' = g\<close> show ?thesis by (simp add: option.rel_refl)
next
  case False
  let ?st = "\<lparr>es_counter = 0, es_budget = node_budget (length (gp_nodes g))\<rparr>"
  from assms(1,2) False obtain nodes st' where run: "expand_nodes lib 0 (gp_nodes g) ?st = Inr (nodes, st')"
    and g': "gp_nodes g' = nodes" by (auto simp: inline_local_functions_def rbind_Inr_iff)
  have "lib k = Some fn \<Longrightarrow> fn \<in> set fns" for k fn
    using build_library_from [OF assms(2)] by fastforce
  then have proper: "\<And>k fn. lib k = Some fn \<Longrightarrow> proper_function fn" using assms(3) by (simp add: list_all_iff)
  have "expands lib 0 (gp_nodes g) ?st nodes st'" using run expansion_expands(1) by blast
  moreover have "ready 0 (es_counter ?st) (gp_nodes g) env env"
    using assms(4-7) by (auto simp: ready_def agrees_def intro!: old_unreserved)
  ultimately have "rel_option (agrees 0 (es_counter st')) (run_with (meaning (MAX_FUNCTION_DEPTH - 0) lib ops) (gp_nodes g) env)
      (run_with (apply_operator ops) nodes env)"
    using expands_meaning(1) [of lib 0 "gp_nodes g" ?st nodes st'] proper by blast
  then show ?thesis unfolding g' diff_zero
    by (rule option.rel_mono_strong) (simp add: agrees_def old_unreserved)
qed

text \<open>
  C5. Inlining preserves meaning. For a model whose functions and main graph are straight-line
  (every name written once, no subgraphs) and whose names do not begin with \<open>__fn\<close>: running the
  inlined graph fails exactly when the graph with its calls does, and otherwise gives every name
  of the model the value it has when every call runs its function's body, with the call's
  arguments and attributes, in an environment of its own; for any operators, with calls nested
  to any depth the loader admits, repeated arguments and omitted inputs and outputs included.
\<close>

theorem inlining_preserves_meaning:
  assumes "inline_local_functions g fns = Inr g'" and "build_library fns Map.empty = Inr lib"
    and "list_all proper_function fns" and "straight_line (gp_nodes g)"
    and "\<forall>x\<in>names_of (gp_nodes g). \<not> reserved x" and "\<forall>x. env x \<noteq> None \<longrightarrow> \<not> reserved x"
    and "\<forall>x\<in>set (outputs_of (gp_nodes g)). env x = None"
  shows "rel_option (\<lambda>env1 env2. \<forall>x. \<not> reserved x \<longrightarrow> env2 x = env1 x)
    (run_with (meaning MAX_FUNCTION_DEPTH lib ops) (gp_nodes g) env) (run_with (apply_operator ops) (gp_nodes g') env)"
  using assms by (rule inlined_meaning)

theorem inlining_preserves_meaning_witness:
  "rel_option (\<lambda>env1 env2. \<forall>x. \<not> reserved x \<longrightarrow> env2 x = env1 x)
    (run_with (meaning MAX_FUNCTION_DEPTH [(''d'', ''F'', []) \<mapsto> relu_function] (\<lambda>key attributes args. Some [max 0 (the (hd args))]))
      (gp_nodes calling_graph) [''x'' \<mapsto> (- 3 :: int)])
    (run_with (apply_operator (\<lambda>key attributes args. Some [max 0 (the (hd args))])) (gp_nodes inlined_graph) [''x'' \<mapsto> - 3])"
proof (rule inlining_preserves_meaning [OF inline_relu_function])
  show "build_library [relu_function] Map.empty = Inr [(''d'', ''F'', []) \<mapsto> relu_function]"
    by (simp add: relu_function_def function_key_def function_default_def)
qed (simp_all add: calling_graph_def relu_function_def function_default_def proper_function_def straight_line_def
    outputs_of_def names_of_def reserved_def)

end
