(* ===== verification/MemoryPlan.thy ===== *)
theory MemoryPlan
  imports Graphs "HOL-Library.Multiset"
begin

text \<open>
  The static memory planner, \<open>MemoryPlan::compute\<close> of \<open>src/memory/types.rs\<close>, with
  \<open>compute_peak_memory\<close> of \<open>src/memory/functions.rs\<close>: lifetimes of the intermediate
  tensors and their assignment to buffer slots.

  The loop that builds the lifetimes iterates a hash map; its iteration order is the
  argument \<open>order\<close>, of which only that it is a permutation is used. Sizes are unbounded
  naturals: the product of a shape does not wrap here.
\<close>

section \<open>Lifetimes\<close>



text \<open>\<open>produced.entry(out_name).or_insert(i)\<close>, the entries in order of insertion.\<close>

definition or_insert :: "nat \<Rightarrow> string \<Rightarrow> (string \<times> nat) list \<Rightarrow> (string \<times> nat) list" where
  "or_insert i name m = (if name \<in> fst ` set m then m else m @ [(name, i)])"






section \<open>Slots\<close>









section \<open>A chosen slot is free\<close>




section \<open>The slot invariant\<close>







section \<open>Lifetimes are those of the graph\<close>

lemma or_insert_keys [simp]: "fst ` set (or_insert i x m) = insert x (fst ` set m)"
  by (auto simp: or_insert_def)



definition first_producer :: "nat \<Rightarrow> node list \<Rightarrow> string \<Rightarrow> nat \<Rightarrow> bool" where
  "first_producer k nds x p \<longleftrightarrow> k \<le> p \<and> p < k + length nds \<and> x \<in> set (n_outputs (nds ! (p - k))) \<and>
     (\<forall>j < p - k. x \<notin> set (n_outputs (nds ! j)))"

lemma first_producer_Nil [simp]: "\<not> first_producer k [] x p"
  by (simp add: first_producer_def)







end
