(* ===== verification/Scheduling.thy ===== *)
theory Scheduling
  imports Graphs
begin

text \<open>
  What is decided about a run before it starts: the outer-scope names a node's
  subgraphs capture (\<open>src/session/run/scheduling.rs\<close>), the reference-count seed
  (\<open>src/session/run/plan.rs\<close>), and the depth levels of the parallel schedule.

  A set of names is a list without duplicates in some iteration order.
\<close>

section \<open>Outer-scope captures\<close>

definition MAX_SUBGRAPH_NESTING :: nat where "MAX_SUBGRAPH_NESTING = 32"

definition bound_names :: "string list \<Rightarrow> node list \<Rightarrow> string list" where
  "bound_names input_names nodes =
     input_names @ filter (\<lambda>x. x \<noteq> []) (concat (map n_outputs nodes))"

text \<open>
  \<open>graph_free g depth\<close> is what \<open>collect_free_names(g, depth, out)\<close> adds to \<open>out\<close>;
  \<open>node_free\<close> is what one sub-node contributes before the names bound at its level
  are subtracted.
\<close>

primrec attributes_free :: "attributes \<Rightarrow> nat \<Rightarrow> string list"
  and node_free :: "node \<Rightarrow> nat \<Rightarrow> string list"
  and graph_free :: "graph \<Rightarrow> nat \<Rightarrow> string list" where
  "attributes_free (Attributes fs is ss ts fls ils sls graphs) depth =
     concat (map (\<lambda>(_, free). free depth) (map (map_prod id graph_free) graphs))"
| "node_free (Node op name inputs outputs attrs) depth =
     filter (\<lambda>x. x \<noteq> []) inputs @ attributes_free attrs (depth + 1)"
| "graph_free (Graph name nodes input_names output_names iis ois) depth =
     (if depth \<ge> MAX_SUBGRAPH_NESTING then []
      else let bound = bound_names input_names nodes in
        remdups (filter (\<lambda>x. x \<notin> set bound) (concat (map (\<lambda>free. free depth) (map node_free nodes)))))"

definition subgraph_captures :: "node \<Rightarrow> string list" where
  "subgraph_captures nd = remdups (attributes_free (n_attrs nd) 0)"

lemma distinct_captures [simp]: "distinct (subgraph_captures nd)"
  by (simp add: subgraph_captures_def)

lemma attributes_free_no_graphs [simp]: "at_graphs a = [] \<Longrightarrow> attributes_free a d = []"
  by (cases a) simp

lemma captures_no_graphs [simp]: "at_graphs (n_attrs nd) = [] \<Longrightarrow> subgraph_captures nd = []"
  by (simp add: subgraph_captures_def)

lemma attributes_free_set: "set (attributes_free a d) = (\<Union>g\<in>snd ` set (at_graphs a). set (graph_free g d))"
  by (cases a) (simp add: case_prod_beta image_image)

lemma free_names_nonempty:
  "[] \<notin> set (attributes_free a d)" "[] \<notin> set (node_free nd d)" "[] \<notin> set (graph_free g d)"
proof (induction a and nd and g arbitrary: d and d and d)
  case (Attributes fs "is" ss ts fls ils sls graphs)
  then show ?case by (fastforce simp: snds.simps)
qed (auto simp: Let_def)

lemma captures_nonempty: "x \<in> set (subgraph_captures nd) \<Longrightarrow> x \<noteq> []"
  using free_names_nonempty(1) [of "n_attrs nd" 0] by (auto simp: subgraph_captures_def)

section \<open>Reference-count seed\<close>

definition count_name :: "string \<Rightarrow> (string \<rightharpoonup> nat) \<Rightarrow> string \<rightharpoonup> nat" where
  "count_name x counts = counts(x \<mapsto> (case counts x of Some n \<Rightarrow> n + 1 | None \<Rightarrow> 1))"

definition count_node :: "(string \<rightharpoonup> 'w) \<Rightarrow> node \<Rightarrow> (string \<rightharpoonup> nat) \<Rightarrow> string \<rightharpoonup> nat" where
  "count_node weights nd counts =
     (let counts = fold count_name (filter (\<lambda>x. x \<noteq> [] \<and> weights x = None) (n_inputs nd)) counts
      in fold count_name (filter (\<lambda>x. x \<noteq> [] \<and> weights x = None) (subgraph_captures nd)) counts)"

definition base_ref_counts :: "node list \<Rightarrow> (string \<rightharpoonup> 'w) \<Rightarrow> string list \<Rightarrow> string \<rightharpoonup> nat" where
  "base_ref_counts sorted_nodes weights output_names =
     (let counts = fold (count_node weights) sorted_nodes Map.empty
      in fold count_name output_names counts)"

text \<open>How often a node reads a name: each input occurrence, and once if it is captured.\<close>

definition node_uses :: "node \<Rightarrow> string \<Rightarrow> nat" where
  "node_uses nd x = count_list (n_inputs nd) x + (if x \<in> set (subgraph_captures nd) then 1 else 0)"

definition remaining_uses :: "node list \<Rightarrow> string \<Rightarrow> nat" where
  "remaining_uses nds x = sum_list (map (\<lambda>nd. node_uses nd x) nds)"

definition count_of :: "(string \<rightharpoonup> nat) \<Rightarrow> string \<Rightarrow> nat" where
  "count_of m x = (case m x of Some n \<Rightarrow> n | None \<Rightarrow> 0)"

lemma count_of_empty [simp]: "count_of Map.empty x = 0"
  by (simp add: count_of_def)

lemma count_of_fold: "count_of (fold count_name xs m) x = count_of m x + count_list xs x"
  by (induction xs arbitrary: m) (auto simp: count_name_def count_of_def split: option.splits)

lemma count_list_distinct: "distinct xs \<Longrightarrow> count_list xs x = (if x \<in> set xs then 1 else 0)"
  by (induction xs) auto

lemma count_list_filter: "P x \<Longrightarrow> count_list (filter P xs) x = count_list xs x"
  by (induction xs) auto

lemma count_of_node:
  "x \<noteq> [] \<Longrightarrow> weights x = None \<Longrightarrow> count_of (count_node weights nd m) x = count_of m x + node_uses nd x"
  by (simp add: count_node_def Let_def count_of_fold node_uses_def count_list_filter count_list_distinct)

lemma count_of_nodes:
  "x \<noteq> [] \<Longrightarrow> weights x = None \<Longrightarrow>
     count_of (fold (count_node weights) nds m) x = count_of m x + remaining_uses nds x"
  by (induction nds arbitrary: m) (simp_all add: remaining_uses_def count_of_node)

lemma base_ref_counts_exact:
  "x \<noteq> [] \<Longrightarrow> weights x = None \<Longrightarrow>
     count_of (base_ref_counts nds weights outs) x = remaining_uses nds x + count_list outs x"
  by (simp add: base_ref_counts_def Let_def count_of_fold count_of_nodes)

section \<open>Depth levels\<close>

fun max_depth_opt :: "nat option \<Rightarrow> nat \<Rightarrow> nat option" where
  "max_depth_opt None d = Some d"
| "max_depth_opt (Some cur) d = Some (max cur d)"

definition depth_step :: "(string \<rightharpoonup> 'w) \<Rightarrow> (string \<rightharpoonup> nat) \<Rightarrow> string \<Rightarrow> nat option \<Rightarrow> nat option" where
  "depth_step weights tensor_depth name acc =
     (if name = [] \<or> weights name \<noteq> None then acc
      else case tensor_depth name of Some d \<Rightarrow> max_depth_opt acc d | None \<Rightarrow> acc)"

definition node_depth :: "(string \<rightharpoonup> 'w) \<Rightarrow> (string \<rightharpoonup> nat) \<Rightarrow> node \<Rightarrow> nat" where
  "node_depth weights tensor_depth nd =
     (let predecessors = n_inputs nd @ subgraph_captures nd;
          max_pred_depth = fold (depth_step weights tensor_depth) predecessors None
      in case max_pred_depth of Some d \<Rightarrow> d + 1 | None \<Rightarrow> 0)"

fun node_depths_from :: "(string \<rightharpoonup> 'w) \<Rightarrow> node list \<Rightarrow> (string \<rightharpoonup> nat) \<Rightarrow> nat list" where
  "node_depths_from weights [] tensor_depth = []"
| "node_depths_from weights (nd # nds) tensor_depth =
     (let depth = node_depth weights tensor_depth nd;
          tensor_depth = fold (\<lambda>out m. m(out \<mapsto> depth)) (filter (\<lambda>x. x \<noteq> []) (n_outputs nd)) tensor_depth
      in depth # node_depths_from weights nds tensor_depth)"

definition compute_node_depths :: "node list \<Rightarrow> (string \<rightharpoonup> 'w) \<Rightarrow> nat list" where
  "compute_node_depths sorted_nodes weights = node_depths_from weights sorted_nodes Map.empty"

definition group_by_depth :: "nat list \<Rightarrow> nat list list" where
  "group_by_depth depths =
     (let max_depth = fold max depths 0;
          groups = replicate (max_depth + 1) []
      in fold (\<lambda>(i, d) groups. groups[d := groups ! d @ [i]]) (enumerate 0 depths) groups)"

lemma length_node_depths [simp]: "length (node_depths_from w nds m) = length nds"
  by (induction nds arbitrary: m) (simp_all add: Let_def)

lemma fold_update_outputs:
  "fold (\<lambda>out m. m(out \<mapsto> d)) outs m x = (if x \<in> set outs then Some d else m x)"
  by (induction outs arbitrary: m) auto

lemma depth_fold_mono:
  "acc = Some a \<Longrightarrow> \<exists>b. fold (depth_step weights td) xs acc = Some b \<and> a \<le> b"
proof (induction xs arbitrary: acc a)
  case (Cons x xs)
  have "\<exists>a'. depth_step weights td x acc = Some a' \<and> a \<le> a'"
    using Cons.prems by (auto simp: depth_step_def split: option.split)
  then obtain a' where a': "depth_step weights td x acc = Some a'" "a \<le> a'" by blast
  with Cons.IH [OF a'(1)] show ?case by fastforce
qed simp

lemma depth_fold_member:
  assumes "x \<in> set xs" and "x \<noteq> []" and "weights x = None" and "td x = Some d"
  shows "\<exists>b. fold (depth_step weights td) xs acc = Some b \<and> d \<le> b"
  using assms(1)
proof (induction xs arbitrary: acc)
  case (Cons y ys)
  show ?case
  proof (cases "x = y")
    case True
    obtain a where a: "depth_step weights td y acc = Some a" "d \<le> a"
      using True assms by (cases acc) (auto simp: depth_step_def)
    with depth_fold_mono [OF a(1), of weights td ys] show ?thesis by fastforce
  next
    case False
    with Cons show ?thesis by simp
  qed
qed simp

lemma node_depth_greater:
  assumes "x \<in> set (n_inputs nd) \<union> set (subgraph_captures nd)" and "x \<noteq> []"
    and "weights x = None" and "td x = Some d"
  shows "d < node_depth weights td nd"
proof -
  have "x \<in> set (n_inputs nd @ subgraph_captures nd)" using assms(1) by simp
  then obtain b where "fold (depth_step weights td) (n_inputs nd @ subgraph_captures nd) None = Some b" "d \<le> b"
    using depth_fold_member [of x _ weights td d None] assms(2-4) by blast
  then show ?thesis by (simp add: node_depth_def Let_def)
qed

lemma node_depths_last_producer:
  assumes "j < length nds" and "x \<in> set (n_inputs (nds ! j)) \<union> set (subgraph_captures (nds ! j))"
    and "x \<noteq> []" and "weights x = None" and "td x = Some d"
    and "\<forall>k < j. x \<notin> set (n_outputs (nds ! k))"
  shows "d < node_depths_from weights nds td ! j"
  using assms
proof (induction nds arbitrary: j td)
  case (Cons nd nds)
  show ?case
  proof (cases j)
    case 0
    with Cons.prems node_depth_greater [of x nd weights td d] show ?thesis by (simp add: Let_def)
  next
    case (Suc i)
    have "x \<notin> set (n_outputs nd)" "\<forall>k < i. x \<notin> set (n_outputs (nds ! k))"
      using Cons.prems(6) Suc by auto
    with Suc Cons.prems Cons.IH [of i] show ?thesis
      by (simp add: Let_def fold_update_outputs)
  qed
qed simp

text \<open>The groups: level \<open>d\<close> has the indices of depth \<open>d\<close>, in the order of the nodes.\<close>

lemma fold_append_at:
  assumes "\<forall>(i, d)\<in>set ids. d < length groups"
  shows "fold (\<lambda>(i, d) groups. groups[d := groups ! d @ [i]]) ids groups
    = map (\<lambda>d. groups ! d @ map fst (filter (\<lambda>(i, d'). d' = d) ids)) [0..<length groups]"
  using assms
proof (induction ids arbitrary: groups)
  case Nil
  then show ?case by (simp add: map_nth)
next
  case (Cons id ids)
  obtain i d where id: "id = (i, d)" by fastforce
  let ?g = "groups[d := groups ! d @ [i]]"
  have "fold (\<lambda>(i, d) groups. groups[d := groups ! d @ [i]]) ids ?g
      = map (\<lambda>d. ?g ! d @ map fst (filter (\<lambda>(i, d'). d' = d) ids)) [0..<length ?g]"
    by (rule Cons.IH) (use Cons.prems in auto)
  then show ?case
    using Cons.prems by (auto simp: id nth_list_update)
qed

lemma filter_enumerate:
  "map fst (filter (\<lambda>(i, d). P d) (enumerate 0 xs)) = filter (\<lambda>i. P (xs ! i)) [0..<length xs]"
proof -
  have "enumerate 0 xs = map (\<lambda>i. (i, xs ! i)) [0..<length xs]"
    by (rule nth_equalityI) (simp_all add: nth_enumerate_eq)
  then show ?thesis by (simp add: filter_map comp_def)
qed

lemma group_by_depth_eq:
  "group_by_depth depths
     = map (\<lambda>d. filter (\<lambda>i. depths ! i = d) [0..<length depths]) [0..<fold max depths 0 + 1]"
proof -
  let ?n = "fold max depths 0 + 1"
  have "d < ?n" if "d \<in> set depths" for d
    using that fold_max_le [of depths 0 "fold max depths 0"] by (simp add: le_imp_less_Suc)
  then have "\<forall>(i, d)\<in>set (enumerate 0 depths). d < length (replicate ?n ([] :: nat list))"
    by (auto simp: in_set_enumerate_eq simp del: replicate_Suc)
  from fold_append_at [OF this]
  have "group_by_depth depths
      = map (\<lambda>d. replicate ?n [] ! d @ map fst (filter (\<lambda>(i, d'). d' = d) (enumerate 0 depths))) [0..<?n]"
    unfolding group_by_depth_def Let_def by simp
  also have "\<dots> = map (\<lambda>d. filter (\<lambda>i. depths ! i = d) [0..<length depths]) [0..<?n]"
    by (rule map_cong) (simp_all add: filter_enumerate nth_replicate del: replicate_Suc upt_Suc)
  finally show ?thesis .
qed

lemma producer_below:
  assumes "i < j" and "j < length nodes"
    and "x \<in> set (n_inputs (nodes ! j)) \<union> set (subgraph_captures (nodes ! j))"
    and "x \<in> set (n_outputs (nodes ! i))" and "\<forall>k. i < k \<and> k < j \<longrightarrow> x \<notin> set (n_outputs (nodes ! k))"
    and "x \<noteq> []" and "weights x = None"
  shows "compute_node_depths nodes weights ! i < compute_node_depths nodes weights ! j"
proof -
  have "node_depths_from weights nds td ! i < node_depths_from weights nds td ! j"
    if "i < j" "j < length nds" "x \<in> set (n_inputs (nds ! j)) \<union> set (subgraph_captures (nds ! j))"
      "x \<in> set (n_outputs (nds ! i))" "\<forall>k. i < k \<and> k < j \<longrightarrow> x \<notin> set (n_outputs (nds ! k))" for nds td i j
    using that
  proof (induction nds arbitrary: td i j)
    case (Cons nd nds)
    then obtain j' where j': "j = Suc j'" by (cases j) auto
    let ?d = "node_depth weights td nd"
    let ?td = "fold (\<lambda>out m. m(out \<mapsto> ?d)) (filter (\<lambda>x. x \<noteq> []) (n_outputs nd)) td"
    show ?case
    proof (cases i)
      case 0
      have "\<forall>k < j'. x \<notin> set (n_outputs (nds ! k))"
        using Cons.prems(5) unfolding 0 j' by (metis Suc_less_eq nth_Cons_Suc zero_less_Suc)
      moreover have "?td x = Some ?d"
        using Cons.prems(4) 0 assms(6) by (simp add: fold_update_outputs)
      ultimately have "?d < node_depths_from weights nds ?td ! j'"
        using Cons.prems j' assms(6,7) by (intro node_depths_last_producer) auto
      then show ?thesis by (simp add: 0 j' Let_def)
    next
      case (Suc i')
      have "node_depths_from weights nds ?td ! i' < node_depths_from weights nds ?td ! j'"
      proof (rule Cons.IH)
        show "\<forall>k. i' < k \<and> k < j' \<longrightarrow> x \<notin> set (n_outputs (nds ! k))"
          using Cons.prems(5) unfolding Suc j' by (metis Suc_less_eq nth_Cons_Suc)
      qed (use Cons.prems Suc j' in auto)
      then show ?thesis by (simp add: Suc j' Let_def)
    qed
  qed simp
  then show ?thesis
    using assms by (simp add: compute_node_depths_def)
qed

text \<open>
  C31. In the schedule of the parallel path a node's level is strictly above that of the
  node that last produced any tensor it reads, through an input or captured by one of
  its subgraphs; so the nodes of one level do not depend on each other.
\<close>

theorem depth_respects_dependencies:
  assumes "i < j" and "j < length nodes"
    and "x \<in> set (n_inputs (nodes ! j)) \<union> set (subgraph_captures (nodes ! j))"
    and "x \<in> set (n_outputs (nodes ! i))" and "\<forall>k. i < k \<and> k < j \<longrightarrow> x \<notin> set (n_outputs (nodes ! k))"
    and "x \<noteq> []" and "weights x = None"
  shows "compute_node_depths nodes weights ! i < compute_node_depths nodes weights ! j"
  by (rule producer_below) (use assms in auto)

theorem depth_respects_dependencies_witness:
  "compute_node_depths [Node ''Relu'' [] [''x''] [''a''] no_attrs, Node ''Neg'' [] [''a''] [''b''] no_attrs]
      (\<lambda>_. None :: unit option) ! 0
   < compute_node_depths [Node ''Relu'' [] [''x''] [''a''] no_attrs, Node ''Neg'' [] [''a''] [''b''] no_attrs]
      (\<lambda>_. None :: unit option) ! 1"
  by (rule depth_respects_dependencies [where x = "''a''"]) auto

end
