(* ===== verification/Operators.thy ===== *)
theory Operators
  imports Scheduling
begin

text \<open>
  The operator interface of \<open>oxionnx-core/src/operator.rs\<close>: the context an operator
  is executed in, the three ways the engine may execute it, and the default methods of
  the trait. The arithmetic kernels are parameters; what the engine relies on is the
  locale \<open>operator_contract\<close>.

  The registry hands its operators out as functions that are closed over it, so that of
  \<open>ctx.registry\<close> a context keeps whether it is there and the opset it carries.
\<close>

definition DEFAULT_OPSET :: int where "DEFAULT_OPSET = 21"

record op_context =
  cx_node :: node
  cx_inputs :: "tensor option list"
  cx_outer_scope :: "tensor_map option"
  cx_weights :: "tensor_map option"
  cx_registry :: "int option"

text \<open>\<open>ctx.input(idx)\<close>, \<open>ctx.optional_input(idx)\<close> and \<open>ctx.opset()\<close>.\<close>

definition cx_optional_input :: "op_context \<Rightarrow> nat \<Rightarrow> tensor option" where
  "cx_optional_input c idx = (if idx < length (cx_inputs c) then cx_inputs c ! idx else None)"

definition cx_input :: "op_context \<Rightarrow> nat \<Rightarrow> onnx_error + tensor" where
  "cx_input c idx = (case cx_optional_input c idx of Some t \<Rightarrow> Inr t | None \<Rightarrow> Inl TensorNotFound)"

definition cx_num_inputs :: "op_context \<Rightarrow> nat" where
  "cx_num_inputs c = length (filter (\<lambda>i. i \<noteq> None) (cx_inputs c))"

definition cx_opset :: "op_context \<Rightarrow> int" where
  "cx_opset c = (case cx_registry c of Some v \<Rightarrow> v | None \<Rightarrow> DEFAULT_OPSET)"

record operator =
  execute :: "op_context \<Rightarrow> onnx_error + tensor list"
  supports_inplace :: bool
  execute_inplace :: "tensor \<Rightarrow> op_context \<Rightarrow> onnx_error + tensor list"
  supports_output_slots :: bool
  execute_into_slots :: "op_context \<Rightarrow> tensor list \<Rightarrow> onnx_error + tensor list"

section \<open>Binding results\<close>

text \<open>
  The loop \<open>for (out_name, tensor) in node.outputs.iter().zip(results)\<close> over a plain map,
  as a subgraph's body, the constant folder and the specification of a run have it.
\<close>

definition bind_outputs :: "(string \<times> tensor) list \<Rightarrow> (string \<Rightarrow> tensor option) \<Rightarrow> string \<Rightarrow> tensor option" where
  "bind_outputs outs env = fold (\<lambda>(x, t) env. if x \<noteq> [] then env(x \<mapsto> t) else env) outs env"

lemma bind_outputs_agree:
  "(x = [] \<or> x \<notin> fst ` set outs \<Longrightarrow> env x = env' x) \<Longrightarrow> bind_outputs outs env x = bind_outputs outs env' x"
  unfolding bind_outputs_def
proof (induction outs arbitrary: env env')
  case (Cons o1 outs)
  obtain y t where o1: "o1 = (y, t)" by fastforce
  show ?case
    unfolding o1 fold_simps prod.case comp_def
    by (rule Cons.IH) (use Cons.prems o1 in auto)
qed simp

lemma bind_outputs_other: "x \<notin> fst ` set outs \<Longrightarrow> bind_outputs outs env x = env x"
proof (induction outs arbitrary: env)
  case (Cons o1 outs)
  obtain y t where o1: "o1 = (y, t)" by fastforce
  have "bind_outputs (o1 # outs) env = bind_outputs outs (if y \<noteq> [] then env(y \<mapsto> t) else env)"
    by (simp add: bind_outputs_def o1)
  with Cons o1 show ?case by simp
qed (simp add: bind_outputs_def)

lemma bind_outputs_None:
  "bind_outputs outs env x = None \<longleftrightarrow> env x = None \<and> (x = [] \<or> x \<notin> fst ` set outs)"
proof (induction outs arbitrary: env)
  case (Cons o1 outs)
  obtain y t where o1: "o1 = (y, t)" by fastforce
  have "bind_outputs (o1 # outs) env = bind_outputs outs (if y \<noteq> [] then env(y \<mapsto> t) else env)"
    by (simp add: bind_outputs_def o1)
  with Cons.IH show ?case by (cases "y = x") (auto simp: o1)
qed (simp add: bind_outputs_def)

section \<open>Default methods\<close>

definition default_inplace :: "(op_context \<Rightarrow> onnx_error + tensor list) \<Rightarrow> tensor \<Rightarrow> op_context \<Rightarrow> onnx_error + tensor list" where
  "default_inplace exec input c = exec c"

definition write_slot :: "tensor \<Rightarrow> tensor \<Rightarrow> tensor" where
  "write_slot slot result =
     (if t_shape slot = t_shape result \<and> length (t_data slot) = length (t_data result)
      then slot\<lparr>t_data := t_data result\<rparr> else result)"

definition default_into_slots ::
  "(op_context \<Rightarrow> onnx_error + tensor list) \<Rightarrow> op_context \<Rightarrow> tensor list \<Rightarrow> onnx_error + tensor list" where
  "default_into_slots exec c slots =
     rbind (exec c) (\<lambda>results.
       if length results \<noteq> length slots then Inl Internal
       else Inr (map2 write_slot slots results))"

lemma write_slot_result [simp]: "write_slot slot result = result"
  by (cases slot, cases result) (simp add: write_slot_def)

lemma default_into_slots_eq:
  "default_into_slots exec c slots =
     rbind (exec c) (\<lambda>results. if length results \<noteq> length slots then Inl Internal else Inr results)"
  unfolding default_into_slots_def
  by (intro rbind_cong refl if_cong arg_cong [where f = Inr] nth_equalityI) simp_all

section \<open>The contract between operators and the engine\<close>

text \<open>
  The names that a node's subgraphs bind themselves, at any depth: formal inputs and
  results of their nodes. ONNX requires them to be different from the names of the
  enclosing scope.
\<close>

primrec attributes_bound :: "attributes \<Rightarrow> string list"
  and inner_names :: "node \<Rightarrow> string list"
  and graph_bound :: "graph \<Rightarrow> string list" where
  "attributes_bound (Attributes fs is ss ts fls ils sls graphs) =
     concat (map snd (map (map_prod id graph_bound) graphs))"
| "inner_names (Node op name inputs outputs attrs) = attributes_bound attrs"
| "graph_bound (Graph name nodes input_names output_names iis ois) =
     bound_names input_names nodes @ concat (map inner_names nodes)"

lemma inner_names_set:
  "set (inner_names nd) = (\<Union>g\<in>snd ` set (at_graphs (n_attrs nd)). set (graph_bound g))"
  by (cases nd; cases "n_attrs nd") (simp add: image_image case_prod_beta)

lemma inner_names_no_graphs [simp]: "at_graphs (n_attrs nd) = [] \<Longrightarrow> inner_names nd = []"
  by (cases nd; cases "n_attrs nd") simp

text \<open>
  What the engine relies on, for an operator on a node. The operator reads the outer scope
  only at the names the node's subgraphs capture, where the scope does not hold names the
  subgraphs bind; executing in place on the first input gives what executing on a
  borrowed one gives; and writing into zeroed slots gives the same results, one for each
  output of the node.
\<close>

definition scope_agrees :: "node \<Rightarrow> tensor_map \<Rightarrow> tensor_map \<Rightarrow> bool" where
  "scope_agrees nd s s' \<longleftrightarrow> (\<forall>x\<in>set (subgraph_captures nd). s x = s' x) \<and>
     (\<forall>x\<in>set (inner_names nd). s x = None \<and> s' x = None)"

definition zeroed :: "tensor \<Rightarrow> bool" where
  "zeroed t \<longleftrightarrow> set (t_data t) \<subseteq> {0}"

locale operator_contract =
  fixes oper :: operator and nd :: node
  assumes execute_scope: "\<And>ins s s' w r. scope_agrees nd s s' \<Longrightarrow>
      execute oper \<lparr>cx_node = nd, cx_inputs = ins, cx_outer_scope = Some s, cx_weights = w, cx_registry = r\<rparr> =
      execute oper \<lparr>cx_node = nd, cx_inputs = ins, cx_outer_scope = Some s', cx_weights = w, cx_registry = r\<rparr>"
    and inplace_execute: "\<And>t ins s w r. supports_inplace oper \<Longrightarrow>
      execute_inplace oper t \<lparr>cx_node = nd, cx_inputs = None # ins, cx_outer_scope = Some s, cx_weights = w, cx_registry = r\<rparr> =
      execute oper \<lparr>cx_node = nd, cx_inputs = Some t # ins, cx_outer_scope = Some s, cx_weights = w, cx_registry = r\<rparr>"
    and slots_execute: "\<And>ins s w r slots. supports_output_slots oper \<Longrightarrow>
      length slots = length (n_outputs nd) \<Longrightarrow> \<forall>t\<in>set slots. zeroed t \<Longrightarrow>
      execute_into_slots oper \<lparr>cx_node = nd, cx_inputs = ins, cx_outer_scope = Some s, cx_weights = w, cx_registry = r\<rparr> slots =
      execute oper \<lparr>cx_node = nd, cx_inputs = ins, cx_outer_scope = Some s, cx_weights = w, cx_registry = r\<rparr>"
begin

lemma inplace_scope:
  "supports_inplace oper \<Longrightarrow> scope_agrees nd s s' \<Longrightarrow>
     execute_inplace oper t \<lparr>cx_node = nd, cx_inputs = None # ins, cx_outer_scope = Some s, cx_weights = w, cx_registry = r\<rparr> =
     execute oper \<lparr>cx_node = nd, cx_inputs = Some t # ins, cx_outer_scope = Some s', cx_weights = w, cx_registry = r\<rparr>"
  using execute_scope inplace_execute by simp

lemma slots_scope:
  "supports_output_slots oper \<Longrightarrow> length slots = length (n_outputs nd) \<Longrightarrow> \<forall>t\<in>set slots. zeroed t \<Longrightarrow>
   scope_agrees nd s s' \<Longrightarrow>
     execute_into_slots oper \<lparr>cx_node = nd, cx_inputs = ins, cx_outer_scope = Some s, cx_weights = w, cx_registry = r\<rparr> slots =
     execute oper \<lparr>cx_node = nd, cx_inputs = ins, cx_outer_scope = Some s', cx_weights = w, cx_registry = r\<rparr>"
  using execute_scope slots_execute by simp

end

text \<open>
  An operator without subgraphs that overrides \<open>execute\<close> alone, and may opt in to output
  slots: the trait's default methods discharge the contract.
\<close>

definition pure_operator ::
  "bool \<Rightarrow> (node \<Rightarrow> tensor option list \<Rightarrow> onnx_error + tensor list) \<Rightarrow> operator" where
  "pure_operator slots f =
     (let exec = (\<lambda>c. rbind (f (cx_node c) (cx_inputs c)) (\<lambda>results.
            if slots \<and> length results \<noteq> length (n_outputs (cx_node c)) then Inl Internal else Inr results))
      in \<lparr>execute = exec, supports_inplace = False, execute_inplace = default_inplace exec,
          supports_output_slots = slots, execute_into_slots = default_into_slots exec\<rparr>)"

interpretation pure: operator_contract "pure_operator slots f" nd for slots f nd
proof unfold_locales
  fix ins s w r and sl :: "tensor list"
  assume "supports_output_slots (pure_operator slots f)" and "length sl = length (n_outputs nd)"
  then show "execute_into_slots (pure_operator slots f)
        \<lparr>cx_node = nd, cx_inputs = ins, cx_outer_scope = Some s, cx_weights = w, cx_registry = r\<rparr> sl =
      execute (pure_operator slots f) \<lparr>cx_node = nd, cx_inputs = ins, cx_outer_scope = Some s, cx_weights = w, cx_registry = r\<rparr>"
    by (cases "f nd ins") (auto simp: pure_operator_def default_into_slots_eq Let_def)
qed (simp_all add: pure_operator_def Let_def)

text \<open>
  A unary elementwise operator with an in-place kernel, as most activations are: it maps
  a function over the elements of its first input, in place where it is given the
  tensor.
\<close>

definition map_tensor :: "(f32 \<Rightarrow> f32) \<Rightarrow> tensor \<Rightarrow> tensor" where
  "map_tensor h t = t\<lparr>t_data := map h (t_data t)\<rparr>"

definition unary_operator :: "(f32 \<Rightarrow> f32) \<Rightarrow> operator" where
  "unary_operator h =
     (let exec = (\<lambda>c. rbind (cx_input c 0) (\<lambda>t. Inr [map_tensor h t]))
      in \<lparr>execute = exec, supports_inplace = True,
          execute_inplace = (\<lambda>t c. Inr [map_tensor h t]),
          supports_output_slots = False, execute_into_slots = default_into_slots exec\<rparr>)"

interpretation unary: operator_contract "unary_operator h" nd for h nd
  by unfold_locales (simp_all add: unary_operator_def Let_def cx_input_def cx_optional_input_def)

end
