(* ===== verification/InputShapes.thy ===== *)
theory InputShapes
  imports Graphs
begin

text \<open>
  The checks a run makes on the shapes of its inputs before anything is executed
  (\<open>src/session/run/shape_resolution.rs\<close>): the declared rank, the static dimensions, and
  the symbolic dimensions, which must have one value across all inputs.

  The inputs are the map from names to tensors the caller hands in; a declared input that
  is not in it is skipped, as the code does.
\<close>

section \<open>Validation\<close>

text \<open>The loop over the axes of one input, whose rank has been compared already.\<close>

fun check_dims :: "dim list \<Rightarrow> nat list \<Rightarrow> (string \<Rightarrow> nat option) \<Rightarrow> onnx_error + (string \<Rightarrow> nat option)" where
  "check_dims (d # dims) (actual # shape) sym_values =
     (case d of
        Static expected \<Rightarrow>
          if actual \<noteq> expected then Inl ShapeMismatch else check_dims dims shape sym_values
      | Symbol nm \<Rightarrow>
          (case sym_values nm of
             Some prev \<Rightarrow> if prev \<noteq> actual then Inl ShapeMismatch else check_dims dims shape sym_values
           | None \<Rightarrow> check_dims dims shape (sym_values(nm \<mapsto> actual)))
      | UnknownDim \<Rightarrow> check_dims dims shape sym_values)"
| "check_dims _ _ sym_values = Inr sym_values"

fun validate_loop :: "tensor_info list \<Rightarrow> tensor_map \<Rightarrow> (string \<Rightarrow> nat option) \<Rightarrow> onnx_error + (string \<Rightarrow> nat option)" where
  "validate_loop [] inputs sym_values = Inr sym_values"
| "validate_loop (info # infos) inputs sym_values =
     (case inputs (in_name info) of
        None \<Rightarrow> validate_loop infos inputs sym_values
      | Some t \<Rightarrow>
          if symbolic_shape info = [] then validate_loop infos inputs sym_values
          else if length (t_shape t) \<noteq> length (symbolic_shape info) then Inl ShapeMismatch
          else rbind (check_dims (symbolic_shape info) (t_shape t) sym_values)
            (\<lambda>sym_values. validate_loop infos inputs sym_values))"

definition validate_input_shapes :: "tensor_info list \<Rightarrow> tensor_map \<Rightarrow> onnx_error + unit" where
  "validate_input_shapes infos inputs =
     rbind (validate_loop infos inputs Map.empty) (\<lambda>_. Inr ())"

section \<open>Resolution of the symbolic dimensions\<close>

fun resolve_dims :: "dim list \<Rightarrow> nat \<Rightarrow> nat list \<Rightarrow> (string \<Rightarrow> nat option) \<Rightarrow> onnx_error + (string \<Rightarrow> nat option)" where
  "resolve_dims [] axis shape dim_map = Inr dim_map"
| "resolve_dims (d # dims) axis shape dim_map =
     (case d of
        Symbol nm \<Rightarrow>
          if axis \<ge> length shape then Inl ShapeMismatch
          else let actual = shape ! axis in
            (case dim_map nm of
               Some existing \<Rightarrow>
                 if existing \<noteq> actual then Inl ShapeMismatch else resolve_dims dims (axis + 1) shape dim_map
             | None \<Rightarrow> resolve_dims dims (axis + 1) shape (dim_map(nm \<mapsto> actual)))
      | _ \<Rightarrow> resolve_dims dims (axis + 1) shape dim_map)"

fun resolve_loop :: "tensor_info list \<Rightarrow> tensor_map \<Rightarrow> (string \<Rightarrow> nat option) \<Rightarrow> onnx_error + (string \<Rightarrow> nat option)" where
  "resolve_loop [] inputs dim_map = Inr dim_map"
| "resolve_loop (info # infos) inputs dim_map =
     (case inputs (in_name info) of
        None \<Rightarrow> resolve_loop infos inputs dim_map
      | Some t \<Rightarrow> rbind (resolve_dims (symbolic_shape info) 0 (t_shape t) dim_map)
          (\<lambda>dim_map. resolve_loop infos inputs dim_map))"

definition resolve_dynamic_shapes :: "tensor_info list \<Rightarrow> tensor_map \<Rightarrow> onnx_error + (string \<Rightarrow> nat option)" where
  "resolve_dynamic_shapes infos inputs = resolve_loop infos inputs Map.empty"

section \<open>What the checks mean\<close>

text \<open>
  The specification: one assignment of values to the symbols under which every input that
  is given and has a declared shape has exactly that shape.
\<close>

fun dim_fits :: "(string \<Rightarrow> nat) \<Rightarrow> dim \<Rightarrow> nat \<Rightarrow> bool" where
  "dim_fits val (Static m) n \<longleftrightarrow> n = m"
| "dim_fits val (Symbol s) n \<longleftrightarrow> n = val s"
| "dim_fits val UnknownDim n \<longleftrightarrow> True"

definition info_fits :: "(string \<Rightarrow> nat) \<Rightarrow> tensor_map \<Rightarrow> tensor_info \<Rightarrow> bool" where
  "info_fits val inputs info \<longleftrightarrow>
     (\<forall>t. inputs (in_name info) = Some t \<longrightarrow> symbolic_shape info \<noteq> [] \<longrightarrow>
        list_all2 (dim_fits val) (symbolic_shape info) (t_shape t))"

definition shapes_fit :: "(string \<Rightarrow> nat) \<Rightarrow> tensor_info list \<Rightarrow> tensor_map \<Rightarrow> bool" where
  "shapes_fit val infos inputs \<longleftrightarrow> (\<forall>info\<in>set infos. info_fits val inputs info)"

text \<open>A symbol table is the part of an assignment known so far.\<close>

definition extends_syms :: "(string \<Rightarrow> nat) \<Rightarrow> (string \<Rightarrow> nat option) \<Rightarrow> bool" where
  "extends_syms val m \<longleftrightarrow> (\<forall>s n. m s = Some n \<longrightarrow> val s = n)"

lemma extends_empty [simp]: "extends_syms val Map.empty"
  by (simp add: extends_syms_def)

lemma extends_upd: "m s = None \<Longrightarrow> extends_syms val (m(s \<mapsto> n)) \<longleftrightarrow> extends_syms val m \<and> val s = n"
  by (auto simp: extends_syms_def)

lemma extends_lookup: "extends_syms val m \<Longrightarrow> m s = Some n \<Longrightarrow> val s = n"
  by (simp add: extends_syms_def)

text \<open>A check is sound when it refuses what nothing fits and its table is the exact answer otherwise.\<close>

definition sound_check :: "(onnx_error + (string \<Rightarrow> nat option)) \<Rightarrow> ((string \<Rightarrow> nat) \<Rightarrow> bool) \<Rightarrow> bool" where
  "sound_check r P \<longleftrightarrow> (case r of Inl e \<Rightarrow> e = ShapeMismatch \<and> (\<forall>val. \<not> P val)
     | Inr m \<Rightarrow> \<forall>val. extends_syms val m \<longleftrightarrow> P val)"

lemma sound_check_simps [simp]:
  "sound_check (Inl e) P \<longleftrightarrow> e = ShapeMismatch \<and> (\<forall>val. \<not> P val)"
  "sound_check (Inr m) P \<longleftrightarrow> (\<forall>val. extends_syms val m \<longleftrightarrow> P val)"
  by (simp_all add: sound_check_def)

lemma sound_check_cong: "sound_check r P \<Longrightarrow> (\<And>val. P val \<longleftrightarrow> Q val) \<Longrightarrow> sound_check r Q"
  by (cases r) simp_all

lemma sound_check_bind:
  assumes "sound_check r P" and "\<And>m. r = Inr m \<Longrightarrow> sound_check (f m) (\<lambda>val. extends_syms val m \<and> Q val)"
  shows "sound_check (rbind r f) (\<lambda>val. P val \<and> Q val)"
proof (cases r)
  case (Inr m)
  with assms have "extends_syms val m \<longleftrightarrow> P val" for val by simp
  with assms(2) [OF Inr] Inr show ?thesis by (auto elim: sound_check_cong)
qed (use assms in simp)

lemma check_dims_sound:
  "length dims = length shape \<Longrightarrow>
   sound_check (check_dims dims shape m) (\<lambda>val. extends_syms val m \<and> list_all2 (dim_fits val) dims shape)"
proof (induction dims shape m rule: check_dims.induct)
  case (1 d dims actual shape m)
  show ?case
  proof (cases d)
    case (Static k)
    then show ?thesis using 1 by auto
  next
    case (Symbol s)
    show ?thesis
    proof (cases "m s")
      case None
      have "sound_check (check_dims dims shape (m(s \<mapsto> actual)))
           (\<lambda>val. extends_syms val (m(s \<mapsto> actual)) \<and> list_all2 (dim_fits val) dims shape)"
        by (rule "1.IH"(2) [OF Symbol None]) (use "1.prems" in simp)
      from sound_check_cong [OF this, of "\<lambda>val. extends_syms val m \<and> list_all2 (dim_fits val) (d # dims) (actual # shape)"]
        None Symbol show ?thesis by (auto simp: extends_upd)
    next
      case (Some prev)
      show ?thesis
      proof (cases "prev = actual")
        case True
        then show ?thesis using "1.IH"(3) [OF Symbol Some] "1.prems" Symbol Some
          by (auto dest: extends_lookup elim: sound_check_cong)
      qed (use Symbol Some in \<open>auto dest: extends_lookup\<close>)
    qed
  next
    case UnknownDim
    then show ?thesis using 1 by auto
  qed
qed auto

lemma info_fits_cases:
  "inputs (in_name info) = None \<Longrightarrow> info_fits val inputs info"
  "symbolic_shape info = [] \<Longrightarrow> info_fits val inputs info"
  "inputs (in_name info) = Some t \<Longrightarrow> symbolic_shape info \<noteq> [] \<Longrightarrow>
     info_fits val inputs info \<longleftrightarrow> list_all2 (dim_fits val) (symbolic_shape info) (t_shape t)"
  by (auto simp: info_fits_def)

lemma shapes_fit_simps [simp]:
  "shapes_fit val [] inputs"
  "shapes_fit val (info # infos) inputs \<longleftrightarrow> info_fits val inputs info \<and> shapes_fit val infos inputs"
  by (auto simp: shapes_fit_def)

lemma validate_loop_sound:
  "sound_check (validate_loop infos inputs m) (\<lambda>val. extends_syms val m \<and> shapes_fit val infos inputs)"
proof (induction infos arbitrary: m)
  case (Cons info infos)
  consider "inputs (in_name info) = None \<or> symbolic_shape info = []"
    | t where "inputs (in_name info) = Some t" "symbolic_shape info \<noteq> []"
    by (cases "inputs (in_name info)") auto
  then show ?case
  proof cases
    case 1
    then have "validate_loop (info # infos) inputs m = validate_loop infos inputs m"
      by (auto split: option.split)
    with 1 Cons show ?thesis by (auto simp: info_fits_cases)
  next
    case (2 t)
    show ?thesis
    proof (cases "length (t_shape t) = length (symbolic_shape info)")
      case True
      with 2 show ?thesis
        using sound_check_bind [OF check_dims_sound [of "symbolic_shape info" "t_shape t" m] Cons.IH]
        by (simp add: info_fits_cases conj_assoc)
    next
      case False
      with 2 show ?thesis by (auto simp: info_fits_cases dest: list_all2_lengthD)
    qed
  qed
qed simp

lemma some_assignment: "\<exists>val. extends_syms val m"
  by (rule exI [of _ "\<lambda>s. case m s of Some n \<Rightarrow> n | None \<Rightarrow> 0"]) (auto simp: extends_syms_def)

lemma validation_decides:
  "validate_input_shapes infos inputs =
     (if \<exists>val. shapes_fit val infos inputs then Inr () else Inl ShapeMismatch)"
proof (cases "validate_loop infos inputs Map.empty")
  case (Inl e)
  with validate_loop_sound [of infos inputs Map.empty] show ?thesis
    by (simp add: validate_input_shapes_def)
next
  case (Inr m)
  with validate_loop_sound [of infos inputs Map.empty] some_assignment [of m] show ?thesis
    by (simp add: validate_input_shapes_def)
qed

text \<open>
  C32. The inputs of a run are accepted exactly when one assignment of values to the
  symbolic dimensions gives every declared input its declared shape: same rank, same
  static dimensions, one value per symbol across all inputs. Anything else is refused
  with \<open>ShapeMismatch\<close>.
\<close>

theorem validate_input_shapes_exact:
  "validate_input_shapes infos inputs =
     (if \<exists>val. shapes_fit val infos inputs then Inr () else Inl ShapeMismatch)"
  by (rule validation_decides)

section \<open>Resolution after validation\<close>

text \<open>Resolution looks at the symbols alone.\<close>

fun sym_fits :: "(string \<Rightarrow> nat) \<Rightarrow> dim \<Rightarrow> nat \<Rightarrow> bool" where
  "sym_fits val (Symbol s) n \<longleftrightarrow> n = val s"
| "sym_fits val _ n \<longleftrightarrow> True"

lemma dim_fits_split: "dim_fits val d n \<Longrightarrow> dim_fits val' d n \<longleftrightarrow> sym_fits val' d n"
  by (cases d) auto

lemma list_dim_fits_split:
  "list_all2 (dim_fits val) ds ns \<Longrightarrow> list_all2 (dim_fits val') ds ns \<longleftrightarrow> list_all2 (sym_fits val') ds ns"
  unfolding list_all2_conv_all_nth using dim_fits_split by blast

lemma resolve_dims_sound:
  "length ns = length dims \<Longrightarrow> axis \<le> length shape \<Longrightarrow> drop axis shape = ns \<Longrightarrow>
   sound_check (resolve_dims dims axis shape m) (\<lambda>val. extends_syms val m \<and> list_all2 (sym_fits val) dims ns)"
proof (induction dims arbitrary: axis ns m)
  case (Cons d dims)
  then obtain n ns' where ns: "ns = n # ns'" by (cases ns) auto
  with Cons.prems have len: "axis < length shape" by (metis drop_all le_neq_implies_less list.distinct(1) order_refl)
  with Cons.prems ns have n: "shape ! axis = n" "drop (Suc axis) shape = ns'"
    by (simp_all add: Cons_nth_drop_Suc [symmetric])
  have IH: "sound_check (resolve_dims dims (Suc axis) shape m)
      (\<lambda>val. extends_syms val m \<and> list_all2 (sym_fits val) dims ns')" for m
    by (rule Cons.IH) (use Cons.prems ns n len in auto)
  show ?case
  proof (cases d)
    case (Symbol s)
    show ?thesis
    proof (cases "m s")
      case None
      with Symbol len n show ?thesis
        by (auto simp: Let_def extends_upd ns intro!: sound_check_cong [OF IH])
    next
      case (Some prev)
      with Symbol len n show ?thesis
        by (auto simp: Let_def ns dest: extends_lookup intro!: sound_check_cong [OF IH])
    qed
  qed (use ns IH [of m] in auto)
qed auto

definition syms_fit :: "(string \<Rightarrow> nat) \<Rightarrow> tensor_map \<Rightarrow> tensor_info \<Rightarrow> bool" where
  "syms_fit val inputs info \<longleftrightarrow>
     (\<forall>t. inputs (in_name info) = Some t \<longrightarrow> list_all2 (sym_fits val) (symbolic_shape info) (t_shape t)
        \<or> symbolic_shape info = [])"

lemma resolve_loop_sound:
  "shapes_fit val0 infos inputs \<Longrightarrow>
   sound_check (resolve_loop infos inputs m) (\<lambda>val. extends_syms val m \<and> (\<forall>info\<in>set infos. syms_fit val inputs info))"
proof (induction infos arbitrary: m)
  case (Cons info infos)
  show ?case
  proof (cases "inputs (in_name info)")
    case None
    with Cons show ?thesis by (simp add: syms_fit_def)
  next
    case (Some t)
    show ?thesis
    proof (cases "symbolic_shape info = []")
      case True
      with Some Cons show ?thesis by (simp add: syms_fit_def)
    next
      case False
      with Cons.prems Some have len: "length (t_shape t) = length (symbolic_shape info)"
        by (auto simp: info_fits_cases dest: list_all2_lengthD)
      have "syms_fit val inputs info \<longleftrightarrow> list_all2 (sym_fits val) (symbolic_shape info) (t_shape t)" for val
        using Some False by (simp add: syms_fit_def)
      with sound_check_bind [OF resolve_dims_sound [of "t_shape t" "symbolic_shape info" 0 "t_shape t" m] Cons.IH]
        len Some Cons.prems show ?thesis
        by (simp add: conj_assoc)
    qed
  qed
qed simp

lemma info_fits_syms:
  "info_fits val inputs info \<Longrightarrow> info_fits val' inputs info \<longleftrightarrow> syms_fit val' inputs info"
  unfolding info_fits_def syms_fit_def using list_dim_fits_split by blast

lemma shapes_fit_syms:
  "shapes_fit val infos inputs \<Longrightarrow> shapes_fit val' infos inputs \<longleftrightarrow> (\<forall>info\<in>set infos. syms_fit val' inputs info)"
  unfolding shapes_fit_def using info_fits_syms by blast

definition symbol_values :: "(string \<Rightarrow> nat option) \<Rightarrow> string \<Rightarrow> nat" where
  "symbol_values m s = (case m s of Some n \<Rightarrow> n | None \<Rightarrow> 0)"

lemma extends_symbol_values [simp]: "extends_syms (symbol_values m) m"
  by (simp add: extends_syms_def symbol_values_def)

lemma resolution_after_validation:
  assumes "validate_input_shapes infos inputs = Inr ()"
  shows "\<exists>m. resolve_dynamic_shapes infos inputs = Inr m \<and> shapes_fit (symbol_values m) infos inputs \<and>
    (\<forall>val. shapes_fit val infos inputs \<longrightarrow> extends_syms val m)"
proof -
  from assms obtain val0 where val0: "shapes_fit val0 infos inputs"
    by (auto simp: validation_decides split: if_splits)
  note sound = resolve_loop_sound [OF val0, of Map.empty]
  obtain m where m: "resolve_dynamic_shapes infos inputs = Inr m"
    using sound shapes_fit_syms [OF val0, of val0] val0
    by (cases "resolve_dynamic_shapes infos inputs") (auto simp: resolve_dynamic_shapes_def)
  then have "extends_syms val m \<longleftrightarrow> shapes_fit val infos inputs" for val
    using sound shapes_fit_syms [OF val0, of val] by (simp add: resolve_dynamic_shapes_def)
  with m show ?thesis using extends_symbol_values by blast
qed

text \<open>
  After a successful validation, resolving the symbolic dimensions cannot fail: it
  gives a table whose values make every declared input fit, and every assignment that
  fits agrees with it.
\<close>

theorem resolution_follows_validation:
  assumes "validate_input_shapes infos inputs = Inr ()"
  shows "\<exists>m. resolve_dynamic_shapes infos inputs = Inr m \<and> shapes_fit (symbol_values m) infos inputs \<and>
    (\<forall>val. shapes_fit val infos inputs \<longrightarrow> extends_syms val m)"
  using assms by (rule resolution_after_validation)

definition demo_infos :: "tensor_info list" where
  "demo_infos = [\<lparr>in_name = ''q'', in_dtype = F32, in_shape = [None, Some 8], in_dim_params = [Some ''n'', None]\<rparr>,
     \<lparr>in_name = ''k'', in_dtype = F32, in_shape = [None, None], in_dim_params = [Some ''n'', None]\<rparr>]"

definition demo_inputs :: tensor_map where
  "demo_inputs = [''q'' \<mapsto> \<lparr>t_data = replicate 16 0, t_shape = [2, 8]\<rparr>, ''k'' \<mapsto> \<lparr>t_data = replicate 6 0, t_shape = [2, 3]\<rparr>]"

lemma demo_inputs_valid: "validate_input_shapes demo_infos demo_inputs = Inr ()"
  by (simp add: validate_input_shapes_def demo_infos_def demo_inputs_def symbolic_shape_def)

theorem resolution_follows_validation_witness:
  "\<exists>m. resolve_dynamic_shapes demo_infos demo_inputs = Inr m \<and> shapes_fit (symbol_values m) demo_infos demo_inputs \<and>
    (\<forall>val. shapes_fit val demo_infos demo_inputs \<longrightarrow> extends_syms val m)"
  by (rule resolution_follows_validation) (rule demo_inputs_valid)

end
