(* ===== verification/PoolInterface.thy ===== *)
theory PoolInterface
  imports Prelude
begin

text \<open>
  Buffers as the memory pools handle them, and the interface a pool offers the
  engine: acquiring a buffer of a size gives exactly that many zeros, whatever was
  released before.

  A buffer is a \<open>Vec<f32>\<close>: its elements and its capacity. \<open>clear\<close> and \<open>resize\<close>
  within the capacity keep the allocation, \<open>vec![0.0; n]\<close> allocates exactly \<open>n\<close>.
\<close>

record buffer =
  b_data :: "f32 list"
  b_cap :: nat

definition buffer_ok :: "buffer \<Rightarrow> bool" where
  "buffer_ok b \<longleftrightarrow> length (b_data b) \<le> b_cap b"

definition fresh_zeros :: "nat \<Rightarrow> buffer" where
  "fresh_zeros n = \<lparr>b_data = replicate n 0, b_cap = n\<rparr>"

definition clear_resize :: "nat \<Rightarrow> buffer \<Rightarrow> buffer" where
  "clear_resize n b = \<lparr>b_data = replicate n 0, b_cap = max n (b_cap b)\<rparr>"

definition f32_bytes :: "buffer \<Rightarrow> nat" where
  "f32_bytes b = b_cap b * 4"

text \<open>
  \<open>partition_point\<close> on a slice that is partitioned by the predicate, as the standard
  library documents it; the pools keep their free lists sorted, so theirs are.
\<close>

definition partition_point :: "('a \<Rightarrow> bool) \<Rightarrow> 'a list \<Rightarrow> nat" where
  "partition_point P xs = length (takeWhile P xs)"

definition remove_at :: "nat \<Rightarrow> 'a list \<Rightarrow> 'a list" where
  "remove_at i xs = take i xs @ drop (Suc i) xs"

definition insert_at :: "nat \<Rightarrow> 'a \<Rightarrow> 'a list \<Rightarrow> 'a list" where
  "insert_at i x xs = take i xs @ x # drop i xs"

lemma fresh_zeros_simps [simp]:
  "b_data (fresh_zeros n) = replicate n 0" "b_cap (fresh_zeros n) = n" "buffer_ok (fresh_zeros n)"
  by (simp_all add: fresh_zeros_def buffer_ok_def)

lemma clear_resize_simps [simp]:
  "b_data (clear_resize n b) = replicate n 0" "b_cap (clear_resize n b) = max n (b_cap b)"
  "buffer_ok (clear_resize n b)"
  by (simp_all add: clear_resize_def buffer_ok_def)

lemma set_remove_at: "set (remove_at i xs) \<subseteq> set xs"
  by (auto simp: remove_at_def dest: in_set_takeD in_set_dropD)

lemma length_remove_at [simp]: "i < length xs \<Longrightarrow> length (remove_at i xs) = length xs - 1"
  by (simp add: remove_at_def)

lemma set_insert_at [simp]: "set (insert_at i x xs) = insert x (set xs)"
  by (auto simp: insert_at_def dest: in_set_takeD in_set_dropD)
    (metis Un_iff append_take_drop_id set_append)

lemma length_insert_at [simp]: "i \<le> length xs \<Longrightarrow> length (insert_at i x xs) = Suc (length xs)"
  by (simp add: insert_at_def)

lemma sum_list_remove_at:
  "i < length xs \<Longrightarrow> sum_list (map f xs) = sum_list (map f (remove_at i xs)) + (f (xs ! i) :: nat)"
  by (subst id_take_nth_drop [of i xs]) (simp_all add: remove_at_def)

lemma sum_list_insert_at:
  "sum_list (map f (insert_at i x xs)) = sum_list (map f xs) + (f x :: nat)"
proof -
  have "sum_list (map f xs) = sum_list (map f (take i xs)) + sum_list (map f (drop i xs))"
    by (metis append_take_drop_id map_append sum_list_append)
  then show ?thesis by (simp add: insert_at_def)
qed

abbreviation cap_sorted :: "buffer list \<Rightarrow> bool" where
  "cap_sorted bs \<equiv> sorted (map b_cap bs)"

lemma cap_sorted_remove_at: "cap_sorted bs \<Longrightarrow> cap_sorted (remove_at i bs)"
proof (induction bs arbitrary: i)
  case (Cons b bs)
  have "remove_at i (b # bs) = (case i of 0 \<Rightarrow> bs | Suc j \<Rightarrow> b # remove_at j bs)"
    by (simp add: remove_at_def split: nat.split)
  then show ?case
    using Cons set_remove_at [of _ bs] by (auto split: nat.split)
qed (simp add: remove_at_def)

lemma partition_point_le: "partition_point P xs \<le> length xs"
  by (simp add: partition_point_def length_takeWhile_le)

lemma partition_point_fits:
  "cap_sorted bs \<Longrightarrow> partition_point (\<lambda>b. b_cap b < n) bs < length bs \<Longrightarrow>
     n \<le> b_cap (bs ! partition_point (\<lambda>b. b_cap b < n) bs)"
  unfolding partition_point_def using nth_length_takeWhile [of "\<lambda>b. b_cap b < n" bs] by simp

lemma partition_point_none:
  "partition_point (\<lambda>b. b_cap b < n) bs \<ge> length bs \<Longrightarrow> b \<in> set bs \<Longrightarrow> b_cap b < n"
  unfolding partition_point_def
  by (metis length_takeWhile_le le_antisym set_takeWhileD takeWhile_eq_take take_all_iff order_refl)

lemma cap_sorted_insert_at:
  assumes "cap_sorted bs"
  shows "cap_sorted (insert_at (partition_point (\<lambda>b. b_cap b < b_cap x) bs) x bs)"
proof -
  let ?P = "\<lambda>b. b_cap b < b_cap x"
  have split: "take (partition_point ?P bs) bs = takeWhile ?P bs"
    "drop (partition_point ?P bs) bs = dropWhile ?P bs"
    by (simp_all add: partition_point_def takeWhile_eq_take [symmetric] dropWhile_eq_drop [symmetric])
  have sorted: "sorted (map b_cap (takeWhile ?P bs) @ map b_cap (dropWhile ?P bs))"
    using assms by (simp flip: map_append)
  have "b_cap x \<le> b_cap b" if "b \<in> set (dropWhile ?P bs)" for b
  proof -
    have s: "cap_sorted (dropWhile ?P bs)" using sorted by (simp add: sorted_append)
    from that obtain c cs where c: "dropWhile ?P bs = c # cs" by (cases "dropWhile ?P bs") auto
    then have "\<not> ?P c" by (metis hd_dropWhile list.distinct(1) list.sel(1))
    with s c that show ?thesis by auto
  qed
  moreover have "b_cap b < b_cap x" if "b \<in> set (takeWhile ?P bs)" for b
    using that by (rule set_takeWhileD [THEN conjunct2])
  ultimately show ?thesis
    using sorted by (fastforce simp: insert_at_def split sorted_append)
qed

section \<open>The interface\<close>

datatype pool_op = Acquire nat | Release buffer

fun pool_run ::
  "(nat \<Rightarrow> 'p \<Rightarrow> buffer \<times> 'p) \<Rightarrow> (buffer \<Rightarrow> 'p \<Rightarrow> 'p) \<Rightarrow> pool_op list \<Rightarrow> 'p \<Rightarrow> buffer list \<times> 'p" where
  "pool_run acq rel [] p = ([], p)"
| "pool_run acq rel (Acquire n # ops) p =
     (let (b, p) = acq n p; (bs, p) = pool_run acq rel ops p in (b # bs, p))"
| "pool_run acq rel (Release b # ops) p = pool_run acq rel ops (rel b p)"

definition acquired_sizes :: "pool_op list \<Rightarrow> nat list" where
  "acquired_sizes ops = concat (map (\<lambda>op. case op of Acquire n \<Rightarrow> [n] | Release _ \<Rightarrow> []) ops)"

definition released_ok :: "pool_op list \<Rightarrow> bool" where
  "released_ok ops \<longleftrightarrow> (\<forall>b. Release b \<in> set ops \<longrightarrow> buffer_ok b)"

locale zeroing_pool =
  fixes acq :: "nat \<Rightarrow> 'p \<Rightarrow> buffer \<times> 'p"
    and rel :: "buffer \<Rightarrow> 'p \<Rightarrow> 'p"
    and inv :: "'p \<Rightarrow> bool"
  assumes acquire_zeros: "inv p \<Longrightarrow> acq n p = (b, p') \<Longrightarrow> b_data b = replicate n 0"
    and acquire_ok: "inv p \<Longrightarrow> acq n p = (b, p') \<Longrightarrow> buffer_ok b \<and> inv p'"
    and release_ok: "inv p \<Longrightarrow> buffer_ok b \<Longrightarrow> inv (rel b p)"
begin

text \<open>Whatever is acquired and released in whatever order, every buffer handed out is zeroed.\<close>

lemma run_zeros:
  assumes "inv p" and "released_ok ops"
  shows "map b_data (fst (pool_run acq rel ops p)) = map (\<lambda>n. replicate n 0) (acquired_sizes ops)
    \<and> inv (snd (pool_run acq rel ops p))"
  using assms
proof (induction ops arbitrary: p)
  case (Cons x xs)
  have xs: "released_ok xs" using Cons.prems(2) by (simp add: released_ok_def)
  show ?case
  proof (cases x)
    case (Acquire n)
    obtain b p' where a: "acq n p = (b, p')" by fastforce
    obtain bs q where r: "pool_run acq rel xs p' = (bs, q)" by fastforce
    show ?thesis
      using Acquire a r acquire_zeros [OF Cons.prems(1) a] acquire_ok [OF Cons.prems(1) a]
        Cons.IH [OF _ xs, of p'] by (simp add: acquired_sizes_def)
  next
    case (Release b)
    then have "inv (rel b p)"
      using Cons.prems by (intro release_ok) (auto simp: released_ok_def)
    from Cons.IH [OF this xs] show ?thesis by (simp add: Release acquired_sizes_def)
  qed
qed (simp add: acquired_sizes_def)

end

end
