(* ===== verification/Memory.thy ===== *)
theory Memory
  imports PoolInterface
begin

text \<open>
  The buffer pools of \<open>src/memory/types.rs\<close> and \<open>src/memory/functions.rs\<close>:
  \<open>SizeClassPool\<close> with its four free lists and statistics, and \<open>BufferPool\<close>.

  Byte counters are unbounded naturals. The fragmentation ratio is kept as the pair
  (wasted elements, cached elements) whose \<open>f32\<close> quotient the code stores; whether
  that quotient is at most 0.20 is an argument of \<open>compact\<close>.
\<close>

section \<open>State\<close>

datatype size_class = Tiny | Small | Medium | Large

definition max_elements :: "size_class \<Rightarrow> nat" where
  "max_elements c = (case c of Tiny \<Rightarrow> 128 | Small \<Rightarrow> 1024 | Medium \<Rightarrow> 16384 | Large \<Rightarrow> usize_max)"

definition bucket_for :: "nat \<Rightarrow> size_class" where
  "bucket_for sz =
     (if sz < 128 then Tiny else if sz < 1024 then Small
      else if sz < 16384 then Medium else Large)"

definition MAX_POOL_BUFFERS :: nat where "MAX_POOL_BUFFERS = 64"

definition MAX_BUCKETS_PER_CLASS :: nat where "MAX_BUCKETS_PER_CLASS = 32"

record pool_stats =
  alloc_count :: nat
  reuse_count :: nat
  peak_bytes :: nat
  current_bytes :: nat
  fragmentation :: "nat \<times> nat"

record size_class_pool =
  p_tiny :: "buffer list"
  p_small :: "buffer list"
  p_medium :: "buffer list"
  p_large :: "buffer list"
  p_stats :: pool_stats

definition pool_new :: size_class_pool where
  "pool_new = \<lparr>p_tiny = [], p_small = [], p_medium = [], p_large = [],
     p_stats = \<lparr>alloc_count = 0, reuse_count = 0, peak_bytes = 0, current_bytes = 0, fragmentation = (0, 0)\<rparr>\<rparr>"

fun bucket_ref :: "size_class \<Rightarrow> size_class_pool \<Rightarrow> buffer list" where
  "bucket_ref Tiny p = p_tiny p"
| "bucket_ref Small p = p_small p"
| "bucket_ref Medium p = p_medium p"
| "bucket_ref Large p = p_large p"

fun bucket_set :: "size_class \<Rightarrow> buffer list \<Rightarrow> size_class_pool \<Rightarrow> size_class_pool" where
  "bucket_set Tiny bs p = p\<lparr>p_tiny := bs\<rparr>"
| "bucket_set Small bs p = p\<lparr>p_small := bs\<rparr>"
| "bucket_set Medium bs p = p\<lparr>p_medium := bs\<rparr>"
| "bucket_set Large bs p = p\<lparr>p_large := bs\<rparr>"

definition stats_update :: "(pool_stats \<Rightarrow> pool_stats) \<Rightarrow> size_class_pool \<Rightarrow> size_class_pool" where
  "stats_update f p = p\<lparr>p_stats := f (p_stats p)\<rparr>"

section \<open>Operations\<close>

definition best_fit_index :: "buffer list \<Rightarrow> nat \<Rightarrow> nat option" where
  "best_fit_index bucket sz =
     (let pos = partition_point (\<lambda>b. b_cap b < sz) bucket in
      if pos < length bucket then Some pos else None)"

fun larger_classes :: "size_class \<Rightarrow> size_class list" where
  "larger_classes Tiny = [Small, Medium, Large]"
| "larger_classes Small = [Medium, Large]"
| "larger_classes Medium = [Large]"
| "larger_classes Large = []"

fun find_in :: "size_class list \<Rightarrow> size_class_pool \<Rightarrow> nat \<Rightarrow> (size_class \<times> nat) option" where
  "find_in [] p sz = None"
| "find_in (lc # lcs) p sz =
     (case best_fit_index (bucket_ref lc p) sz of
        Some idx \<Rightarrow> Some (lc, idx) | None \<Rightarrow> find_in lcs p sz)"

definition find_in_larger_buckets :: "size_class_pool \<Rightarrow> size_class \<Rightarrow> nat \<Rightarrow> (size_class \<times> nat) option" where
  "find_in_larger_buckets p class sz = find_in (larger_classes class) p sz"

text \<open>Taking the buffer at \<open>idx\<close> out of a bucket, with its statistics; both acquires do it.\<close>

definition take_buffer :: "size_class \<Rightarrow> nat \<Rightarrow> size_class_pool \<Rightarrow> buffer \<times> size_class_pool" where
  "take_buffer class idx p =
     (let bucket = bucket_ref class p; buf = bucket ! idx;
          p = bucket_set class (remove_at idx bucket) p;
          freed_bytes = f32_bytes buf in
      (buf, stats_update (\<lambda>s. s\<lparr>reuse_count := reuse_count s + 1,
              current_bytes := current_bytes s - freed_bytes\<rparr>) p))"

definition fresh_buffer :: "nat \<Rightarrow> size_class_pool \<Rightarrow> buffer \<times> size_class_pool" where
  "fresh_buffer sz p =
     (let buf = fresh_zeros sz in
      (buf, stats_update (\<lambda>s.
         let s = s\<lparr>alloc_count := alloc_count s + 1\<rparr>; total = current_bytes s + f32_bytes buf in
         if total > peak_bytes s then s\<lparr>peak_bytes := total\<rparr> else s) p))"

definition acquire :: "nat \<Rightarrow> size_class_pool \<Rightarrow> buffer \<times> size_class_pool" where
  "acquire sz p =
     (let class = bucket_for sz in
      case best_fit_index (bucket_ref class p) sz of
        Some idx \<Rightarrow> (let (buf, p) = take_buffer class idx p in (clear_resize sz buf, p))
      | None \<Rightarrow>
          (case find_in_larger_buckets p class sz of
             Some (found_class, idx) \<Rightarrow>
               (let (buf, p) = take_buffer found_class idx p in (clear_resize sz buf, p))
           | None \<Rightarrow> fresh_buffer sz p))"

definition acquire_for_overwrite :: "nat \<Rightarrow> size_class_pool \<Rightarrow> buffer \<times> size_class_pool" where
  "acquire_for_overwrite sz p =
     (let class = bucket_for sz;
          found = (case best_fit_index (bucket_ref class p) sz of
             Some idx \<Rightarrow> Some (class, idx)
           | None \<Rightarrow> find_in_larger_buckets p class sz) in
      case found of
        Some (found_class, idx) \<Rightarrow>
          (let (buf, p) = take_buffer found_class idx p;
               data = (if length (b_data buf) \<ge> sz then take sz (b_data buf)
                       else b_data buf @ replicate (sz - length (b_data buf)) 0) in
           (\<lparr>b_data = data, b_cap = max sz (b_cap buf)\<rparr>, p))
      | None \<Rightarrow> fresh_buffer sz p)"

definition class_min :: "size_class \<Rightarrow> nat" where
  "class_min c = (case c of Tiny \<Rightarrow> 1 | Small \<Rightarrow> 128 | Medium \<Rightarrow> 1024 | Large \<Rightarrow> 16384)"

definition update_fragmentation :: "size_class_pool \<Rightarrow> size_class_pool" where
  "update_fragmentation p =
     (let classes = [Tiny, Small, Medium, Large];
          total_capacity = sum_list (map (\<lambda>c. sum_list (map b_cap (bucket_ref c p))) classes);
          total_wasted = sum_list (map (\<lambda>c. sum_list (map (\<lambda>b. b_cap b - class_min c) (bucket_ref c p))) classes)
      in stats_update (\<lambda>s. s\<lparr>fragmentation :=
           (if total_capacity = 0 then (0, 0) else (total_wasted, total_capacity))\<rparr>) p)"

definition insert_buffer :: "size_class \<Rightarrow> buffer \<Rightarrow> size_class_pool \<Rightarrow> size_class_pool" where
  "insert_buffer class buf p =
     (let bucket = bucket_ref class p;
          pos = partition_point (\<lambda>b. b_cap b < b_cap buf) bucket;
          p = bucket_set class (insert_at pos buf bucket) p;
          p = stats_update (\<lambda>s.
            let s = s\<lparr>current_bytes := current_bytes s + f32_bytes buf\<rparr> in
            if current_bytes s > peak_bytes s then s\<lparr>peak_bytes := current_bytes s\<rparr> else s) p
      in update_fragmentation p)"

definition release :: "buffer \<Rightarrow> size_class_pool \<Rightarrow> size_class_pool" where
  "release buf p =
     (if b_cap buf = 0 then p
      else let class = bucket_for (length (b_data buf)) in
        case bucket_ref class p of
          smallest # rest \<Rightarrow>
            if length (smallest # rest) \<ge> MAX_BUCKETS_PER_CLASS then
              if b_cap buf > b_cap smallest then
                let p = bucket_set class rest p;
                    p = stats_update (\<lambda>s. s\<lparr>current_bytes := current_bytes s - f32_bytes smallest\<rparr>) p
                in insert_buffer class buf p
              else p
            else insert_buffer class buf p
        | [] \<Rightarrow> insert_buffer class buf p)"

definition pool_clear :: "size_class_pool \<Rightarrow> size_class_pool" where
  "pool_clear p = stats_update (\<lambda>s. s\<lparr>current_bytes := 0\<rparr>)
     (p\<lparr>p_tiny := [], p_small := [], p_medium := [], p_large := []\<rparr>)"

definition compact_bucket :: "size_class \<Rightarrow> size_class_pool \<Rightarrow> size_class_pool" where
  "compact_bucket class p =
     (let threshold = saturating_mul (max_elements class) 2; bucket = bucket_ref class p;
          freed_bytes = sum_list (map f32_bytes (filter (\<lambda>b. b_cap b > threshold) bucket));
          p = bucket_set class (filter (\<lambda>b. \<not> b_cap b > threshold) bucket) p
      in stats_update (\<lambda>s. s\<lparr>current_bytes := current_bytes s - freed_bytes\<rparr>) p)"

definition compact :: "(nat \<times> nat \<Rightarrow> bool) \<Rightarrow> size_class_pool \<Rightarrow> size_class_pool" where
  "compact at_most_20_percent p =
     (if at_most_20_percent (fragmentation (p_stats p)) then p
      else update_fragmentation
        (compact_bucket Medium (compact_bucket Small (compact_bucket Tiny p))))"

section \<open>Invariant\<close>

definition bucket_ok :: "size_class \<Rightarrow> buffer list \<Rightarrow> bool" where
  "bucket_ok c bs \<longleftrightarrow> cap_sorted bs \<and> length bs \<le> MAX_BUCKETS_PER_CLASS \<and>
     (\<forall>b\<in>set bs. buffer_ok b \<and> 0 < b_cap b \<and> bucket_for (length (b_data b)) = c)"

definition bucket_bytes :: "buffer list \<Rightarrow> nat" where
  "bucket_bytes bs = sum_list (map f32_bytes bs)"

definition cached_bytes :: "size_class_pool \<Rightarrow> nat" where
  "cached_bytes p = bucket_bytes (p_tiny p) + bucket_bytes (p_small p)
     + bucket_bytes (p_medium p) + bucket_bytes (p_large p)"

text \<open>
  Free lists are sorted by capacity, bounded, and hold buffers of their class; the
  byte counter is exactly the bytes cached and never above the recorded peak.
\<close>

definition pool_ok :: "size_class_pool \<Rightarrow> bool" where
  "pool_ok p \<longleftrightarrow> (\<forall>c. bucket_ok c (bucket_ref c p)) \<and>
     current_bytes (p_stats p) = cached_bytes p \<and> current_bytes (p_stats p) \<le> peak_bytes (p_stats p)"

lemma bucket_ref_set [simp]:
  "bucket_ref c (bucket_set c' bs p) = (if c = c' then bs else bucket_ref c p)"
  "bucket_ref c (stats_update f p) = bucket_ref c p"
  by (cases c; cases c'; simp add: stats_update_def)+

lemma p_stats_simps [simp]:
  "p_stats (bucket_set c bs p) = p_stats p" "p_stats (stats_update f p) = f (p_stats p)"
  by (cases c; simp add: stats_update_def)+

lemma cached_bytes_simps [simp]: "cached_bytes (stats_update f p) = cached_bytes p"
  by (simp add: cached_bytes_def stats_update_def)

lemma cached_bytes_set:
  "cached_bytes (bucket_set c bs p) + bucket_bytes (bucket_ref c p) = cached_bytes p + bucket_bytes bs"
  by (cases c) (simp_all add: cached_bytes_def)

lemma update_fragmentation_simps [simp]:
  "bucket_ref c (update_fragmentation p) = bucket_ref c p"
  "cached_bytes (update_fragmentation p) = cached_bytes p"
  "current_bytes (p_stats (update_fragmentation p)) = current_bytes (p_stats p)"
  "peak_bytes (p_stats (update_fragmentation p)) = peak_bytes (p_stats p)"
  by (simp_all add: update_fragmentation_def Let_def)

lemma pool_ok_update_fragmentation [simp]: "pool_ok (update_fragmentation p) = pool_ok p"
  by (simp add: pool_ok_def)

lemma bucket_ok_sorted: "pool_ok p \<Longrightarrow> cap_sorted (bucket_ref c p)"
  by (simp add: pool_ok_def bucket_ok_def)

lemma best_fit_Some:
  "best_fit_index bs n = Some i \<Longrightarrow> i < length bs \<and> i = partition_point (\<lambda>b. b_cap b < n) bs"
  by (simp add: best_fit_index_def Let_def split: if_splits)

lemma best_fit_fits: "cap_sorted bs \<Longrightarrow> best_fit_index bs n = Some i \<Longrightarrow> n \<le> b_cap (bs ! i)"
  using best_fit_Some [of bs n i] partition_point_fits [of bs n] by simp

lemma best_fit_None: "best_fit_index bs n = None \<longleftrightarrow> (\<forall>b\<in>set bs. b_cap b < n)"
proof
  show "best_fit_index bs n = None \<Longrightarrow> \<forall>b\<in>set bs. b_cap b < n"
    using partition_point_none [of bs n] by (auto simp: best_fit_index_def Let_def split: if_splits)
  assume "\<forall>b\<in>set bs. b_cap b < n"
  then have "length (takeWhile (\<lambda>b. b_cap b < n) bs) = length bs"
    by (metis takeWhile_eq_all_conv)
  then show "best_fit_index bs n = None" by (simp add: best_fit_index_def partition_point_def Let_def)
qed

text \<open>Best fit: no buffer of the bucket that is large enough has a smaller capacity.\<close>

lemma best_fit_minimal:
  assumes "cap_sorted bs" and "best_fit_index bs n = Some i" and "b \<in> set bs" and "n \<le> b_cap b"
  shows "b_cap (bs ! i) \<le> b_cap b"
proof -
  obtain j where j: "j < length bs" "b = bs ! j" using assms(3) by (auto simp: in_set_conv_nth)
  have "i \<le> j"
  proof (rule ccontr)
    assume "\<not> i \<le> j"
    then have "j < length (takeWhile (\<lambda>b. b_cap b < n) bs)"
      using best_fit_Some [OF assms(2)] by (simp add: partition_point_def)
    then have "b_cap (bs ! j) < n"
      by (metis (mono_tags, lifting) nth_mem set_takeWhileD takeWhile_nth)
    with assms(4) j show False by simp
  qed
  then show ?thesis
    using assms(1) j by (auto simp: sorted_iff_nth_mono)
qed

lemma find_in_Some:
  "find_in cs p n = Some (c, i) \<Longrightarrow> c \<in> set cs \<and> best_fit_index (bucket_ref c p) n = Some i"
  by (induction cs) (auto split: option.splits)

lemma find_in_None: "find_in cs p n = None \<longleftrightarrow> (\<forall>c\<in>set cs. best_fit_index (bucket_ref c p) n = None)"
  by (induction cs) (auto split: option.splits)

section \<open>Every operation keeps the invariant\<close>

lemma take_buffer_ok:
  assumes "pool_ok p" and "i < length (bucket_ref c p)" and "take_buffer c i p = (b, p')"
  shows "pool_ok p' \<and> buffer_ok b"
proof -
  let ?bs = "bucket_ref c p"
  have b: "b = ?bs ! i" and p': "p' = stats_update (\<lambda>s. s\<lparr>reuse_count := reuse_count s + 1,
      current_bytes := current_bytes s - f32_bytes b\<rparr>) (bucket_set c (remove_at i ?bs) p)"
    using assms(3) by (auto simp: take_buffer_def Let_def)
  have sum: "bucket_bytes ?bs = bucket_bytes (remove_at i ?bs) + f32_bytes b"
    unfolding bucket_bytes_def b by (rule sum_list_remove_at [OF assms(2)])
  have "bucket_ok c (remove_at i ?bs)"
    using assms(1,2) set_remove_at [of i ?bs] cap_sorted_remove_at [of ?bs i]
    by (auto simp: pool_ok_def bucket_ok_def intro: le_trans [OF diff_le_self])
  moreover have "cached_bytes (bucket_set c (remove_at i ?bs) p) = cached_bytes p - f32_bytes b"
    using cached_bytes_set [of c "remove_at i ?bs" p] sum by simp
  moreover have "buffer_ok b"
    using assms(1) nth_mem [OF assms(2)] b by (auto simp: pool_ok_def bucket_ok_def)
  ultimately show ?thesis
    using assms(1) by (auto simp: p' pool_ok_def)
qed

lemma fresh_buffer_ok:
  "pool_ok p \<Longrightarrow> fresh_buffer n p = (b, p') \<Longrightarrow> pool_ok p' \<and> b = fresh_zeros n"
  by (auto simp: fresh_buffer_def Let_def pool_ok_def)

lemma acquire_cases:
  assumes "pool_ok p"
  obtains (reuse) c i where "i < length (bucket_ref c p)" "n \<le> b_cap (bucket_ref c p ! i)"
      "acquire n p = (let (buf, p) = take_buffer c i p in (clear_resize n buf, p))"
      "best_fit_index (bucket_ref c p) n = Some i" "c = bucket_for n \<or> c \<in> set (larger_classes (bucket_for n))"
  | (fresh) "acquire n p = fresh_buffer n p"
      "\<forall>c\<in>set (bucket_for n # larger_classes (bucket_for n)). \<forall>b\<in>set (bucket_ref c p). b_cap b < n"
proof (cases "best_fit_index (bucket_ref (bucket_for n) p) n")
  case (Some i)
  with best_fit_Some [OF Some] best_fit_fits [OF bucket_ok_sorted [OF assms] Some] show ?thesis
    by (intro reuse [of i "bucket_for n"]) (auto simp: acquire_def Let_def)
next
  case None
  show ?thesis
  proof (cases "find_in_larger_buckets p (bucket_for n) n")
    case None': None
    have "acquire n p = fresh_buffer n p"
      by (simp add: acquire_def Let_def None None')
    moreover have "\<forall>c\<in>set (larger_classes (bucket_for n)). \<forall>b\<in>set (bucket_ref c p). b_cap b < n"
      using None' by (simp add: find_in_larger_buckets_def find_in_None best_fit_None)
    ultimately show ?thesis
      using None by (intro fresh) (simp_all add: best_fit_None)
  next
    case (Some ci)
    obtain c i where ci: "ci = (c, i)" by fastforce
    with Some have f: "c \<in> set (larger_classes (bucket_for n))" "best_fit_index (bucket_ref c p) n = Some i"
      unfolding find_in_larger_buckets_def by (auto dest!: find_in_Some)
    with best_fit_Some [OF f(2)] best_fit_fits [OF bucket_ok_sorted [OF assms] f(2)] None Some ci show ?thesis
      by (intro reuse [of i c]) (auto simp: acquire_def)
  qed
qed

lemma acquire_pool_ok:
  assumes "pool_ok p" and "acquire n p = (b, p')"
  shows "b_data b = replicate n 0 \<and> buffer_ok b \<and> pool_ok p'"
  using assms(1)
proof (cases rule: acquire_cases [of p n])
  case (reuse c i)
  obtain b0 p0 where t: "take_buffer c i p = (b0, p0)" by fastforce
  from take_buffer_ok [OF assms(1) reuse(1) t] reuse(3) t assms(2) show ?thesis by auto
next
  case fresh
  with assms fresh_buffer_ok [OF assms(1), of n b p'] show ?thesis by simp
qed

lemma insert_buffer_ok:
  assumes "pool_ok p" and "buffer_ok b" and "0 < b_cap b" and "length (bucket_ref c p) < MAX_BUCKETS_PER_CLASS"
    and "c = bucket_for (length (b_data b))"
  shows "pool_ok (insert_buffer c b p)"
proof -
  let ?bs = "bucket_ref c p" and ?pos = "partition_point (\<lambda>x. b_cap x < b_cap b) (bucket_ref c p)"
  have "bucket_ok c (insert_at ?pos b ?bs)"
    using assms cap_sorted_insert_at [OF bucket_ok_sorted [OF assms(1)], of b c]
    by (auto simp: bucket_ok_def pool_ok_def partition_point_le Suc_le_eq)
  moreover have "cached_bytes (bucket_set c (insert_at ?pos b ?bs) p) = cached_bytes p + f32_bytes b"
    using cached_bytes_set [of c "insert_at ?pos b ?bs" p]
    by (simp add: bucket_bytes_def sum_list_insert_at)
  ultimately show ?thesis
    using assms(1) by (auto simp: insert_buffer_def Let_def pool_ok_def)
qed

lemma release_pool_ok:
  assumes ok: "pool_ok p" and b: "buffer_ok b"
  shows "pool_ok (release b p)"
proof (cases "b_cap b = 0")
  case True
  with ok show ?thesis by (simp add: release_def)
next
  case False
  let ?c = "bucket_for (length (b_data b))"
  show ?thesis
  proof (cases "bucket_ref ?c p")
    case Nil
    with False ok b show ?thesis
      by (auto simp: release_def Let_def MAX_BUCKETS_PER_CLASS_def intro!: insert_buffer_ok)
  next
    case (Cons s rest)
    let ?p = "stats_update (\<lambda>st. st\<lparr>current_bytes := current_bytes st - f32_bytes s\<rparr>) (bucket_set ?c rest p)"
    have len: "length (s # rest) \<le> MAX_BUCKETS_PER_CLASS"
      using ok unfolding pool_ok_def bucket_ok_def by (metis Cons)
    have "cached_bytes (bucket_set ?c rest p) = cached_bytes p - f32_bytes s"
      using cached_bytes_set [of ?c rest p] Cons by (simp add: bucket_bytes_def)
    moreover have "bucket_ok ?c rest"
      using ok Cons unfolding pool_ok_def
      by (auto simp: bucket_ok_def dest!: spec [of _ ?c])
    ultimately have "pool_ok ?p"
      using ok by (auto simp: pool_ok_def)
    then have "pool_ok (insert_buffer ?c b ?p)"
      using False b len by (intro insert_buffer_ok) auto
    moreover have "pool_ok (insert_buffer ?c b p)" if "length (s # rest) < MAX_BUCKETS_PER_CLASS"
      using False b that Cons ok by (intro insert_buffer_ok) auto
    ultimately show ?thesis
      using False Cons ok len by (auto simp: release_def Let_def)
  qed
qed

lemma pool_new_ok: "pool_ok pool_new"
proof -
  have "bucket_ref c pool_new = []" for c by (cases c) (simp_all add: pool_new_def)
  then show ?thesis
    by (simp add: pool_ok_def bucket_ok_def) (simp add: pool_new_def cached_bytes_def bucket_bytes_def)
qed

interpretation scp: zeroing_pool acquire release pool_ok
  by unfold_locales (auto dest: acquire_pool_ok intro: release_pool_ok)

lemma compact_bucket_ok:
  assumes "pool_ok p"
  shows "pool_ok (compact_bucket c p)"
proof -
  let ?bs = "bucket_ref c p" and ?P = "\<lambda>b. b_cap b > saturating_mul (max_elements c) 2"
  have "bucket_bytes (filter ?P bs) + bucket_bytes (filter (\<lambda>b. \<not> ?P b) bs) = bucket_bytes bs" for bs
    by (induction bs) (simp_all add: bucket_bytes_def)
  note split = this [of ?bs]
  have "bucket_ok c (filter (\<lambda>b. \<not> ?P b) ?bs)"
    using assms by (auto simp: pool_ok_def bucket_ok_def sorted_filter intro: le_trans [OF length_filter_le])
  moreover have "cached_bytes (bucket_set c (filter (\<lambda>b. \<not> ?P b) ?bs) p)
      = cached_bytes p - bucket_bytes (filter ?P ?bs)"
    using cached_bytes_set [of c "filter (\<lambda>b. \<not> ?P b) ?bs" p] split by simp
  ultimately show ?thesis
    using assms by (auto simp: compact_bucket_def Let_def pool_ok_def bucket_bytes_def)
qed

lemma compact_ok: "pool_ok p \<Longrightarrow> pool_ok (compact low p)"
  by (simp add: compact_def compact_bucket_ok)

section \<open>The simple pool\<close>

type_synonym buffer_pool = "buffer list"

definition get_buffer :: "nat \<Rightarrow> buffer_pool \<Rightarrow> buffer \<times> buffer_pool" where
  "get_buffer min_size buffers =
     (let pos = partition_point (\<lambda>b. b_cap b < min_size) buffers in
      if pos < length buffers
      then (clear_resize min_size (buffers ! pos), remove_at pos buffers)
      else (fresh_zeros min_size, buffers))"

definition return_buffer :: "buffer \<Rightarrow> buffer_pool \<Rightarrow> buffer_pool" where
  "return_buffer buf buffers =
     (let insert = (\<lambda>bs. insert_at (partition_point (\<lambda>b. b_cap b < b_cap buf) bs) buf bs) in
      case buffers of
        smallest # rest \<Rightarrow>
          if length buffers \<ge> MAX_POOL_BUFFERS then
            if b_cap buf > b_cap smallest then insert rest else buffers
          else insert buffers
      | [] \<Rightarrow> insert buffers)"

definition buffer_pool_ok :: "buffer_pool \<Rightarrow> bool" where
  "buffer_pool_ok bs \<longleftrightarrow> cap_sorted bs \<and> length bs \<le> MAX_POOL_BUFFERS \<and> (\<forall>b\<in>set bs. buffer_ok b)"

lemma buffer_pool_insert_ok:
  "buffer_pool_ok bs \<Longrightarrow> buffer_ok b \<Longrightarrow> length bs < MAX_POOL_BUFFERS \<Longrightarrow>
     buffer_pool_ok (insert_at (partition_point (\<lambda>x. b_cap x < b_cap b) bs) b bs)"
  using cap_sorted_insert_at [of bs b]
  by (auto simp: buffer_pool_ok_def partition_point_le Suc_le_eq)

lemma get_buffer_ok:
  "buffer_pool_ok bs \<Longrightarrow> get_buffer n bs = (b, bs') \<Longrightarrow>
     b_data b = replicate n 0 \<and> buffer_ok b \<and> buffer_pool_ok bs'"
  using set_remove_at [of _ bs] cap_sorted_remove_at [of bs]
  by (auto simp: get_buffer_def Let_def buffer_pool_ok_def intro: le_trans [OF diff_le_self] split: if_splits)

lemma return_buffer_ok:
  assumes "buffer_pool_ok bs" and "buffer_ok b"
  shows "buffer_pool_ok (return_buffer b bs)"
proof (cases bs)
  case Nil
  then show ?thesis
    using assms buffer_pool_insert_ok [of "[]" b] by (simp add: return_buffer_def Let_def MAX_POOL_BUFFERS_def)
next
  case (Cons s rest)
  then have "buffer_pool_ok rest" "length rest < MAX_POOL_BUFFERS"
    using assms(1) by (auto simp: buffer_pool_ok_def)
  with assms Cons buffer_pool_insert_ok [of rest b] buffer_pool_insert_ok [of bs b] show ?thesis
    by (auto simp: return_buffer_def Let_def)
qed

interpretation bp: zeroing_pool get_buffer return_buffer buffer_pool_ok
  by unfold_locales (auto dest: get_buffer_ok intro: return_buffer_ok)

section \<open>Properties\<close>

text \<open>
  C23. Whatever sequence of acquires and releases the session pool serves, every buffer it
  hands out has exactly the requested length and only zeros, no value of a released
  tensor leaks into a new one; the free lists stay sorted and bounded, and the byte
  counter stays exact.
\<close>

theorem session_pool_never_leaks:
  assumes "released_ok ops"
  shows "map b_data (fst (pool_run acquire release ops pool_new))
      = map (\<lambda>n. replicate n 0) (acquired_sizes ops)
    \<and> pool_ok (snd (pool_run acquire release ops pool_new))"
  by (rule scp.run_zeros [OF pool_new_ok assms])

theorem session_pool_never_leaks_witness:
  "map b_data (fst (pool_run acquire release [Release \<lparr>b_data = [7, 7, 7], b_cap = 4\<rparr>, Acquire 2] pool_new))
     = [[0, 0]]"
proof -
  have "released_ok [Release \<lparr>b_data = [7, 7, 7], b_cap = 4\<rparr>, Acquire 2]"
    by (simp add: released_ok_def buffer_ok_def)
  from session_pool_never_leaks [OF this] show ?thesis
    by (simp add: acquired_sizes_def numeral_2_eq_2)
qed

text \<open>
  \<open>acquire\<close> reuses a cached buffer exactly when its size class or a larger one holds a
  large enough one, and then takes the one of least capacity in its bucket and removes
  just it; otherwise it allocates. Either way one counter goes up by one.
\<close>

theorem acquire_best_fit:
  assumes "pool_ok p" and "acquire n p = (b, p')"
  shows "if \<exists>c\<in>set (bucket_for n # larger_classes (bucket_for n)). \<exists>x\<in>set (bucket_ref c p). n \<le> b_cap x
    then reuse_count (p_stats p') = Suc (reuse_count (p_stats p)) \<and>
      alloc_count (p_stats p') = alloc_count (p_stats p) \<and>
      (\<exists>c\<in>set (bucket_for n # larger_classes (bucket_for n)). \<exists>i < length (bucket_ref c p).
        b_cap b = b_cap (bucket_ref c p ! i) \<and> n \<le> b_cap b \<and>
        (\<forall>x\<in>set (bucket_ref c p). n \<le> b_cap x \<longrightarrow> b_cap b \<le> b_cap x) \<and>
        (\<forall>c'. bucket_ref c' p' = (if c' = c then remove_at i (bucket_ref c p) else bucket_ref c' p)))
    else reuse_count (p_stats p') = reuse_count (p_stats p) \<and>
      alloc_count (p_stats p') = Suc (alloc_count (p_stats p)) \<and> b_cap b = n \<and>
      (\<forall>c. bucket_ref c p' = bucket_ref c p)"
  using assms(1)
proof (cases rule: acquire_cases [of p n])
  case (reuse c i)
  have bp: "b = clear_resize n (bucket_ref c p ! i)"
    "p' = stats_update (\<lambda>s. s\<lparr>reuse_count := reuse_count s + 1,
        current_bytes := current_bytes s - f32_bytes (bucket_ref c p ! i)\<rparr>)
      (bucket_set c (remove_at i (bucket_ref c p)) p)"
    using reuse(3) assms(2) by (auto simp: take_buffer_def Let_def)
  have ex: "\<exists>c\<in>set (bucket_for n # larger_classes (bucket_for n)). \<exists>x\<in>set (bucket_ref c p). n \<le> b_cap x"
    using reuse by (intro bexI [of _ c] bexI [of _ "bucket_ref c p ! i"]) auto
  have "\<forall>x\<in>set (bucket_ref c p). n \<le> b_cap x \<longrightarrow> b_cap (bucket_ref c p ! i) \<le> b_cap x"
    using best_fit_minimal [OF bucket_ok_sorted [OF assms(1)] reuse(4)] by blast
  then have "\<exists>c\<in>set (bucket_for n # larger_classes (bucket_for n)). \<exists>i < length (bucket_ref c p).
        b_cap b = b_cap (bucket_ref c p ! i) \<and> n \<le> b_cap b \<and>
        (\<forall>x\<in>set (bucket_ref c p). n \<le> b_cap x \<longrightarrow> b_cap b \<le> b_cap x) \<and>
        (\<forall>c'. bucket_ref c' p' = (if c' = c then remove_at i (bucket_ref c p) else bucket_ref c' p))"
    using reuse by (intro bexI [of _ c] exI [of _ i]) (auto simp: bp max_def)
  with ex show ?thesis by (simp add: bp)
next
  case fresh
  then have "\<not> (\<exists>c\<in>set (bucket_for n # larger_classes (bucket_for n)). \<exists>x\<in>set (bucket_ref c p). n \<le> b_cap x)"
    by (auto simp: not_le [symmetric])
  moreover have "b = fresh_zeros n" "alloc_count (p_stats p') = Suc (alloc_count (p_stats p))"
      "reuse_count (p_stats p') = reuse_count (p_stats p)" "\<And>c. bucket_ref c p' = bucket_ref c p"
    using fresh(1) assms(2) by (auto simp: fresh_buffer_def Let_def)
  ultimately show ?thesis by simp
qed

theorem acquire_best_fit_witness:
  "reuse_count (p_stats (snd (acquire 2 (release \<lparr>b_data = [7, 7, 7], b_cap = 4\<rparr> pool_new)))) = 1"
proof -
  let ?p = "release \<lparr>b_data = [7, 7, 7], b_cap = 4\<rparr> pool_new"
  have ok: "pool_ok ?p"
    by (rule release_pool_ok [OF pool_new_ok]) (simp add: buffer_ok_def)
  have r: "bucket_ref Tiny ?p = [\<lparr>b_data = [7, 7, 7], b_cap = 4\<rparr>]" "reuse_count (p_stats ?p) = 0"
    by (simp_all add: release_def Let_def bucket_for_def insert_buffer_def insert_at_def
        partition_point_def pool_new_def update_fragmentation_def)
  have "bucket_for 2 = Tiny" by (simp add: bucket_for_def)
  with acquire_best_fit [OF ok surjective_pairing] r show ?thesis by simp
qed

text \<open>
  \<open>acquire_for_overwrite\<close> is \<open>acquire\<close> up to the contents: the same pool afterwards, a
  buffer of the same length and capacity.
\<close>

theorem acquire_for_overwrite_agrees:
  "snd (acquire_for_overwrite n p) = snd (acquire n p) \<and>
   length (b_data (fst (acquire_for_overwrite n p))) = length (b_data (fst (acquire n p))) \<and>
   b_cap (fst (acquire_for_overwrite n p)) = b_cap (fst (acquire n p))"
  by (auto simp: acquire_def acquire_for_overwrite_def Let_def split: option.splits prod.splits)

text \<open>
  The simple pool hands out zeroed buffers of the requested length only, and never
  holds more than \<open>MAX_POOL_BUFFERS\<close>.
\<close>

theorem simple_pool_never_leaks:
  assumes "released_ok ops"
  shows "map b_data (fst (pool_run get_buffer return_buffer ops []))
      = map (\<lambda>n. replicate n 0) (acquired_sizes ops)
    \<and> length (snd (pool_run get_buffer return_buffer ops [])) \<le> MAX_POOL_BUFFERS"
proof -
  have "buffer_pool_ok []" by (simp add: buffer_pool_ok_def)
  from bp.run_zeros [OF this assms] show ?thesis by (simp add: buffer_pool_ok_def)
qed

theorem simple_pool_never_leaks_witness:
  "map b_data (fst (pool_run get_buffer return_buffer [Release \<lparr>b_data = [7], b_cap = 1\<rparr>, Acquire 1] [])) = [[0]]"
proof -
  have "released_ok [Release \<lparr>b_data = [7], b_cap = 1\<rparr>, Acquire 1]"
    by (simp add: released_ok_def buffer_ok_def)
  from simple_pool_never_leaks [OF this] show ?thesis by (simp add: acquired_sizes_def)
qed

end
