(* ===== verification/Engine.thy ===== *)
theory Engine
  imports Operators InputShapes Memory
begin

text \<open>
  A run of the session on the CPU: the run state, reference counts, the two fast paths
  of \<open>dispatch_node\<close>, the node loop and the extraction of the outputs, from
  \<open>src/session/run/\<close> (\<open>state.rs\<close>, \<open>scheduling.rs\<close>, \<open>dispatch.rs\<close>, \<open>sequential.rs\<close>,
  \<open>entry.rs\<close>). Modelled is the default configuration: no accelerator feature, no provider
  list, mixed precision and profiling off.

  The session's pool is shared state behind a mutex; a run threads it. The capacity of
  the vector behind a tensor that goes back to the pool is the allocator's choice, the
  argument \<open>s_capacity\<close>, and the order in which the leftover tensors of a run are drained
  from its hash map is the argument \<open>s_drain\<close>.
\<close>

record session =
  s_nodes :: "node list"
  s_weights :: "string \<Rightarrow> tensor option"
  s_output_names :: "string list"
  s_registry :: "string \<Rightarrow> operator option"
  s_input_infos :: "tensor_info list"
  s_opset_imports :: "(string \<times> i64) list"
  s_capacity :: "f32 list \<Rightarrow> nat"
  s_drain :: "(string \<Rightarrow> tensor option) \<Rightarrow> string list"

record run_state =
  rs_tensors :: "string \<Rightarrow> tensor option"
  rs_pool :: "size_class_pool option"

type_synonym ref_counts = "string \<Rightarrow> nat option"

text \<open>
  The opset the registry is bound to before the first node runs: the highest positive
  version declared for the default domain.
\<close>

definition model_opset :: "session \<Rightarrow> int" where
  "model_opset s =
     (let versions = map (sint \<circ> snd) (filter (\<lambda>(domain, version). 0 < sint version \<and>
            (domain = [] \<or> domain = ''ai.onnx'')) (s_opset_imports s))
      in if versions = [] then DEFAULT_OPSET else fold max (tl versions) (hd versions))"

section \<open>Run state\<close>

definition release_to_pool :: "session \<Rightarrow> tensor \<Rightarrow> size_class_pool option \<Rightarrow> size_class_pool option" where
  "release_to_pool s t pool =
     map_option (\<lambda>p. if t_data t = [] then p
       else release \<lparr>b_data = t_data t, b_cap = s_capacity s (t_data t)\<rparr> p) pool"

definition state_insert :: "session \<Rightarrow> string \<Rightarrow> tensor \<Rightarrow> run_state \<Rightarrow> run_state" where
  "state_insert s name t st =
     (let old = rs_tensors st name; st = st\<lparr>rs_tensors := (rs_tensors st)(name \<mapsto> t)\<rparr> in
      case old of Some prev \<Rightarrow> st\<lparr>rs_pool := release_to_pool s prev (rs_pool st)\<rparr> | None \<Rightarrow> st)"

definition state_take :: "string \<Rightarrow> run_state \<Rightarrow> tensor option \<times> run_state" where
  "state_take name st = (rs_tensors st name, st\<lparr>rs_tensors := (rs_tensors st)(name := None)\<rparr>)"

text \<open>The loop \<open>for (out_name, tensor) in node.outputs.iter().zip(results)\<close>.\<close>

definition write_outputs :: "session \<Rightarrow> (string \<times> tensor) list \<Rightarrow> run_state \<Rightarrow> run_state" where
  "write_outputs s outs st =
     fold (\<lambda>(out_name, t) st. if out_name \<noteq> [] then state_insert s out_name t st else st) outs st"

section \<open>Reference counts\<close>

definition release_one_ref :: "session \<Rightarrow> string \<Rightarrow> run_state \<times> ref_counts \<Rightarrow> run_state \<times> ref_counts" where
  "release_one_ref s name = (\<lambda>(st, refs).
     if name = [] \<or> s_weights s name \<noteq> None then (st, refs)
     else case refs name of
       None \<Rightarrow> (st, refs)
     | Some count \<Rightarrow>
         let count = count - 1; refs = refs(name \<mapsto> count) in
         if count \<noteq> 0 \<or> name \<in> set (s_output_names s) then (st, refs)
         else let (taken, st) = state_take name st in
           case taken of
             Some t \<Rightarrow> (st\<lparr>rs_pool := release_to_pool s t (rs_pool st)\<rparr>, refs)
           | None \<Rightarrow> (st, refs))"

definition decrement_refs_state :: "session \<Rightarrow> node \<Rightarrow> run_state \<times> ref_counts \<Rightarrow> run_state \<times> ref_counts" where
  "decrement_refs_state s nd sr =
     (let sr = fold (release_one_ref s) (n_inputs nd) sr
      in fold (release_one_ref s) (subgraph_captures nd) sr)"

section \<open>Dispatch of one node\<close>

definition node_can_execute_inplace :: "session \<Rightarrow> node \<Rightarrow> operator \<Rightarrow> ref_counts \<Rightarrow> bool" where
  "node_can_execute_inplace s nd oper refs \<longleftrightarrow>
     supports_inplace oper \<and>
     (case n_inputs nd of
        [] \<Rightarrow> False
      | first # _ \<Rightarrow> first \<noteq> [] \<and> s_weights s first = None \<and> first \<notin> set (s_output_names s) \<and>
          (case refs first of Some c \<Rightarrow> c | None \<Rightarrow> 0) = 1)"

definition lookup_input :: "session \<Rightarrow> (string \<Rightarrow> tensor option) \<Rightarrow> string \<Rightarrow> tensor option" where
  "lookup_input s tensors name =
     (if name = [] then None
      else case tensors name of Some t \<Rightarrow> Some t | None \<Rightarrow> s_weights s name)"

definition make_context :: "session \<Rightarrow> node \<Rightarrow> tensor option list \<Rightarrow> (string \<Rightarrow> tensor option) \<Rightarrow> op_context" where
  "make_context s nd inputs outer =
     \<lparr>cx_node = nd, cx_inputs = inputs, cx_outer_scope = Some outer, cx_weights = Some (s_weights s),
      cx_registry = Some (model_opset s)\<rparr>"

text \<open>
  The slots acquired so far are kept as buffers with their shapes, so that an abandoned
  set goes back to the pool as it came.
\<close>

fun acquire_slots ::
  "string list \<Rightarrow> (string \<Rightarrow> nat list option) \<Rightarrow> (buffer \<times> nat list) list \<Rightarrow> size_class_pool option \<Rightarrow>
    (buffer \<times> nat list) list option \<times> size_class_pool option" where
  "acquire_slots [] resolved slots pool = (Some slots, pool)"
| "acquire_slots (out_name # outs) resolved slots pool =
     (if out_name = [] then acquire_slots outs resolved (slots @ [(\<lparr>b_data = [], b_cap = 0\<rparr>, [])]) pool
      else case resolved out_name of
        None \<Rightarrow> (None, map_option (fold (\<lambda>(b, _) p. if b_data b \<noteq> [] then release b p else p) slots) pool)
      | Some shape \<Rightarrow>
          let sz = (if shape = [] then 1 else prod_list shape);
              (data, pool) = (case pool of
                Some p \<Rightarrow> (let (b, p) = acquire sz p in (b, Some p))
              | None \<Rightarrow> (fresh_zeros sz, None))
          in acquire_slots outs resolved (slots @ [(data, shape)]) pool)"

definition acquire_output_slots ::
  "node \<Rightarrow> (string \<Rightarrow> nat list option) \<Rightarrow> size_class_pool option \<Rightarrow> tensor list option \<times> size_class_pool option" where
  "acquire_output_slots nd resolved pool =
     (let (slots, pool) = acquire_slots (n_outputs nd) resolved [] pool
      in (map_option (map (\<lambda>(b, shape). \<lparr>t_data = b_data b, t_shape = shape\<rparr>)) slots, pool))"

definition dispatch_plain :: "session \<Rightarrow> node \<Rightarrow> operator \<Rightarrow> run_state \<Rightarrow> onnx_error + run_state" where
  "dispatch_plain s nd oper st =
     rbind (execute oper (make_context s nd (map (lookup_input s (rs_tensors st)) (n_inputs nd)) (rs_tensors st)))
       (\<lambda>results. Inr (write_outputs s (zip (n_outputs nd) results) st))"

definition dispatch_inplace :: "session \<Rightarrow> node \<Rightarrow> operator \<Rightarrow> run_state \<Rightarrow> onnx_error + run_state" where
  "dispatch_inplace s nd oper st =
     (let (owned_input, st) = state_take (hd (n_inputs nd)) st;
          resolved_inputs = map (\<lambda>(i, name). if i = 0 then None else lookup_input s (rs_tensors st) name)
            (enumerate 0 (n_inputs nd));
          ctx = make_context s nd resolved_inputs (rs_tensors st)
      in rbind (case owned_input of Some t \<Rightarrow> execute_inplace oper t ctx | None \<Rightarrow> execute oper ctx)
           (\<lambda>results. Inr (write_outputs s (zip (n_outputs nd) results) st)))"

definition dispatch_node ::
  "session \<Rightarrow> node \<Rightarrow> operator \<Rightarrow> (string \<Rightarrow> nat list option) \<Rightarrow> ref_counts \<Rightarrow> run_state \<Rightarrow>
    onnx_error + run_state" where
  "dispatch_node s nd oper resolved refs st =
     (let can_inplace = node_can_execute_inplace s nd oper refs;
          can_slot = (\<not> can_inplace \<and> supports_output_slots oper) in
      if can_slot then
        (case acquire_output_slots nd resolved (rs_pool st) of
           (Some slots, pool) \<Rightarrow>
             let st = st\<lparr>rs_pool := pool\<rparr>;
                 inputs = map (lookup_input s (rs_tensors st)) (n_inputs nd) in
             rbind (execute_into_slots oper (make_context s nd inputs (rs_tensors st)) slots)
               (\<lambda>slots. Inr (write_outputs s (zip (n_outputs nd) slots) st))
         | (None, pool) \<Rightarrow> dispatch_plain s nd oper (st\<lparr>rs_pool := pool\<rparr>))
      else if can_inplace then dispatch_inplace s nd oper st
      else dispatch_plain s nd oper st)"

section \<open>The run\<close>

fun run_sequential_inner ::
  "session \<Rightarrow> (string \<Rightarrow> nat list option) \<Rightarrow> node list \<Rightarrow> run_state \<times> ref_counts \<Rightarrow> onnx_error + (run_state \<times> ref_counts)" where
  "run_sequential_inner s resolved [] sr = Inr sr"
| "run_sequential_inner s resolved (nd # nds) (st, refs) =
     (case s_registry s (n_op nd) of
        None \<Rightarrow> Inl UnsupportedOp
      | Some oper \<Rightarrow>
          rbind (dispatch_node s nd oper resolved refs st) (\<lambda>st.
            run_sequential_inner s resolved nds (decrement_refs_state s nd (st, refs))))"

text \<open>
  \<open>take_outputs\<close>: the first occurrence of a name takes its tensor out of the state; the
  result is the output map, or the error when some name is in neither state nor weights.
\<close>

fun take_outputs_loop ::
  "(string \<Rightarrow> tensor option) \<Rightarrow> string list \<Rightarrow> (string \<Rightarrow> tensor option) \<Rightarrow>
    (string \<Rightarrow> tensor option) \<Rightarrow> bool \<Rightarrow> (string \<Rightarrow> tensor option) \<times> (string \<Rightarrow> tensor option) \<times> bool" where
  "take_outputs_loop weights [] tensors result missing = (tensors, result, missing)"
| "take_outputs_loop weights (name # names) tensors result missing =
     (case tensors name of
        Some t \<Rightarrow> take_outputs_loop weights names (tensors(name := None)) (result(name \<mapsto> t)) missing
      | None \<Rightarrow>
          (case weights name of
             Some w \<Rightarrow> take_outputs_loop weights names tensors (result(name \<mapsto> w)) missing
           | None \<Rightarrow> take_outputs_loop weights names tensors result True))"

definition take_outputs ::
  "session \<Rightarrow> string list \<Rightarrow> run_state \<Rightarrow> (onnx_error + (string \<Rightarrow> tensor option)) \<times> size_class_pool option" where
  "take_outputs s output_names st =
     (let (rest, result, missing) = take_outputs_loop (s_weights s) output_names (rs_tensors st) Map.empty False;
          pool = fold (\<lambda>name pool. case rest name of Some t \<Rightarrow> release_to_pool s t pool | None \<Rightarrow> pool)
            (s_drain s rest) (rs_pool st)
      in (if missing then Inl TensorNotFound else Inr result, pool))"

text \<open>
  What \<open>run_internal\<close> and \<open>resolve_run_shapes\<close> check of the inputs. The shape map itself is
  the argument \<open>resolved\<close> of the run: it comes out of a cache.
\<close>

definition check_inputs :: "session \<Rightarrow> tensor_map \<Rightarrow> onnx_error + unit" where
  "check_inputs s inputs =
     (if s_input_infos s = [] then Inr ()
      else rbind (validate_input_shapes (s_input_infos s) inputs) (\<lambda>_.
           rbind (resolve_dynamic_shapes (s_input_infos s) inputs) (\<lambda>_. Inr ())))"

text \<open>
  A run on given inputs with given intermediate shapes: the result, and the pool it
  leaves (on an error of a node, the buffers of the run are dropped with its state).
\<close>

definition run_internal ::
  "session \<Rightarrow> (string \<times> tensor) list \<Rightarrow> (string \<Rightarrow> nat list option) \<Rightarrow> size_class_pool option \<Rightarrow>
    onnx_error + ((string \<Rightarrow> tensor option) \<times> size_class_pool option)" where
  "run_internal s inputs resolved pool =
     rbind (check_inputs s (map_of inputs)) (\<lambda>_.
      let refs = base_ref_counts (s_nodes s) (s_weights s) (s_output_names s);
          st = fold (\<lambda>(name, t) st. state_insert s name t st) inputs \<lparr>rs_tensors = Map.empty, rs_pool = pool\<rparr>
      in rbind (run_sequential_inner s resolved (s_nodes s) (st, refs)) (\<lambda>(st, refs).
           let (result, pool) = take_outputs s (s_output_names s) st
           in rbind result (\<lambda>result. Inr (result, pool))))"

end
