(* ===== verification/EngineProof.thy ===== *)
theory EngineProof
  imports Engine
begin

text \<open>
  The specification of a run, an evaluator that keeps every tensor and knows neither
  reference counts nor pools nor fast paths, and the proof that the engine refines it.
\<close>

section \<open>The reference evaluator\<close>

definition eval_node :: "session \<Rightarrow> node \<Rightarrow> operator \<Rightarrow> (string \<Rightarrow> tensor option) \<Rightarrow> onnx_error + (string \<Rightarrow> tensor option)" where
  "eval_node s nd oper env =
     rbind (execute oper (make_context s nd (map (lookup_input s env) (n_inputs nd)) env))
       (\<lambda>results. Inr (bind_outputs (zip (n_outputs nd) results) env))"

fun eval_nodes :: "session \<Rightarrow> node list \<Rightarrow> (string \<Rightarrow> tensor option) \<Rightarrow> onnx_error + (string \<Rightarrow> tensor option)" where
  "eval_nodes s [] env = Inr env"
| "eval_nodes s (nd # nds) env =
     (case s_registry s (n_op nd) of
        None \<Rightarrow> Inl UnsupportedOp
      | Some oper \<Rightarrow> rbind (eval_node s nd oper env) (eval_nodes s nds))"

definition select_outputs :: "session \<Rightarrow> (string \<Rightarrow> tensor option) \<Rightarrow> onnx_error + (string \<Rightarrow> tensor option)" where
  "select_outputs s env =
     (let value = (\<lambda>x. case env x of Some t \<Rightarrow> Some t | None \<Rightarrow> s_weights s x) in
      if list_ex (\<lambda>x. value x = None) (s_output_names s) then Inl TensorNotFound
      else Inr (\<lambda>x. if x \<in> set (s_output_names s) then value x else None))"

definition eval_graph :: "session \<Rightarrow> (string \<times> tensor) list \<Rightarrow> onnx_error + (string \<Rightarrow> tensor option)" where
  "eval_graph s inputs =
     (let env = fold (\<lambda>(name, t) env. env(name \<mapsto> t)) inputs Map.empty
      in rbind (eval_nodes s (s_nodes s) env) (select_outputs s))"

text \<open>With the check of the inputs: refused unless some values of the symbolic dimensions fit.\<close>

definition eval_run :: "session \<Rightarrow> (string \<times> tensor) list \<Rightarrow> onnx_error + (string \<Rightarrow> tensor option)" where
  "eval_run s inputs =
     (if \<exists>val. shapes_fit val (s_input_infos s) (map_of inputs) then eval_graph s inputs else Inl ShapeMismatch)"

lemma check_inputs_decides:
  "check_inputs s inputs =
     (if \<exists>val. shapes_fit val (s_input_infos s) inputs then Inr () else Inl ShapeMismatch)"
proof (cases "\<exists>val. shapes_fit val (s_input_infos s) inputs")
  case True
  then have v: "validate_input_shapes (s_input_infos s) inputs = Inr ()" by (simp add: validation_decides)
  then obtain m where "resolve_dynamic_shapes (s_input_infos s) inputs = Inr m"
    using resolution_after_validation by blast
  with v True show ?thesis by (simp add: check_inputs_def)
next
  case False
  then show ?thesis by (auto simp: check_inputs_def validation_decides)
qed

text \<open>The names the subgraphs bind are none of the graph's own.\<close>

definition apart :: "node list \<Rightarrow> tensor_map \<Rightarrow> bool" where
  "apart nds env \<longleftrightarrow> (\<forall>nd\<in>set nds. \<forall>x\<in>set (inner_names nd).
     env x = None \<and> (\<forall>nd'\<in>set nds. x \<notin> set (n_outputs nd')))"

definition scopes_apart :: "session \<Rightarrow> (string \<times> tensor) list \<Rightarrow> bool" where
  "scopes_apart s inputs \<longleftrightarrow> apart (s_nodes s) (map_of inputs)"

section \<open>Invariants\<close>

definition live :: "session \<Rightarrow> node list \<Rightarrow> string \<Rightarrow> bool" where
  "live s nds x \<longleftrightarrow> x = [] \<or> x \<in> set (s_output_names s) \<or> s_weights s x \<noteq> None \<or> 0 < remaining_uses nds x"

definition agree :: "session \<Rightarrow> node list \<Rightarrow> (string \<Rightarrow> tensor option) \<Rightarrow> (string \<Rightarrow> tensor option) \<Rightarrow> bool" where
  "agree s nds tensors env \<longleftrightarrow> (\<forall>x. live s nds x \<longrightarrow> tensors x = env x) \<and>
     (\<forall>x. env x = None \<longrightarrow> tensors x = None)"

definition counts_ok :: "session \<Rightarrow> node list \<Rightarrow> ref_counts \<Rightarrow> bool" where
  "counts_ok s nds refs \<longleftrightarrow> (\<forall>x. x \<noteq> [] \<longrightarrow> s_weights s x = None \<longrightarrow>
     count_of refs x = remaining_uses nds x + count_list (s_output_names s) x)"

definition pool_inv :: "size_class_pool option \<Rightarrow> bool" where
  "pool_inv pool \<longleftrightarrow> (case pool of Some p \<Rightarrow> pool_ok p | None \<Rightarrow> True)"

definition capacity_ok :: "session \<Rightarrow> bool" where
  "capacity_ok s \<longleftrightarrow> (\<forall>d. length d \<le> s_capacity s d)"

lemma release_to_pool_inv: "capacity_ok s \<Longrightarrow> pool_inv pool \<Longrightarrow> pool_inv (release_to_pool s t pool)"
  by (auto simp: release_to_pool_def pool_inv_def capacity_ok_def buffer_ok_def
      split: option.splits intro!: release_pool_ok)

lemma state_insert_simps [simp]:
  "rs_tensors (state_insert s name t st) = (rs_tensors st)(name \<mapsto> t)"
  by (simp add: state_insert_def Let_def split: option.split)

lemma state_insert_inv:
  "capacity_ok s \<Longrightarrow> pool_inv (rs_pool st) \<Longrightarrow> pool_inv (rs_pool (state_insert s name t st))"
  by (auto simp: state_insert_def Let_def split: option.split intro: release_to_pool_inv)

lemma write_outputs_tensors: "rs_tensors (write_outputs s outs st) = bind_outputs outs (rs_tensors st)"
  unfolding write_outputs_def bind_outputs_def by (induction outs arbitrary: st) auto

lemma write_outputs_inv:
  "capacity_ok s \<Longrightarrow> pool_inv (rs_pool st) \<Longrightarrow> pool_inv (rs_pool (write_outputs s outs st))"
  unfolding write_outputs_def by (induction outs arbitrary: st) (auto simp: state_insert_inv)

lemma apart_bind:
  assumes "apart (nd # nds) env"
  shows "apart nds (bind_outputs (zip (n_outputs nd) ts) env)"
  unfolding apart_def
proof (intro ballI conjI)
  fix n x assume "n \<in> set nds" and "x \<in> set (inner_names n)"
  with assms have "env x = None" "x \<notin> set (n_outputs nd)" "\<forall>n'\<in>set nds. x \<notin> set (n_outputs n')"
    by (auto simp: apart_def)
  then show "bind_outputs (zip (n_outputs nd) ts) env x = None"
    by (auto simp: bind_outputs_None dest: set_zip_leftD)
  show "x \<notin> set (n_outputs n')" if "n' \<in> set nds" for n'
    using that \<open>\<forall>n'\<in>set nds. x \<notin> set (n_outputs n')\<close> by blast
qed

section \<open>Reference counting\<close>

lemma release_one_ref_spec:
  assumes "release_one_ref s name (st, refs) = (st', refs')"
  shows "\<forall>x. x \<noteq> [] \<longrightarrow> s_weights s x = None \<longrightarrow> count_of refs' x = count_of refs x - (if x = name then 1 else 0)"
    and "\<forall>x. x = [] \<or> x \<in> set (s_output_names s) \<or> s_weights s x \<noteq> None \<or> count_of refs' x \<noteq> 0 \<longrightarrow>
      rs_tensors st' x = rs_tensors st x"
    and "capacity_ok s \<Longrightarrow> pool_inv (rs_pool st) \<Longrightarrow> pool_inv (rs_pool st')"
    and "rs_tensors st x = None \<Longrightarrow> rs_tensors st' x = None"
  using assms
  by (auto simp: release_one_ref_def Let_def state_take_def count_of_def
      split: if_splits option.splits intro: release_to_pool_inv)

lemma fold_release_spec:
  assumes "fold (release_one_ref s) names (st, refs) = (st', refs')"
  shows "(\<forall>x. x \<noteq> [] \<longrightarrow> s_weights s x = None \<longrightarrow> count_of refs' x = count_of refs x - count_list names x) \<and>
    (\<forall>x. x = [] \<or> x \<in> set (s_output_names s) \<or> s_weights s x \<noteq> None \<or> count_of refs' x \<noteq> 0 \<longrightarrow>
      rs_tensors st' x = rs_tensors st x) \<and>
    (capacity_ok s \<longrightarrow> pool_inv (rs_pool st) \<longrightarrow> pool_inv (rs_pool st')) \<and>
    (\<forall>x. rs_tensors st x = None \<longrightarrow> rs_tensors st' x = None)"
  using assms
proof (induction names arbitrary: st refs)
  case (Cons name names)
  obtain st1 refs1 where r: "release_one_ref s name (st, refs) = (st1, refs1)" by fastforce
  with Cons.prems have "fold (release_one_ref s) names (st1, refs1) = (st', refs')" by simp
  note IH = Cons.IH [OF this] and step = release_one_ref_spec [OF r]
  show ?case
  proof (intro conjI allI impI)
    fix x assume "x \<noteq> []" "s_weights s x = None"
    with IH step(1) show "count_of refs' x = count_of refs x - count_list (name # names) x" by auto
  next
    fix x assume x: "x = [] \<or> x \<in> set (s_output_names s) \<or> s_weights s x \<noteq> None \<or> count_of refs' x \<noteq> 0"
    then have "rs_tensors st' x = rs_tensors st1 x" using IH by blast
    moreover have "x = [] \<or> x \<in> set (s_output_names s) \<or> s_weights s x \<noteq> None \<or> count_of refs1 x \<noteq> 0"
      using x IH by (metis diff_0_eq_0)
    then have "rs_tensors st1 x = rs_tensors st x" using step(2) by blast
    ultimately show "rs_tensors st' x = rs_tensors st x" by simp
  qed (use IH step(3,4) in blast)+
qed simp

lemma decrement_spec:
  assumes counts: "counts_ok s (nd # nds) refs" and "decrement_refs_state s nd (st, refs) = (st', refs')"
  shows "counts_ok s nds refs'"
    and "live s nds x \<Longrightarrow> rs_tensors st' x = rs_tensors st x"
    and "capacity_ok s \<Longrightarrow> pool_inv (rs_pool st) \<Longrightarrow> pool_inv (rs_pool st')"
    and "rs_tensors st x = None \<Longrightarrow> rs_tensors st' x = None"
proof -
  obtain st1 refs1 where 1: "fold (release_one_ref s) (n_inputs nd) (st, refs) = (st1, refs1)" by fastforce
  with assms(2) have 2: "fold (release_one_ref s) (subgraph_captures nd) (st1, refs1) = (st', refs')"
    by (simp add: decrement_refs_state_def)
  note s1 = fold_release_spec [OF 1] and s2 = fold_release_spec [OF 2]
  have cnt: "count_of refs' y = remaining_uses nds y + count_list (s_output_names s) y"
    if "y \<noteq> []" "s_weights s y = None" for y
    using that counts s1 s2
    by (auto simp: counts_ok_def remaining_uses_def node_uses_def count_list_distinct)
  then show "counts_ok s nds refs'" by (simp add: counts_ok_def)
  show "rs_tensors st' x = rs_tensors st x" if "live s nds x"
  proof -
    have *: "x = [] \<or> x \<in> set (s_output_names s) \<or> s_weights s x \<noteq> None \<or> count_of refs' x \<noteq> 0"
      using that cnt [of x] by (cases "s_weights s x = None") (auto simp: live_def)
    moreover have "x = [] \<or> x \<in> set (s_output_names s) \<or> s_weights s x \<noteq> None \<or> count_of refs1 x \<noteq> 0"
      using * s2 by (metis diff_0_eq_0)
    ultimately show ?thesis using s1 s2 by metis
  qed
  show "pool_inv (rs_pool st')" if "capacity_ok s" "pool_inv (rs_pool st)"
    using that s1 s2 by blast
  show "rs_tensors st' x = None" if "rs_tensors st x = None"
    using that s1 s2 by blast
qed

section \<open>Output slots\<close>

definition slots_zeroed :: "(buffer \<times> nat list) list \<Rightarrow> bool" where
  "slots_zeroed slots \<longleftrightarrow> (\<forall>(b, _)\<in>set slots. set (b_data b) \<subseteq> {0} \<and> buffer_ok b)"

lemma release_slots_ok:
  "pool_ok p \<Longrightarrow> slots_zeroed slots \<Longrightarrow>
     pool_ok (fold (\<lambda>(b, _) p. if b_data b \<noteq> [] then release b p else p) slots p)"
  by (induction slots arbitrary: p) (auto simp: slots_zeroed_def release_pool_ok)

lemma acquire_slots_spec:
  assumes "acquire_slots outs resolved slots pool = (res, pool')" and "pool_inv pool" and "slots_zeroed slots"
  shows "pool_inv pool' \<and>
    (\<forall>slots'. res = Some slots' \<longrightarrow> slots_zeroed slots' \<and> length slots' = length slots + length outs)"
  using assms
proof (induction outs arbitrary: slots pool)
  case (Cons out outs)
  show ?case
  proof (cases "out = []")
    case True
    have "slots_zeroed (slots @ [(\<lparr>b_data = [], b_cap = 0\<rparr>, [])])"
      using Cons.prems(3) by (simp add: slots_zeroed_def buffer_ok_def)
    with True Cons.prems Cons.IH [of "slots @ [(\<lparr>b_data = [], b_cap = 0\<rparr>, [])]" pool] show ?thesis by simp
  next
    case named: False
    show ?thesis
    proof (cases "resolved out")
      case None
      with named Cons.prems release_slots_ok show ?thesis
        by (auto simp: pool_inv_def split: option.splits)
    next
      case (Some shape)
      define sz where "sz = (if shape = [] then 1 else prod_list shape)"
      obtain data pool1 where acq: "(case pool of Some p \<Rightarrow> (let (b, p) = acquire sz p in (b, Some p))
          | None \<Rightarrow> (fresh_zeros sz, None)) = (data, pool1)" by fastforce
      have "b_data data = replicate sz 0 \<and> buffer_ok data \<and> pool_inv pool1"
        using acq Cons.prems(2) scp.acquire_zeros scp.acquire_ok
        by (fastforce simp: pool_inv_def split: option.splits prod.splits)
      then have "slots_zeroed (slots @ [(data, shape)])" "pool_inv pool1"
        using Cons.prems(3) by (auto simp: slots_zeroed_def)
      moreover have "acquire_slots outs resolved (slots @ [(data, shape)]) pool1 = (res, pool')"
        using Cons.prems(1) named Some acq [unfolded sz_def] by (simp add: Let_def)
      ultimately show ?thesis using Cons.IH by fastforce
    qed
  qed
qed auto

lemma acquire_output_slots_spec:
  assumes "acquire_output_slots nd resolved pool = (res, pool')" and "pool_inv pool"
  shows "pool_inv pool'"
    and "res = Some slots \<Longrightarrow> length slots = length (n_outputs nd) \<and> (\<forall>t\<in>set slots. zeroed t)"
proof -
  obtain sl p where a: "acquire_slots (n_outputs nd) resolved [] pool = (sl, p)" by fastforce
  have "slots_zeroed []" by (simp add: slots_zeroed_def)
  note spec = acquire_slots_spec [OF a assms(2) this]
  show "pool_inv pool'"
    using spec a assms(1) by (simp add: acquire_output_slots_def)
  assume "res = Some slots"
  with spec a assms(1) show "length slots = length (n_outputs nd) \<and> (\<forall>t\<in>set slots. zeroed t)"
    by (fastforce simp: acquire_output_slots_def slots_zeroed_def zeroed_def)
qed

section \<open>One node\<close>

lemma lookup_input_agree:
  "agree s nds tensors env \<Longrightarrow> live s nds x \<Longrightarrow> lookup_input s tensors x = lookup_input s env x"
  by (simp add: lookup_input_def agree_def)

lemma remaining_uses_Cons [simp]: "remaining_uses (nd # nds) x = node_uses nd x + remaining_uses nds x"
  by (simp add: remaining_uses_def)

lemma node_uses_pos: "0 < node_uses nd x \<longleftrightarrow> x \<in> set (n_inputs nd) \<union> set (subgraph_captures nd)"
  using count_list_0_iff [of "n_inputs nd" x] by (auto simp: node_uses_def)

lemma live_inputs:
  "x \<in> set (n_inputs nd) \<union> set (subgraph_captures nd) \<Longrightarrow> live s (nd # nds) x"
  using node_uses_pos [of nd x] by (auto simp: live_def)

lemma live_Cons: "live s nds x \<Longrightarrow> live s (nd # nds) x"
  by (auto simp: live_def)

lemma agree_inputs:
  assumes "agree s (nd # nds) tensors env" and "\<forall>x\<in>set (inner_names nd). env x = None"
  shows "map (lookup_input s tensors) (n_inputs nd) = map (lookup_input s env) (n_inputs nd)"
    and "scope_agrees nd tensors env"
proof -
  show "map (lookup_input s tensors) (n_inputs nd) = map (lookup_input s env) (n_inputs nd)"
    using live_inputs by (auto intro!: lookup_input_agree [OF assms(1)])
  show "scope_agrees nd tensors env"
    using assms live_inputs by (auto simp: scope_agrees_def agree_def)
qed

lemma agree_bind:
  "agree s (nd # nds) tensors env \<Longrightarrow> agree s nds (bind_outputs outs tensors) (bind_outputs outs env)"
  by (auto simp: agree_def bind_outputs_None intro!: bind_outputs_agree dest: live_Cons)

text \<open>What a dispatched node must satisfy with respect to the evaluator.\<close>

definition node_refines ::
  "session \<Rightarrow> node list \<Rightarrow> onnx_error + run_state \<Rightarrow> onnx_error + (string \<Rightarrow> tensor option) \<Rightarrow> bool" where
  "node_refines s nds r e \<longleftrightarrow> (case r of
     Inl err \<Rightarrow> e = Inl err
   | Inr st \<Rightarrow> (\<exists>env. e = Inr env \<and> agree s nds (rs_tensors st) env \<and> pool_inv (rs_pool st)))"

lemma node_refines_writes:
  assumes "capacity_ok s" and "pool_inv (rs_pool st)"
    and "\<And>outs. agree s nds (bind_outputs outs (rs_tensors st)) (bind_outputs outs env)"
  shows "node_refines s nds (rbind r (\<lambda>rs. Inr (write_outputs s (zip outs rs) st)))
    (rbind r (\<lambda>rs. Inr (bind_outputs (zip outs rs) env)))"
  using assms by (cases r) (simp_all add: node_refines_def write_outputs_tensors write_outputs_inv)

lemma dispatch_plain_refines:
  assumes contract: "operator_contract oper nd" and agr: "agree s (nd # nds) (rs_tensors st) env"
    and inner: "\<forall>x\<in>set (inner_names nd). env x = None"
    and "capacity_ok s" and "pool_inv (rs_pool st)"
  shows "node_refines s nds (dispatch_plain s nd oper st) (eval_node s nd oper env)"
proof -
  have "execute oper (make_context s nd (map (lookup_input s (rs_tensors st)) (n_inputs nd)) (rs_tensors st))
      = execute oper (make_context s nd (map (lookup_input s env) (n_inputs nd)) env)"
    unfolding make_context_def agree_inputs(1) [OF agr inner]
    by (rule operator_contract.execute_scope [OF contract agree_inputs(2) [OF agr inner]])
  then show ?thesis
    unfolding dispatch_plain_def eval_node_def
    using node_refines_writes [OF assms(4,5) agree_bind [OF agr]] by simp
qed

lemma dispatch_slots_refines:
  assumes contract: "operator_contract oper nd" and agr: "agree s (nd # nds) (rs_tensors st) env"
    and inner: "\<forall>x\<in>set (inner_names nd). env x = None"
    and "capacity_ok s" and "pool_inv pool" and "supports_output_slots oper"
    and "length slots = length (n_outputs nd) \<and> (\<forall>t\<in>set slots. zeroed t)"
  shows "node_refines s nds
    (rbind (execute_into_slots oper
        (make_context s nd (map (lookup_input s (rs_tensors st)) (n_inputs nd)) (rs_tensors st)) slots)
      (\<lambda>slots. Inr (write_outputs s (zip (n_outputs nd) slots) (st\<lparr>rs_pool := pool\<rparr>))))
    (eval_node s nd oper env)"
proof -
  have "execute_into_slots oper (make_context s nd (map (lookup_input s (rs_tensors st)) (n_inputs nd)) (rs_tensors st)) slots
      = execute oper (make_context s nd (map (lookup_input s env) (n_inputs nd)) env)"
    unfolding make_context_def agree_inputs(1) [OF agr inner]
    by (rule operator_contract.slots_scope [OF contract assms(6)])
      (use assms(7) agree_inputs(2) [OF agr inner] in auto)
  then show ?thesis
    unfolding eval_node_def
    using node_refines_writes [of s "st\<lparr>rs_pool := pool\<rparr>", OF assms(4)] assms(5) agree_bind [OF agr] by simp
qed

text \<open>
  In place: the count of one says that this node reads its first input once, at position
  0, captures it nowhere, and that nobody reads it later.
\<close>

lemma inplace_sole_reader:
  assumes "node_can_execute_inplace s nd oper refs" and "counts_ok s (nd # nds) refs"
  obtains first ins where "n_inputs nd = first # ins" "first \<noteq> []" "first \<notin> set ins"
    "first \<notin> set (subgraph_captures nd)" "s_weights s first = None" "\<not> live s nds first"
    "supports_inplace oper"
proof -
  obtain first ins where f: "n_inputs nd = first # ins" "first \<noteq> []" "s_weights s first = None"
      "first \<notin> set (s_output_names s)" "count_of refs first = 1" "supports_inplace oper"
    using assms(1) by (auto simp: node_can_execute_inplace_def count_of_def split: list.splits option.splits)
  then have "node_uses nd first + remaining_uses nds first = 1"
    using assms(2) count_list_0_iff [of "s_output_names s" first] by (auto simp: counts_ok_def)
  then have "first \<notin> set ins" "first \<notin> set (subgraph_captures nd)" "remaining_uses nds first = 0"
    using f count_list_0_iff [of ins first] by (auto simp: node_uses_def split: if_splits)
  with f show ?thesis by (intro that [of first ins]) (simp_all add: live_def)
qed

lemma map_enumerate_rest:
  "map (\<lambda>(i, name). if i = 0 then None else f name) (enumerate (Suc k) xs) = map f xs"
  by (induction xs arbitrary: k) simp_all

lemma dispatch_inplace_refines:
  assumes contract: "operator_contract oper nd" and agr: "agree s (nd # nds) (rs_tensors st) env"
    and inner: "\<forall>x\<in>set (inner_names nd). env x = None"
    and cap: "capacity_ok s" and pool: "pool_inv (rs_pool st)"
    and inplace: "node_can_execute_inplace s nd oper refs" "counts_ok s (nd # nds) refs"
  shows "node_refines s nds (dispatch_inplace s nd oper st) (eval_node s nd oper env)"
proof -
  obtain first ins where f: "n_inputs nd = first # ins" "first \<noteq> []" "first \<notin> set ins"
    "first \<notin> set (subgraph_captures nd)" "s_weights s first = None" "\<not> live s nds first"
    "supports_inplace oper"
    by (rule inplace_sole_reader [OF inplace])
  let ?tensors = "(rs_tensors st)(first := None)"
  have rest: "map (lookup_input s ?tensors) ins = map (lookup_input s env) ins"
    using agree_inputs(1) [OF agr inner] f by (auto simp: lookup_input_def)
  have scope: "scope_agrees nd ?tensors env"
    using agree_inputs(2) [OF agr inner] f(4) by (auto simp: scope_agrees_def)
  have first: "lookup_input s env first = rs_tensors st first"
    using agree_inputs(1) [OF agr inner] f by (auto simp: lookup_input_def split: option.splits)
  have run: "(case rs_tensors st first of
        Some t \<Rightarrow> execute_inplace oper t (make_context s nd (None # map (lookup_input s ?tensors) ins) ?tensors)
      | None \<Rightarrow> execute oper (make_context s nd (None # map (lookup_input s ?tensors) ins) ?tensors))
    = execute oper (make_context s nd (map (lookup_input s env) (n_inputs nd)) env)"
  proof (cases "rs_tensors st first")
    case None
    have "execute oper (make_context s nd (None # map (lookup_input s env) ins) ?tensors)
        = execute oper (make_context s nd (None # map (lookup_input s env) ins) env)"
      unfolding make_context_def by (rule operator_contract.execute_scope [OF contract scope])
    with None first f(1) show ?thesis by (simp add: rest)
  next
    case (Some t)
    have "execute_inplace oper t (make_context s nd (None # map (lookup_input s env) ins) ?tensors)
        = execute oper (make_context s nd (Some t # map (lookup_input s env) ins) env)"
      unfolding make_context_def by (rule operator_contract.inplace_scope [OF contract f(7) scope])
    with Some first f(1) show ?thesis by (simp add: rest)
  qed
  have agr': "agree s nds (bind_outputs outs ?tensors) (bind_outputs outs env)" for outs
    unfolding agree_def
  proof (intro conjI allI impI bind_outputs_agree)
    fix x assume "live s nds x" and "x = [] \<or> x \<notin> fst ` set outs"
    then show "?tensors x = env x"
      using agr f(6) live_Cons by (auto simp: agree_def)
  qed (use agr in \<open>auto simp: agree_def bind_outputs_None\<close>)
  have "dispatch_inplace s nd oper st =
      rbind (execute oper (make_context s nd (map (lookup_input s env) (n_inputs nd)) env))
        (\<lambda>results. Inr (write_outputs s (zip (n_outputs nd) results) (st\<lparr>rs_tensors := ?tensors\<rparr>)))"
    using run f(1)
    by (cases "rs_tensors st first") (simp_all add: dispatch_inplace_def state_take_def Let_def map_enumerate_rest)
  then show ?thesis
    unfolding eval_node_def
    using node_refines_writes [of s "st\<lparr>rs_tensors := ?tensors\<rparr>", OF cap] pool agr' by simp
qed

lemma dispatch_node_refines:
  assumes contract: "operator_contract oper nd" and agr: "agree s (nd # nds) (rs_tensors st) env"
    and inner: "\<forall>x\<in>set (inner_names nd). env x = None"
    and "capacity_ok s" and "pool_inv (rs_pool st)" and "counts_ok s (nd # nds) refs"
  shows "node_refines s nds (dispatch_node s nd oper resolved refs st) (eval_node s nd oper env)"
proof (cases "node_can_execute_inplace s nd oper refs")
  case True
  with dispatch_inplace_refines [OF assms(1-5) True assms(6)] show ?thesis
    by (simp add: dispatch_node_def)
next
  case no: False
  show ?thesis
  proof (cases "supports_output_slots oper")
    case True
    obtain res pool where a: "acquire_output_slots nd resolved (rs_pool st) = (res, pool)" by fastforce
    note spec = acquire_output_slots_spec [OF a assms(5)]
    show ?thesis
    proof (cases res)
      case None
      have "node_refines s nds (dispatch_plain s nd oper (st\<lparr>rs_pool := pool\<rparr>)) (eval_node s nd oper env)"
        by (rule dispatch_plain_refines) (use assms spec(1) in auto)
      with no True a None show ?thesis by (simp add: dispatch_node_def)
    next
      case (Some slots)
      from dispatch_slots_refines [OF assms(1-4) spec(1) True spec(2) [OF Some]] no True a Some
      show ?thesis by (simp add: dispatch_node_def Let_def)
    qed
  next
    case False
    with no dispatch_plain_refines [OF assms(1-5)] show ?thesis
      by (simp add: dispatch_node_def)
  qed
qed

section \<open>The whole run\<close>

lemma run_sequential_refines:
  assumes "\<And>nd oper. nd \<in> set nds \<Longrightarrow> s_registry s (n_op nd) = Some oper \<Longrightarrow> operator_contract oper nd"
    and cap: "capacity_ok s" and "apart nds env"
    and "agree s nds (rs_tensors st) env" and "pool_inv (rs_pool st)" and "counts_ok s nds refs"
  shows "case run_sequential_inner s resolved nds (st, refs) of
      Inl e \<Rightarrow> eval_nodes s nds env = Inl e
    | Inr (st', refs') \<Rightarrow> \<exists>env'. eval_nodes s nds env = Inr env' \<and> agree s [] (rs_tensors st') env' \<and>
        pool_inv (rs_pool st')"
  using assms(1,3-6)
proof (induction nds arbitrary: st refs env)
  case (Cons nd nds)
  show ?case
  proof (cases "s_registry s (n_op nd)")
    case (Some oper)
    have inner: "\<forall>x\<in>set (inner_names nd). env x = None"
      using Cons.prems(2) by (simp add: apart_def)
    note refines = dispatch_node_refines [OF Cons.prems(1) [OF _ Some] Cons.prems(3) inner cap Cons.prems(4,5),
        of resolved, simplified]
    show ?thesis
    proof (cases "dispatch_node s nd oper resolved refs st")
      case (Inl e)
      with refines Some show ?thesis by (simp add: node_refines_def)
    next
      case (Inr st1)
      with refines obtain env1 where env1: "eval_node s nd oper env = Inr env1"
        "agree s nds (rs_tensors st1) env1" "pool_inv (rs_pool st1)"
        by (auto simp: node_refines_def)
      obtain st2 refs2 where d: "decrement_refs_state s nd (st1, refs) = (st2, refs2)" by fastforce
      note dec = decrement_spec [OF Cons.prems(5) d]
      have agr: "agree s nds (rs_tensors st2) env1"
        using env1(2) dec(2,4) by (auto simp: agree_def)
      have "apart nds env1"
        using env1(1) apart_bind [OF Cons.prems(2)] by (auto simp: eval_node_def result_simps)
      note IH = Cons.IH [OF Cons.prems(1) this agr dec(3) [OF cap env1(3)] dec(1), simplified]
      have "run_sequential_inner s resolved (nd # nds) (st, refs) = run_sequential_inner s resolved nds (st2, refs2)"
        "eval_nodes s (nd # nds) env = eval_nodes s nds env1"
        using Some Inr env1(1) d by simp_all
      then show ?thesis using IH by (simp only:)
    qed
  qed simp
qed simp

lemma take_outputs_loop_spec:
  assumes "distinct names" and "take_outputs_loop weights names tensors result missing = (rest, result', missing')"
  shows "missing' = (missing \<or> (\<exists>x\<in>set names. tensors x = None \<and> weights x = None)) \<and>
    (\<forall>x. result' x = (if x \<in> set names then
        (case tensors x of Some t \<Rightarrow> Some t | None \<Rightarrow> (case weights x of Some w \<Rightarrow> Some w | None \<Rightarrow> result x))
      else result x))"
  using assms
proof (induction names arbitrary: tensors result missing)
  case (Cons name names)
  have d: "distinct names" "name \<notin> set names" using Cons.prems(1) by auto
  obtain tensors1 result1 missing1 where
    next1: "take_outputs_loop weights names tensors1 result1 missing1 = (rest, result', missing')"
    and t1: "tensors1 = tensors(name := None)"
    and r1: "result1 = result(name := (case tensors name of Some t \<Rightarrow> Some t
        | None \<Rightarrow> (case weights name of Some w \<Rightarrow> Some w | None \<Rightarrow> result name)))"
    and m1: "missing1 = (missing \<or> tensors name = None \<and> weights name = None)"
    using Cons.prems(2) by (auto split: option.splits simp: fun_upd_idem)
  note IH = Cons.IH [OF d(1) next1]
  have "tensors1 x = tensors x" if "x \<in> set names" for x
    using d(2) that by (auto simp: t1)
  then have m: "missing' = (missing1 \<or> (\<exists>x\<in>set names. tensors x = None \<and> weights x = None))"
    and r: "result' x = (if x \<in> set names then
        (case tensors x of Some t \<Rightarrow> Some t | None \<Rightarrow> (case weights x of Some w \<Rightarrow> Some w | None \<Rightarrow> result1 x))
      else result1 x)" for x
    using IH by auto
  show ?case
    unfolding m r m1 r1 using d(2) by (auto split: option.split)
qed simp

lemma take_outputs_select:
  assumes "distinct (s_output_names s)" and "agree s [] (rs_tensors st) env"
  shows "fst (take_outputs s (s_output_names s) st) = select_outputs s env"
proof -
  obtain rest result missing where t: "take_outputs_loop (s_weights s) (s_output_names s) (rs_tensors st) Map.empty False
      = (rest, result, missing)" by (metis prod_cases3)
  note spec = take_outputs_loop_spec [OF assms(1) t]
  have eq: "rs_tensors st x = env x" if "x \<in> set (s_output_names s)" for x
    using assms(2) that by (simp add: agree_def live_def)
  have miss: "missing \<longleftrightarrow> list_ex (\<lambda>x. (case env x of Some t \<Rightarrow> Some t | None \<Rightarrow> s_weights s x) = None) (s_output_names s)"
    using spec eq by (auto simp: list_ex_iff split: option.splits)
  have "result = (\<lambda>x. if x \<in> set (s_output_names s) then (case env x of Some t \<Rightarrow> Some t | None \<Rightarrow> s_weights s x) else None)"
    using spec eq by (auto simp: fun_eq_iff split: option.split)
  with miss t show ?thesis
    by (simp add: take_outputs_def select_outputs_def Let_def)
qed

lemma take_outputs_pool:
  assumes "capacity_ok s" and "pool_inv (rs_pool st)"
  shows "pool_inv (snd (take_outputs s names st))"
proof -
  have "pool_inv (fold (\<lambda>name pool. case rest name of Some t \<Rightarrow> release_to_pool s t pool | None \<Rightarrow> pool) xs pool)"
    if "pool_inv pool" for rest :: "string \<Rightarrow> tensor option" and xs pool
    using that
    by (induction xs arbitrary: pool) (auto simp: release_to_pool_inv [OF assms(1)] split: option.splits)
  then show ?thesis
    using assms(2) by (simp add: take_outputs_def split: prod.splits)
qed

lemma seed_inputs:
  "rs_tensors (fold (\<lambda>(name, t) st. state_insert s name t st) inputs st)
     = fold (\<lambda>(name, t) env. env(name \<mapsto> t)) inputs (rs_tensors st)"
  "capacity_ok s \<Longrightarrow> pool_inv (rs_pool st) \<Longrightarrow>
     pool_inv (rs_pool (fold (\<lambda>(name, t) st. state_insert s name t st) inputs st))"
  by (induction inputs arbitrary: st) (auto simp: state_insert_inv)

lemma seeded_env:
  "distinct (map fst inputs) \<Longrightarrow> fold (\<lambda>(name, t) env. env(name \<mapsto> t)) inputs env = env ++ map_of inputs"
proof (induction inputs arbitrary: env)
  case (Cons i inputs)
  obtain x t where i: "i = (x, t)" by fastforce
  from Cons.prems i have "map_of inputs x = None" by (simp add: map_of_eq_None_iff)
  with i Cons show ?case by (simp add: fun_eq_iff map_add_def split: option.split)
qed simp

lemma run_refines:
  assumes "\<And>nd oper. nd \<in> set (s_nodes s) \<Longrightarrow> s_registry s (n_op nd) = Some oper \<Longrightarrow> operator_contract oper nd"
    and "\<And>d. length d \<le> s_capacity s d" and "distinct (s_output_names s)"
    and "\<And>p. pool = Some p \<Longrightarrow> pool_ok p" and "scopes_apart s inputs" and "distinct (map fst inputs)"
  shows "case run_internal s inputs resolved pool of
      Inl e \<Rightarrow> eval_run s inputs = Inl e
    | Inr (outputs, pool') \<Rightarrow> eval_run s inputs = Inr outputs \<and> (\<forall>p. pool' = Some p \<longrightarrow> pool_ok p)"
proof -
  have cap: "capacity_ok s" using assms(2) by (simp add: capacity_ok_def)
  have inv: "pool_inv pool" using assms(4) by (auto simp: pool_inv_def split: option.split)
  let ?st = "fold (\<lambda>(name, t) st. state_insert s name t st) inputs \<lparr>rs_tensors = Map.empty, rs_pool = pool\<rparr>"
  let ?env = "fold (\<lambda>(name, t) env. env(name \<mapsto> t)) inputs Map.empty"
  let ?refs = "base_ref_counts (s_nodes s) (s_weights s) (s_output_names s)"
  have "?env = map_of inputs"
    using assms(6) by (simp add: seeded_env)
  with assms(5) have apart: "apart (s_nodes s) ?env" by (simp add: scopes_apart_def)
  have agr: "agree s (s_nodes s) (rs_tensors ?st) ?env"
    by (simp add: agree_def seed_inputs)
  have pool: "pool_inv (rs_pool ?st)"
    using seed_inputs(2) [OF cap] inv by simp
  have counts: "counts_ok s (s_nodes s) ?refs"
    by (simp add: counts_ok_def base_ref_counts_exact)
  have run: "case run_sequential_inner s resolved (s_nodes s) (?st, ?refs) of
      Inl e \<Rightarrow> eval_nodes s (s_nodes s) ?env = Inl e
    | Inr (st', refs') \<Rightarrow> \<exists>env'. eval_nodes s (s_nodes s) ?env = Inr env' \<and> agree s [] (rs_tensors st') env' \<and>
        pool_inv (rs_pool st')"
    by (rule run_sequential_refines [OF _ cap apart agr pool counts]) (rule assms(1))
  show ?thesis
  proof (cases "\<exists>val. shapes_fit val (s_input_infos s) (map_of inputs)")
    case False
    then show ?thesis by (simp add: run_internal_def check_inputs_decides eval_run_def)
  next
    case fits: True
    then have run_eq: "eval_run s inputs = eval_graph s inputs" "check_inputs s (map_of inputs) = Inr ()"
      by (simp_all add: eval_run_def check_inputs_decides)
    show ?thesis
    proof (cases "run_sequential_inner s resolved (s_nodes s) (?st, ?refs)")
      case (Inl e)
      with run show ?thesis by (simp add: run_internal_def run_eq eval_graph_def Let_def)
    next
      case (Inr r)
      obtain st refs where r: "r = (st, refs)" by fastforce
      with run Inr obtain env where env: "eval_nodes s (s_nodes s) ?env = Inr env"
        "agree s [] (rs_tensors st) env" "pool_inv (rs_pool st)" by auto
      obtain res p where tk: "take_outputs s (s_output_names s) st = (res, p)" by fastforce
      have "res = select_outputs s env" "pool_inv p"
        using take_outputs_select [OF assms(3) env(2)] take_outputs_pool [OF cap env(3), of "s_output_names s"] tk
        by simp_all
      with env(1) Inr r tk show ?thesis
        by (cases "select_outputs s env")
          (auto simp: run_internal_def run_eq eval_graph_def Let_def pool_inv_def)
    qed
  qed
qed

text \<open>
  C1. A run of the engine, with its reference counts, early release of tensors, in-place
  execution, pool-backed output slots and pool recycling, gives exactly the result of the
  evaluator that keeps every tensor and takes no shortcut: the same outputs, or the same
  error. It holds for every graph whose subgraphs bind other names than the graph itself,
  with subgraph captures and names that are defined again, for every shape map, however
  wrong, and every pool, and the pool stays well formed.
\<close>

theorem run_refines_evaluator:
  assumes "\<And>nd oper. nd \<in> set (s_nodes s) \<Longrightarrow> s_registry s (n_op nd) = Some oper \<Longrightarrow> operator_contract oper nd"
    and "\<And>d. length d \<le> s_capacity s d" and "distinct (s_output_names s)"
    and "\<And>p. pool = Some p \<Longrightarrow> pool_ok p" and "scopes_apart s inputs" and "distinct (map fst inputs)"
  shows "case run_internal s inputs resolved pool of
      Inl e \<Rightarrow> eval_run s inputs = Inl e
    | Inr (outputs, pool') \<Rightarrow> eval_run s inputs = Inr outputs \<and> (\<forall>p. pool' = Some p \<longrightarrow> pool_ok p)"
  by (rule run_refines) (use assms in auto)

definition demo_session :: session where
  "demo_session = \<lparr>s_nodes = [Node ''Neg'' [] [''x''] [''a''] no_attrs, Node ''Neg'' [] [''a''] [''y''] no_attrs],
     s_weights = Map.empty, s_output_names = [''y''],
     s_registry = [''Neg'' \<mapsto> unary_operator (\<lambda>f. f + 1)], s_input_infos = [], s_opset_imports = [([], 13)],
     s_capacity = length, s_drain = (\<lambda>_. [''x''])\<rparr>"

lemma demo_session_result:
  "eval_run demo_session [(''x'', \<lparr>t_data = [1, 2], t_shape = [2]\<rparr>)]
      = Inr (\<lambda>x. if x = ''y'' then Some \<lparr>t_data = [3, 4], t_shape = [2]\<rparr> else None)"
  by (simp add: eval_run_def shapes_fit_def eval_graph_def demo_session_def eval_node_def unary_operator_def make_context_def
      lookup_input_def cx_input_def cx_optional_input_def map_tensor_def bind_outputs_def select_outputs_def
      fun_eq_iff Let_def)

theorem run_refines_evaluator_witness:
  "case run_internal demo_session [(''x'', \<lparr>t_data = [1, 2], t_shape = [2]\<rparr>)] (\<lambda>_. None) (Some pool_new) of
     Inl e \<Rightarrow> False
   | Inr (outputs, pool') \<Rightarrow> outputs ''y'' = Some \<lparr>t_data = [3, 4], t_shape = [2]\<rparr>"
proof -
  let ?inputs = "[(''x'', \<lparr>t_data = [1, 2], t_shape = [2]\<rparr>)]"
  have "case run_internal demo_session ?inputs (\<lambda>_. None) (Some pool_new) of
      Inl e \<Rightarrow> eval_run demo_session ?inputs = Inl e
    | Inr (outputs, pool') \<Rightarrow> eval_run demo_session ?inputs = Inr outputs \<and> (\<forall>p. pool' = Some p \<longrightarrow> pool_ok p)"
  proof (rule run_refines_evaluator)
    show "operator_contract oper nd" if "s_registry demo_session (n_op nd) = Some oper" for nd oper
      using that unary.operator_contract_axioms by (auto simp: demo_session_def split: if_splits)
  qed (auto simp: demo_session_def pool_new_ok scopes_apart_def apart_def no_attrs_def)
  then show ?thesis using demo_session_result by (auto split: sum.splits prod.splits)
qed

end
