(* ===== verification/TensorIndex.thy ===== *)
theory TensorIndex
  imports Graphs
begin

text \<open>
  Row-major indexing of tensors, and the three tensor rearrangements the control-flow
  operators use (\<open>oxionnx-ops/src/control_flow/functions.rs\<close>): stacking along a new
  leading axis, moving that axis, and cutting out one index of an axis.
\<close>

section \<open>Shapes\<close>

text \<open>A tensor is consistent when it holds as many elements as its shape says.\<close>

definition tensor_consistent :: "tensor \<Rightarrow> bool" where
  "tensor_consistent t \<longleftrightarrow> length (t_data t) = prod_list (t_shape t)"

text \<open>The loop that fills the strides from the last axis to the first.\<close>

fun row_strides :: "nat list \<Rightarrow> nat list" where
  "row_strides [] = []"
| "row_strides [d] = [1]"
| "row_strides (d # d' # ds) = (let st = row_strides (d' # ds) in hd st * d' # st)"

lemma length_row_strides [simp]: "length (row_strides ds) = length ds"
  by (induction ds rule: row_strides.induct) (simp_all add: Let_def)

lemma row_strides_Cons: "row_strides (d # ds) = prod_list ds # row_strides ds"
proof (induction ds arbitrary: d)
  case (Cons d' ds)
  then show ?case by (simp add: Let_def mult.commute)
qed simp

lemma row_strides_nth: "i < length ds \<Longrightarrow> row_strides ds ! i = prod_list (drop (Suc i) ds)"
proof (induction ds arbitrary: i)
  case (Cons d ds)
  then show ?case by (cases i) (simp_all add: row_strides_Cons)
qed simp

text \<open>Splitting a flat index into coordinates.\<close>

fun coordinates :: "nat list \<Rightarrow> nat \<Rightarrow> nat list" where
  "coordinates [] rm = []"
| "coordinates (s # ss) rm = rm div s # coordinates ss (rm mod s)"

definition flat_index :: "nat list \<Rightarrow> nat list \<Rightarrow> nat" where
  "flat_index strides coord = sum_list (map2 (*) coord strides)"

lemma length_coordinates [simp]: "length (coordinates ss rm) = length ss"
  by (induction ss arbitrary: rm) simp_all

lemma coordinates_bound:
  "flat < prod_list ds \<Longrightarrow> list_all2 (<) (coordinates (row_strides ds) flat) ds"
proof (induction ds arbitrary: flat)
  case (Cons d ds)
  then have "0 < prod_list ds" by (cases "prod_list ds") auto
  with Cons show ?case by (simp add: row_strides_Cons less_mult_imp_div_less)
qed simp

lemma flat_index_bound:
  "list_all2 (<) coord ds \<Longrightarrow> flat_index (row_strides ds) coord < prod_list ds"
proof (induction rule: list_all2_induct)
  case (Cons c cs d ds)
  have "c * prod_list ds + flat_index (row_strides ds) cs < Suc c * prod_list ds"
    using Cons by simp
  also have "\<dots> \<le> d * prod_list ds" using Cons by (intro mult_right_mono) auto
  finally show ?case by (simp add: flat_index_def row_strides_Cons)
qed (simp add: flat_index_def)

section \<open>Stacking\<close>

text \<open>The allocation of the result aside, the loop over the tensors checks shapes only.\<close>

definition stack_tensors_axis0 :: "tensor list \<Rightarrow> onnx_error + tensor" where
  "stack_tensors_axis0 tensors =
     (case tensors of
        [] \<Rightarrow> Inr \<lparr>t_data = [], t_shape = [0]\<rparr>
      | first # rest \<Rightarrow>
          if list_ex (\<lambda>t. t_shape t \<noteq> t_shape first) rest then Inl ShapeMismatch
          else Inr \<lparr>t_data = concat (map t_data tensors), t_shape = length tensors # t_shape first\<rparr>)"

section \<open>Moving the leading axis\<close>

definition axis_perm :: "nat \<Rightarrow> nat \<Rightarrow> nat list" where
  "axis_perm target rank = [1..<target + 1] @ [0] @ [target + 1..<rank]"

definition move_axis0_to :: "tensor \<Rightarrow> nat \<Rightarrow> onnx_error + tensor" where
  "move_axis0_to t target =
     (let rank = length (t_shape t) in
      if target \<ge> rank then Inl ShapeMismatch
      else if target = 0 then Inr t
      else let perm = axis_perm target rank;
               old_shape = t_shape t;
               new_shape = map (\<lambda>d. old_shape ! d) perm;
               old_strides = row_strides old_shape;
               new_strides = row_strides new_shape;
               total = prod_list new_shape;
               old_flat = (\<lambda>new_flat. flat_index (map (\<lambda>d. old_strides ! d) perm) (coordinates new_strides new_flat))
           in Inr \<lparr>t_data = map (\<lambda>i. t_data t ! old_flat i) [0..<total], t_shape = new_shape\<rparr>)"

section \<open>Slicing\<close>

definition remove_axis :: "nat \<Rightarrow> 'a list \<Rightarrow> 'a list" where
  "remove_axis axis xs = take axis xs @ drop (Suc axis) xs"

definition slice_along_axis :: "tensor \<Rightarrow> nat \<Rightarrow> nat \<Rightarrow> onnx_error + tensor" where
  "slice_along_axis t axis index =
     (if axis \<ge> length (t_shape t) then Inl ShapeMismatch
      else if index \<ge> t_shape t ! axis then Inl ShapeMismatch
      else let strides = row_strides (t_shape t);
               new_shape = remove_axis axis (t_shape t);
               data = map (\<lambda>f. t_data t ! f)
                 (filter (\<lambda>flat_idx. (flat_idx div strides ! axis) mod (t_shape t ! axis) = index \<and>
                      flat_idx < length (t_data t)) [0..<prod_list (t_shape t)])
           in Inr \<lparr>t_data = data, t_shape = (if new_shape = [] then [1] else new_shape)\<rparr>)"

section \<open>Laws\<close>

lemma upt_split: "a \<le> b \<Longrightarrow> b \<le> c \<Longrightarrow> [a..<c] = [a..<b] @ [b..<c]"
  by (metis le_Suc_ex upt_add_eq_append)

lemma filter_block:
  assumes "i < n" and "0 < P"
  shows "filter (\<lambda>f. (f div P) mod n = i) [0..<n * P] = [i * P..<Suc i * P]"
proof -
  have le: "Suc i * P \<le> n * P" using assms by (intro mult_right_mono) auto
  then have "[0..<n * P] = [0..<i * P] @ [i * P..<Suc i * P] @ [Suc i * P..<n * P]"
    using upt_split [of 0 "i * P" "n * P"] upt_split [of "i * P" "Suc i * P" "n * P"] assms
    by simp
  moreover have "(f div P) mod n \<noteq> i" if "f < i * P" for f
    using less_mult_imp_div_less [OF that] mod_less_eq_dividend [of "f div P" n] by linarith
  then have "filter (\<lambda>f. (f div P) mod n = i) [0..<i * P] = []"
    by (simp add: filter_empty_conv)
  moreover have "(f div P) mod n = i" if "i * P \<le> f" "f < Suc i * P" for f
  proof -
    have "f div P = i" using that by (intro div_nat_eqI) (auto simp: mult.commute)
    with assms show ?thesis by simp
  qed
  then have "filter (\<lambda>f. (f div P) mod n = i) [i * P..<Suc i * P] = [i * P..<Suc i * P]"
    by (simp add: filter_id_conv)
  moreover have "(f div P) mod n \<noteq> i" if "Suc i * P \<le> f" "f < n * P" for f
  proof -
    have "Suc i \<le> f div P" using that(1) assms(2) by (simp add: less_eq_div_iff_mult_less_eq)
    moreover have "f div P < n" using that(2) by (simp add: less_mult_imp_div_less)
    ultimately show ?thesis by simp
  qed
  then have "filter (\<lambda>f. (f div P) mod n = i) [Suc i * P..<n * P] = []"
    by (simp add: filter_empty_conv)
  ultimately show ?thesis by simp
qed

lemma concat_nth:
  "\<forall>x\<in>set xss. length x = P \<Longrightarrow> i < length xss \<Longrightarrow> k < P \<Longrightarrow> concat xss ! (i * P + k) = xss ! i ! k"
proof (induction xss arbitrary: i)
  case (Cons xs xss)
  show ?case
  proof (cases i)
    case 0
    with Cons.prems show ?thesis by (simp add: nth_append)
  next
    case (Suc j)
    with Cons show ?thesis by (simp add: nth_append add.assoc)
  qed
qed simp

lemma concat_block:
  "\<forall>x\<in>set xss. length x = P \<Longrightarrow> i < length xss \<Longrightarrow>
     map ((!) (concat xss)) [i * P..<Suc i * P] = xss ! i"
  by (rule nth_equalityI) (simp_all add: concat_nth)

lemma length_concat_blocks: "\<forall>x\<in>set xss. length x = P \<Longrightarrow> length (concat xss) = length xss * P"
  by (induction xss) simp_all

text \<open>
  Stacking tensors of one shape and cutting out index \<open>i\<close> of the new axis gives back the
  \<open>i\<close>-th tensor: the scan outputs of a Loop or Scan, sliced by a later Scan, are the
  values of the iterations.
\<close>

theorem slice_of_stack:
  assumes "i < length ts" and "\<And>t. t \<in> set ts \<Longrightarrow> t_shape t = shape \<and> tensor_consistent t"
    and "shape \<noteq> []" and "0 \<notin> set shape"
  shows "rbind (stack_tensors_axis0 ts) (\<lambda>t. slice_along_axis t 0 i) = Inr (ts ! i)"
proof -
  let ?P = "prod_list shape" and ?data = "concat (map t_data ts)"
  have P: "0 < ?P" using assms(4) by (induction shape) auto
  have blocks: "\<forall>x\<in>set (map t_data ts). length x = ?P"
    using assms(2) by (auto simp: tensor_consistent_def)
  have len: "length ?data = length ts * ?P"
    using length_concat_blocks [OF blocks] by simp
  have st: "stack_tensors_axis0 ts = Inr \<lparr>t_data = ?data, t_shape = length ts # shape\<rparr>"
    using assms(1,2) by (auto simp: stack_tensors_axis0_def list_ex_iff split: list.split)
  have "filter (\<lambda>f. f div ?P mod length ts = i \<and> f < length ?data) [0..<length ts * ?P]
      = filter (\<lambda>f. f div ?P mod length ts = i) [0..<length ts * ?P]"
    unfolding len by (intro filter_cong) auto
  also have "\<dots> = [i * ?P..<Suc i * ?P]" by (rule filter_block [OF assms(1) P])
  finally have "map ((!) ?data) (filter (\<lambda>f. f div ?P mod length ts = i \<and> f < length ?data) [0..<length ts * ?P])
      = t_data (ts ! i)"
    using concat_block [OF blocks, of i] assms(1) by simp
  then show ?thesis
    using assms(1) assms(2) [of "ts ! i"] assms(3)
    by (simp add: st slice_along_axis_def row_strides_Cons remove_axis_def)
qed

theorem slice_of_stack_witness:
  "rbind (stack_tensors_axis0 [\<lparr>t_data = [1, 2], t_shape = [2]\<rparr>, \<lparr>t_data = [3, 4], t_shape = [2]\<rparr>])
     (\<lambda>t. slice_along_axis t 0 1) = Inr \<lparr>t_data = [3, 4], t_shape = [2]\<rparr>"
proof -
  let ?ts = "[\<lparr>t_data = [1, 2], t_shape = [2]\<rparr>, \<lparr>t_data = [3, 4], t_shape = [2]\<rparr>] :: tensor list"
  have "rbind (stack_tensors_axis0 ?ts) (\<lambda>t. slice_along_axis t 0 1) = Inr (?ts ! 1)"
    by (rule slice_of_stack [where shape = "[2]"]) (auto simp: tensor_consistent_def)
  then show ?thesis by simp
qed

section \<open>The moved axis\<close>

lemma coordinates_flat:
  "list_all2 (<) c ds \<Longrightarrow> coordinates (row_strides ds) (flat_index (row_strides ds) c) = c"
proof (induction rule: list_all2_induct)
  case (Cons c cs d ds)
  have "flat_index (row_strides ds) cs < prod_list ds"
    by (rule flat_index_bound) (rule Cons)
  with Cons.IH show ?case
    by (simp add: flat_index_def row_strides_Cons)
qed (simp add: flat_index_def)

lemma axis_perm_map:
  assumes "target \<le> length xs"
  shows "map (\<lambda>d. (x # xs) ! d) (axis_perm target (Suc (length xs))) = take target xs @ [x] @ drop target xs"
proof -
  have "map (\<lambda>d. (x # xs) ! d) [1..<target + 1] = take target xs"
    using assms by (intro nth_equalityI) (auto simp del: upt_Suc)
  moreover have "map (\<lambda>d. (x # xs) ! d) [target + 1..<Suc (length xs)] = drop target xs"
    using assms by (intro nth_equalityI) (auto simp del: upt_Suc)
  ultimately show ?thesis by (simp add: axis_perm_def del: upt_Suc)
qed

lemma flat_index_moved:
  assumes "length cs = length ss" and "target \<le> length ss"
  shows "flat_index (take target ss @ [s] @ drop target ss) (take target cs @ [c] @ drop target cs)
    = flat_index (s # ss) (c # cs)"
proof -
  have "map2 (*) (take target cs) (take target ss) @ map2 (*) (drop target cs) (drop target ss) = map2 (*) cs ss"
    by (simp add: drop_map take_map drop_zip take_zip flip: map_append) (metis append_take_drop_id take_zip drop_zip)
  then have "sum_list (map2 (*) cs ss) =
      sum_list (map2 (*) (take target cs) (take target ss)) + sum_list (map2 (*) (drop target cs) (drop target ss))"
    by (metis sum_list_append)
  with assms show ?thesis by (simp add: flat_index_def)
qed

lemma prod_list_moved: "prod_list (take k ds @ [d] @ drop k ds) = d * prod_list (ds :: nat list)"
  using prod_list.append [of "take k ds" "drop k ds"] by simp

lemma list_all2_moved:
  "list_all2 P cs ds \<Longrightarrow> P c d \<Longrightarrow> list_all2 P (take k cs @ [c] @ drop k cs) (take k ds @ [d] @ drop k ds)"
  by (intro list_all2_appendI) (auto intro: list_all2_takeI list_all2_dropI)

text \<open>
  Moving the leading axis of a consistent tensor gives a consistent tensor with the
  leading dimension at the target position and the other dimensions in their order, and
  the element at any coordinates of the old tensor is at the correspondingly moved
  coordinates of the new one.
\<close>

theorem move_axis0_moves_elements:
  assumes "tensor_consistent t" and "t_shape t = d # ds" and "target \<le> length ds"
  shows "\<exists>t'. move_axis0_to t target = Inr t' \<and> tensor_consistent t' \<and>
    t_shape t' = take target ds @ [d] @ drop target ds \<and>
    (\<forall>c cs. list_all2 (<) (c # cs) (d # ds) \<longrightarrow>
       t_data t' ! flat_index (row_strides (t_shape t')) (take target cs @ [c] @ drop target cs)
       = t_data t ! flat_index (row_strides (t_shape t)) (c # cs))"
proof (cases "target = 0")
  case True
  with assms show ?thesis by (simp add: move_axis0_to_def)
next
  case False
  let ?new = "take target ds @ [d] @ drop target ds"
  obtain s ss where ss: "row_strides (d # ds) = s # ss" by (cases "row_strides (d # ds)") (auto dest: arg_cong [where f = length])
  then have len: "length ss = length ds" by (metis Suc_inject length_Cons length_row_strides)
  let ?f = "\<lambda>i. flat_index (take target ss @ [s] @ drop target ss) (coordinates (row_strides ?new) i)"
  let ?t' = "\<lparr>t_data = map (\<lambda>i. t_data t ! ?f i) [0..<prod_list ?new], t_shape = ?new\<rparr>"
  have res: "move_axis0_to t target = Inr ?t'"
    using False assms(2,3) axis_perm_map [OF assms(3), of d] axis_perm_map [of target ss s] len
    by (simp add: move_axis0_to_def ss Let_def)
  have elem: "t_data ?t' ! flat_index (row_strides ?new) (take target cs @ [c] @ drop target cs)
      = t_data t ! flat_index (row_strides (t_shape t)) (c # cs)"
    if cs: "list_all2 (<) (c # cs) (d # ds)" for c cs
  proof -
    have moved: "list_all2 (<) (take target cs @ [c] @ drop target cs) ?new"
      by (rule list_all2_moved) (use cs in auto)
    have "length cs = length ss" using cs len by (auto dest: list_all2_lengthD)
    with flat_index_moved [OF this, of target s c] flat_index_bound [OF moved] coordinates_flat [OF moved] assms(2,3) ss len
    show ?thesis by simp
  qed
  show ?thesis
    by (rule exI [of _ ?t']) (use res elem in \<open>auto simp: tensor_consistent_def\<close>)
qed

theorem move_axis0_moves_elements_witness:
  "\<exists>t'. move_axis0_to \<lparr>t_data = [1, 2, 3, 4, 5, 6], t_shape = [2, 3]\<rparr> 1 = Inr t' \<and> t_shape t' = [3, 2] \<and>
     t_data t' ! 5 = 6"
  using move_axis0_moves_elements [of "\<lparr>t_data = [1, 2, 3, 4, 5, 6], t_shape = [2, 3]\<rparr>" 2 "[3]" 1]
  by (fastforce simp: tensor_consistent_def flat_index_def list_all2_Cons1 dest!: spec [of _ 1] spec [of _ "[2]"])

end
