(* ===== verification/ControlFlowContract.thy ===== *)
theory ControlFlowContract
  imports ControlFlow
begin

text \<open>
  The control-flow operators keep the operators' contract: their results depend on the
  enclosing scope only at the names \<open>subgraph_captures\<close> lists, to any depth of nesting up
  to the 32 levels the capture walk follows, when subgraphs bind names of their own. So
  the engine may release, recycle or mutate everything else.
\<close>

section \<open>Nesting\<close>

lemma free_depth_irrelevant:
  "d + attributes_nesting a \<le> MAX_SUBGRAPH_NESTING \<Longrightarrow> d' + attributes_nesting a \<le> MAX_SUBGRAPH_NESTING \<Longrightarrow>
     attributes_free a d = attributes_free a d'"
  "d + Suc (node_nesting nd) \<le> MAX_SUBGRAPH_NESTING \<Longrightarrow> d' + Suc (node_nesting nd) \<le> MAX_SUBGRAPH_NESTING \<Longrightarrow>
     node_free nd d = node_free nd d'"
  "d + graph_nesting g \<le> MAX_SUBGRAPH_NESTING \<Longrightarrow> d' + graph_nesting g \<le> MAX_SUBGRAPH_NESTING \<Longrightarrow>
     graph_free g d = graph_free g d'"
proof (induction a and nd and g arbitrary: d d' and d d' and d d')
  case (Attributes fs "is" ss ts fls ils sls graphs)
  have "graph_free g d = graph_free g d'" if "(k, g) \<in> set graphs" for k g
  proof (rule Attributes.IH)
    have "graph_nesting g \<le> attributes_nesting (Attributes fs is ss ts fls ils sls graphs)"
      using that fold_max_le [of "map snd (map (map_prod id graph_nesting) graphs)" 0
          "attributes_nesting (Attributes fs is ss ts fls ils sls graphs)"] by force
    then show "d + graph_nesting g \<le> MAX_SUBGRAPH_NESTING" "d' + graph_nesting g \<le> MAX_SUBGRAPH_NESTING"
      using Attributes.prems by linarith+
  qed (use that in \<open>auto simp: snds.simps\<close>)
  then show ?case by (auto intro!: arg_cong [where f = concat] simp: case_prod_beta)
next
  case (Node op name inputs outputs attrs)
  have "attributes_free attrs (d + 1) = attributes_free attrs (d' + 1)"
    by (rule Node.IH) (use Node.prems in auto)
  then show ?case by simp
next
  case (Graph name nodes input_names output_names iis ois)
  have "node_free nd d = node_free nd d'" if "nd \<in> set nodes" for nd
  proof (rule Graph.IH)
    have "Suc (node_nesting nd) \<le> graph_nesting (Graph name nodes input_names output_names iis ois)"
      using that fold_max_le [of "map node_nesting nodes" 0 "fold max (map node_nesting nodes) 0"] by auto
    then show "d + Suc (node_nesting nd) \<le> MAX_SUBGRAPH_NESTING" "d' + Suc (node_nesting nd) \<le> MAX_SUBGRAPH_NESTING"
      using Graph.prems by linarith+
  qed (use that in auto)
  then have "concat (map ((\<lambda>free. free d) \<circ> node_free) nodes) = concat (map ((\<lambda>free. free d') \<circ> node_free) nodes)"
    by (intro arg_cong [where f = concat]) simp
  with Graph.prems show ?case by simp
qed

lemma graph_free_eq:
  assumes "graph_nesting g \<le> MAX_SUBGRAPH_NESTING"
  shows "set (graph_free g 0) =
    (\<Union>nd\<in>set (g_nodes g). set (filter (\<lambda>x. x \<noteq> []) (n_inputs nd)) \<union> set (subgraph_captures nd))
      - set (bound_names (g_input_names g) (g_nodes g))"
proof (cases g)
  case (Graph name nodes input_names output_names iis ois)
  have "set (node_free nd 0) = set (filter (\<lambda>x. x \<noteq> []) (n_inputs nd)) \<union> set (subgraph_captures nd)"
    if "nd \<in> set nodes" for nd
  proof -
    have "Suc (node_nesting nd) \<le> graph_nesting g"
      using that fold_max_le [of "map node_nesting nodes" 0 "fold max (map node_nesting nodes) 0"] Graph by auto
    then have "attributes_free (n_attrs nd) 1 = attributes_free (n_attrs nd) 0"
      using assms by (intro free_depth_irrelevant) (cases nd, simp)+
    then show ?thesis by (cases nd) (simp add: subgraph_captures_def)
  qed
  then show ?thesis
    using assms Graph by (auto simp: Let_def MAX_SUBGRAPH_NESTING_def)
qed

section \<open>One subgraph\<close>

abbreviation graph_names :: "graph \<Rightarrow> string set" where
  "graph_names g \<equiv> set (bound_names (g_input_names g) (g_nodes g))"

definition scopes_same :: "graph \<Rightarrow> tensor_map \<Rightarrow> tensor_map \<Rightarrow> bool" where
  "scopes_same g s s' \<longleftrightarrow> (\<forall>x\<in>set (graph_free g 0). s x = s' x) \<and>
     (\<forall>x\<in>set (graph_bound g). s x = None \<and> s' x = None)"

definition subgraph_ok :: "registry \<Rightarrow> graph \<Rightarrow> bool" where
  "subgraph_ok reg g \<longleftrightarrow> graph_nesting g \<le> MAX_SUBGRAPH_NESTING \<and>
     (\<forall>nd\<in>set (g_nodes g). set (inner_names nd) \<inter> graph_names g = {} \<and>
        (\<forall>oper. reg (n_op nd) = Some oper \<longrightarrow> operator_contract oper nd))"

lemma scopes_same_cases:
  assumes "scopes_same g s s'" and "graph_nesting g \<le> MAX_SUBGRAPH_NESTING" and "nd \<in> set (g_nodes g)"
    and "x \<in> set (n_inputs nd) \<union> set (subgraph_captures nd)" and "x \<noteq> []"
  shows "s x = s' x"
proof (cases "x \<in> graph_names g")
  case True
  then have "x \<in> set (graph_bound g)" by (cases g) simp
  with assms(1) show ?thesis by (simp add: scopes_same_def)
next
  case False
  with assms have "x \<in> set (graph_free g 0)" by (auto simp: graph_free_eq)
  with assms(1) show ?thesis by (simp add: scopes_same_def)
qed

lemma known_names_cong:
  "(\<And>x. x \<in> set inputs \<Longrightarrow> x \<noteq> [] \<Longrightarrow> P x = Q x) \<Longrightarrow> known_names P inputs seen = known_names Q inputs seen"
  by (induction P inputs seen rule: known_names.induct) auto

lemma bind_outputs_names:
  "(\<forall>x. m x \<noteq> None \<longrightarrow> x \<in> N) \<Longrightarrow> {x \<in> fst ` set outs. x \<noteq> []} \<subseteq> N \<Longrightarrow>
     (\<forall>x. bind_outputs outs m x \<noteq> None \<longrightarrow> x \<in> N)"
  by (auto simp: bind_outputs_None [THEN arg_cong [where f = Not], simplified])

lemma body_context_scope:
  assumes "subgraph_ok reg g" and "scopes_same g s s'" and "nd \<in> set (g_nodes g)"
    and "\<forall>x. im x \<noteq> None \<longrightarrow> x \<in> graph_names g" and "reg (n_op nd) = Some oper"
  shows "execute oper (subgraph_context opset nd im s w) = execute oper (subgraph_context opset nd im s' w)"
proof -
  have nest: "graph_nesting g \<le> MAX_SUBGRAPH_NESTING" and contract: "operator_contract oper nd"
    and inner: "set (inner_names nd) \<inter> graph_names g = {}"
    using assms by (auto simp: subgraph_ok_def)
  note same = scopes_same_cases [OF assms(2) nest assms(3)]
  have inner_none: "s x = None \<and> s' x = None" if "x \<in> set (inner_names nd)" for x
    using that assms(2,3) by (cases g) (auto simp: scopes_same_def)
  have ins: "map (scope_lookup im s w) (n_inputs nd) = map (scope_lookup im s' w) (n_inputs nd)"
    using same by (auto simp: scope_lookup_def split: option.split)
  have "scope_agrees nd (s ++ im) (s' ++ im)"
    using same captures_nonempty [of _ nd] inner inner_none assms(4)
    by (fastforce simp: scope_agrees_def map_add_def split: option.split)
  moreover have "scope_agrees nd s s'"
    using same captures_nonempty [of _ nd] inner_none by (auto simp: scope_agrees_def)
  ultimately show ?thesis
    using operator_contract.execute_scope [OF contract]
    by (simp add: subgraph_context_def ins)
qed

lemma run_body_scope:
  assumes "subgraph_ok reg g" and "scopes_same g s s'"
    and "\<forall>x. im x \<noteq> None \<longrightarrow> x \<in> graph_names g"
  shows "run_body reg opset (g_nodes g) s w order im = run_body reg opset (g_nodes g) s' w order im"
  using assms(3)
proof (induction order arbitrary: im)
  case (Cons idx order)
  show ?case
  proof (cases "idx < length (g_nodes g)")
    case True
    let ?nd = "g_nodes g ! idx"
    have nd: "?nd \<in> set (g_nodes g)" using True by simp
    show ?thesis
    proof (cases "reg (n_op ?nd)")
      case (Some oper)
      note ctx = body_context_scope [OF assms(1,2) nd Cons.prems Some, of opset w]
      have "\<forall>x. bind_outputs (zip (n_outputs ?nd) ts) im x \<noteq> None \<longrightarrow> x \<in> graph_names g" for ts
        by (rule bind_outputs_names [OF Cons.prems])
          (use nd in \<open>auto simp: bound_names_def dest!: set_zip_leftD\<close>)
      from Cons.IH [OF this] show ?thesis
        using True Some by (simp add: Let_def ctx cong: rbind_cong)
    qed (use True in simp)
  qed simp
qed simp

lemma execute_subgraph_scope:
  assumes "subgraph_ok reg g" and "scopes_same g s s'"
    and "\<forall>x. im x \<noteq> None \<longrightarrow> x \<in> set (g_input_names g)"
  shows "execute_subgraph reg opset g im s w = execute_subgraph reg opset g im s' w"
proof -
  have "known_names (\<lambda>x. im x \<noteq> None \<or> s x \<noteq> None \<or> w x \<noteq> None) (concat (map n_inputs (g_nodes g))) []
      = known_names (\<lambda>x. im x \<noteq> None \<or> s' x \<noteq> None \<or> w x \<noteq> None) (concat (map n_inputs (g_nodes g))) []"
    using scopes_same_cases [OF assms(2)] assms(1)
    by (intro known_names_cong) (fastforce simp: subgraph_ok_def)
  moreover have "run_body reg opset (g_nodes g) s w order im = run_body reg opset (g_nodes g) s' w order im" for order
    by (rule run_body_scope [OF assms(1,2)]) (use assms(3) in \<open>auto simp: bound_names_def\<close>)
  ultimately show ?thesis by (simp add: execute_subgraph_def Let_def)
qed

section \<open>The operators\<close>

lemma slot_operator_contract:
  assumes "\<And>ins s s' w r. scope_agrees nd s s' \<Longrightarrow>
      exec \<lparr>cx_node = nd, cx_inputs = ins, cx_outer_scope = Some s, cx_weights = w, cx_registry = r\<rparr> =
      exec \<lparr>cx_node = nd, cx_inputs = ins, cx_outer_scope = Some s', cx_weights = w, cx_registry = r\<rparr>"
    and "\<And>c ts. cx_node c = nd \<Longrightarrow> exec c = Inr ts \<Longrightarrow> length ts = length (n_outputs nd)"
  shows "operator_contract (slot_operator exec) nd"
proof unfold_locales
  fix ins s w r and slots :: "tensor list"
  let ?c = "\<lparr>cx_node = nd, cx_inputs = ins, cx_outer_scope = Some s, cx_weights = w, cx_registry = r\<rparr>"
  assume "length slots = length (n_outputs nd)"
  with assms(2) [of ?c] show "execute_into_slots (slot_operator exec) ?c slots = execute (slot_operator exec) ?c"
    by (cases "exec ?c") (auto simp: slot_operator_def default_into_slots_eq)
qed (simp_all add: slot_operator_def assms(1))

definition graphs_of :: "node \<Rightarrow> graph list" where
  "graphs_of nd = map snd (at_graphs (n_attrs nd))"

lemma scope_agrees_graph:
  "scope_agrees nd s s' \<Longrightarrow> g \<in> set (graphs_of nd) \<Longrightarrow> scopes_same g s s'"
  by (fastforce simp: scope_agrees_def scopes_same_def graphs_of_def subgraph_captures_def
      attributes_free_set inner_names_set)

lemma attr_graph_graphs: "attr_graph (n_attrs nd) k = Some g \<Longrightarrow> g \<in> set (graphs_of nd)"
  by (force simp: attr_graph_def graphs_of_def dest: map_of_SomeD)

lemma remove_outputs_length: "remove_outputs names im = Inr ts \<Longrightarrow> length ts = length names"
  by (induction names arbitrary: im ts) (auto simp: result_simps split: option.splits)

lemma execute_subgraph_length:
  "execute_subgraph reg opset g im s w = Inr ts \<Longrightarrow> length ts = length (g_output_names g)"
  by (auto simp: execute_subgraph_def Let_def result_simps remove_outputs_length)

lemma if_contract:
  assumes ok: "\<And>g. g \<in> set (graphs_of nd) \<Longrightarrow> subgraph_ok reg g"
    and arity: "\<And>g. g \<in> set (graphs_of nd) \<Longrightarrow> length (g_output_names g) = length (n_outputs nd)"
  shows "operator_contract (if_operator reg) nd"
  unfolding if_operator_def
proof (rule slot_operator_contract)
  fix ins s s' w r assume agrees: "scope_agrees nd s s'"
  have "execute_subgraph reg opset g Map.empty s w' = execute_subgraph reg opset g Map.empty s' w'"
    if "attr_graph (n_attrs nd) k = Some g" for k g opset w'
    by (rule execute_subgraph_scope) (use ok agrees attr_graph_graphs [OF that] scope_agrees_graph in auto)
  then show "execute_if reg \<lparr>cx_node = nd, cx_inputs = ins, cx_outer_scope = Some s, cx_weights = w, cx_registry = r\<rparr> =
      execute_if reg \<lparr>cx_node = nd, cx_inputs = ins, cx_outer_scope = Some s', cx_weights = w, cx_registry = r\<rparr>"
    by (auto simp: execute_if_def cx_input_def cx_optional_input_def scope_of_def Let_def
        intro!: rbind_cong split: list.split option.split)
next
  fix c ts assume "cx_node c = nd" and "execute_if reg c = Inr ts"
  then obtain cond where cond: "cx_input c 0 = Inr cond" by (auto simp: execute_if_def result_simps)
  with \<open>execute_if reg c = Inr ts\<close> have "t_data cond \<noteq> []" by (auto simp: execute_if_def)
  with cond \<open>cx_node c = nd\<close> \<open>execute_if reg c = Inr ts\<close> obtain k g opset where "attr_graph (n_attrs nd) k = Some g"
    "execute_subgraph reg opset g Map.empty (scope_of (cx_outer_scope c)) (scope_of (cx_weights c)) = Inr ts"
    by (cases "t_data cond") (auto simp: execute_if_def Let_def split: option.splits)
  then show "length ts = length (n_outputs nd)"
    using arity attr_graph_graphs execute_subgraph_length by metis
qed

lemma bind_formals_names:
  "\<forall>x. bind_formals names from ts Map.empty x \<noteq> None \<longrightarrow> x \<in> set names"
  unfolding bind_formals_def
  by (rule bind_outputs_names) (auto dest!: set_zip_leftD in_set_dropD)

lemma loop_iterate_length:
  "loop_iterate run m n cond it carried accs = Inr (carried', accs') \<Longrightarrow> length carried = n \<Longrightarrow>
     length carried' = n \<and> length accs' = length accs"
proof (induction run m n cond it carried accs arbitrary: carried' accs' rule: loop_iterate.induct)
  case (1 run m n cond it carried accs)
  show ?case
  proof (cases "\<not> cond \<or> (case m of Some m \<Rightarrow> int it \<ge> m | None \<Rightarrow> False)")
    case True
    with "1.prems" show ?thesis by (simp add: loop_iterate.simps)
  next
    case False
    note eq = "1.prems"(1) [unfolded loop_iterate.simps [of run m n cond it carried accs] if_not_P [OF False]]
    then obtain outs where outs: "run it cond carried = Inr outs" by (auto simp: result_simps)
    with eq obtain c rest where out: "run it cond carried = Inr (c # rest)" "\<not> length rest < n + length accs"
      "\<not> it + 1 > LOOP_LIMIT"
      and rec: "loop_iterate run m n (f32_nonzero (first_or 0 c)) (it + 1) (take n rest)
          (push_all accs (drop n rest)) = Inr (carried', accs')"
      by (cases outs) (auto simp: Let_def split: if_splits)
    have "length carried' = n \<and> length accs' = length (push_all accs (drop n rest))"
      by (rule "1.IH" [OF False out(1) refl out(2) refl refl refl out(3) rec]) (use out(2) in auto)
    with out(2) show ?thesis by (simp add: push_all_def)
  qed
qed

lemma stack_all_length: "stack_all accs = Inr ts \<Longrightarrow> length ts = length accs"
  by (induction accs arbitrary: ts rule: stack_all.induct) (auto simp: result_simps split: if_splits)

lemma loop_contract:
  assumes ok: "\<And>g. g \<in> set (graphs_of nd) \<Longrightarrow> subgraph_ok reg g"
    and arity: "\<And>g. g \<in> set (graphs_of nd) \<Longrightarrow> length (g_output_names g) = Suc (length (n_outputs nd))"
  shows "operator_contract (loop_operator reg) nd"
  unfolding loop_operator_def
proof (rule slot_operator_contract)
  fix ins s s' w r assume agrees: "scope_agrees nd s s'"
  have "execute_subgraph reg opset g (loop_inputs g it cond carried) s w'
      = execute_subgraph reg opset g (loop_inputs g it cond carried) s' w'"
    if "attr_graph (n_attrs nd) k = Some g" for k g opset w' it cond carried
    unfolding loop_inputs_def
    by (rule execute_subgraph_scope [OF _ _ bind_formals_names])
      (use ok agrees attr_graph_graphs [OF that] scope_agrees_graph in auto)
  then show "execute_loop reg \<lparr>cx_node = nd, cx_inputs = ins, cx_outer_scope = Some s, cx_weights = w, cx_registry = r\<rparr> =
      execute_loop reg \<lparr>cx_node = nd, cx_inputs = ins, cx_outer_scope = Some s', cx_weights = w, cx_registry = r\<rparr>"
    by (auto simp: execute_loop_def cx_optional_input_def scope_of_def Let_def split: option.split)
next
  fix c ts assume c: "cx_node c = nd" and ex: "execute_loop reg c = Inr ts"
  let ?carried = "map the (filter (\<lambda>i. i \<noteq> None) (drop 2 (cx_inputs c)))"
  obtain body run m cond carried' accs' ts' where b: "attr_graph (n_attrs nd) ''body'' = Some body"
    "\<not> length (g_output_names body) < 1 + length ?carried"
    "loop_iterate run m (length ?carried) cond 0 ?carried
       (replicate (length (g_output_names body) - 1 - length ?carried) []) = Inr (carried', accs')"
    "stack_all accs' = Inr ts'" "ts = carried' @ ts'"
    using ex unfolding execute_loop_def c Let_def
    by (auto simp: result_simps split: option.splits if_splits)
  from loop_iterate_length [OF b(3) refl] stack_all_length [OF b(4)] b(2,5)
  have "length ts = length (g_output_names body) - 1" by simp
  with arity [OF attr_graph_graphs [OF b(1)]] show "length ts = length (n_outputs nd)" by simp
qed

lemma scan_iterate_length:
  "scan_iterate run n steps states accs = Inr (states', accs') \<Longrightarrow> length states = n \<Longrightarrow>
     length states' = n \<and> length accs' = length accs"
proof (induction steps arbitrary: states accs)
  case (Cons step steps)
  then obtain outputs where out: "\<not> length outputs < n + length accs"
    "scan_iterate run n steps (take n outputs) (push_all accs (drop n outputs)) = Inr (states', accs')"
    by (auto simp: result_simps split: if_splits)
  with Cons.IH [OF this(2)] show ?case by (simp add: push_all_def)
qed simp

lemma scan_run_length:
  assumes "scan_run run attrs body seq_len states = Inr ts"
  shows "length ts = length (g_output_names body)"
proof -
  obtain states' accs' ts' where b: "\<not> length (g_output_names body) < length states"
    "scan_iterate run (length states) [0..<seq_len] states
       (replicate (length (g_output_names body) - length states) []) = Inr (states', accs')"
    "rmap (place_scan_output attrs) (enumerate 0 accs') = Inr ts'" "ts = states' @ ts'"
    using assms by (auto simp: scan_run_def Let_def result_simps split: if_splits)
  from scan_iterate_length [OF b(2) refl] rmap_length [OF b(3)] b(1,4) show ?thesis by simp
qed

lemma scan_contract:
  assumes ok: "\<And>g. g \<in> set (graphs_of nd) \<Longrightarrow> subgraph_ok reg g"
    and arity: "\<And>g. g \<in> set (graphs_of nd) \<Longrightarrow> length (g_output_names g) = length (n_outputs nd)"
  shows "operator_contract (scan_operator reg) nd"
  unfolding scan_operator_def
proof (rule slot_operator_contract)
  fix ins s s' w r assume agrees: "scope_agrees nd s s'"
  have "execute_subgraph reg opset g (bind_formals (g_input_names g) 0 ts Map.empty) s w'
      = execute_subgraph reg opset g (bind_formals (g_input_names g) 0 ts Map.empty) s' w'"
    if "attr_graph (n_attrs nd) k = Some g" for k g opset w' ts
    by (rule execute_subgraph_scope [OF _ _ bind_formals_names])
      (use ok agrees attr_graph_graphs [OF that] scope_agrees_graph in auto)
  moreover have "cx_input \<lparr>cx_node = nd, cx_inputs = ins, cx_outer_scope = Some s, cx_weights = w, cx_registry = r\<rparr> =
      cx_input \<lparr>cx_node = nd, cx_inputs = ins, cx_outer_scope = Some s', cx_weights = w, cx_registry = r\<rparr>"
    by (rule ext) (simp add: cx_input_def cx_optional_input_def)
  ultimately show "execute_scan reg \<lparr>cx_node = nd, cx_inputs = ins, cx_outer_scope = Some s, cx_weights = w, cx_registry = r\<rparr> =
      execute_scan reg \<lparr>cx_node = nd, cx_inputs = ins, cx_outer_scope = Some s', cx_weights = w, cx_registry = r\<rparr>"
    by (auto simp: execute_scan_def cx_num_inputs_def scope_of_def Let_def intro!: rbind_cong split: option.split)
next
  fix c ts assume c: "cx_node c = nd" and ex: "execute_scan reg c = Inr ts"
  then obtain body run seq_len states where "attr_graph (n_attrs nd) ''body'' = Some body"
    "scan_run run (n_attrs nd) body seq_len states = Inr ts"
    unfolding execute_scan_def c Let_def
    by (cases "attr_graph (n_attrs nd) ''body''"; cases "cx_registry c") (auto simp: result_simps split: if_splits)
  with arity [OF attr_graph_graphs] scan_run_length show "length ts = length (n_outputs nd)" by metis
qed

section \<open>Every level of nesting\<close>

text \<open>
  The conditions on a node, to any depth: the names a subgraph binds are not bound again
  inside it, and a control-flow node has as many outputs as its bodies give.
\<close>

definition control_arity :: "string \<Rightarrow> string list \<Rightarrow> graph list \<Rightarrow> bool" where
  "control_arity op outputs graphs \<longleftrightarrow>
     (op = ''If'' \<or> op = ''Scan'' \<longrightarrow> (\<forall>g\<in>set graphs. length (g_output_names g) = length outputs)) \<and>
     (op = ''Loop'' \<longrightarrow> (\<forall>g\<in>set graphs. length (g_output_names g) = Suc (length outputs)))"

primrec attributes_scoped :: "attributes \<Rightarrow> bool"
  and node_scoped :: "node \<Rightarrow> bool"
  and graph_scoped :: "graph \<Rightarrow> bool" where
  "attributes_scoped (Attributes fs is ss ts fls ils sls graphs) \<longleftrightarrow>
     list_all snd (map (map_prod id graph_scoped) graphs)"
| "node_scoped (Node op name inputs outputs attrs) \<longleftrightarrow>
     control_arity op outputs (map snd (at_graphs attrs)) \<and> attributes_scoped attrs"
| "graph_scoped (Graph name nodes input_names output_names iis ois) \<longleftrightarrow>
     list_all (\<lambda>nd. set (inner_names nd) \<inter> set (bound_names input_names nodes) = {}) nodes \<and>
     list_all (\<lambda>x. x) (map node_scoped nodes)"

lemma node_scoped_graphs:
  assumes "node_scoped nd" and "g \<in> set (graphs_of nd)"
  shows "graph_scoped g" and "graph_nesting g \<le> node_nesting nd"
proof -
  obtain op name ins outs fs "is" ss ts fls ils sls graphs
    where nd: "nd = Node op name ins outs (Attributes fs is ss ts fls ils sls graphs)"
    by (metis attributes.exhaust node.exhaust)
  with assms show "graph_scoped g" by (auto simp: graphs_of_def list_all_iff)
  from nd assms(2) show "graph_nesting g \<le> node_nesting nd"
    using fold_max_le [of "map snd (map (map_prod id graph_nesting) graphs)" 0 "node_nesting nd"]
    by (force simp: graphs_of_def)
qed

lemma graph_scoped_nodes:
  assumes "graph_scoped g" and "nd \<in> set (g_nodes g)"
  shows "node_scoped nd" and "set (inner_names nd) \<inter> graph_names g = {}" and "node_nesting nd < graph_nesting g"
proof -
  obtain name nodes ins outs iis ois where g: "g = Graph name nodes ins outs iis ois" by (cases g)
  with assms show "node_scoped nd" "set (inner_names nd) \<inter> graph_names g = {}"
    by (auto simp: list_all_iff)
  from g assms(2) show "node_nesting nd < graph_nesting g"
    using fold_max_le [of "map node_nesting nodes" 0 "fold max (map node_nesting nodes) 0"] by (simp add: less_Suc_eq_le)
qed

lemma control_registry_cases:
  assumes "control_registry (Suc n) leaf op = Some oper"
  shows "op = ''If'' \<and> oper = if_operator (control_registry n leaf) \<or>
    op = ''Loop'' \<and> oper = loop_operator (control_registry n leaf) \<or>
    op = ''Scan'' \<and> oper = scan_operator (control_registry n leaf) \<or> leaf op = Some oper"
  using assms
  by (cases "op = ''If''"; cases "op = ''Loop''"; cases "op = ''Scan''") (simp_all add: Let_def)

lemma control_registry_ok:
  assumes leaf: "\<And>nd oper. leaf (n_op nd) = Some oper \<Longrightarrow> operator_contract oper nd"
  shows "node_scoped nd \<Longrightarrow> node_nesting nd \<le> MAX_SUBGRAPH_NESTING \<Longrightarrow>
    control_registry n leaf (n_op nd) = Some oper \<Longrightarrow> operator_contract oper nd"
proof (induction n arbitrary: nd oper)
  case 0
  with leaf show ?case by simp
next
  case (Suc n)
  let ?reg = "control_registry n leaf"
  have ok: "subgraph_ok ?reg g" if "g \<in> set (graphs_of nd)" for g
    using Suc.IH graph_scoped_nodes [OF node_scoped_graphs(1) [OF Suc.prems(1) that]]
      node_scoped_graphs(2) [OF Suc.prems(1) that] Suc.prems(2)
    by (fastforce simp: subgraph_ok_def)
  have arity: "control_arity (n_op nd) (n_outputs nd) (graphs_of nd)"
    using Suc.prems(1) by (cases nd) (simp add: graphs_of_def)
  consider "n_op nd = ''If''" "oper = if_operator ?reg" | "n_op nd = ''Loop''" "oper = loop_operator ?reg"
    | "n_op nd = ''Scan''" "oper = scan_operator ?reg" | "leaf (n_op nd) = Some oper"
    using control_registry_cases [OF Suc.prems(3)] by blast
  then show ?case
  proof cases
    case 1
    with ok arity show ?thesis by (auto simp: control_arity_def intro!: if_contract)
  next
    case 2
    with ok arity show ?thesis by (auto simp: control_arity_def intro!: loop_contract)
  next
    case 3
    with ok arity show ?thesis by (auto simp: control_arity_def intro!: scan_contract)
  qed (rule leaf)
qed

end
