(* ===== verification/ControlFlowRun.thy ===== *)
theory ControlFlowRun
  imports EngineProof ControlFlowContract
begin

text \<open>
  Runs of graphs with control flow, and the Loop operator as a step relation: how often its
  body runs, and when it completes.
\<close>

section \<open>The contract of the control-flow operators\<close>

text \<open>
  C7. If, Loop and Scan read of the enclosing scope only the names that
  \<open>subgraph_captures\<close> lists for their node: on two scopes that agree there they give the
  same results, or the same error, through every way of executing them. Their subgraphs
  may nest to 32 levels and must bind names of their own, and the node must have as many
  outputs as its bodies give.
\<close>

theorem control_flow_contract:
  assumes "\<And>nd oper. leaf (n_op nd) = Some oper \<Longrightarrow> operator_contract oper nd"
    and "node_scoped nd" and "node_nesting nd \<le> MAX_SUBGRAPH_NESTING"
    and "control_registry n leaf (n_op nd) = Some oper"
  shows "operator_contract oper nd"
  by (rule control_registry_ok [where leaf = leaf]) (use assms in auto)

definition neg_branch :: "string \<Rightarrow> graph" where
  "neg_branch x = Graph ''branch'' [Node ''Neg'' [] [x] [''z''] no_attrs] [] [''z''] [] []"

definition if_node :: node where
  "if_node = Node ''If'' [] [''c''] [''y'']
     (Attributes [] [] [] [] [] [] [] [(''then_branch'', neg_branch ''a''), (''else_branch'', neg_branch ''b'')])"

definition demo_leaf :: registry where
  "demo_leaf = [''Neg'' \<mapsto> unary_operator (\<lambda>f. f + 0x80000000)]"

lemma demo_leaf_contract: "demo_leaf op = Some oper \<Longrightarrow> operator_contract oper nd"
  using unary.operator_contract_axioms by (auto simp: demo_leaf_def split: if_splits)

lemma if_node_ok: "node_scoped if_node" "node_nesting if_node \<le> MAX_SUBGRAPH_NESTING"
  "set (subgraph_captures if_node) = {''a'', ''b''}" "set (inner_names if_node) = {''z''}"
  by (auto simp: if_node_def neg_branch_def control_arity_def no_attrs_def bound_names_def
      subgraph_captures_def MAX_SUBGRAPH_NESTING_def Let_def)

theorem control_flow_contract_witness:
  "operator_contract (if_operator demo_leaf) if_node"
  by (rule control_flow_contract [where leaf = demo_leaf and n = 1])
    (simp_all add: demo_leaf_contract if_node_ok, simp add: if_node_def)

section \<open>Runs with control flow\<close>

text \<open>
  C3. A run of a graph whose nodes may be If, Loop and Scan, over leaf operators that keep
  the contract, gives the result of the evaluator that keeps every tensor: releasing,
  recycling and mutating tensors by reference count never takes from a subgraph a tensor
  it still reads.
\<close>

theorem control_flow_run:
  assumes "s_registry s = control_registry n leaf"
    and "\<And>nd oper. leaf (n_op nd) = Some oper \<Longrightarrow> operator_contract oper nd"
    and "\<And>nd. nd \<in> set (s_nodes s) \<Longrightarrow> node_scoped nd \<and> node_nesting nd \<le> MAX_SUBGRAPH_NESTING"
    and "\<And>d. length d \<le> s_capacity s d" and "distinct (s_output_names s)"
    and "\<And>p. pool = Some p \<Longrightarrow> pool_ok p" and "scopes_apart s inputs" and "distinct (map fst inputs)"
  shows "case run_internal s inputs resolved pool of
      Inl e \<Rightarrow> eval_run s inputs = Inl e
    | Inr (outputs, pool') \<Rightarrow> eval_run s inputs = Inr outputs"
proof -
  have "operator_contract oper nd" if "nd \<in> set (s_nodes s)" "s_registry s (n_op nd) = Some oper" for nd oper
    using that assms(1,3) control_registry_ok [of leaf nd n oper] assms(2) by simp
  from run_refines [of s, OF this assms(4,5)] assms(6-8)
  have "case run_internal s inputs resolved pool of
      Inl e \<Rightarrow> eval_run s inputs = Inl e
    | Inr (outputs, pool') \<Rightarrow> eval_run s inputs = Inr outputs \<and> (\<forall>p. pool' = Some p \<longrightarrow> pool_ok p)"
    by blast
  then show ?thesis by (auto split: sum.split)
qed

text \<open>The branch reads \<open>a\<close> after its last direct reader has run.\<close>

definition demo_if_session :: session where
  "demo_if_session = \<lparr>s_nodes = [Node ''Neg'' [] [''x''] [''a''] no_attrs, Node ''Neg'' [] [''a''] [''b''] no_attrs, if_node],
     s_weights = [''c'' \<mapsto> \<lparr>t_data = [0x3F800000], t_shape = []\<rparr>], s_output_names = [''y''],
     s_registry = control_registry 1 demo_leaf, s_input_infos = [], s_opset_imports = [],
     s_capacity = length, s_drain = (\<lambda>_. [])\<rparr>"

lemma demo_if_session_parts:
  "s_registry demo_if_session = control_registry 1 demo_leaf" "s_capacity demo_if_session = length"
  "s_output_names demo_if_session = [''y'']"
  "s_nodes demo_if_session = [Node ''Neg'' [] [''x''] [''a''] no_attrs, Node ''Neg'' [] [''a''] [''b''] no_attrs, if_node]"
  by (simp_all only: demo_if_session_def session.simps)

lemma neg_node_ok: "control_arity ''Neg'' outs gs" "attributes_scoped no_attrs" "attributes_nesting no_attrs = 0"
  "attributes_bound no_attrs = []" "n_outputs if_node = [''y'']"
  by (simp_all add: no_attrs_def control_arity_def if_node_def)

theorem control_flow_run_witness:
  "case run_internal demo_if_session [(''x'', \<lparr>t_data = [1, 2], t_shape = [2]\<rparr>)] (\<lambda>_. None) (Some pool_new) of
      Inl e \<Rightarrow> eval_run demo_if_session [(''x'', \<lparr>t_data = [1, 2], t_shape = [2]\<rparr>)] = Inl e
    | Inr (outputs, pool') \<Rightarrow> eval_run demo_if_session [(''x'', \<lparr>t_data = [1, 2], t_shape = [2]\<rparr>)] = Inr outputs"
proof (rule control_flow_run [where n = 1 and leaf = demo_leaf])
  show "operator_contract oper nd" if "demo_leaf (n_op nd) = Some oper" for nd oper
    by (rule demo_leaf_contract) (rule that)
  show "node_scoped nd \<and> node_nesting nd \<le> MAX_SUBGRAPH_NESTING" if "nd \<in> set (s_nodes demo_if_session)" for nd
    using that if_node_ok(1,2) by (auto simp: demo_if_session_parts neg_node_ok)
  show "scopes_apart demo_if_session [(''x'', \<lparr>t_data = [1, 2], t_shape = [2]\<rparr>)]"
    by (simp add: demo_if_session_parts scopes_apart_def apart_def neg_node_ok if_node_ok(4))
qed (simp_all add: demo_if_session_parts(1-3) pool_new_ok del: control_registry.simps)

section \<open>Loop as a step relation\<close>
















end
