(* ===== verification/DeadCode.thy ===== *)
theory DeadCode
  imports ControlFlowRun
begin

text \<open>
  Dead-node elimination (\<open>src/optimizer/dead_code.rs\<close>) against the evaluator: what it
  removes is not missed by a graph without subgraph captures of its own results, and what
  it breaks in one that has them.
\<close>

section \<open>The pass\<close>

text \<open>
  The backward pass: the flags of the nodes and the live names, from the last node to the
  first.
\<close>

fun mark_live :: "node list \<Rightarrow> string list \<Rightarrow> bool list \<times> string list" where
  "mark_live [] live_tensors = ([], live_tensors)"
| "mark_live (nd # nds) live_tensors =
     (let (live_nodes, live_tensors) = mark_live nds live_tensors;
          node_is_live = list_ex (\<lambda>o'. o' \<in> set live_tensors) (n_outputs nd)
      in (node_is_live # live_nodes,
          if node_is_live then filter (\<lambda>inp. inp \<noteq> []) (n_inputs nd) @ live_tensors else live_tensors))"

definition dead_node_elimination :: "node list \<Rightarrow> string list \<Rightarrow> node list" where
  "dead_node_elimination nodes output_names =
     map fst (filter snd (zip nodes (fst (mark_live nodes output_names))))"

section \<open>Preservation\<close>

text \<open>What a node's operator reads: its inputs and, through subgraphs, its captures.\<close>

definition captures_outside :: "node list \<Rightarrow> bool" where
  "captures_outside nds \<longleftrightarrow>
     (\<forall>nd\<in>set nds. \<forall>nd'\<in>set nds. set (subgraph_captures nd) \<inter> set (n_outputs nd') = {})"

lemma eval_node_agree:
  assumes "operator_contract oper nd" and "\<forall>x\<in>set (n_inputs nd). x \<noteq> [] \<longrightarrow> env x = env' x"
    and "\<forall>x\<in>set (subgraph_captures nd). env x = env' x"
    and "\<forall>x\<in>set (inner_names nd). env x = None \<and> env' x = None"
  shows "execute oper (make_context s nd (map (lookup_input s env) (n_inputs nd)) env)
    = execute oper (make_context s nd (map (lookup_input s env') (n_inputs nd)) env')"
proof -
  have ins: "map (lookup_input s env) (n_inputs nd) = map (lookup_input s env') (n_inputs nd)"
    using assms(2) by (auto simp: lookup_input_def)
  have "scope_agrees nd env env'" using assms(3,4) by (simp add: scope_agrees_def)
  then show ?thesis
    unfolding make_context_def ins by (rule operator_contract.execute_scope [OF assms(1)])
qed

lemma eval_nodes_session:
  assumes "s_weights s' = s_weights s" and "s_registry s' = s_registry s" and "s_opset_imports s' = s_opset_imports s"
  shows "eval_nodes s' nds env = eval_nodes s nds env"
proof (induction nds arbitrary: env)
  case (Cons nd nds)
  have "lookup_input s' = lookup_input s" by (intro ext) (simp only: lookup_input_def assms)
  moreover have "model_opset s' = model_opset s" by (simp add: model_opset_def assms)
  ultimately have "eval_node s' nd oper env = eval_node s nd oper env" for oper
    by (simp add: eval_node_def make_context_def assms)
  with Cons assms show ?case by (simp cong: rbind_cong option.case_cong)
qed simp

lemma select_outputs_session:
  assumes "s_weights s' = s_weights s" and "s_output_names s' = s_output_names s"
  shows "select_outputs s' env = select_outputs s env"
  by (simp only: select_outputs_def assms)

lemma select_outputs_cong:
  assumes "\<forall>x\<in>set (s_output_names s). env x = env' x"
  shows "select_outputs s env = select_outputs s env'"
proof -
  have "list_ex (\<lambda>x. (case env x of Some t \<Rightarrow> Some t | None \<Rightarrow> s_weights s x) = None) (s_output_names s)
      = list_ex (\<lambda>x. (case env' x of Some t \<Rightarrow> Some t | None \<Rightarrow> s_weights s x) = None) (s_output_names s)"
    by (rule list_ex_cong) (simp_all add: assms)
  with assms show ?thesis by (simp add: select_outputs_def Let_def cong: if_cong)
qed

lemma eval_nodes_live:
  assumes "\<And>nd oper. nd \<in> set nds \<Longrightarrow> s_registry s (n_op nd) = Some oper \<Longrightarrow> operator_contract oper nd"
    and "mark_live nds lt = (flags, lt')" and "eval_nodes s nds env = Inr env1"
    and "\<forall>x\<in>set lt' \<union> C. x \<noteq> [] \<longrightarrow> env x = env' x" and "apart nds env" and "apart nds env'"
    and "\<forall>nd\<in>set nds. set (subgraph_captures nd) \<subseteq> C \<and> C \<inter> set (n_outputs nd) = {}"
  shows "\<exists>env1'. eval_nodes s (map fst (filter snd (zip nds flags))) env' = Inr env1' \<and>
    (\<forall>x\<in>set lt \<union> C. x \<noteq> [] \<longrightarrow> env1 x = env1' x)"
  using assms
proof (induction nds arbitrary: flags lt' env env')
  case (Cons nd nds)
  obtain fl lv where m: "mark_live nds lt = (fl, lv)" by fastforce
  define alive where "alive = list_ex (\<lambda>o'. o' \<in> set lv) (n_outputs nd)"
  have flags: "flags = alive # fl" and
    lt': "lt' = (if alive then filter (\<lambda>x. x \<noteq> []) (n_inputs nd) @ lv else lv)"
    using Cons.prems(2) by (simp_all add: m alive_def Let_def)
  obtain oper env2 where oper: "s_registry s (n_op nd) = Some oper"
    and nd: "eval_node s nd oper env = Inr env2" and rest: "eval_nodes s nds env2 = Inr env1"
    using Cons.prems(3) by (auto simp: result_simps split: option.splits)
  obtain results where res: "execute oper (make_context s nd (map (lookup_input s env) (n_inputs nd)) env) = Inr results"
    and env2: "env2 = bind_outputs (zip (n_outputs nd) results) env"
    using nd by (auto simp: eval_node_def result_simps)
  have IH: "\<exists>env1'. eval_nodes s (map fst (filter snd (zip nds fl))) e = Inr env1' \<and>
      (\<forall>x\<in>set lt \<union> C. x \<noteq> [] \<longrightarrow> env1 x = env1' x)"
    if "\<forall>x\<in>set lv \<union> C. x \<noteq> [] \<longrightarrow> env2 x = e x" "apart nds e" for e
    by (rule Cons.IH [OF Cons.prems(1) m rest that(1) _ that(2)])
      (use Cons.prems(7) apart_bind [OF Cons.prems(5)] env2 in auto)
  show ?case
  proof (cases alive)
    case True
    have inner: "\<forall>x\<in>set (inner_names nd). env x = None \<and> env' x = None"
      using Cons.prems(5,6) by (auto simp: apart_def)
    have "execute oper (make_context s nd (map (lookup_input s env) (n_inputs nd)) env)
        = execute oper (make_context s nd (map (lookup_input s env') (n_inputs nd)) env')"
      by (rule eval_node_agree [OF Cons.prems(1) [OF _ oper] _ _ inner])
        (use Cons.prems(4,7) lt' True captures_nonempty [of _ nd] in auto)
    with res have nd': "eval_node s nd oper env' = Inr (bind_outputs (zip (n_outputs nd) results) env')"
      by (simp add: eval_node_def)
    have "\<forall>x\<in>set lv \<union> C. x \<noteq> [] \<longrightarrow> env2 x = bind_outputs (zip (n_outputs nd) results) env' x"
      using Cons.prems(4) lt' True env2 by (auto intro!: bind_outputs_agree)
    from IH [OF this apart_bind [OF Cons.prems(6)]] nd' oper show ?thesis
      by (simp add: flags True)
  next
    case False
    have out: "x \<notin> set (n_outputs nd)" if "x \<in> set lv \<union> C" for x
      using that False Cons.prems(7) by (auto simp: alive_def list_ex_iff)
    have "bind_outputs (zip (n_outputs nd) results) env x = env x" if "x \<in> set lv \<union> C" for x
    proof (rule bind_outputs_other)
      from out [OF that] show "x \<notin> fst ` set (zip (n_outputs nd) results)" by (auto dest: set_zip_leftD)
    qed
    then have "\<forall>x\<in>set lv \<union> C. x \<noteq> [] \<longrightarrow> env2 x = env' x"
      using Cons.prems(4) lt' False env2 by auto
    moreover have "apart nds env'" using Cons.prems(6) by (auto simp: apart_def)
    ultimately show ?thesis using IH by (simp add: flags False)
  qed
qed simp

lemma dead_code_run:
  assumes "\<And>nd oper. nd \<in> set (s_nodes s) \<Longrightarrow> s_registry s (n_op nd) = Some oper \<Longrightarrow> operator_contract oper nd"
    and "captures_outside (s_nodes s)" and "scopes_apart s inputs" and "distinct (map fst inputs)"
    and "[] \<notin> set (s_output_names s)" and "eval_run s inputs = Inr outputs"
  shows "eval_run (s\<lparr>s_nodes := dead_node_elimination (s_nodes s) (s_output_names s)\<rparr>) inputs = Inr outputs"
proof -
  let ?s = "s\<lparr>s_nodes := dead_node_elimination (s_nodes s) (s_output_names s)\<rparr>"
  let ?env = "fold (\<lambda>(name, t) env. env(name \<mapsto> t)) inputs Map.empty"
  let ?C = "\<Union>nd\<in>set (s_nodes s). set (subgraph_captures nd)"
  have env: "?env = map_of inputs" using assms(4) by (simp add: seeded_env)
  obtain flags lt where m: "mark_live (s_nodes s) (s_output_names s) = (flags, lt)" by fastforce
  from assms(6) obtain env1 where e1: "eval_nodes s (s_nodes s) ?env = Inr env1" "select_outputs s env1 = Inr outputs"
    and fits: "\<exists>val. shapes_fit val (s_input_infos s) (map_of inputs)"
    by (auto simp: eval_run_def eval_graph_def result_simps split: if_splits)
  have "apart (s_nodes s) ?env" using assms(3) env by (simp add: scopes_apart_def)
  moreover have "\<forall>nd\<in>set (s_nodes s). set (subgraph_captures nd) \<subseteq> ?C \<and> ?C \<inter> set (n_outputs nd) = {}"
    using assms(2) by (auto simp: captures_outside_def)
  ultimately obtain env1' where
    e1': "eval_nodes s (map fst (filter snd (zip (s_nodes s) flags))) ?env = Inr env1'"
    and agr: "\<forall>x\<in>set (s_output_names s) \<union> ?C. x \<noteq> [] \<longrightarrow> env1 x = env1' x"
    using eval_nodes_live [OF assms(1) m e1(1), of ?C ?env] by blast
  have same: "eval_nodes (s\<lparr>s_nodes := ns\<rparr>) nds e = eval_nodes s nds e" for nds e ns
    by (rule eval_nodes_session) simp_all
  have "\<forall>x\<in>set (s_output_names s). env1 x = env1' x"
  proof
    fix x assume x: "x \<in> set (s_output_names s)"
    then have "x \<noteq> []" using assms(5) by metis
    with agr x show "env1 x = env1' x" by blast
  qed
  from select_outputs_cong [OF this] have "select_outputs ?s env1' = select_outputs s env1"
    using select_outputs_session [of ?s s] by simp
  then show ?thesis
    using e1(2) e1' fits m by (simp add: eval_run_def eval_graph_def same dead_node_elimination_def)
qed

text \<open>
  C20. Dead-node elimination keeps the result of every run: if the evaluation of the graph
  succeeds, so does that of the graph without the eliminated nodes, with the same
  outputs. This holds where no node's subgraphs capture a result of another node.
\<close>

theorem dead_code_preserves_results:
  assumes "\<And>nd oper. nd \<in> set (s_nodes s) \<Longrightarrow> s_registry s (n_op nd) = Some oper \<Longrightarrow> operator_contract oper nd"
    and "captures_outside (s_nodes s)" and "scopes_apart s inputs" and "distinct (map fst inputs)"
    and "[] \<notin> set (s_output_names s)" and "eval_run s inputs = Inr outputs"
  shows "eval_run (s\<lparr>s_nodes := dead_node_elimination (s_nodes s) (s_output_names s)\<rparr>) inputs = Inr outputs"
  by (rule dead_code_run [OF assms])

theorem dead_code_preserves_results_witness:
  "eval_run (demo_session\<lparr>s_nodes := dead_node_elimination (s_nodes demo_session) (s_output_names demo_session)\<rparr>)
     [(''x'', \<lparr>t_data = [1, 2], t_shape = [2]\<rparr>)]
   = Inr (\<lambda>x. if x = ''y'' then Some \<lparr>t_data = [3, 4], t_shape = [2]\<rparr> else None)"
proof (rule dead_code_preserves_results)
  show "operator_contract oper nd" if "s_registry demo_session (n_op nd) = Some oper" for nd oper
    using that unary.operator_contract_axioms by (auto simp: demo_session_def split: if_splits)
  show "eval_run demo_session [(''x'', \<lparr>t_data = [1, 2], t_shape = [2]\<rparr>)]
      = Inr (\<lambda>x. if x = ''y'' then Some \<lparr>t_data = [3, 4], t_shape = [2]\<rparr> else None)"
    by (rule demo_session_result)
qed (auto simp: demo_session_def scopes_apart_def apart_def no_attrs_def captures_outside_def subgraph_captures_def)


section \<open>Captures\<close>

text \<open>The demonstration session of the control-flow runs, evaluated.\<close>

lemma branch_sorted: 
  assumes "x \<noteq> ''z''"
  shows "topological_sort (neg_branch x) known = Some [0]"
proof -
  let ?nodes = "[Node ''Neg'' [] [x] [''z''] no_attrs]"
  have p: "producers ?nodes x = None" using assms by (simp add: producers_None)
  have 1: "in_degrees ?nodes known = [0]" by (simp add: in_degrees_def pending_inputs_def p)
  have 2: "dependents ?nodes known 0 = []" by (simp add: dependents_def pending_inputs_def p)
  show ?thesis
    by (simp add: topological_sort_def neg_branch_def 1 2 append_remaining_def Let_def)
qed

lemma branch_result:
  assumes "x \<noteq> ''z''" "x \<noteq> []"
  shows "execute_subgraph demo_leaf opset (neg_branch x) Map.empty outer w
   = (case (case outer x of Some t \<Rightarrow> Some t | None \<Rightarrow> w x) of
        None \<Rightarrow> Inl TensorNotFound
      | Some t \<Rightarrow> Inr [map_tensor (\<lambda>f. f + 0x80000000) t])"
proof -
  have g: "g_nodes (neg_branch x) = [Node ''Neg'' [] [x] [''z''] no_attrs]" "g_output_names (neg_branch x) = [''z'']"
    by (simp_all add: neg_branch_def)
  have l: "demo_leaf ''Neg'' = Some (unary_operator (\<lambda>f. f + 0x80000000))" by (simp add: demo_leaf_def)
  show ?thesis
    using assms(2)
    by (cases "outer x"; cases "w x")
     (simp_all add: execute_subgraph_def branch_sorted [OF assms(1)] g l Let_def subgraph_context_def scope_lookup_def
      unary_operator_def cx_input_def cx_optional_input_def bind_outputs_def)
qed

lemma if_eval:
  assumes "c = \<lparr>cx_node = if_node, cx_inputs = [Some t], cx_outer_scope = Some outer, cx_weights = Some w, cx_registry = Some v\<rparr>"
   "t_data t = [0x3F800000]"
  shows "execute (if_operator demo_leaf) c = (case (case outer ''a'' of Some t \<Rightarrow> Some t | None \<Rightarrow> w ''a'') of
        None \<Rightarrow> Inl TensorNotFound
      | Some t \<Rightarrow> Inr [map_tensor (\<lambda>f. f + 0x80000000) t])"
proof -
  have "f32_nonzero 0x3F800000" by (simp add: f32_nonzero_def f32_exponent_def)
  moreover have "attr_graph (n_attrs if_node) ''then_branch'' = Some (neg_branch ''a'')"
    by (simp add: if_node_def attr_graph_def)
  ultimately show ?thesis
    by (simp add: if_operator_def slot_operator_def execute_if_def assms cx_input_def cx_optional_input_def
       scope_of_def branch_result)
qed

abbreviation demo_x :: "(string \<times> tensor) list" where
  "demo_x \<equiv> [(''x'', \<lparr>t_data = [1, 2], t_shape = [2]\<rparr>)]"

lemma demo_leaf_neg: "demo_leaf ''Neg'' = Some (unary_operator (\<lambda>f. f + 0x80000000))" "demo_leaf ''If'' = None"
  by (simp_all add: demo_leaf_def)

lemma demo_registry: "s_registry demo_if_session ''Neg'' = Some (unary_operator (\<lambda>f. f + 0x80000000))"
  "s_registry demo_if_session ''If'' = Some (if_operator demo_leaf)"
  by (simp_all add: demo_if_session_parts demo_leaf_neg Let_def)

lemma eval_if_node:
  assumes "env ''c'' = None"
  shows "eval_nodes demo_if_session [if_node] env =
     (case env ''a'' of None \<Rightarrow> Inl TensorNotFound
      | Some t \<Rightarrow> Inr (env(''y'' \<mapsto> map_tensor (\<lambda>f. f + 0x80000000) t)))"
proof -
  have w: "s_weights demo_if_session ''c'' = Some \<lparr>t_data = [0x3F800000], t_shape = []\<rparr>"
    "s_weights demo_if_session ''a'' = None"
    by (simp_all add: demo_if_session_def)
  have op: "n_op if_node = ''If''" "n_inputs if_node = [''c'']" "n_outputs if_node = [''y'']"
    by (simp_all add: if_node_def)
  show ?thesis
    using if_eval [OF refl, of "\<lparr>t_data = [0x3F800000], t_shape = []\<rparr>" env "s_weights demo_if_session" "model_opset demo_if_session"]
    by (cases "env ''a''")
      (simp_all add: op demo_registry eval_node_def make_context_def lookup_input_def w assms bind_outputs_def)
qed

lemma eval_neg_node:
  assumes "env x = Some t" and "x \<noteq> []" and "y \<noteq> []"
  shows "eval_nodes demo_if_session (Node ''Neg'' [] [x] [y] no_attrs # nds) env =
    eval_nodes demo_if_session nds (env(y \<mapsto> map_tensor (\<lambda>f. f + 0x80000000) t))"
  using assms
  by (simp add: demo_registry eval_node_def make_context_def lookup_input_def unary_operator_def Let_def
      cx_input_def cx_optional_input_def bind_outputs_def)

text \<open>
  C25. A node whose result is read only inside a subgraph counts as dead. In this graph the
  If node reads \<open>a\<close> in its branch; the pass removes the producer of \<open>a\<close>, and the run, which
  succeeded, fails with \<open>TensorNotFound\<close>.
\<close>

theorem dead_code_drops_captured:
  "dead_node_elimination (s_nodes demo_if_session) (s_output_names demo_if_session) = [if_node] \<and>
   is_ok (eval_run demo_if_session demo_x) \<and>
   eval_run (demo_if_session\<lparr>s_nodes := [if_node]\<rparr>) demo_x = Inl TensorNotFound"
proof (intro conjI)
  show "dead_node_elimination (s_nodes demo_if_session) (s_output_names demo_if_session) = [if_node]"
    by (simp add: demo_if_session_parts dead_node_elimination_def Let_def if_node_def)
  have fits: "shapes_fit val (s_input_infos demo_if_session) ins" for val ins
    by (simp add: demo_if_session_def)
  have e: "eval_nodes (demo_if_session\<lparr>s_nodes := [if_node]\<rparr>) [if_node] env = eval_nodes demo_if_session [if_node] env" for env
    by (rule eval_nodes_session) simp_all
  show "eval_run (demo_if_session\<lparr>s_nodes := [if_node]\<rparr>) demo_x = Inl TensorNotFound"
    using fits by (simp add: eval_run_def eval_graph_def e eval_if_node del: eval_nodes.simps)
  have "eval_nodes demo_if_session (s_nodes demo_if_session) env =
      eval_nodes demo_if_session [if_node] (env(''a'' \<mapsto> map_tensor (\<lambda>f. f + 0x80000000) t,
        ''b'' \<mapsto> map_tensor (\<lambda>f. f + 0x80000000) (map_tensor (\<lambda>f. f + 0x80000000) t)))"
    if "env ''x'' = Some t" for env t
    using that eval_neg_node by (simp add: demo_if_session_parts(4) del: eval_nodes.simps)
  then have "\<exists>env. eval_nodes demo_if_session (s_nodes demo_if_session) [''x'' \<mapsto> \<lparr>t_data = [1, 2], t_shape = [2]\<rparr>] = Inr env \<and>
      env ''y'' \<noteq> None"
    by (simp add: eval_if_node del: eval_nodes.simps)
  then show "is_ok (eval_run demo_if_session demo_x)"
    using fits by (auto simp: eval_run_def eval_graph_def select_outputs_def Let_def demo_if_session_parts(3))
qed

end
