(* ===== verification/Ordering.thy ===== *)
theory Ordering
  imports DeadCode "HOL-Library.Multiset"
begin

text \<open>
  The order in which the session runs its nodes is the optimizer's and the topological
  sort's choice. In a graph in single-assignment form, evaluation in any order that puts
  the producer of a tensor before its readers gives the same environment. The proof goes
  through a characterisation that does not mention the order: in the final environment
  every node is solved.
\<close>

definition produced :: "node list \<Rightarrow> string set" where
  "produced nds = (\<Union>nd\<in>set nds. set (n_outputs nd)) - {[]}"

lemma produced_simps [simp]: "produced [] = {}"
  "produced (nd # nds) = (set (n_outputs nd) - {[]}) \<union> produced nds"
  "produced (nds @ nds') = produced nds \<union> produced nds'"
  by (auto simp: produced_def)

text \<open>No node reads what it or a later node produces.\<close>

fun forward :: "node list \<Rightarrow> bool" where
  "forward [] = True"
| "forward (nd # nds) = (set (n_inputs nd) \<inter> produced (nd # nds) = {} \<and> forward nds)"

text \<open>The same with the captures of a node's subgraphs among what it reads.\<close>

definition reads :: "node \<Rightarrow> string set" where
  "reads nd = set (n_inputs nd) \<union> set (subgraph_captures nd)"

fun in_order :: "node list \<Rightarrow> bool" where
  "in_order [] = True"
| "in_order (nd # nds) = (reads nd \<inter> produced (nd # nds) = {} \<and> in_order nds)"

definition single_assignment :: "node list \<Rightarrow> bool" where
  "single_assignment nds \<longleftrightarrow> distinct (filter (\<lambda>x. x \<noteq> []) (concat (map n_outputs nds)))"

lemma single_assignment_Cons_iff: "single_assignment (nd # nds) \<longleftrightarrow>
    distinct (filter (\<lambda>x. x \<noteq> []) (n_outputs nd)) \<and> set (n_outputs nd) \<inter> produced nds = {} \<and> single_assignment nds"
  by (auto simp: single_assignment_def produced_def)

lemma single_assignment_Cons:
  "single_assignment (nd # nds) \<Longrightarrow> single_assignment nds \<and> set (n_outputs nd) \<inter> produced nds = {}"
  by (simp add: single_assignment_Cons_iff)

lemma single_assignment_mset:
  assumes "mset nds = mset nds'"
  shows "single_assignment nds \<longleftrightarrow> single_assignment nds'"
proof -
  have "mset (concat (map n_outputs nds)) = mset (concat (map n_outputs nds'))"
    using assms by (simp add: mset_concat image_mset.compositionality [symmetric] flip: mset_map sum_mset_sum_list)
      (metis image_mset.comp mset_map)
  then have "mset (filter (\<lambda>x. x \<noteq> []) (concat (map n_outputs nds)))
      = mset (filter (\<lambda>x. x \<noteq> []) (concat (map n_outputs nds')))" by simp
  then show ?thesis unfolding single_assignment_def by (rule mset_eq_imp_distinct_iff)
qed

section \<open>Solved nodes\<close>

definition solved :: "session \<Rightarrow> tensor_map \<Rightarrow> node \<Rightarrow> bool" where
  "solved s env nd \<longleftrightarrow> (\<exists>oper results. s_registry s (n_op nd) = Some oper \<and>
     execute oper (make_context s nd (map (lookup_input s env) (n_inputs nd)) env) = Inr results \<and>
     (\<forall>x\<in>set (n_outputs nd). x \<noteq> [] \<longrightarrow> bind_outputs (zip (n_outputs nd) results) Map.empty x = env x))"

definition contracts :: "session \<Rightarrow> node list \<Rightarrow> bool" where
  "contracts s nds \<longleftrightarrow> (\<forall>nd\<in>set nds. \<forall>oper. s_registry s (n_op nd) = Some oper \<longrightarrow> operator_contract oper nd)"

definition uncaptured :: "node list \<Rightarrow> string set \<Rightarrow> bool" where
  "uncaptured nds names \<longleftrightarrow> (\<forall>nd\<in>set nds. set (subgraph_captures nd) \<inter> names = {})"

lemma execute_final:
  assumes "contracts s nds" and "nd \<in> set nds" and "s_registry s (n_op nd) = Some oper"
    and "\<forall>x. x \<notin> P \<longrightarrow> env x = env' x" and "set (n_inputs nd) \<inter> P = {}" and "set (subgraph_captures nd) \<inter> P = {}"
    and "\<forall>x\<in>set (inner_names nd). env x = None \<and> env' x = None"
  shows "execute oper (make_context s nd (map (lookup_input s env) (n_inputs nd)) env)
    = execute oper (make_context s nd (map (lookup_input s env') (n_inputs nd)) env')"
proof (rule eval_node_agree)
  show "operator_contract oper nd" using assms(1-3) by (auto simp: contracts_def)
qed (use assms(4-7) in blast)+

lemma bound_at_output:
  assumes "x \<in> set (n_outputs nd)" and "env x = None"
  shows "bind_outputs (zip (n_outputs nd) results) env x = bind_outputs (zip (n_outputs nd) results) Map.empty x"
  by (rule bind_outputs_agree) (simp add: assms)

lemma bound_elsewhere:
  assumes "x \<notin> set (n_outputs nd) \<or> x = []"
  shows "bind_outputs (zip (n_outputs nd) results) env x = env x"
proof (cases "x = []")
  case True
  have "bind_outputs outs env [] = env []" for outs
    unfolding bind_outputs_def by (induction outs arbitrary: env) auto
  with True show ?thesis by simp
next
  case False
  with assms have "x \<notin> fst ` set (zip (n_outputs nd) results)" by (auto dest: set_zip_leftD)
  then show ?thesis by (rule bind_outputs_other)
qed

lemma eval_solved:
  assumes "contracts s all" and "set nds \<subseteq> set all" and "in_order nds" and "single_assignment nds"
    and "apart all env" and "\<forall>x\<in>produced nds. env x = None"
    and "eval_nodes s nds env = Inr env1"
  shows "(\<forall>nd\<in>set nds. solved s env1 nd) \<and> (\<forall>x. x \<notin> produced nds \<longrightarrow> env1 x = env x) \<and> apart all env1"
  using assms
proof (induction nds arbitrary: env)
  case (Cons nd nds)
  obtain oper results where oper: "s_registry s (n_op nd) = Some oper"
    and res: "execute oper (make_context s nd (map (lookup_input s env) (n_inputs nd)) env) = Inr results"
    and rest: "eval_nodes s nds (bind_outputs (zip (n_outputs nd) results) env) = Inr env1"
    using Cons.prems(7) by (auto simp: eval_node_def result_simps split: option.splits)
  let ?env = "bind_outputs (zip (n_outputs nd) results) env"
  have nd: "nd \<in> set all" using Cons.prems(2) by simp
  have ap: "apart all ?env"
    unfolding apart_def
  proof (intro ballI conjI)
    fix n x n' assume "n \<in> set all" "x \<in> set (inner_names n)"
    with Cons.prems(5) nd have "env x = None" "x \<notin> set (n_outputs nd)"
      and *: "n' \<in> set all \<Longrightarrow> x \<notin> set (n_outputs n')" by (auto simp: apart_def)
    then show "?env x = None" by (simp add: bound_elsewhere)
    show "x \<notin> set (n_outputs n')" if "n' \<in> set all" using * that .
  qed
  have sa: "single_assignment nds" "set (n_outputs nd) \<inter> produced nds = {}"
    using single_assignment_Cons [OF Cons.prems(4)] by simp_all
  have new: "?env x = None" if "x \<in> produced nds" for x
  proof -
    have "x \<notin> set (n_outputs nd)" using sa(2) that by blast
    with Cons.prems(6) that show ?thesis by (simp add: bound_elsewhere)
  qed
  have IH: "\<forall>nd\<in>set nds. solved s env1 nd" "\<forall>x. x \<notin> produced nds \<longrightarrow> env1 x = ?env x" "apart all env1"
    using Cons.IH [OF Cons.prems(1) _ _ sa(1) ap _ rest] Cons.prems(2,3) new by auto
  have off: "env1 x = env x" if "x \<notin> produced (nd # nds)" for x
  proof -
    have "x \<notin> set (n_outputs nd) \<or> x = []" "x \<notin> produced nds" using that by auto
    with IH(2) show ?thesis by (simp add: bound_elsewhere)
  qed
  have "execute oper (make_context s nd (map (lookup_input s env1) (n_inputs nd)) env1)
      = execute oper (make_context s nd (map (lookup_input s env) (n_inputs nd)) env)"
  proof (rule execute_final [OF Cons.prems(1) nd oper, where P = "produced (nd # nds)"])
    show "\<forall>x\<in>set (inner_names nd). env1 x = None \<and> env x = None"
      using IH(3) Cons.prems(5) nd by (auto simp: apart_def)
    show "set (subgraph_captures nd) \<inter> produced (nd # nds) = {}"
      using Cons.prems(3) by (auto simp: reads_def)
  qed (use off Cons.prems(3) in \<open>auto simp: reads_def\<close>)
  moreover have "bind_outputs (zip (n_outputs nd) results) Map.empty x = env1 x"
    if "x \<in> set (n_outputs nd)" "x \<noteq> []" for x
  proof -
    have "env x = None" using Cons.prems(6) that by simp
    moreover have "x \<notin> produced nds" using sa(2) that(1) by blast
    ultimately show ?thesis using IH(2) bound_at_output [OF that(1), of env results] by simp
  qed
  ultimately have "solved s env1 nd" using oper res by (auto simp: solved_def)
  with IH off show ?case by simp
qed simp

lemma solved_eval:
  assumes "contracts s all" and "set nds \<subseteq> set all" and "in_order nds"
    and "apart all env" and "apart all env1"
    and "\<forall>nd\<in>set nds. solved s env1 nd" and "\<forall>x. x \<notin> produced nds \<longrightarrow> env1 x = env x"
    and "\<forall>x\<in>produced nds. env x = None \<or> env x = env1 x"
  shows "eval_nodes s nds env = Inr env1"
  using assms
proof (induction nds arbitrary: env)
  case Nil
  then show ?case by (simp add: fun_eq_iff)
next
  case (Cons nd nds)
  have nd: "nd \<in> set all" using Cons.prems(2) by simp
  obtain oper results where oper: "s_registry s (n_op nd) = Some oper"
    and res: "execute oper (make_context s nd (map (lookup_input s env1) (n_inputs nd)) env1) = Inr results"
    and bound: "\<forall>x\<in>set (n_outputs nd). x \<noteq> [] \<longrightarrow> bind_outputs (zip (n_outputs nd) results) Map.empty x = env1 x"
    using Cons.prems(6) by (auto simp: solved_def)
  let ?env = "bind_outputs (zip (n_outputs nd) results) env"
  have "execute oper (make_context s nd (map (lookup_input s env) (n_inputs nd)) env) = Inr results"
    unfolding res [symmetric]
  proof (rule execute_final [OF Cons.prems(1) nd oper, where P = "produced (nd # nds)"])
    show "\<forall>x\<in>set (inner_names nd). env x = None \<and> env1 x = None"
      using Cons.prems(4,5) nd by (auto simp: apart_def)
    show "set (subgraph_captures nd) \<inter> produced (nd # nds) = {}"
      using Cons.prems(3) by (auto simp: reads_def)
  qed (use Cons.prems(3,7) in \<open>auto simp: reads_def\<close>)
  then have step: "eval_node s nd oper env = Inr ?env" by (simp add: eval_node_def)
  have val: "?env x = env1 x" if x: "x \<in> set (n_outputs nd)" "x \<noteq> []" for x
  proof (cases "env x")
    case None
    then show ?thesis using bound x bound_at_output [OF x(1), of env results] by simp
  next
    case (Some t)
    have "env x = None \<or> env x = env1 x" using Cons.prems(8) x by simp
    with Some have "env x = env1 x" by simp
    show ?thesis
    proof (cases "x \<in> fst ` set (zip (n_outputs nd) results)")
      case True
      with x(2) have "?env x = bind_outputs (zip (n_outputs nd) results) Map.empty x"
        by (intro bind_outputs_agree) simp
      with bound x show ?thesis by simp
    next
      case False
      with \<open>env x = env1 x\<close> show ?thesis by (simp add: bind_outputs_other)
    qed
  qed
  have off: "?env x = env x" if "x \<notin> set (n_outputs nd) \<or> x = []" for x
    by (rule bound_elsewhere [OF that])
  have "eval_nodes s nds ?env = Inr env1"
  proof (rule Cons.IH [OF Cons.prems(1)])
    show "apart all ?env"
      using Cons.prems(4) nd off unfolding apart_def by metis
    show "\<forall>x. x \<notin> produced nds \<longrightarrow> env1 x = ?env x"
    proof (intro allI impI)
      fix x assume "x \<notin> produced nds"
      then show "env1 x = ?env x"
        using Cons.prems(7) val [of x] off [of x] by (cases "x \<in> set (n_outputs nd) \<and> x \<noteq> []") auto
    qed
    show "\<forall>x\<in>produced nds. ?env x = None \<or> ?env x = env1 x"
    proof
      fix x assume "x \<in> produced nds"
      then show "?env x = None \<or> ?env x = env1 x"
        using Cons.prems(8) val [of x] off [of x] by (cases "x \<in> set (n_outputs nd) \<and> x \<noteq> []") auto
    qed
  qed (use Cons.prems in auto)
  with step oper show ?case by simp
qed

lemma in_orderI:
  "forward nds \<Longrightarrow> set nds \<subseteq> set all \<Longrightarrow> uncaptured all (produced nds) \<Longrightarrow> in_order nds"
  by (induction nds) (auto simp: reads_def uncaptured_def)

text \<open>Two orders of the same nodes.\<close>

lemma eval_reordered:
  assumes "contracts s nds" and "single_assignment nds"
    and "mset nds' = mset nds" and "in_order nds" and "in_order nds'"
    and "apart nds env" and "\<forall>x\<in>produced nds. env x = None" and "eval_nodes s nds env = Inr env1"
  shows "eval_nodes s nds' env = Inr env1"
proof -
  have set: "set nds' = set nds" using assms(3) by (metis set_mset_mset)
  then have prod: "produced nds' = produced nds" by (simp add: produced_def)
  from eval_solved [OF assms(1) subset_refl assms(4,2,6,7,8)]
  have "\<forall>nd\<in>set nds. solved s env1 nd" "\<forall>x. x \<notin> produced nds \<longrightarrow> env1 x = env x" "apart nds env1" by auto
  then show ?thesis
    using solved_eval [OF assms(1) _ assms(5), of env env1] set assms(6,7) by (simp add: prod)
qed

lemma eval_any_order:
  assumes "contracts s nds" and "captures_outside nds" and "single_assignment nds"
    and "mset nds' = mset nds" and "forward nds" and "forward nds'"
    and "apart nds env" and "\<forall>x\<in>produced nds. env x = None" and "eval_nodes s nds env = Inr env1"
  shows "eval_nodes s nds' env = Inr env1"
proof -
  have set: "set nds' = set nds" using assms(4) by (metis set_mset_mset)
  then have "produced nds' = produced nds" by (simp add: produced_def)
  moreover have "uncaptured nds (produced nds)"
    using assms(2) by (auto simp: uncaptured_def captures_outside_def produced_def)
  ultimately show ?thesis
    using eval_reordered [OF assms(1,3,4) _ _ assms(7,8,9)] in_orderI [of nds nds] in_orderI [of nds' nds] assms(5,6) set
    by simp
qed

section \<open>The topological sort as such an order\<close>

lemma forward_nth:
  assumes "forward nds" and "i \<le> p" and "p < length nds" and "x \<in> set (n_inputs (nds ! i))" and "x \<noteq> []"
  shows "x \<notin> set (n_outputs (nds ! p))"
  using assms
proof (induction nds arbitrary: i p)
  case (Cons nd nds)
  show ?case
  proof (cases i)
    case 0
    have "nd' \<in> set (nd # nds) \<Longrightarrow> x \<notin> set (n_outputs nd')" for nd'
      using Cons.prems 0 by (auto simp: produced_def)
    with Cons.prems(3) show ?thesis by (metis nth_mem)
  next
    case (Suc i')
    with Cons.prems obtain p' where "p = Suc p'" by (cases p) auto
    with Suc Cons show ?thesis by simp
  qed
qed simp

lemma single_assignment_nth:
  assumes "single_assignment nds" and "i < length nds" and "j < length nds" and "x \<noteq> []"
    and "x \<in> set (n_outputs (nds ! i))" and "x \<in> set (n_outputs (nds ! j))"
  shows "i = j"
  using assms
proof (induction nds arbitrary: i j)
  case (Cons nd nds)
  have sa: "single_assignment nds" "set (n_outputs nd) \<inter> produced nds = {}"
    using single_assignment_Cons [OF Cons.prems(1)] by simp_all
  have "x \<in> produced nds" if "k < length nds" "x \<in> set (n_outputs (nds ! k))" for k
    using that Cons.prems(4) by (auto simp: produced_def)
  with sa(2) Cons.prems have "(i = 0) = (j = 0)"
    by (cases i; cases j) auto
  then show ?case using Cons sa(1) by (cases i; cases j) auto
qed simp

lemma forwardI:
  assumes "\<And>xs nd ys. nds = xs @ nd # ys \<Longrightarrow> set (n_inputs nd) \<inter> produced (nd # ys) = {}"
  shows "forward nds"
  using assms
proof (induction nds)
  case (Cons nd nds)
  have "forward nds"
    by (rule Cons.IH) (use Cons.prems [of "nd # xs" for xs] in simp)
  then show ?case using Cons.prems [of "[]"] by simp
qed simp

lemma sort_order:
  assumes "forward (g_nodes g)" and "single_assignment (g_nodes g)" and "set known \<inter> produced (g_nodes g) = {}"
    and "topological_sort g known = Some order"
  shows "forward (map ((!) (g_nodes g)) order)" and "mset (map ((!) (g_nodes g)) order) = mset (g_nodes g)"
proof -
  let ?nodes = "g_nodes g"
  have ord: "distinct order" "set order = {..<length ?nodes}"
    using sort_total [of g known] assms(4) by auto
  then have "mset order = mset [0..<length ?nodes]"
    by (intro set_eq_iff_mset_eq_distinct [THEN iffD1]) (auto simp: atLeast0LessThan)
  then have "mset (map ((!) ?nodes) order) = mset (map ((!) ?nodes) [0..<length ?nodes])" by simp
  then show "mset (map ((!) ?nodes) order) = mset ?nodes" by (simp only: map_nth)
  show "forward (map ((!) ?nodes) order)"
  proof (rule forwardI, rule ccontr)
    fix xs nd ys
    assume split: "map ((!) ?nodes) order = xs @ nd # ys" and bad: "set (n_inputs nd) \<inter> produced (nd # ys) \<noteq> {}"
    from split obtain as i bs where order: "order = as @ i # bs" and nd: "nd = ?nodes ! i" and ys: "ys = map ((!) ?nodes) bs"
      by (auto simp: map_eq_append_conv Cons_eq_map_conv map_eq_Cons_conv)
    from bad obtain x where x: "x \<in> set (n_inputs nd)" "x \<in> produced (nd # ys)" by blast
    then obtain j where j: "j \<in> set (i # bs)" "x \<in> set (n_outputs (?nodes ! j))" "x \<noteq> []"
      by (auto simp: produced_def nd ys)
    have bound: "k < length ?nodes" if "k \<in> set order" for k using ord(2) that by auto
    have "x \<in> set known \<or> (\<forall>nd\<in>set ?nodes. x \<notin> set (n_outputs nd)) \<or> (\<exists>p\<in>set as. x \<in> set (n_outputs (?nodes ! p)))"
    proof (rule sort_producers [where rank = id, OF _ assms(4) [unfolded order]])
      show "id p < (id k :: nat)" if "k < length ?nodes" "p < length ?nodes" "inp \<in> set (n_inputs (?nodes ! k))" "inp \<noteq> []"
        "inp \<in> set (n_outputs (?nodes ! p))" for k p inp
        using forward_nth [OF assms(1), of k p inp] that by force
    qed (use x(1) j(3) nd in auto)
    moreover have "x \<in> produced ?nodes"
      using j bound [of j] by (auto simp: produced_def order)
    ultimately obtain p where p: "p \<in> set as" "x \<in> set (n_outputs (?nodes ! p))"
      using assms(3) by (auto simp: produced_def)
    have "p = j"
      by (rule single_assignment_nth [OF assms(2) _ _ j(3) p(2) j(2)]) (use bound p(1) j(1) in \<open>auto simp: order\<close>)
    with p(1) j(1) ord(1) show False by (auto simp: order)
  qed
qed

end
