(* ===== verification/ConstantFold.thy ===== *)
theory ConstantFold
  imports Ordering OpKinds
begin

text \<open>
  Constant folding (\<open>src/optimizer/constant_fold.rs\<close>): nodes whose inputs are all
  constants are executed while the session is built, their results become weights. It
  keeps the results of a run when the operators read nothing but their inputs and no run
  input has the name of a weight.
\<close>

section \<open>The pass\<close>

definition skip_ops :: "string list" where
  "skip_ops = [''Shape'', ''Dropout'', ''Bernoulli'', ''Multinomial'', ''RandomNormal'', ''RandomUniform'',
     ''RandomNormalLike'', ''RandomUniformLike'']"

text \<open>The tests before the execution.\<close>

definition foldable :: "string list \<Rightarrow> tensor_map \<Rightarrow> node \<Rightarrow> bool" where
  "foldable output_names weights nd \<longleftrightarrow>
     \<not> is_unknown (n_op nd) \<and> n_op nd \<notin> set skip_ops \<and>
     \<not> list_ex (\<lambda>out. out \<in> set output_names) (n_outputs nd) \<and>
     list_all (\<lambda>inp. inp = [] \<or> weights inp \<noteq> None) (n_inputs nd) \<and>
     list_ex (\<lambda>inp. inp \<noteq> []) (n_inputs nd)"

definition fold_context :: "tensor_map \<Rightarrow> node \<Rightarrow> op_context" where
  "fold_context weights nd =
     \<lparr>cx_node = nd, cx_inputs = map (\<lambda>name. if name = [] then None else weights name) (n_inputs nd),
      cx_outer_scope = None, cx_weights = None, cx_registry = None\<rparr>"

text \<open>The weights after the node is folded, or \<open>None\<close> if it is kept.\<close>

definition fold_node :: "(string \<Rightarrow> operator option) \<Rightarrow> string list \<Rightarrow> node \<Rightarrow> tensor_map \<Rightarrow> tensor_map option" where
  "fold_node registry output_names nd weights =
     (if \<not> foldable output_names weights nd then None
      else case registry (n_op nd) of
        None \<Rightarrow> None
      | Some oper \<Rightarrow>
          (case execute oper (fold_context weights nd) of
             Inl _ \<Rightarrow> None
           | Inr results \<Rightarrow> Some (bind_outputs (zip (n_outputs nd) results) weights)))"

fun fold_pass :: "(string \<Rightarrow> operator option) \<Rightarrow> string list \<Rightarrow> node list \<Rightarrow> tensor_map \<Rightarrow> node list \<times> tensor_map \<times> bool" where
  "fold_pass registry output_names [] weights = ([], weights, False)"
| "fold_pass registry output_names (nd # nds) weights =
     (case fold_node registry output_names nd weights of
        None \<Rightarrow> let (keep, weights, folded_any) = fold_pass registry output_names nds weights
          in (nd # keep, weights, folded_any)
      | Some weights \<Rightarrow> let (keep, weights, folded_any) = fold_pass registry output_names nds weights
          in (keep, weights, True))"

lemma fold_pass_shorter:
  "fold_pass registry output_names nds weights = (keep, weights', folded) \<Longrightarrow>
     length keep \<le> length nds \<and> (folded \<longrightarrow> length keep < length nds)"
  by (induction nds arbitrary: weights keep folded) (fastforce split: option.splits prod.splits)+

function constant_fold :: "(string \<Rightarrow> operator option) \<Rightarrow> string list \<Rightarrow> node list \<Rightarrow> tensor_map \<Rightarrow> node list \<times> tensor_map" where
  "constant_fold registry output_names nodes weights =
     (let (keep, weights, folded_any) = fold_pass registry output_names nodes weights
      in if \<not> folded_any then (keep, weights) else constant_fold registry output_names keep weights)"
  by pat_completeness auto
termination
  by (relation "measure (\<lambda>(registry, output_names, nodes, weights). length nodes)")
    (auto dest: fold_pass_shorter [OF sym])

declare constant_fold.simps [simp del]

section \<open>Operators that read their inputs alone\<close>

locale local_operator =
  fixes oper :: operator and nd :: node
  assumes execute_local: "\<And>ins s s' w w' r r'.
      execute oper \<lparr>cx_node = nd, cx_inputs = ins, cx_outer_scope = s, cx_weights = w, cx_registry = r\<rparr> =
      execute oper \<lparr>cx_node = nd, cx_inputs = ins, cx_outer_scope = s', cx_weights = w', cx_registry = r'\<rparr>"
begin

lemma execute_folded:
  assumes "\<forall>x\<in>set (n_inputs nd). x \<noteq> [] \<longrightarrow> weights x = (s_weights s ++ env) x"
  shows "execute oper (fold_context weights nd) = execute oper (make_context s nd (map (lookup_input s env) (n_inputs nd)) env)"
proof -
  have ins: "map (\<lambda>name. if name = [] then None else weights name) (n_inputs nd) = map (lookup_input s env) (n_inputs nd)"
    using assms by (auto simp: lookup_input_def map_add_def split: option.split)
  show ?thesis unfolding fold_context_def make_context_def ins by (rule execute_local)
qed

lemma execute_same_lookup:
  assumes "\<forall>x\<in>set (n_inputs nd). x \<noteq> [] \<longrightarrow> (s_weights s' ++ env') x = (s_weights s ++ env) x"
  shows "execute oper (make_context s' nd (map (lookup_input s' env') (n_inputs nd)) env')
    = execute oper (make_context s nd (map (lookup_input s env) (n_inputs nd)) env)"
proof -
  have ins: "map (lookup_input s' env') (n_inputs nd) = map (lookup_input s env) (n_inputs nd)"
    using assms by (auto simp: lookup_input_def map_add_def split: option.splits)
  show ?thesis unfolding make_context_def ins by (rule execute_local)
qed

end

interpretation pure_local: local_operator "pure_operator slots f" nd for slots f nd
  by unfold_locales (simp add: pure_operator_def Let_def)

interpretation unary_local: local_operator "unary_operator h" nd for h nd
  by unfold_locales (simp add: unary_operator_def Let_def cx_input_def cx_optional_input_def)

section \<open>Preservation\<close>

lemma bind_outputs_simps [simp]: "bind_outputs [] env = env"
  "bind_outputs ((y, t) # outs) env = bind_outputs outs (if y \<noteq> [] then env(y \<mapsto> t) else env)"
  by (simp_all add: bind_outputs_def)

lemma disjoint_dom: "dom m \<inter> dom w = {} \<longleftrightarrow> (\<forall>x. m x = None \<or> w x = None)"
  unfolding disjoint_iff domIff by (rule all_cong1) argo

lemma disjoint_bind:
  assumes "dom m \<inter> dom w = {}" and "\<forall>x\<in>fst ` set outs. x \<noteq> [] \<longrightarrow> w x = None \<and> m x = None"
  shows "dom (bind_outputs outs m) \<inter> dom w = {}"
  unfolding disjoint_dom
proof
  fix x
  show "bind_outputs outs m x = None \<or> w x = None"
    using assms unfolding disjoint_dom bind_outputs_None by (cases "x = []"; cases "x \<in> fst ` set outs") auto
qed

lemma map_add_bind: "w ++ bind_outputs outs env = bind_outputs outs (w ++ env)"
  by (induction outs arbitrary: env) (auto simp: fun_upd_def [symmetric] simp del: fun_upd_apply)

text \<open>Results that become weights, where the environment does not hold their names.\<close>

lemma bind_weights:
  assumes "\<forall>x\<in>fst ` set outs. x \<noteq> [] \<longrightarrow> env x = None"
  shows "bind_outputs outs w ++ env = bind_outputs outs (w ++ env)"
  using assms
proof (induction outs arbitrary: w)
  case (Cons o1 outs)
  obtain y t where o1: "o1 = (y, t)" by fastforce
  have "w(y \<mapsto> t) ++ env = (w ++ env)(y \<mapsto> t)" if "y \<noteq> []"
    using Cons.prems that by (auto simp: o1 map_add_def fun_eq_iff split: option.split)
  with Cons.IH Cons.prems show ?case by (simp add: o1)
qed simp

text \<open>The nodes kept are a part of the nodes, in their order, and the weights change at results of the others only.\<close>

lemma fold_node_weights:
  assumes "fold_node registry output_names nd w = Some w'" and "x \<notin> set (n_outputs nd) \<or> x = []"
  shows "w' x = w x"
  using assms(1) bound_elsewhere [OF assms(2)] by (auto simp: fold_node_def split: if_splits option.splits sum.splits)

lemma fold_pass_kept:
  assumes "fold_pass registry output_names nds w = (keep, w', folded)" and "forward nds" and "single_assignment nds"
  shows "set keep \<subseteq> set nds \<and> produced keep \<subseteq> produced nds \<and> forward keep \<and> single_assignment keep \<and>
    (\<forall>x. x \<notin> produced nds \<or> x \<in> produced keep \<longrightarrow> w' x = w x)"
  using assms
proof (induction nds arbitrary: w keep folded)
  case (Cons nd nds)
  note sa = single_assignment_Cons [OF Cons.prems(3)]
  show ?case
  proof (cases "fold_node registry output_names nd w")
    case None
    then obtain keep' f' where r: "fold_pass registry output_names nds w = (keep', w', f')" and k: "keep = nd # keep'"
      using Cons.prems(1) by (auto split: prod.splits)
    have IH: "set keep' \<subseteq> set nds" "produced keep' \<subseteq> produced nds" "forward keep'" "single_assignment keep'"
      "\<forall>x. x \<notin> produced nds \<or> x \<in> produced keep' \<longrightarrow> w' x = w x"
      using Cons.IH [OF r] Cons.prems(2) sa by auto
    have "single_assignment keep"
      using IH(2,4) sa Cons.prems(3) by (auto simp: k single_assignment_def produced_def)
    moreover have "w' x = w x" if "x \<in> set (n_outputs nd)" "x \<noteq> []" for x
      using IH(5) sa that by blast
    ultimately show ?thesis using IH Cons.prems(2) by (auto simp: k)
  next
    case (Some w1)
    then obtain f' where r: "fold_pass registry output_names nds w1 = (keep, w', f')"
      using Cons.prems(1) by (auto split: prod.splits)
    have IH: "set keep \<subseteq> set nds" "produced keep \<subseteq> produced nds" "forward keep" "single_assignment keep"
      "\<forall>x. x \<notin> produced nds \<or> x \<in> produced keep \<longrightarrow> w' x = w1 x"
      using Cons.IH [OF r] Cons.prems(2) sa by auto
    have "w' x = w x" if "x \<notin> produced (nd # nds) \<or> x \<in> produced keep" for x
    proof -
      have x: "x \<notin> set (n_outputs nd) \<or> x = []" "x \<notin> produced nds \<or> x \<in> produced keep"
        using that sa IH(2) by (auto simp: produced_def)
      from IH(5) x(2) fold_node_weights [OF Some x(1)] show ?thesis by simp
    qed
    with IH show ?thesis by auto
  qed
qed simp

lemma fold_pass_preserves:
  assumes "fold_pass (s_registry s) output_names nds w = (keep, w', folded)"
    and "s' = s\<lparr>s_weights := w'\<rparr>" and "forward nds" and "single_assignment nds"
    and "\<And>nd oper. nd \<in> set nds \<Longrightarrow> s_registry s (n_op nd) = Some oper \<Longrightarrow> local_operator oper nd"
    and "w ++ env' = s_weights s ++ env" and "dom env' \<inter> dom w = {}"
    and "\<forall>x\<in>produced nds. w x = None \<and> env' x = None"
    and "eval_nodes s nds env = Inr env1"
  shows "\<exists>env1'. eval_nodes s' keep env' = Inr env1' \<and> w' ++ env1' = s_weights s ++ env1 \<and> dom env1' \<inter> dom w' = {}"
  using assms
proof (induction nds arbitrary: w keep folded env env')
  case (Cons nd nds)
  note sa = single_assignment_Cons [OF Cons.prems(4)]
  obtain oper results where oper: "s_registry s (n_op nd) = Some oper"
    and res: "execute oper (make_context s nd (map (lookup_input s env) (n_inputs nd)) env) = Inr results"
    and rest: "eval_nodes s nds (bind_outputs (zip (n_outputs nd) results) env) = Inr env1"
    using Cons.prems(9) by (auto simp: eval_node_def result_simps split: option.splits)
  let ?outs = "zip (n_outputs nd) results"
  have outs: "fst ` set ?outs \<subseteq> set (n_outputs nd)" by (auto dest: set_zip_leftD)
  have local: "local_operator oper nd" using Cons.prems(5) oper by simp
  have inputs: "x \<notin> produced (nd # nds)" if "x \<in> set (n_inputs nd)" for x
    using Cons.prems(3) that by auto
  have later: "x \<notin> set (n_outputs nd)" if "x \<in> produced nds" for x
    using sa that by blast
  have new: "\<forall>x\<in>fst ` set ?outs. x \<noteq> [] \<longrightarrow> w x = None \<and> env' x = None"
    using outs Cons.prems(8) by auto
  show ?case
  proof (cases "fold_node (s_registry s) output_names nd w")
    case None
    then obtain keep' f' where r: "fold_pass (s_registry s) output_names nds w = (keep', w', f')" and k: "keep = nd # keep'"
      using Cons.prems(1) by (auto split: prod.splits)
    have "(w' ++ env') x = (s_weights s ++ env) x" if "x \<in> set (n_inputs nd)" for x
    proof -
      have "w' x = w x" using fold_pass_kept [OF Cons.prems(1,3,4)] inputs [OF that] by auto
      then have "(w' ++ env') x = (w ++ env') x" by (simp add: map_add_def cong: option.case_cong)
      then show ?thesis by (simp only: Cons.prems(6))
    qed
    then have "execute oper (make_context s' nd (map (lookup_input s' env') (n_inputs nd)) env') = Inr results"
      unfolding res [symmetric]
      by (intro local_operator.execute_same_lookup [OF local]) (simp add: Cons.prems(2))
    then have step: "eval_node s' nd oper env' = Inr (bind_outputs ?outs env')" by (simp add: eval_node_def)
    have "\<exists>env1'. eval_nodes s' keep' (bind_outputs ?outs env') = Inr env1' \<and>
        w' ++ env1' = s_weights s ++ env1 \<and> dom env1' \<inter> dom w' = {}"
    proof (rule Cons.IH [OF r Cons.prems(2) _ _ _ _ _ _ rest])
      show "w ++ bind_outputs ?outs env' = s_weights s ++ bind_outputs ?outs env"
        by (simp add: map_add_bind Cons.prems(6))
      show "dom (bind_outputs ?outs env') \<inter> dom w = {}"
        using Cons.prems(7) new by (rule disjoint_bind)
      show "\<forall>x\<in>produced nds. w x = None \<and> bind_outputs ?outs env' x = None"
      proof
        fix x assume x: "x \<in> produced nds"
        with Cons.prems(8) have "w x = None \<and> env' x = None" by simp
        then show "w x = None \<and> bind_outputs ?outs env' x = None"
          using later [OF x] bound_elsewhere [of x nd results env'] by simp
      qed
      show "forward nds" "single_assignment nds" using Cons.prems(3) sa by simp_all
    qed (rule Cons.prems(5), simp_all)
    with step oper show ?thesis by (simp add: k Cons.prems(2))
  next
    case (Some w1)
    then obtain f' where r: "fold_pass (s_registry s) output_names nds w1 = (keep, w', f')"
      using Cons.prems(1) by (auto split: prod.splits)
    from Some oper obtain results' where const: "foldable output_names w nd"
      and res': "execute oper (fold_context w nd) = Inr results'" and w1: "w1 = bind_outputs (zip (n_outputs nd) results') w"
      by (auto simp: fold_node_def split: if_splits sum.splits)
    have "w x = (s_weights s ++ env) x" if "x \<in> set (n_inputs nd)" "x \<noteq> []" for x
    proof -
      have "w x \<noteq> None" using const that by (auto simp: foldable_def list_all_iff)
      then have "env' x = None" using Cons.prems(7) by blast
      then have "(w ++ env') x = w x" by (simp add: map_add_def)
      then show ?thesis by (simp only: Cons.prems(6))
    qed
    then have "execute oper (fold_context w nd) = Inr results"
      unfolding res [symmetric] by (intro local_operator.execute_folded [OF local]) blast
    with res' w1 have w1: "w1 = bind_outputs ?outs w" by simp
    show ?thesis
    proof (rule Cons.IH [OF r Cons.prems(2) _ _ _ _ _ _ rest])
      show "w1 ++ env' = s_weights s ++ bind_outputs ?outs env"
        using new by (simp add: w1 bind_weights map_add_bind Cons.prems(6))
      show "dom env' \<inter> dom w1 = {}"
        unfolding w1 using disjoint_bind [of w env' ?outs] Cons.prems(7) new by (simp add: Int_commute)
      show "\<forall>x\<in>produced nds. w1 x = None \<and> env' x = None"
      proof
        fix x assume x: "x \<in> produced nds"
        with Cons.prems(8) have "w x = None \<and> env' x = None" by simp
        then show "w1 x = None \<and> env' x = None"
          using later [OF x] bound_elsewhere [of x nd results w] by (simp add: w1)
      qed
      show "forward nds" "single_assignment nds" using Cons.prems(3) sa by simp_all
    qed (rule Cons.prems(5), simp_all)
  qed
qed simp

lemma constant_fold_eval:
  assumes "constant_fold registry output_names nds w = (keep, w')" and "registry = s_registry s" and "w = s_weights s"
    and "forward nds" and "single_assignment nds"
    and "\<And>nd oper. nd \<in> set nds \<Longrightarrow> s_registry s (n_op nd) = Some oper \<Longrightarrow> local_operator oper nd"
    and "dom env \<inter> dom w = {}" and "\<forall>x\<in>produced nds. w x = None \<and> env x = None"
    and "eval_nodes s nds env = Inr env1"
  shows "\<exists>env1'. eval_nodes (s\<lparr>s_weights := w'\<rparr>) keep env = Inr env1' \<and> w' ++ env1' = s_weights s ++ env1"
  using assms
proof (induction registry output_names nds w arbitrary: s env1 rule: constant_fold.induct)
  case (1 registry output_names nds w)
  obtain keep1 w1 folded where p: "fold_pass registry output_names nds w = (keep1, w1, folded)"
    by (metis prod_cases3)
  let ?s = "s\<lparr>s_weights := w1\<rparr>"
  obtain env2 where env2: "eval_nodes ?s keep1 env = Inr env2" "w1 ++ env2 = s_weights s ++ env1"
    using fold_pass_preserves [OF p [unfolded "1.prems"(2)] refl "1.prems"(4,5,6) _ "1.prems"(7,8,9)] "1.prems"(3)
    by auto
  show ?case
  proof (cases folded)
    case False
    with p "1.prems"(1) have "keep = keep1" "w' = w1" by (simp_all add: constant_fold.simps [of _ _ nds])
    with env2 show ?thesis by auto
  next
    case True
    with p "1.prems"(1) have c: "constant_fold registry output_names keep1 w1 = (keep, w')"
      by (simp add: constant_fold.simps [of _ _ nds])
    have kept: "set keep1 \<subseteq> set nds" "produced keep1 \<subseteq> produced nds" "forward keep1" "single_assignment keep1"
      "\<forall>x. x \<notin> produced nds \<or> x \<in> produced keep1 \<longrightarrow> w1 x = w x"
      using fold_pass_kept [OF p "1.prems"(4,5)] by auto
    have "dom env \<inter> dom w1 = {}"
      unfolding disjoint_dom
    proof
      fix x
      show "env x = None \<or> w1 x = None"
        using kept(5) "1.prems"(7,8) unfolding disjoint_dom by (cases "x \<in> produced nds") auto
    qed
    moreover have "\<forall>x\<in>produced keep1. w1 x = None \<and> env x = None"
      using kept(2,5) "1.prems"(8) by auto
    ultimately have "\<exists>env1'. eval_nodes (?s\<lparr>s_weights := w'\<rparr>) keep env = Inr env1' \<and> w' ++ env1' = s_weights ?s ++ env2"
      using True "1.prems"(2,6) kept(1) env2(1)
      by (intro "1.IH" [OF p [symmetric] refl refl _ c _ _ kept(3,4)]) auto
    with env2(2) show ?thesis by simp
  qed
qed

text \<open>
  C21. Constant folding keeps the result of every run that succeeds, for operators that
  read their inputs alone, in a graph in single-assignment form whose results are not
  inputs or weights, when no input of the run has the name of a weight.
\<close>

theorem constant_fold_preserves_results:
  assumes "forward (s_nodes s)" and "single_assignment (s_nodes s)"
    and "\<And>nd oper. nd \<in> set (s_nodes s) \<Longrightarrow> s_registry s (n_op nd) = Some oper \<Longrightarrow> local_operator oper nd"
    and "\<forall>x\<in>fst ` set inputs. s_weights s x = None" and "distinct (map fst inputs)"
    and "\<forall>x\<in>produced (s_nodes s). s_weights s x = None \<and> x \<notin> fst ` set inputs"
    and "constant_fold (s_registry s) (s_output_names s) (s_nodes s) (s_weights s) = (nodes, weights)"
    and "eval_run s inputs = Inr outputs"
  shows "eval_run (s\<lparr>s_nodes := nodes, s_weights := weights\<rparr>) inputs = Inr outputs"
proof -
  let ?s = "s\<lparr>s_nodes := nodes, s_weights := weights\<rparr>"
  let ?env = "fold (\<lambda>(name, t) env. env(name \<mapsto> t)) inputs Map.empty"
  have env: "?env = map_of inputs" using assms(5) by (simp add: seeded_env)
  from assms(8) obtain env1 where e1: "eval_nodes s (s_nodes s) ?env = Inr env1" "select_outputs s env1 = Inr outputs"
    and fits: "\<exists>val. shapes_fit val (s_input_infos s) (map_of inputs)"
    by (auto simp: eval_run_def eval_graph_def result_simps split: if_splits)
  have "dom ?env \<inter> dom (s_weights s) = {}" using assms(4) env by (auto simp: dom_map_of_conv_image_fst)
  moreover have "\<forall>x\<in>produced (s_nodes s). s_weights s x = None \<and> ?env x = None"
    using assms(6) env by (simp add: map_of_eq_None_iff)
  ultimately obtain env1' where e1': "eval_nodes (s\<lparr>s_weights := weights\<rparr>) nodes ?env = Inr env1'"
    and same: "weights ++ env1' = s_weights s ++ env1"
    using constant_fold_eval [OF assms(7) refl refl assms(1,2,3) _ _ e1(1)] by blast
  have "eval_nodes ?s nodes ?env = Inr env1'"
    using e1' eval_nodes_session [of ?s "s\<lparr>s_weights := weights\<rparr>"] by simp
  moreover have "select_outputs ?s env1' = select_outputs s env1"
  proof -
    have sel: "select_outputs s env = (let value = s_weights s ++ env in
        if list_ex (\<lambda>x. value x = None) (s_output_names s) then Inl TensorNotFound
        else Inr (\<lambda>x. if x \<in> set (s_output_names s) then value x else None))" for s env
      by (simp add: select_outputs_def map_add_def)
    show ?thesis unfolding sel using same by simp
  qed
  ultimately show ?thesis using e1(2) fits by (simp add: eval_run_def eval_graph_def)
qed

section \<open>An example\<close>

definition const_session :: session where
  "const_session = demo_session\<lparr>s_nodes := [Node ''Neg'' [] [''w''] [''a''] no_attrs, Node ''Neg'' [] [''a''] [''y''] no_attrs],
     s_weights := [''w'' \<mapsto> \<lparr>t_data = [1, 2], t_shape = [2]\<rparr>],
     s_registry := [''Neg'' \<mapsto> unary_operator (\<lambda>f. f + 0x80000000)]\<rparr>"

lemma neg_folds: "\<not> is_unknown ''Neg''" "''Neg'' \<notin> set skip_ops"
  by code_simp+

lemma const_session_parts: "s_nodes const_session = [Node ''Neg'' [] [''w''] [''a''] no_attrs, Node ''Neg'' [] [''a''] [''y''] no_attrs]"
  "s_weights const_session = [''w'' \<mapsto> \<lparr>t_data = [1, 2], t_shape = [2]\<rparr>]" "s_output_names const_session = [''y'']"
  "s_registry const_session = [''Neg'' \<mapsto> unary_operator (\<lambda>f. f + 0x80000000)]" "s_input_infos const_session = []"
  by (simp_all add: const_session_def demo_session_def)

lemma const_folded: "constant_fold (s_registry const_session) (s_output_names const_session) (s_nodes const_session) (s_weights const_session)
  = ([Node ''Neg'' [] [''a''] [''y''] no_attrs], [''w'' \<mapsto> \<lparr>t_data = [1, 2], t_shape = [2]\<rparr>,
      ''a'' \<mapsto> \<lparr>t_data = [0x80000001, 0x80000002], t_shape = [2]\<rparr>])"
  unfolding const_session_parts
proof -
  let ?reg = "[''Neg'' \<mapsto> unary_operator (\<lambda>f. f + 0x80000000)]" and ?w = "[''w'' \<mapsto> \<lparr>t_data = [1, 2], t_shape = [2]\<rparr>]"
  let ?w' = "?w(''a'' \<mapsto> \<lparr>t_data = [0x80000001, 0x80000002 :: f32], t_shape = [2]\<rparr>)"
  let ?n1 = "Node ''Neg'' [] [''w''] [''a''] no_attrs" and ?n2 = "Node ''Neg'' [] [''a''] [''y''] no_attrs"
  have n1: "fold_node ?reg [''y''] ?n1 ?w = Some ?w'"
    using neg_folds by (simp add: fold_node_def foldable_def fold_context_def unary_operator_def cx_input_def
        cx_optional_input_def map_tensor_def Let_def)
  have n2: "fold_node ?reg [''y''] ?n2 w = None" for w
    by (simp add: fold_node_def foldable_def)
  show "constant_fold ?reg [''y''] [?n1, ?n2] ?w = ([?n2], ?w')"
    by (simp add: constant_fold.simps [of _ _ "[_, _]"] constant_fold.simps [of _ _ "[_]"] n1 n2)
qed

theorem constant_fold_preserves_results_witness:
  "eval_run (const_session\<lparr>s_nodes := [Node ''Neg'' [] [''a''] [''y''] no_attrs],
     s_weights := [''w'' \<mapsto> \<lparr>t_data = [1, 2], t_shape = [2]\<rparr>, ''a'' \<mapsto> \<lparr>t_data = [0x80000001, 0x80000002], t_shape = [2]\<rparr>]\<rparr>) []
   = Inr [''y'' \<mapsto> \<lparr>t_data = [1, 2], t_shape = [2]\<rparr>]"
proof (rule constant_fold_preserves_results [OF _ _ _ _ _ _ const_folded])
  show "local_operator oper nd" if "s_registry const_session (n_op nd) = Some oper" for oper nd
    using that unary_local.local_operator_axioms by (auto simp: const_session_parts split: if_splits)
  show "eval_run const_session [] = Inr [''y'' \<mapsto> \<lparr>t_data = [1, 2], t_shape = [2]\<rparr>]"
    by (simp add: eval_run_def eval_graph_def const_session_parts eval_node_def make_context_def lookup_input_def
        unary_operator_def cx_input_def cx_optional_input_def map_tensor_def select_outputs_def Let_def fun_eq_iff)
qed (simp_all add: const_session_parts single_assignment_def)

end
