(* ===== verification/CacheWriter.thy ===== *)
theory CacheWriter
  imports Graphs Bytes OpKinds "HOL-Library.AList" "HOL-Library.List_Lexorder" "HOL-Library.Char_ord"
begin

text \<open>
  The writing half of the session cache (\<open>src/session/serialize.rs\<close>): a versioned,
  length-prefixed little-endian format. A writer gives the bytes it appends to \<open>out\<close>;
  those that can fail, because a subgraph is nested too deeply, give a result.
\<close>

definition SESSION_CACHE_MAGIC :: bytes where
  "SESSION_CACHE_MAGIC = as_bytes ''OXIONNXS''"

definition SESSION_CACHE_FORMAT_VERSION :: u32 where
  "SESSION_CACHE_FORMAT_VERSION = 1"

definition MAX_GRAPH_DEPTH :: nat where
  "MAX_GRAPH_DEPTH = 32"

definition HEADER_LEN :: nat where
  "HEADER_LEN = 8 + 4 + 8 + 8"

section \<open>Data\<close>

record model_metadata =
  md_producer_name :: string
  md_producer_version :: string
  md_domain :: string
  md_graph_name :: string
  md_ir_version :: i64
  md_opset_imports :: "(string \<times> i64) list"
  md_custom_metadata :: "(string \<times> string) list"

text \<open>
  What the writer reads of a session; the weight table and every other hash map is the
  association list of its iteration order.
\<close>

record session_parts =
  sp_sorted_nodes :: "node list"
  sp_weights :: "(string \<times> tensor) list"
  sp_metadata :: model_metadata
  sp_input_names :: "string list"
  sp_output_names :: "string list"
  sp_input_infos :: "tensor_info list"
  sp_output_infos :: "tensor_info list"

definition to_onnx :: "dtype \<Rightarrow> i32" where
  "to_onnx d = (case d of F32 \<Rightarrow> 1 | U8 \<Rightarrow> 2 | I8 \<Rightarrow> 3 | U16 \<Rightarrow> 4 | I16 \<Rightarrow> 5 | I32 \<Rightarrow> 6 | I64 \<Rightarrow> 7
     | BoolT \<Rightarrow> 9 | F16 \<Rightarrow> 10 | F64 \<Rightarrow> 11 | U32 \<Rightarrow> 12 | U64 \<Rightarrow> 13 | BF16 \<Rightarrow> 16)"

definition from_onnx :: "i32 \<Rightarrow> dtype option" where
  "from_onnx dt =
     (if dt = 1 then Some F32 else if dt = 2 then Some U8 else if dt = 3 then Some I8
      else if dt = 4 then Some U16 else if dt = 5 then Some I16 else if dt = 6 then Some I32
      else if dt = 7 then Some I64 else if dt = 9 then Some BoolT else if dt = 10 then Some F16
      else if dt = 11 then Some F64 else if dt = 12 then Some U32 else if dt = 13 then Some U64
      else if dt = 16 then Some BF16 else None)"

lemma from_onnx_to_onnx [simp]: "from_onnx (to_onnx d) = Some d"
  by (cases d) (simp_all add: from_onnx_def to_onnx_def)

lemma from_onnx_Some: "from_onnx w = Some d \<Longrightarrow> to_onnx d = w"
  by (auto simp: from_onnx_def to_onnx_def split: if_splits)

section \<open>Scalars, strings and lists\<close>

definition put_u32 :: "u32 \<Rightarrow> bytes" where
  "put_u32 v = le_bytes 4 (unat v)"

definition put_u64 :: "u64 \<Rightarrow> bytes" where
  "put_u64 v = le_bytes 8 (unat v)"

definition put_i64 :: "i64 \<Rightarrow> bytes" where
  "put_i64 v = le_bytes 8 (unat v)"

definition put_i32 :: "i32 \<Rightarrow> bytes" where
  "put_i32 v = le_bytes 4 (unat v)"

definition put_count :: "nat \<Rightarrow> bytes" where
  "put_count n = put_u64 (of_nat n)"

definition put_bytes :: "bytes \<Rightarrow> bytes" where
  "put_bytes bs = put_u64 (of_nat (length bs)) @ bs"

definition put_str :: "string \<Rightarrow> bytes" where
  "put_str s = put_bytes (as_bytes s)"

text \<open>The shape every list writer has: the count, then the elements.\<close>

definition put_list :: "('a \<Rightarrow> bytes) \<Rightarrow> 'a list \<Rightarrow> bytes" where
  "put_list put xs = put_count (length xs) @ concat (map put xs)"

definition put_str_list :: "string list \<Rightarrow> bytes" where
  "put_str_list items = put_list put_str items"

definition put_f32_slice :: "f32 list \<Rightarrow> bytes" where
  "put_f32_slice xs = put_list put_u32 xs"

definition put_i64_list :: "i64 list \<Rightarrow> bytes" where
  "put_i64_list xs = put_list put_i64 xs"

definition put_usize_slice :: "nat list \<Rightarrow> bytes" where
  "put_usize_slice dims = put_list (\<lambda>d. put_u64 (of_nat d)) dims"

definition put_tensor :: "tensor \<Rightarrow> bytes" where
  "put_tensor t = put_usize_slice (t_shape t) @ put_f32_slice (t_data t)"

definition put_optional :: "('a \<Rightarrow> bytes) \<Rightarrow> 'a option \<Rightarrow> bytes" where
  "put_optional put x = (case x of Some y \<Rightarrow> 1 # put y | None \<Rightarrow> [0])"

definition put_optional_usize_slice :: "nat option list \<Rightarrow> bytes" where
  "put_optional_usize_slice dims = put_list (put_optional (\<lambda>d. put_u64 (of_nat d))) dims"

definition put_optional_str_list :: "string option list \<Rightarrow> bytes" where
  "put_optional_str_list items = put_list (put_optional put_str) items"

definition put_tensor_info :: "tensor_info \<Rightarrow> bytes" where
  "put_tensor_info info =
     put_str (in_name info) @ put_i32 (to_onnx (in_dtype info)) @
     put_optional_usize_slice (in_shape info) @ put_optional_str_list (in_dim_params info)"

definition put_tensor_info_list :: "tensor_info list \<Rightarrow> bytes" where
  "put_tensor_info_list infos = put_list put_tensor_info infos"

text \<open>The entries of a map in key order, so that the encoding does not depend on hashing.\<close>

definition sorted_entries :: "(string \<times> 'v) list \<Rightarrow> (string \<times> 'v) list" where
  "sorted_entries m = sort_key fst m"

definition put_pair :: "('v \<Rightarrow> bytes) \<Rightarrow> string \<times> 'v \<Rightarrow> bytes" where
  "put_pair put entry = put_str (fst entry) @ put (snd entry)"

definition put_map :: "('v \<Rightarrow> bytes) \<Rightarrow> (string \<times> 'v) list \<Rightarrow> bytes" where
  "put_map put m = put_list (put_pair put) (sorted_entries m)"

section \<open>Attributes, nodes and graphs\<close>

text \<open>
  The writers of attributes and nodes take the writer of the subgraphs one level deeper,
  \<open>|g| put_graph(out, g, depth + 1)\<close>; \<open>put_graph\<close> ties the recursion.
\<close>

definition put_list_result :: "('a \<Rightarrow> onnx_error + bytes) \<Rightarrow> 'a list \<Rightarrow> onnx_error + bytes" where
  "put_list_result put xs =
     rbind (rmap put xs) (\<lambda>bss. Inr (put_count (length xs) @ concat bss))"

definition put_attributes :: "(graph \<Rightarrow> onnx_error + bytes) \<Rightarrow> attributes \<Rightarrow> onnx_error + bytes" where
  "put_attributes put_subgraph attrs =
     rbind (put_list_result (\<lambda>(name, value). rbind (put_subgraph value) (\<lambda>bs. Inr (put_str name @ bs)))
         (sorted_entries (at_graphs attrs))) (\<lambda>graphs.
     Inr (put_map put_u32 (at_floats attrs) @ put_map put_i64 (at_ints attrs) @
       put_map put_str (at_strings attrs) @ put_map put_tensor (at_tensors attrs) @
       put_map put_f32_slice (at_float_lists attrs) @ put_map put_i64_list (at_int_lists attrs) @
       put_map put_str_list (at_string_lists attrs) @ graphs))"

definition put_node :: "(graph \<Rightarrow> onnx_error + bytes) \<Rightarrow> node \<Rightarrow> onnx_error + bytes" where
  "put_node put_subgraph nd =
     rbind (put_attributes put_subgraph (n_attrs nd)) (\<lambda>attrs.
     Inr (put_str (n_op nd) @ put_str (n_name nd) @ put_str_list (n_inputs nd) @
       put_str_list (n_outputs nd) @ attrs))"

function put_graph :: "nat \<Rightarrow> graph \<Rightarrow> onnx_error + bytes" where
  "put_graph depth g =
     (if depth > MAX_GRAPH_DEPTH then Inl InvalidModel
      else rbind (put_list_result (put_node (\<lambda>g'. put_graph (depth + 1) g')) (g_nodes g)) (\<lambda>nodes.
        Inr (put_str (g_name g) @ nodes @ put_str_list (g_input_names g) @
          put_str_list (g_output_names g) @ put_tensor_info_list (g_input_infos g) @
          put_tensor_info_list (g_output_infos g))))"
  by pat_completeness auto
termination
  by (relation "measure (\<lambda>(depth, g). Suc MAX_GRAPH_DEPTH - depth)") auto

declare put_graph.simps [simp del]

section \<open>The file\<close>

definition put_metadata :: "model_metadata \<Rightarrow> bytes" where
  "put_metadata md =
     put_str (md_producer_name md) @ put_str (md_producer_version md) @ put_str (md_domain md) @
     put_str (md_graph_name md) @ put_i64 (md_ir_version md) @
     put_list (put_pair put_i64) (md_opset_imports md) @
     put_map put_str (md_custom_metadata md)"

definition to_optimized_bytes :: "session_parts \<Rightarrow> onnx_error + bytes" where
  "to_optimized_bytes s =
     rbind (put_list_result (put_node (put_graph 1)) (sp_sorted_nodes s)) (\<lambda>nodes.
     Inr (SESSION_CACHE_MAGIC @ put_u32 SESSION_CACHE_FORMAT_VERSION @
       put_count (length (sp_sorted_nodes s)) @ put_count (length (sp_weights s)) @
       put_metadata (sp_metadata s) @ put_str_list (sp_input_names s) @
       put_str_list (sp_output_names s) @ put_tensor_info_list (sp_input_infos s) @
       put_tensor_info_list (sp_output_infos s) @ nodes @
       put_map put_tensor (sp_weights s)))"

end
