(* ===== verification/CacheReader.thy ===== *)
theory CacheReader
  imports CacheWriter
begin

text \<open>
  The reading half of the session cache (\<open>src/session/serialize.rs\<close>). A \<open>Reader\<close> is the
  bytes that remain, \<open>&bytes[pos..]\<close>; \<open>pos\<close> itself only occurs in the text of errors. Every
  read gives the value and the reader after it, or an error.
\<close>

type_synonym 'a reader = "bytes \<Rightarrow> onnx_error + 'a \<times> bytes"

section \<open>Scalars\<close>

definition reader_take :: "nat \<Rightarrow> bytes reader" where
  "reader_take n r = (if length r < n then Inl ParseError else Inr (take n r, drop n r))"

definition reader_u8 :: "u8 reader" where
  "reader_u8 r = rbind (reader_take 1 r) (\<lambda>(b, r). Inr (b ! 0, r))"

definition reader_u32 :: "u32 reader" where
  "reader_u32 r = rbind (reader_take 4 r) (\<lambda>(b, r). Inr (of_le b, r))"

definition reader_i32 :: "i32 reader" where
  "reader_i32 r = reader_u32 r"

definition reader_u64 :: "u64 reader" where
  "reader_u64 r = rbind (reader_take 8 r) (\<lambda>(b, r). Inr (of_le b, r))"

definition reader_i64 :: "i64 reader" where
  "reader_i64 r = reader_u64 r"

definition reader_f32 :: "f32 reader" where
  "reader_f32 r = rbind (reader_take 4 r) (\<lambda>(b, r). Inr (of_le b, r))"

text \<open>An element count, rejected unless the input could hold that many elements.\<close>

definition reader_count :: "nat \<Rightarrow> nat reader" where
  "reader_count min_bytes_each r =
     rbind (reader_u64 r) (\<lambda>(raw, r).
     let n = unat raw; affordable = length r div max min_bytes_each 1
     in if n > affordable then Inl ParseError else Inr (n, r))"

text \<open>\<open>for _ in 0..n { out.push(read(self)?) }\<close>\<close>

fun read_n :: "nat \<Rightarrow> 'a reader \<Rightarrow> 'a list reader" where
  "read_n 0 read r = Inr ([], r)"
| "read_n (Suc n) read r =
     rbind (read r) (\<lambda>(x, r). rbind (read_n n read r) (\<lambda>(xs, r). Inr (x # xs, r)))"

definition read_list :: "nat \<Rightarrow> 'a reader \<Rightarrow> 'a list reader" where
  "read_list min_bytes_each read r =
     rbind (reader_count min_bytes_each r) (\<lambda>(n, r). read_n n read r)"

section \<open>Strings, lists and tensors\<close>

text \<open>\<open>String::from_utf8\<close>\<close>

definition from_utf8 :: "bytes \<Rightarrow> onnx_error + string" where
  "from_utf8 b = (if utf8_valid b then Inr (map (\<lambda>b. char_of (unat b)) b) else Inl ParseError)"

definition reader_string :: "string reader" where
  "reader_string r =
     rbind (reader_count 1 r) (\<lambda>(len, r).
     rbind (reader_take len r) (\<lambda>(b, r).
     rbind (from_utf8 b) (\<lambda>s. Inr (s, r))))"

definition reader_string_list :: "string list reader" where
  "reader_string_list r = read_list 8 reader_string r"

definition reader_f32_vec :: "f32 list reader" where
  "reader_f32_vec r =
     rbind (reader_count 4 r) (\<lambda>(n, r).
     rbind (reader_take (n * 4) r) (\<lambda>(b, r).
     Inr (map of_le (chunks_exact 4 b), r)))"

definition reader_i64_vec :: "i64 list reader" where
  "reader_i64_vec r = read_list 8 reader_i64 r"

definition reader_usize :: "nat reader" where
  "reader_usize r = rbind (reader_u64 r) (\<lambda>(raw, r). Inr (unat raw, r))"

definition reader_usize_vec :: "nat list reader" where
  "reader_usize_vec r = read_list 8 reader_usize r"

definition reader_optional :: "'a reader \<Rightarrow> 'a option reader" where
  "reader_optional read r =
     rbind (reader_u8 r) (\<lambda>(tag, r).
     if tag = 0 then Inr (None, r)
     else if tag = 1 then rbind (read r) (\<lambda>(x, r). Inr (Some x, r))
     else Inl ParseError)"

definition reader_optional_usize_vec :: "nat option list reader" where
  "reader_optional_usize_vec r = read_list 1 (reader_optional reader_usize) r"

definition reader_optional_string_vec :: "string option list reader" where
  "reader_optional_string_vec r = read_list 1 (reader_optional reader_string) r"

text \<open>\<open>Tensor::try_new\<close>: the element count with checked multiplication.\<close>

definition try_new :: "f32 list \<Rightarrow> nat list \<Rightarrow> onnx_error + tensor" where
  "try_new xs shape =
     (case checked_product 1 shape of
        None \<Rightarrow> Inl ShapeMismatch
      | Some expected \<Rightarrow>
          if length xs \<noteq> expected then Inl ShapeMismatch
          else Inr \<lparr>t_data = xs, t_shape = shape\<rparr>)"

definition reader_tensor :: "tensor reader" where
  "reader_tensor r =
     rbind (reader_usize_vec r) (\<lambda>(shape, r).
     rbind (reader_f32_vec r) (\<lambda>(xs, r).
     rbind (try_new xs shape) (\<lambda>t. Inr (t, r))))"

definition reader_tensor_info :: "tensor_info reader" where
  "reader_tensor_info r =
     rbind (reader_string r) (\<lambda>(name, r).
     rbind (reader_i32 r) (\<lambda>(raw_dtype, r).
     rbind (case from_onnx raw_dtype of None \<Rightarrow> Inl ParseError | Some d \<Rightarrow> Inr d) (\<lambda>d.
     rbind (reader_optional_usize_vec r) (\<lambda>(shape, r).
     rbind (reader_optional_string_vec r) (\<lambda>(dim_params, r).
     Inr (\<lparr>in_name = name, in_dtype = d, in_shape = shape, in_dim_params = dim_params\<rparr>, r))))))"

definition reader_tensor_info_list :: "tensor_info list reader" where
  "reader_tensor_info_list r = read_list 8 reader_tensor_info r"

section \<open>Attributes, nodes and graphs\<close>

definition reader_pair :: "'v reader \<Rightarrow> (string \<times> 'v) reader" where
  "reader_pair read r =
     rbind (reader_string r) (\<lambda>(key, r). rbind (read r) (\<lambda>(x, r). Inr ((key, x), r)))"

text \<open>\<open>map.insert(key, value)\<close> for every entry, in turn.\<close>

definition insert_all :: "(string \<times> 'v) list \<Rightarrow> (string \<times> 'v) list" where
  "insert_all entries = fold (\<lambda>(key, x) m. AList.update key x m) entries []"

definition reader_map :: "nat \<Rightarrow> 'v reader \<Rightarrow> (string \<times> 'v) list reader" where
  "reader_map min_bytes_each read r =
     rbind (read_list min_bytes_each (reader_pair read) r) (\<lambda>(entries, r). Inr (insert_all entries, r))"

definition reader_attributes :: "graph reader \<Rightarrow> attributes reader" where
  "reader_attributes read_subgraph r =
     rbind (reader_map 8 reader_f32 r) (\<lambda>(floats, r).
     rbind (reader_map 8 reader_i64 r) (\<lambda>(ints, r).
     rbind (reader_map 8 reader_string r) (\<lambda>(strings, r).
     rbind (reader_map 8 reader_tensor r) (\<lambda>(tensors, r).
     rbind (reader_map 8 reader_f32_vec r) (\<lambda>(float_lists, r).
     rbind (reader_map 8 reader_i64_vec r) (\<lambda>(int_lists, r).
     rbind (reader_map 8 reader_string_list r) (\<lambda>(string_lists, r).
     rbind (reader_map 8 read_subgraph r) (\<lambda>(graphs, r).
     Inr (Attributes floats ints strings tensors float_lists int_lists string_lists graphs, r)))))))))"

definition reader_node :: "graph reader \<Rightarrow> node reader" where
  "reader_node read_subgraph r =
     rbind (reader_string r) (\<lambda>(op, r).
     rbind (reader_string r) (\<lambda>(name, r).
     rbind (reader_string_list r) (\<lambda>(inputs, r).
     rbind (reader_string_list r) (\<lambda>(outputs, r).
     rbind (reader_attributes read_subgraph r) (\<lambda>(attrs, r).
     Inr (Node (op_parse op) name inputs outputs attrs, r))))))"

function reader_graph :: "nat \<Rightarrow> graph reader" where
  "reader_graph depth r =
     (if depth > MAX_GRAPH_DEPTH then Inl ParseError
      else
        rbind (reader_string r) (\<lambda>(name, r).
        rbind (read_list 8 (reader_node (\<lambda>r. reader_graph (depth + 1) r)) r) (\<lambda>(nodes, r).
        rbind (reader_string_list r) (\<lambda>(input_names, r).
        rbind (reader_string_list r) (\<lambda>(output_names, r).
        rbind (reader_tensor_info_list r) (\<lambda>(input_infos, r).
        rbind (reader_tensor_info_list r) (\<lambda>(output_infos, r).
        Inr (Graph name nodes input_names output_names input_infos output_infos, r))))))))"
  by pat_completeness auto
termination
  by (relation "measure (\<lambda>(depth, r). Suc MAX_GRAPH_DEPTH - depth)") auto

declare reader_graph.simps [simp del]

section \<open>The file\<close>

definition reader_metadata :: "model_metadata reader" where
  "reader_metadata r =
     rbind (reader_string r) (\<lambda>(producer_name, r).
     rbind (reader_string r) (\<lambda>(producer_version, r).
     rbind (reader_string r) (\<lambda>(domn, r).
     rbind (reader_string r) (\<lambda>(graph_name, r).
     rbind (reader_i64 r) (\<lambda>(ir_version, r).
     rbind (read_list 16 (reader_pair reader_i64) r) (\<lambda>(opset_imports, r).
     rbind (reader_map 16 reader_string r) (\<lambda>(custom_metadata, r).
     Inr (\<lparr>md_producer_name = producer_name, md_producer_version = producer_version,
       md_domain = domn, md_graph_name = graph_name, md_ir_version = ir_version,
       md_opset_imports = opset_imports, md_custom_metadata = custom_metadata\<rparr>, r))))))))"

record cache_header =
  ch_format_version :: u32
  ch_node_count :: u64
  ch_weight_count :: u64

definition read_header :: "bytes \<Rightarrow> onnx_error + cache_header \<times> bytes" where
  "read_header bs =
     (if length bs < HEADER_LEN then Inl ParseError
      else
        rbind (reader_take 8 bs) (\<lambda>(magic, r).
        if magic \<noteq> SESSION_CACHE_MAGIC then Inl ParseError
        else rbind (reader_u32 r) (\<lambda>(format_version, r).
        if format_version \<noteq> SESSION_CACHE_FORMAT_VERSION then Inl ParseError
        else rbind (reader_u64 r) (\<lambda>(node_count, r).
        rbind (reader_u64 r) (\<lambda>(weight_count, r).
        Inr (\<lparr>ch_format_version = format_version, ch_node_count = node_count,
          ch_weight_count = weight_count\<rparr>, r))))))"

definition peek_optimized_header :: "bytes \<Rightarrow> onnx_error + cache_header" where
  "peek_optimized_header bs = rbind (read_header bs) (\<lambda>(header, r). Inr header)"

record cached_graph =
  cg_graph :: graph
  cg_weights :: "(string \<times> tensor) list"
  cg_metadata :: model_metadata

text \<open>The body up to the end of the weight table, then the file.\<close>

definition decode_body :: "cache_header \<Rightarrow> cached_graph reader" where
  "decode_body header r =
     rbind (reader_metadata r) (\<lambda>(metadata, r).
     rbind (reader_string_list r) (\<lambda>(input_names, r).
     rbind (reader_string_list r) (\<lambda>(output_names, r).
     rbind (reader_tensor_info_list r) (\<lambda>(input_infos, r).
     rbind (reader_tensor_info_list r) (\<lambda>(output_infos, r).
     rbind (reader_count 8 r) (\<lambda>(node_count, r).
     if of_nat node_count \<noteq> ch_node_count header then Inl ParseError
     else rbind (read_n node_count (reader_node (reader_graph 1)) r) (\<lambda>(nodes, r).
     rbind (reader_count 8 r) (\<lambda>(weight_count, r).
     if of_nat weight_count \<noteq> ch_weight_count header then Inl ParseError
     else rbind (read_n weight_count (reader_pair reader_tensor) r) (\<lambda>(weights, r).
     Inr (\<lparr>cg_graph = Graph (md_graph_name metadata) nodes input_names output_names input_infos output_infos,
       cg_weights = insert_all weights, cg_metadata = metadata\<rparr>, r))))))))))"

definition decode :: "bytes \<Rightarrow> onnx_error + cached_graph" where
  "decode bs =
     rbind (read_header bs) (\<lambda>(header, r).
     rbind (decode_body header r) (\<lambda>(cached, r).
     if r \<noteq> [] then Inl ParseError else Inr cached))"

end
