(* ===== verification/CacheCodec.thy ===== *)
theory CacheCodec
  imports CacheReader
begin

text \<open>
  The contract between the writers and the readers of the session cache: a writer and its
  reader are a codec when every value is read back and the reader decides on what it
  consumes alone, so that more input after it changes nothing. Lists, options, pairs and
  maps of a codec are codecs again.
\<close>

section \<open>Readers that decide on what they consume\<close>

definition stable :: "'a reader \<Rightarrow> bool" where
  "stable get \<longleftrightarrow> (\<forall>r x r' q. get r = Inr (x, r') \<longrightarrow> get (r @ q) = Inr (x, r' @ q))"

named_theorems stable_rules \<open>compositional rules for stable readers\<close>

lemma stableI: "(\<And>r x r' q. get r = Inr (x, r') \<Longrightarrow> get (r @ q) = Inr (x, r' @ q)) \<Longrightarrow> stable get"
  by (simp add: stable_def)

lemma stableD: "stable get \<Longrightarrow> get r = Inr (x, r') \<Longrightarrow> get (r @ q) = Inr (x, r' @ q)"
  by (simp add: stable_def)

lemma stable_bind [stable_rules]:
  "stable f \<Longrightarrow> (\<And>x. stable (g x)) \<Longrightarrow> stable (\<lambda>r. rbind (f r) (\<lambda>(x, r). g x r))"
  by (rule stableI) (fastforce simp: result_simps stable_def)

lemma stable_lift [stable_rules]:
  "(\<And>x. stable (g x)) \<Longrightarrow> stable (\<lambda>r. rbind m (\<lambda>x. g x r))"
  by (rule stableI) (auto simp: result_simps dest: stableD)

lemma stable_return [stable_rules]: "stable (\<lambda>r. Inr (x, r))"
  by (simp add: stable_def)

lemma stable_error [stable_rules]: "stable (\<lambda>r. Inl e)"
  by (simp add: stable_def)

lemma stable_if [stable_rules]: "stable f \<Longrightarrow> stable g \<Longrightarrow> stable (\<lambda>r. if b then f r else g r)"
  by (cases b) simp_all

lemma stable_take [stable_rules]: "stable (reader_take n)"
  by (rule stableI) (auto simp: reader_take_def split: if_splits)

lemma stable_scalars [stable_rules]: "stable reader_u8" "stable reader_u32" "stable reader_i32"
  "stable reader_u64" "stable reader_i64" "stable reader_f32" "stable reader_usize"
  unfolding reader_u8_def [abs_def] reader_u32_def [abs_def] reader_i32_def [abs_def] reader_u64_def [abs_def]
    reader_i64_def [abs_def] reader_f32_def [abs_def] reader_usize_def [abs_def]
  by (intro stable_rules)+

lemma stable_count [stable_rules]: "stable (reader_count m)"
proof (rule stableI)
  fix r n r' q
  assume "reader_count m r = Inr (n, r')"
  then obtain raw where u: "reader_u64 r = Inr (raw, r')" and n: "n = unat raw" "n \<le> length r' div max m 1"
    by (auto simp: reader_count_def Let_def result_simps split: if_splits)
  have "length r' div max m 1 \<le> length (r' @ q) div max m 1" by (rule div_le_mono) simp
  with n have "n \<le> length (r' @ q) div max m 1" by linarith
  then show "reader_count m (r @ q) = Inr (n, r' @ q)"
    using n(1) stableD [OF stable_scalars(4) u, of q] by (simp add: reader_count_def Let_def)
qed

lemma stable_read_n [stable_rules]: "stable get \<Longrightarrow> stable (read_n n get)"
  by (induction n) (auto intro: stable_rules simp only: read_n.simps [abs_def])

lemma stable_read_list [stable_rules]: "stable get \<Longrightarrow> stable (read_list m get)"
  unfolding read_list_def [abs_def] by (intro stable_rules)

lemma stable_optional [stable_rules]: "stable get \<Longrightarrow> stable (reader_optional get)"
  unfolding reader_optional_def [abs_def] by (intro stable_rules)

lemma stable_string [stable_rules]: "stable reader_string"
  unfolding reader_string_def [abs_def] by (intro stable_rules)

lemma stable_pair [stable_rules]: "stable get \<Longrightarrow> stable (reader_pair get)"
  unfolding reader_pair_def [abs_def] by (intro stable_rules)

lemma stable_map [stable_rules]: "stable get \<Longrightarrow> stable (reader_map m get)"
  unfolding reader_map_def [abs_def] by (intro stable_rules)

lemma stable_lists [stable_rules]: "stable reader_string_list" "stable reader_f32_vec" "stable reader_i64_vec"
  "stable reader_usize_vec" "stable reader_optional_usize_vec" "stable reader_optional_string_vec"
  unfolding reader_string_list_def [abs_def] reader_f32_vec_def [abs_def] reader_i64_vec_def [abs_def]
    reader_usize_vec_def [abs_def] reader_optional_usize_vec_def [abs_def] reader_optional_string_vec_def [abs_def]
  by (intro stable_rules)+

lemma stable_tensor [stable_rules]: "stable reader_tensor"
  unfolding reader_tensor_def [abs_def] by (intro stable_rules)

lemma stable_tensor_info [stable_rules]: "stable reader_tensor_info"
  unfolding reader_tensor_info_def [abs_def] by (intro stable_rules)

lemma stable_tensor_info_list [stable_rules]: "stable reader_tensor_info_list"
  unfolding reader_tensor_info_list_def [abs_def] by (intro stable_rules)

lemma stable_attributes [stable_rules]: "stable get \<Longrightarrow> stable (reader_attributes get)"
  unfolding reader_attributes_def [abs_def] by (intro stable_rules)

lemma stable_node [stable_rules]: "stable get \<Longrightarrow> stable (reader_node get)"
  unfolding reader_node_def [abs_def] by (intro stable_rules)

lemma stable_graph [stable_rules]: "stable (reader_graph depth)"
proof (induction "Suc MAX_GRAPH_DEPTH - depth" arbitrary: depth rule: less_induct)
  case less
  show ?case
  proof (cases "depth > MAX_GRAPH_DEPTH")
    case False
    then have "stable (reader_graph (depth + 1))" by (intro less) simp
    then show ?thesis
      using False by (subst reader_graph.simps [abs_def]) (simp only: if_False, intro stable_rules)
  qed (simp add: reader_graph.simps [abs_def] stable_rules)
qed

lemma stable_metadata [stable_rules]: "stable reader_metadata"
  unfolding reader_metadata_def [abs_def] by (intro stable_rules)

lemma stable_body: "stable (decode_body header)"
  unfolding decode_body_def [abs_def] by (intro stable_rules)

lemma stable_header: "stable read_header"
proof (rule stableI)
  fix r x r' q
  assume h: "read_header r = Inr (x, r')"
  let ?rest = "\<lambda>r. rbind (reader_take 8 r) (\<lambda>(magic, r).
        if magic \<noteq> SESSION_CACHE_MAGIC then Inl ParseError
        else rbind (reader_u32 r) (\<lambda>(format_version, r).
        if format_version \<noteq> SESSION_CACHE_FORMAT_VERSION then Inl ParseError
        else rbind (reader_u64 r) (\<lambda>(node_count, r).
        rbind (reader_u64 r) (\<lambda>(weight_count, r).
        Inr (\<lparr>ch_format_version = format_version, ch_node_count = node_count,
          ch_weight_count = weight_count\<rparr>, r)))))"
  have "stable ?rest" by (intro stable_rules)
  moreover have "?rest r = Inr (x, r')" and "HEADER_LEN \<le> length r"
    using h by (auto simp: read_header_def split: if_splits)
  ultimately show "read_header (r @ q) = Inr (x, r' @ q)"
    by (auto simp: read_header_def dest: stableD)
qed

section \<open>Codecs\<close>

text \<open>
  What a Rust value of the type always satisfies: lengths and dimensions are \<open>usize\<close>,
  strings are UTF-8 and the keys of a map are distinct.
\<close>

definition list_rep :: "('a \<Rightarrow> bool) \<Rightarrow> 'a list \<Rightarrow> bool" where
  "list_rep rep xs \<longleftrightarrow> length xs \<le> usize_max \<and> (\<forall>x\<in>set xs. rep x)"

definition str_rep :: "string \<Rightarrow> bool" where
  "str_rep s \<longleftrightarrow> str_ok s \<and> length s \<le> usize_max"

definition opt_rep :: "('a \<Rightarrow> bool) \<Rightarrow> 'a option \<Rightarrow> bool" where
  "opt_rep rep x \<longleftrightarrow> (\<forall>y. x = Some y \<longrightarrow> rep y)"

definition pair_rep :: "('v \<Rightarrow> bool) \<Rightarrow> string \<times> 'v \<Rightarrow> bool" where
  "pair_rep rep kv \<longleftrightarrow> str_rep (fst kv) \<and> rep (snd kv)"

definition map_rep :: "('v \<Rightarrow> bool) \<Rightarrow> (string \<times> 'v) list \<Rightarrow> bool" where
  "map_rep rep m \<longleftrightarrow> list_rep (pair_rep rep) m \<and> distinct (map fst m)"

lemma usize_max_word: "n \<le> usize_max \<Longrightarrow> unat (of_nat n :: u64) = n"
  by (simp add: usize_max_def unat_of_nat)

lemma reader_u64_put [simp]: "reader_u64 (put_u64 w @ r) = Inr (w, r)"
  by (simp add: reader_u64_def put_u64_def reader_take_def)

lemma reader_u32_put [simp]: "reader_u32 (put_u32 w @ r) = Inr (w, r)"
  by (simp add: reader_u32_def put_u32_def reader_take_def)

lemma length_put_scalars [simp]: "length (put_u64 w) = 8" "length (put_u32 v) = 4" "length (put_i64 w) = 8"
  "length (put_i32 v) = 4" "length (put_count n) = 8"
  by (simp_all add: put_u64_def put_u32_def put_i64_def put_i32_def put_count_def)

lemma reader_count_put:
  assumes "n \<le> usize_max" and "n * max m 1 \<le> length r"
  shows "reader_count m (put_count n @ r) = Inr (n, r)"
proof -
  have "n \<le> length r div max m 1" using assms(2) by (simp add: less_eq_div_iff_mult_less_eq)
  with usize_max_word [OF assms(1)] show ?thesis by (simp add: reader_count_def put_count_def Let_def)
qed

lemma read_n_written:
  assumes "rmap put xs = Inr bss"
    and "\<And>x bs r. x \<in> set xs \<Longrightarrow> put x = Inr bs \<Longrightarrow> get (bs @ r) = Inr (val x, r)"
  shows "read_n (length xs) get (concat bss @ r) = Inr (map val xs, r)"
  using assms
proof (induction xs arbitrary: bss)
  case (Cons x xs)
  then obtain b bss' where x: "put x = Inr b" "rmap put xs = Inr bss'" "bss = b # bss'"
    by (auto simp: result_simps)
  have "get (b @ concat bss' @ r) = Inr (val x, concat bss' @ r)" by (rule Cons.prems(2)) (simp_all add: x)
  moreover have "read_n (length xs) get (concat bss' @ r) = Inr (map val xs, r)"
    by (rule Cons.IH [OF x(2)]) (simp add: Cons.prems(2))
  ultimately show ?case by (simp add: x)
qed simp

text \<open>Writers that can fail, and readers that give a normal form of what was written.\<close>

lemma written_length:
  assumes "rmap put xs = Inr bss" and "\<And>x bs. x \<in> set xs \<Longrightarrow> put x = Inr bs \<Longrightarrow> l \<le> length bs"
  shows "length xs * l \<le> length (concat bss)"
  using assms by (induction xs arbitrary: bss) (fastforce simp: result_simps)+

lemma counted_written:
  assumes "put_list_result put xs = Inr bs" and "length xs \<le> usize_max" and "max m 1 \<le> l"
    and get: "\<And>x bs r. x \<in> set xs \<Longrightarrow> put x = Inr bs \<Longrightarrow> get (bs @ r) = Inr (val x, r) \<and> l \<le> length bs"
  obtains body where "bs = put_count (length xs) @ body"
    and "\<And>r. reader_count m (put_count (length xs) @ body @ r) = Inr (length xs, body @ r)"
    and "\<And>r. read_n (length xs) get (body @ r) = Inr (map val xs, r)"
proof -
  from assms(1) obtain bss where bss: "rmap put xs = Inr bss" and bs: "bs = put_count (length xs) @ concat bss"
    by (auto simp: put_list_result_def result_simps)
  have "length xs * l \<le> length (concat bss)" using written_length [OF bss] get by blast
  moreover have "length xs * max m 1 \<le> length xs * l" using assms(3) by (intro mult_le_mono2)
  ultimately have "length xs * max m 1 \<le> length (concat bss @ r)" for r unfolding length_append by linarith
  from that [OF bs reader_count_put [OF assms(2) this]] read_n_written [OF bss, of get val] get
  show thesis by blast
qed

lemma read_list_written:
  assumes "put_list_result put xs = Inr bs" and "length xs \<le> usize_max" and "max m 1 \<le> l"
    and "\<And>x bs r. x \<in> set xs \<Longrightarrow> put x = Inr bs \<Longrightarrow> get (bs @ r) = Inr (val x, r) \<and> l \<le> length bs"
  shows "read_list m get (bs @ r) = Inr (map val xs, r)"
  by (rule counted_written [OF assms]) (simp_all add: read_list_def)

lemma rmap_total: "rmap (\<lambda>x. Inr (f x)) xs = Inr (map f xs)"
  by (induction xs) simp_all

lemma put_list_total: "put_list_result (\<lambda>x. Inr (put x)) xs = Inr (put_list put xs)"
  by (simp add: put_list_result_def put_list_def rmap_total)

lemma insert_all_distinct: "distinct (map fst m) \<Longrightarrow> insert_all m = m"
proof -
  have "fold (\<lambda>(key, x) m. AList.update key x m) es m = m @ es" if "distinct (map fst (m @ es))" for es m :: "(string \<times> 'v) list"
    using that
  proof (induction es arbitrary: m)
    case (Cons e es)
    obtain k v where e: "e = (k, v)" by (cases e)
    have "AList.update k v m = m @ [(k, v)]" if "k \<notin> fst ` set m" for m :: "(string \<times> 'v) list"
      using that by (induction m) auto
    then have "AList.update k v m = m @ [e]" using Cons.prems by (auto simp: e)
    with Cons show ?case by (simp add: e)
  qed simp
  from this [of "[]" m] show "insert_all m = m" if "distinct (map fst m)" using that by (simp add: insert_all_def)
qed

lemma sorted_entries_simps [simp]: "set (sorted_entries m) = set m" "length (sorted_entries m) = length m"
  "distinct (map fst (sorted_entries m)) = distinct (map fst m)"
  by (simp_all add: sorted_entries_def distinct_map inj_on_def)

locale codec =
  fixes put :: "'a \<Rightarrow> bytes" and get :: "'a reader" and rep :: "'a \<Rightarrow> bool" and least :: nat
  assumes get_put: "rep x \<Longrightarrow> get (put x @ r) = Inr (x, r)"
    and put_least: "rep x \<Longrightarrow> least \<le> length (put x)"
    and get_stable: "stable get"
begin

lemma get_put_end: "rep x \<Longrightarrow> get (put x) = Inr (x, [])"
  using get_put [of x "[]"] by simp

text \<open>No strict prefix of an encoding is the encoding of something.\<close>

lemma no_prefix:
  assumes "rep x" and "put x = p @ q" and "q \<noteq> []"
  shows "get p \<noteq> Inr (y, [])"
proof
  assume "get p = Inr (y, [])"
  from stableD [OF get_stable this, of q] assms(2,3) get_put_end [OF assms(1)] show False by simp
qed

lemma list_codec:
  assumes "max m 1 \<le> least"
  shows "codec (put_list put) (read_list m get) (list_rep rep) 8"
proof
  fix xs r
  assume "list_rep rep xs"
  then have "length xs \<le> usize_max" and "\<And>x bs r. x \<in> set xs \<Longrightarrow> Inr (put x) = (Inr bs :: onnx_error + bytes) \<Longrightarrow>
      get (bs @ r) = Inr (x, r) \<and> least \<le> length bs"
    by (auto simp: list_rep_def get_put put_least)
  from read_list_written [OF put_list_total this(1) assms this(2)]
  show "read_list m get (put_list put xs @ r) = Inr (xs, r)" by simp
qed (simp_all add: put_list_def stable_read_list get_stable)

lemma optional_codec: "codec (put_optional put) (reader_optional get) (opt_rep rep) 1"
proof
  fix x r
  assume "opt_rep rep x"
  then show "reader_optional get (put_optional put x @ r) = Inr (x, r)"
    by (cases x) (simp_all add: opt_rep_def put_optional_def reader_optional_def reader_u8_def reader_take_def get_put)
qed (simp_all add: put_optional_def stable_optional get_stable split: option.split)

end

lemma string_codec: "codec put_str reader_string str_rep 8"
proof
  fix s r
  assume s: "str_rep s"
  then have "reader_count 1 (put_u64 (of_nat (length s)) @ as_bytes s @ r) = Inr (length s, as_bytes s @ r)"
    using reader_count_put [of "length s" 1 "as_bytes s @ r"] by (simp add: put_count_def str_rep_def)
  with s show "reader_string (put_str s @ r) = Inr (s, r)"
    by (simp add: put_str_def put_bytes_def reader_string_def reader_take_def from_utf8_def str_rep_def str_ok_def)
qed (simp_all add: put_str_def put_bytes_def stable_string)

interpretation str: codec put_str reader_string str_rep 8
  by (rule string_codec)

interpretation i64: codec put_i64 reader_i64 "\<lambda>_. True" 8
  by unfold_locales (simp_all add: put_i64_def [folded put_u64_def] reader_i64_def stable_rules)

interpretation f32: codec put_u32 reader_f32 "\<lambda>_. True" 4
  by unfold_locales (simp_all add: put_u32_def reader_f32_def reader_take_def stable_rules)

interpretation dim: codec "\<lambda>d. put_u64 (of_nat d)" reader_usize "\<lambda>d. d \<le> usize_max" 8
  by unfold_locales (simp_all add: reader_usize_def usize_max_word stable_rules)

text \<open>\<open>f32_vec\<close> takes the bytes of all elements at once and cuts them up.\<close>

lemma f32_vec_codec: "codec put_f32_slice reader_f32_vec (list_rep (\<lambda>_. True)) 8"
proof
  fix xs :: "f32 list" and r
  assume "list_rep (\<lambda>_. True) xs"
  then have n: "length xs \<le> usize_max" by (simp add: list_rep_def)
  have len: "length (concat (map put_u32 xs)) = length xs * 4"
    by (induction xs) simp_all
  have "chunks_exact 4 (concat (map put_u32 xs)) = map put_u32 xs"
    by (rule chunks_exact_concat) auto
  moreover have "map of_le (map put_u32 xs) = xs" by (simp add: put_u32_def comp_def)
  ultimately show "reader_f32_vec (put_f32_slice xs @ r) = Inr (xs, r)"
    using reader_count_put [OF n, of 4 "concat (map put_u32 xs) @ r"] len
    by (simp add: put_f32_slice_def put_list_def reader_f32_vec_def reader_take_def)
qed (simp_all add: put_f32_slice_def put_list_def stable_rules)

interpretation floats: codec put_f32_slice reader_f32_vec "list_rep (\<lambda>_. True)" 8
  by (rule f32_vec_codec)

interpretation strs: codec put_str_list reader_string_list "list_rep str_rep" 8
  using str.list_codec [of 8] by (simp add: put_str_list_def [abs_def] reader_string_list_def [abs_def])

interpretation ints: codec put_i64_list reader_i64_vec "list_rep (\<lambda>_. True)" 8
  using i64.list_codec [of 8] by (simp add: put_i64_list_def [abs_def] reader_i64_vec_def [abs_def])

interpretation dims: codec put_usize_slice reader_usize_vec "list_rep (\<lambda>d. d \<le> usize_max)" 8
  using dim.list_codec [of 8] by (simp add: put_usize_slice_def [abs_def] reader_usize_vec_def [abs_def])

interpretation opt_dim: codec "put_optional (\<lambda>d. put_u64 (of_nat d))" "reader_optional reader_usize"
  "opt_rep (\<lambda>d. d \<le> usize_max)" 1
  by (rule dim.optional_codec)

interpretation opt_str: codec "put_optional put_str" "reader_optional reader_string" "opt_rep str_rep" 1
  by (rule str.optional_codec)

interpretation opt_dims: codec put_optional_usize_slice reader_optional_usize_vec
  "list_rep (opt_rep (\<lambda>d. d \<le> usize_max))" 8
  using opt_dim.list_codec [of 1] by (simp add: put_optional_usize_slice_def [abs_def] reader_optional_usize_vec_def [abs_def])

interpretation opt_strs: codec put_optional_str_list reader_optional_string_vec "list_rep (opt_rep str_rep)" 8
  using opt_str.list_codec [of 1] by (simp add: put_optional_str_list_def [abs_def] reader_optional_string_vec_def [abs_def])

definition tensor_rep :: "tensor \<Rightarrow> bool" where
  "tensor_rep t \<longleftrightarrow> list_rep (\<lambda>d. d \<le> usize_max) (t_shape t) \<and> length (t_data t) \<le> usize_max \<and>
     try_new (t_data t) (t_shape t) = Inr t"

interpretation tensor: codec put_tensor reader_tensor tensor_rep 16
proof
  fix t r
  assume "tensor_rep t"
  then show "reader_tensor (put_tensor t @ r) = Inr (t, r)"
    by (simp add: tensor_rep_def put_tensor_def reader_tensor_def dims.get_put floats.get_put list_rep_def [of "\<lambda>_. True"])
next
  fix t
  show "16 \<le> length (put_tensor t)" by (simp add: put_tensor_def put_usize_slice_def put_f32_slice_def put_list_def)
qed (rule stable_tensor)

definition info_rep :: "tensor_info \<Rightarrow> bool" where
  "info_rep info \<longleftrightarrow> str_rep (in_name info) \<and> list_rep (opt_rep (\<lambda>d. d \<le> usize_max)) (in_shape info) \<and>
     list_rep (opt_rep str_rep) (in_dim_params info)"

interpretation info: codec put_tensor_info reader_tensor_info info_rep 8
proof
  fix info r
  assume "info_rep info"
  then show "reader_tensor_info (put_tensor_info info @ r) = Inr (info, r)"
    using reader_u32_put [of "to_onnx (in_dtype info)"]
    by (simp add: info_rep_def put_tensor_info_def reader_tensor_info_def str.get_put opt_dims.get_put opt_strs.get_put
        reader_i32_def put_i32_def put_u32_def)
next
  fix info
  show "8 \<le> length (put_tensor_info info)" by (simp add: put_tensor_info_def put_str_def put_bytes_def)
qed (rule stable_tensor_info)

interpretation infos: codec put_tensor_info_list reader_tensor_info_list "list_rep info_rep" 8
  using info.list_codec [of 8] by (simp add: put_tensor_info_list_def [abs_def] reader_tensor_info_list_def [abs_def])

text \<open>Pairs and maps, as lemmas over any codec of the values.\<close>

lemma pair_codec:
  assumes "codec put get rep l"
  shows "codec (put_pair put) (reader_pair get) (pair_rep rep) (8 + l)"
proof
  fix kv r
  assume "pair_rep rep kv"
  then show "reader_pair get (put_pair put kv @ r) = Inr (kv, r)" and "8 + l \<le> length (put_pair put kv)"
    using codec.get_put [OF assms] codec.put_least [OF assms, of "snd kv"] str.put_least
    by (auto simp: pair_rep_def put_pair_def reader_pair_def str.get_put add_mono)
qed (rule stable_pair [OF codec.get_stable [OF assms]])

lemma reader_map_put:
  assumes "codec put get rep l" and "map_rep rep m" and "max k 1 \<le> 8 + l"
  shows "reader_map k get (put_map put m @ r) = Inr (sorted_entries m, r)"
proof -
  have "list_rep (pair_rep rep) (sorted_entries m)" using assms(2) by (simp add: map_rep_def list_rep_def)
  from codec.get_put [OF codec.list_codec [OF pair_codec [OF assms(1)] assms(3)] this]
  show ?thesis using assms(2) by (simp add: reader_map_def put_map_def insert_all_distinct map_rep_def)
qed

end
