(* ===== verification/CacheRoundtrip.thy ===== *)
theory CacheRoundtrip
  imports CacheCodec
begin

text \<open>
  What the session cache promises: a session that can be written is read back with every
  map in key order, no truncated file is accepted, the bytes depend on the maps alone and
  not on the order they are iterated in, and exactly the sessions whose subgraphs are
  nested at most 32 levels deep can be written.
\<close>

section \<open>Representable graphs and their normal form\<close>

primrec attributes_rep :: "attributes \<Rightarrow> bool"
  and node_rep :: "node \<Rightarrow> bool"
  and graph_rep :: "graph \<Rightarrow> bool" where
  "attributes_rep (Attributes floats ints strings tensors float_lists int_lists string_lists graphs) \<longleftrightarrow>
     map_rep (\<lambda>_. True) floats \<and> map_rep (\<lambda>_. True) ints \<and> map_rep str_rep strings \<and>
     map_rep tensor_rep tensors \<and> map_rep (list_rep (\<lambda>_. True)) float_lists \<and>
     map_rep (list_rep (\<lambda>_. True)) int_lists \<and> map_rep (list_rep str_rep) string_lists \<and>
     map_rep (\<lambda>b. b) (map (map_prod id graph_rep) graphs)"
| "node_rep (Node op name inputs outputs attrs) \<longleftrightarrow>
     str_rep op \<and> op_parse op = op \<and> str_rep name \<and> list_rep str_rep inputs \<and> list_rep str_rep outputs \<and>
     attributes_rep attrs"
| "graph_rep (Graph name nodes input_names output_names input_infos output_infos) \<longleftrightarrow>
     str_rep name \<and> list_rep (\<lambda>b. b) (map node_rep nodes) \<and> list_rep str_rep input_names \<and>
     list_rep str_rep output_names \<and> list_rep info_rep input_infos \<and> list_rep info_rep output_infos"

primrec canon_attributes :: "attributes \<Rightarrow> attributes"
  and canon_node :: "node \<Rightarrow> node"
  and canon_graph :: "graph \<Rightarrow> graph" where
  "canon_attributes (Attributes floats ints strings tensors float_lists int_lists string_lists graphs) =
     Attributes (sorted_entries floats) (sorted_entries ints) (sorted_entries strings)
       (sorted_entries tensors) (sorted_entries float_lists) (sorted_entries int_lists)
       (sorted_entries string_lists) (sorted_entries (map (map_prod id canon_graph) graphs))"
| "canon_node (Node op name inputs outputs attrs) = Node op name inputs outputs (canon_attributes attrs)"
| "canon_graph (Graph name nodes input_names output_names input_infos output_infos) =
     Graph name (map canon_node nodes) input_names output_names input_infos output_infos"

definition metadata_rep :: "model_metadata \<Rightarrow> bool" where
  "metadata_rep md \<longleftrightarrow> str_rep (md_producer_name md) \<and> str_rep (md_producer_version md) \<and>
     str_rep (md_domain md) \<and> str_rep (md_graph_name md) \<and>
     list_rep (pair_rep (\<lambda>_. True)) (md_opset_imports md) \<and> map_rep str_rep (md_custom_metadata md)"

definition parts_rep :: "session_parts \<Rightarrow> bool" where
  "parts_rep s \<longleftrightarrow> list_rep node_rep (sp_sorted_nodes s) \<and> map_rep tensor_rep (sp_weights s) \<and>
     metadata_rep (sp_metadata s) \<and> list_rep str_rep (sp_input_names s) \<and>
     list_rep str_rep (sp_output_names s) \<and> list_rep info_rep (sp_input_infos s) \<and>
     list_rep info_rep (sp_output_infos s)"

text \<open>What reading gives back: the same session, every map in key order.\<close>

definition cached_parts :: "session_parts \<Rightarrow> cached_graph" where
  "cached_parts s =
     \<lparr>cg_graph = Graph (md_graph_name (sp_metadata s)) (map canon_node (sp_sorted_nodes s)) (sp_input_names s)
        (sp_output_names s) (sp_input_infos s) (sp_output_infos s),
      cg_weights = sorted_entries (sp_weights s),
      cg_metadata = (sp_metadata s)\<lparr>md_custom_metadata := sorted_entries (md_custom_metadata (sp_metadata s))\<rparr>\<rparr>"

text \<open>The normal form of a map is the same map.\<close>

lemma map_of_sorted_entries [simp]: "distinct (map fst m) \<Longrightarrow> map_of (sorted_entries m) = map_of m"
  by (rule map_of_inject_set [THEN iffD2]) simp_all

lemma insort_map_prod: "insort_key fst (map_prod id f x) (map (map_prod id f) m) = map (map_prod id f) (insort_key fst x m)"
  by (induction m) auto

lemma sorted_entries_map: "sorted_entries (map (map_prod id f) m) = map (map_prod id f) (sorted_entries m)"
  unfolding sorted_entries_def by (induction m) (simp_all add: insort_map_prod [unfolded id_def] id_def)

text \<open>Equal maps, however they are iterated, have the same entries in key order.\<close>

lemma sorted_entries_unique:
  assumes "map_of m = map_of m'" and "distinct (map fst m)" and "distinct (map fst m')"
  shows "sorted_entries m = sorted_entries m'"
proof (rule map_sorted_distinct_set_unique [where f = fst])
  from assms have "set m = set m'" by (metis map_of_inject_set)
  then show "set (sorted_entries m) = set (sorted_entries m')" by simp
  show "inj_on fst (set (sorted_entries m) \<union> set (sorted_entries m'))"
    using assms(3) \<open>set m = set m'\<close> by (simp add: distinct_map)
qed (simp_all add: assms, simp_all add: sorted_entries_def)

section \<open>Round trip\<close>

lemma attributes_written:
  assumes put: "put_attributes put_sub attrs = Inr bs" and rep: "attributes_rep attrs"
    and sub: "\<And>g bs r. put_sub g = Inr bs \<Longrightarrow> graph_rep g \<Longrightarrow> get_sub (bs @ r) = Inr (canon_graph g, r)"
  shows "reader_attributes get_sub (bs @ r) = Inr (canon_attributes attrs, r)"
proof (cases attrs)
  case (Attributes floats "ints" strings tensors float_lists int_lists string_lists graphs)
  let ?put = "\<lambda>(name, value). rbind (put_sub value) (\<lambda>bs. Inr (put_str name @ bs))"
  obtain gs where gs: "put_list_result ?put (sorted_entries graphs) = Inr gs"
    and bs: "bs = put_map put_u32 floats @ put_map put_i64 ints @ put_map put_str strings @ put_map put_tensor tensors @
      put_map put_f32_slice float_lists @ put_map put_i64_list int_lists @ put_map put_str_list string_lists @ gs"
    using put by (auto simp: Attributes put_attributes_def result_simps)
  have graphs: "length graphs \<le> usize_max" "distinct (map fst graphs)"
      "\<And>k g. (k, g) \<in> set graphs \<Longrightarrow> str_rep k \<and> graph_rep g"
    using rep by (auto simp: Attributes map_rep_def list_rep_def pair_rep_def comp_def)
  have "read_list 8 (reader_pair get_sub) (gs @ r) = Inr (map (map_prod id canon_graph) (sorted_entries graphs), r)"
  proof (rule read_list_written [OF gs])
    fix kg b r
    assume "kg \<in> set (sorted_entries graphs)" and "?put kg = Inr b"
    then obtain b' where "put_sub (snd kg) = Inr b'" "b = put_str (fst kg) @ b'" "str_rep (fst kg)" "graph_rep (snd kg)"
      using graphs(3) [of "fst kg" "snd kg"] by (auto simp: case_prod_beta result_simps)
    then show "reader_pair get_sub (b @ r) = Inr (map_prod id canon_graph kg, r) \<and> 8 \<le> length b"
      using sub str.put_least [of "fst kg"] by (auto simp: reader_pair_def str.get_put map_prod_def case_prod_beta)
  qed (simp_all add: graphs)
  then have "reader_map 8 get_sub (gs @ r) = Inr (sorted_entries (map (map_prod id canon_graph) graphs), r)"
    using graphs(2) by (simp add: reader_map_def sorted_entries_map insert_all_distinct comp_def)
  with rep show ?thesis
    by (simp add: Attributes bs reader_attributes_def reader_map_put [OF f32.codec_axioms] reader_map_put [OF i64.codec_axioms]
        reader_map_put [OF str.codec_axioms] reader_map_put [OF tensor.codec_axioms] reader_map_put [OF floats.codec_axioms]
        reader_map_put [OF ints.codec_axioms] reader_map_put [OF strs.codec_axioms])
qed

lemma node_written:
  assumes put: "put_node put_sub nd = Inr bs" and rep: "node_rep nd"
    and sub: "\<And>g bs r. put_sub g = Inr bs \<Longrightarrow> graph_rep g \<Longrightarrow> get_sub (bs @ r) = Inr (canon_graph g, r)"
  shows "reader_node get_sub (bs @ r) = Inr (canon_node nd, r) \<and> 8 \<le> length bs"
proof (cases nd)
  case (Node op name inputs outputs attrs)
  obtain as where as: "put_attributes put_sub attrs = Inr as"
    and bs: "bs = put_str op @ put_str name @ put_str_list inputs @ put_str_list outputs @ as"
    using put by (auto simp: Node put_node_def result_simps)
  have "reader_attributes get_sub (as @ r) = Inr (canon_attributes attrs, r)"
    using rep by (intro attributes_written [OF as _ sub]) (simp_all add: Node)
  with rep str.put_least [of op] show ?thesis
    by (simp add: Node bs reader_node_def str.get_put strs.get_put)
qed

lemma nodes_written:
  assumes "put_list_result (put_node put_sub) nodes = Inr bs" and "list_rep node_rep nodes"
    and sub: "\<And>g bs r. put_sub g = Inr bs \<Longrightarrow> graph_rep g \<Longrightarrow> get_sub (bs @ r) = Inr (canon_graph g, r)"
  shows "read_list 8 (reader_node get_sub) (bs @ r) = Inr (map canon_node nodes, r)"
  by (rule read_list_written [OF assms(1), where l = 8])
    (use assms(2) node_written [OF _ _ sub] in \<open>auto simp: list_rep_def\<close>)

lemma graph_written:
  "put_graph depth g = Inr bs \<Longrightarrow> graph_rep g \<Longrightarrow> reader_graph depth (bs @ r) = Inr (canon_graph g, r)"
proof (induction depth g arbitrary: bs r rule: put_graph.induct)
  case (1 depth g)
  obtain name nodes ins outs iis ois where g: "g = Graph name nodes ins outs iis ois" by (cases g)
  have d: "\<not> depth > MAX_GRAPH_DEPTH"
    using "1.prems"(1) by (subst (asm) put_graph.simps) (auto split: if_splits)
  obtain ns where ns: "put_list_result (put_node (put_graph (depth + 1))) nodes = Inr ns"
    and bs: "bs = put_str name @ ns @ put_str_list ins @ put_str_list outs @ put_tensor_info_list iis @ put_tensor_info_list ois"
    using "1.prems"(1) d by (subst (asm) put_graph.simps) (auto simp: g result_simps)
  have "read_list 8 (reader_node (reader_graph (depth + 1))) (ns @ q) = Inr (map canon_node nodes, q)" for q
    by (rule nodes_written [OF ns]) (use "1.prems"(2) "1.IH" [OF d] in \<open>simp_all add: g list_rep_def\<close>)
  with d "1.prems"(2) show ?case
    by (subst reader_graph.simps) (simp add: g bs str.get_put strs.get_put infos.get_put)
qed

lemma metadata_written:
  "metadata_rep md \<Longrightarrow> reader_metadata (put_metadata md @ r)
    = Inr (md\<lparr>md_custom_metadata := sorted_entries (md_custom_metadata md)\<rparr>, r)"
  using codec.get_put [OF codec.list_codec [OF pair_codec [OF i64.codec_axioms], of 16], of "md_opset_imports md"]
  by (simp add: metadata_rep_def reader_metadata_def put_metadata_def str.get_put i64.get_put
      reader_map_put [OF str.codec_axioms])

lemma header_written:
  "read_header (SESSION_CACHE_MAGIC @ put_u32 SESSION_CACHE_FORMAT_VERSION @ put_count n @ put_count m @ r)
    = Inr (\<lparr>ch_format_version = SESSION_CACHE_FORMAT_VERSION, ch_node_count = of_nat n, ch_weight_count = of_nat m\<rparr>, r)"
  by (simp add: read_header_def HEADER_LEN_def SESSION_CACHE_MAGIC_def reader_take_def put_count_def)

lemma file_written:
  assumes "to_optimized_bytes s = Inr bs" and "parts_rep s"
  shows "decode bs = Inr (cached_parts s)"
proof -
  obtain ns where ns: "put_list_result (put_node (put_graph 1)) (sp_sorted_nodes s) = Inr ns"
    and bs: "bs = SESSION_CACHE_MAGIC @ put_u32 SESSION_CACHE_FORMAT_VERSION @
       put_count (length (sp_sorted_nodes s)) @ put_count (length (sp_weights s)) @
       put_metadata (sp_metadata s) @ put_str_list (sp_input_names s) @
       put_str_list (sp_output_names s) @ put_tensor_info_list (sp_input_infos s) @
       put_tensor_info_list (sp_output_infos s) @ ns @ put_map put_tensor (sp_weights s)"
    using assms(1) by (auto simp: to_optimized_bytes_def result_simps)
  obtain body where body: "ns = put_count (length (sp_sorted_nodes s)) @ body"
      "\<And>r. reader_count 8 (put_count (length (sp_sorted_nodes s)) @ body @ r) = Inr (length (sp_sorted_nodes s), body @ r)"
      "\<And>r. read_n (length (sp_sorted_nodes s)) (reader_node (reader_graph 1)) (body @ r) = Inr (map canon_node (sp_sorted_nodes s), r)"
    by (rule counted_written [OF ns, of 8 8 "reader_node (reader_graph 1)" canon_node])
      (use assms(2) node_written [OF _ _ graph_written] in \<open>auto simp: parts_rep_def list_rep_def\<close>)
  let ?ws = "sorted_entries (sp_weights s)"
  obtain wbody where wbody: "put_map put_tensor (sp_weights s) = put_count (length ?ws) @ wbody"
      "\<And>r. reader_count 8 (put_count (length ?ws) @ wbody @ r) = Inr (length ?ws, wbody @ r)"
      "\<And>r. read_n (length ?ws) (reader_pair reader_tensor) (wbody @ r) = Inr (map (\<lambda>x. x) ?ws, r)"
    by (rule counted_written [OF put_list_total [of "put_pair put_tensor" ?ws], of 8 24 "reader_pair reader_tensor" "\<lambda>x. x"])
      (use assms(2) codec.get_put [OF pair_codec [OF tensor.codec_axioms]] codec.put_least [OF pair_codec [OF tensor.codec_axioms]]
        in \<open>auto simp: parts_rep_def map_rep_def list_rep_def put_map_def\<close>)
  have dist: "distinct (map fst (sp_weights s))" using assms(2) by (simp add: parts_rep_def map_rep_def)
  have "decode_body \<lparr>ch_format_version = SESSION_CACHE_FORMAT_VERSION, ch_node_count = of_nat (length (sp_sorted_nodes s)),
      ch_weight_count = of_nat (length (sp_weights s))\<rparr>
      (put_metadata (sp_metadata s) @ put_str_list (sp_input_names s) @ put_str_list (sp_output_names s) @
       put_tensor_info_list (sp_input_infos s) @ put_tensor_info_list (sp_output_infos s) @ ns @ put_map put_tensor (sp_weights s))
    = Inr (cached_parts s, [])"
    using assms(2) body(2,3) wbody(2,3) [of "[]"] dist
    by (simp add: decode_body_def parts_rep_def metadata_written strs.get_put infos.get_put body(1) wbody(1)
        cached_parts_def insert_all_distinct)
  then show ?thesis by (simp add: decode_def bs header_written)
qed

section \<open>The bytes depend on the maps only\<close>

lemma sorted_entries_idem [simp]: "sorted_entries (sorted_entries m) = sorted_entries m"
  by (simp add: sorted_entries_def sort_key_id_if_sorted)

lemma put_map_sorted [simp]: "put_map put (sorted_entries m) = put_map put m"
  by (simp add: put_map_def)

lemma put_list_result_map:
  assumes "\<And>x. x \<in> set xs \<Longrightarrow> put (f x) = put x"
  shows "put_list_result put (map f xs) = put_list_result put xs"
proof -
  have "rmap put (map f xs) = rmap put xs" using assms by (induction xs) simp_all
  then show ?thesis by (simp add: put_list_result_def)
qed

lemma put_node_canon:
  assumes "\<And>g. put_sub (canon_graph g) = put_sub g"
  shows "put_node put_sub (canon_node nd) = put_node put_sub nd"
proof (cases nd)
  case (Node op name inputs outputs attrs)
  have "put_attributes put_sub (canon_attributes attrs) = put_attributes put_sub attrs"
  proof (cases attrs)
    case (Attributes floats "ints" strings tensors float_lists int_lists string_lists graphs)
    let ?put = "\<lambda>(name, value). rbind (put_sub value) (\<lambda>bs. Inr (put_str name @ bs))"
    have "put_list_result ?put (map (map_prod id canon_graph) (sorted_entries graphs)) = put_list_result ?put (sorted_entries graphs)"
      by (rule put_list_result_map) (auto simp: assms)
    then show ?thesis by (simp add: Attributes put_attributes_def sorted_entries_map)
  qed
  then show ?thesis by (simp add: Node put_node_def)
qed

lemma put_graph_canon: "put_graph depth (canon_graph g) = put_graph depth g"
proof (induction depth g rule: put_graph.induct)
  case (1 depth g)
  obtain name nodes ins outs iis ois where g: "g = Graph name nodes ins outs iis ois" by (cases g)
  show ?case
  proof (cases "depth > MAX_GRAPH_DEPTH")
    case False
    have "put_list_result (put_node (put_graph (depth + 1))) (map canon_node nodes)
        = put_list_result (put_node (put_graph (depth + 1))) nodes"
      by (intro put_list_result_map put_node_canon "1.IH" [OF False])
    then show ?thesis by (simp add: g put_graph.simps [of depth])
  qed (simp add: put_graph.simps [of depth])
qed

definition cached_bytes :: "cached_graph \<Rightarrow> onnx_error + bytes" where
  "cached_bytes c = to_optimized_bytes
     \<lparr>sp_sorted_nodes = g_nodes (cg_graph c), sp_weights = cg_weights c, sp_metadata = cg_metadata c,
      sp_input_names = g_input_names (cg_graph c), sp_output_names = g_output_names (cg_graph c),
      sp_input_infos = g_input_infos (cg_graph c), sp_output_infos = g_output_infos (cg_graph c)\<rparr>"

lemma bytes_of_cached: "to_optimized_bytes s = cached_bytes (cached_parts s)"
proof -
  have "put_list_result (put_node (put_graph 1)) (map canon_node (sp_sorted_nodes s))
      = put_list_result (put_node (put_graph 1)) (sp_sorted_nodes s)"
    by (intro put_list_result_map put_node_canon put_graph_canon)
  moreover have "put_metadata ((sp_metadata s)\<lparr>md_custom_metadata := sorted_entries (md_custom_metadata (sp_metadata s))\<rparr>)
      = put_metadata (sp_metadata s)"
    by (simp add: put_metadata_def)
  ultimately show ?thesis by (simp add: cached_bytes_def to_optimized_bytes_def cached_parts_def)
qed

section \<open>Nesting\<close>

lemma is_ok_rbind: "(\<And>x. is_ok (f x)) \<Longrightarrow> is_ok (rbind m f) \<longleftrightarrow> is_ok m"
  by (cases m) simp_all

lemma is_ok_put_list_result [simp]: "is_ok (put_list_result put xs) \<longleftrightarrow> (\<forall>x\<in>set xs. is_ok (put x))"
proof -
  have "is_ok (rmap put xs) \<longleftrightarrow> (\<forall>x\<in>set xs. is_ok (put x))"
    by (induction xs) (auto simp: result_simps)
  then show ?thesis by (simp add: put_list_result_def is_ok_rbind)
qed

lemma nesting_le_iff:
  "node_nesting nd \<le> n \<longleftrightarrow> (\<forall>kg\<in>set (at_graphs (n_attrs nd)). graph_nesting (snd kg) \<le> n)"
  "graph_nesting g \<le> Suc n \<longleftrightarrow> (\<forall>nd\<in>set (g_nodes g). node_nesting nd \<le> n)"
proof -
  obtain op name ins outs attrs where "nd = Node op name ins outs attrs" by (cases nd)
  then show "node_nesting nd \<le> n \<longleftrightarrow> (\<forall>kg\<in>set (at_graphs (n_attrs nd)). graph_nesting (snd kg) \<le> n)"
    by (cases attrs) (auto simp: fold_max_le)
  show "graph_nesting g \<le> Suc n \<longleftrightarrow> (\<forall>nd\<in>set (g_nodes g). node_nesting nd \<le> n)"
    by (cases g) (auto simp: fold_max_le)
qed

lemma put_node_ok:
  "is_ok (put_node put nd) \<longleftrightarrow> (\<forall>kg\<in>set (at_graphs (n_attrs nd)). is_ok (put (snd kg)))"
  by (simp add: put_node_def put_attributes_def is_ok_rbind case_prod_beta)

lemma put_graph_ok: "depth \<le> Suc MAX_GRAPH_DEPTH \<Longrightarrow> is_ok (put_graph depth g) \<longleftrightarrow> depth + graph_nesting g \<le> Suc MAX_GRAPH_DEPTH"
proof (induction depth g rule: put_graph.induct)
  case (1 depth g)
  have pos: "0 < graph_nesting g" by (cases g) simp
  show ?case
  proof (cases "depth > MAX_GRAPH_DEPTH")
    case True
    with pos show ?thesis by (simp add: put_graph.simps [of depth])
  next
    case False
    then obtain k where k: "MAX_GRAPH_DEPTH = depth + k" by (auto simp: not_less le_iff_add)
    have "is_ok (put_graph depth g) \<longleftrightarrow> (\<forall>nd\<in>set (g_nodes g). is_ok (put_node (put_graph (depth + 1)) nd))"
      using False by (subst put_graph.simps) (simp add: is_ok_rbind)
    also have "\<dots> \<longleftrightarrow> (\<forall>nd\<in>set (g_nodes g). node_nesting nd \<le> k)"
      using "1.IH" [OF False] by (simp add: put_node_ok nesting_le_iff(1) k)
    also have "\<dots> \<longleftrightarrow> graph_nesting g \<le> Suc k" by (simp add: nesting_le_iff(2))
    finally show ?thesis by (simp add: k)
  qed
qed

lemma bytes_ok: "is_ok (to_optimized_bytes s) \<longleftrightarrow> (\<forall>nd\<in>set (sp_sorted_nodes s). node_nesting nd \<le> MAX_GRAPH_DEPTH)"
  by (simp add: to_optimized_bytes_def is_ok_rbind put_node_ok put_graph_ok nesting_le_iff(1))

lemma set_insert_all: "set (insert_all es) \<subseteq> set es"
proof -
  have "set (AList.update k v m) \<subseteq> insert (k, v) (set m)" for k and v :: 'v and m
    by (induction m) auto
  then have "set (fold (\<lambda>(k, v) m. AList.update k v m) es m) \<subseteq> set m \<union> set es" for m :: "(string \<times> 'v) list" and es
    by (induction es arbitrary: m) fastforce+
  from this [of es "[]"] show ?thesis by (simp add: insert_all_def)
qed

lemma read_n_all:
  assumes "\<And>r x r'. get r = Inr (x, r') \<Longrightarrow> P x" and "read_n n get r = Inr (xs, r')"
  shows "\<forall>x\<in>set xs. P x"
  using assms(2) by (induction n arbitrary: r xs) (auto simp: result_simps dest: assms(1))

lemma read_node_nesting:
  assumes "\<And>r g r'. get r = Inr (g, r') \<Longrightarrow> graph_nesting g \<le> k" and "reader_node get r = Inr (nd, r')"
  shows "node_nesting nd \<le> k"
proof -
  obtain r1 r2 es where "read_n r1 (reader_pair get) r2 = Inr (es, r')" and "at_graphs (n_attrs nd) = insert_all es"
    using assms(2) by (auto simp: reader_node_def reader_attributes_def reader_map_def read_list_def result_simps)
  moreover have "\<forall>kg\<in>set es. graph_nesting (snd kg) \<le> k"
    by (rule read_n_all [OF _ calculation(1)]) (auto simp: reader_pair_def result_simps dest: assms(1))
  ultimately show ?thesis using set_insert_all [of es] by (auto simp: nesting_le_iff(1))
qed

lemma read_graph_nesting: "reader_graph depth r = Inr (g, r') \<Longrightarrow> depth + graph_nesting g \<le> Suc MAX_GRAPH_DEPTH"
proof (induction depth r arbitrary: g r' rule: reader_graph.induct)
  case (1 depth r)
  have d: "\<not> depth > MAX_GRAPH_DEPTH"
    using "1.prems" by (subst (asm) reader_graph.simps) (auto split: if_splits)
  then obtain k where k: "MAX_GRAPH_DEPTH = depth + k" by (auto simp: not_less le_iff_add)
  obtain name r0 n r1 r2 where name: "reader_string r = Inr (name, r0)"
    and ns: "read_n n (reader_node (reader_graph (depth + 1))) r1 = Inr (g_nodes g, r2)"
    using "1.prems" d by (subst (asm) reader_graph.simps) (auto simp: read_list_def result_simps)
  have "graph_nesting g' \<le> k" if "reader_graph (depth + 1) r = Inr (g', r')" for r g' r'
    using "1.IH" [OF d name refl that] k by simp
  then have "node_nesting nd \<le> k" if "reader_node (reader_graph (depth + 1)) r = Inr (nd, r')" for r nd r'
    by (rule read_node_nesting [OF _ that])
  then have "\<forall>nd\<in>set (g_nodes g). node_nesting nd \<le> k"
    by (rule read_n_all [OF _ ns])
  then have "graph_nesting g \<le> Suc k" by (simp add: nesting_le_iff(2))
  then show ?case by (simp add: k)
qed

lemma decoded_nesting:
  assumes "decode bs = Inr c" and "nd \<in> set (g_nodes (cg_graph c))"
  shows "node_nesting nd \<le> MAX_GRAPH_DEPTH"
proof -
  obtain n r r' where ns: "read_n n (reader_node (reader_graph 1)) r = Inr (g_nodes (cg_graph c), r')"
    using assms(1) by (auto simp: decode_def decode_body_def result_simps split: if_splits)
  have "node_nesting x \<le> MAX_GRAPH_DEPTH" if "reader_node (reader_graph 1) r = Inr (x, r')" for r x r'
    by (rule read_node_nesting [OF _ that]) (use read_graph_nesting in fastforce)
  then have "\<forall>x\<in>set (g_nodes (cg_graph c)). node_nesting x \<le> MAX_GRAPH_DEPTH" by (rule read_n_all [OF _ ns])
  with assms(2) show ?thesis by blast
qed

section \<open>Properties\<close>

text \<open>
  C12. Save and load: a session whose cache can be written is decoded from it with the same
  nodes, weights, names, tensor infos and metadata, every map in key order.
\<close>

theorem session_cache_roundtrip:
  assumes "to_optimized_bytes s = Inr bs" and "parts_rep s"
  shows "decode bs = Inr (cached_parts s)"
  by (rule file_written [OF assms])

text \<open>
  C28. No accepted cache file is a strict prefix of another: every truncation of a file that
  decodes, and every file with bytes after the weight table, is rejected.
\<close>

theorem truncated_cache_rejected:
  assumes "is_ok (decode (p @ q))" and "q \<noteq> []"
  shows "\<not> is_ok (decode p)"
proof
  assume "is_ok (decode p)"
  then obtain header r c where h: "read_header p = Inr (header, r)" and b: "decode_body header r = Inr (c, [])"
    by (auto simp: decode_def result_simps split: if_splits)
  have "decode_body header (r @ q) = Inr (c, q)" using stableD [OF stable_body b, of q] by simp
  with stableD [OF stable_header h, of q] assms show False by (simp add: decode_def)
qed

text \<open>
  The bytes are a function of what the cache holds: two sessions that differ in the
  iteration order of their hash maps alone are written as the same bytes.
\<close>

theorem cache_bytes_deterministic:
  assumes "cached_parts s = cached_parts s'"
  shows "to_optimized_bytes s = to_optimized_bytes s'"
  by (simp add: bytes_of_cached assms)

text \<open>
  The nesting limit is exact: a session can be written if and only if no node of it
  has subgraphs nested more than 32 levels deep.
\<close>

theorem cache_nesting_limit:
  "is_ok (to_optimized_bytes s) = (\<forall>nd\<in>set (sp_sorted_nodes s). node_nesting nd \<le> 32)"
  using bytes_ok [of s] by (simp add: MAX_GRAPH_DEPTH_def)

theorem decoded_nesting_limit:
  assumes "decode bs = Inr c" and "nd \<in> set (g_nodes (cg_graph c))"
  shows "node_nesting nd \<le> 32"
  using decoded_nesting [OF assms] by (simp add: MAX_GRAPH_DEPTH_def)

section \<open>An example\<close>

definition demo_body :: graph where
  "demo_body = Graph ''b'' [Node ''Relu'' ''n'' [''a''] [''r''] no_attrs] [] [''r''] [] []"

definition demo_parts :: session_parts where
  "demo_parts = \<lparr>
     sp_sorted_nodes = [Node ''If'' [] [''c''] [''y'']
       (Attributes [] [(''k'', 7), (''axis'', -1)] [] [] [] [] [] [(''then_branch'', demo_body)])],
     sp_weights = [(''w'', \<lparr>t_data = [1, 2], t_shape = [2]\<rparr>), (''c'', \<lparr>t_data = [0], t_shape = []\<rparr>)],
     sp_metadata = \<lparr>md_producer_name = ''p'', md_producer_version = [], md_domain = [], md_graph_name = ''g'',
       md_ir_version = 8, md_opset_imports = [([], 17)], md_custom_metadata = []\<rparr>,
     sp_input_names = [''a''], sp_output_names = [''y''],
     sp_input_infos = [\<lparr>in_name = ''a'', in_dtype = F32, in_shape = [Some 2, None], in_dim_params = [None, Some ''n'']\<rparr>],
     sp_output_infos = []\<rparr>"

lemma op_parse_id: "list_all (\<lambda>p. fst p \<noteq> s) op_aliases \<Longrightarrow> op_parse s = s"
  by (fastforce simp: op_parse_def list_all_iff dest: map_of_SomeD split: option.split)

lemma demo_ops: "op_parse ''If'' = ''If''" "op_parse ''Relu'' = ''Relu''"
  by (rule op_parse_id, code_simp)+

lemma demo_parts_rep: "parts_rep demo_parts"
proof -
  have s: "str_ok s" if "\<forall>c\<in>set s. (of_char c :: nat) < 128" for s using that by (rule str_ok_ascii)
  show ?thesis
    by (simp add: parts_rep_def demo_parts_def demo_body_def list_rep_def map_rep_def pair_rep_def tensor_rep_def metadata_rep_def
        info_rep_def opt_rep_def str_rep_def no_attrs_def try_new_def checked_mul_def usize_max_def demo_ops s)
qed

lemma demo_bytes: "to_optimized_bytes demo_parts = Inr (projr (to_optimized_bytes demo_parts))"
proof -
  have "is_ok (to_optimized_bytes demo_parts)"
    by (simp add: bytes_ok demo_parts_def demo_body_def no_attrs_def MAX_GRAPH_DEPTH_def)
  then show ?thesis by (auto simp: is_ok_iff)
qed

lemma bytes_length:
  assumes "to_optimized_bytes s = Inr bs"
  shows "36 \<le> length bs"
proof -
  obtain ns where "bs = SESSION_CACHE_MAGIC @ put_u32 SESSION_CACHE_FORMAT_VERSION @
      put_count (length (sp_sorted_nodes s)) @ put_count (length (sp_weights s)) @ put_metadata (sp_metadata s) @ ns"
    using assms by (auto simp: to_optimized_bytes_def result_simps)
  then show ?thesis by (simp add: SESSION_CACHE_MAGIC_def put_metadata_def put_str_def put_bytes_def)
qed

theorem session_cache_roundtrip_witness:
  "decode (projr (to_optimized_bytes demo_parts)) = Inr (cached_parts demo_parts)"
  by (rule session_cache_roundtrip [OF demo_bytes demo_parts_rep])

theorem truncated_cache_rejected_witness:
  "\<not> is_ok (decode (take 30 (projr (to_optimized_bytes demo_parts))))"
proof (rule truncated_cache_rejected)
  let ?bs = "projr (to_optimized_bytes demo_parts)"
  show "is_ok (decode (take 30 ?bs @ drop 30 ?bs))"
    by (simp add: file_written [OF demo_bytes demo_parts_rep])
  have "30 < length ?bs" using bytes_length [OF demo_bytes] by simp
  then show "drop 30 ?bs \<noteq> []" by simp
qed

theorem cache_bytes_deterministic_witness:
  "to_optimized_bytes (demo_parts\<lparr>sp_weights := rev (sp_weights demo_parts)\<rparr>) = to_optimized_bytes demo_parts"
proof (rule cache_bytes_deterministic)
  have "sorted_entries (rev (sp_weights demo_parts)) = sorted_entries (sp_weights demo_parts)"
    by (rule sorted_entries_unique) (auto simp: demo_parts_def)
  then show "cached_parts (demo_parts\<lparr>sp_weights := rev (sp_weights demo_parts)\<rparr>) = cached_parts demo_parts"
    by (simp add: cached_parts_def)
qed

theorem cache_nesting_limit_witness:
  "is_ok (to_optimized_bytes demo_parts)"
  unfolding cache_nesting_limit by (simp add: demo_parts_def demo_body_def no_attrs_def)

end
