(* ===== verification/SessionBuild.thy ===== *)
theory SessionBuild
  imports ConstantFold CacheRoundtrip Floats
begin

text \<open>
  From a graph to a session (\<open>src/session/loading.rs\<close>, the pass pipeline of
  \<open>src/optimizer/mod.rs\<close>) and from a session cache to a session
  (\<open>src/session/serialize.rs\<close>): what the nodes of the session are, and that a run of the
  session gives what the graph says.

  The inference of shapes and the rewriting passes after dead-node elimination are
  arguments (\<open>passes\<close>) of the pipeline; the levels \<open>None\<close> and \<open>Basic\<close> do not reach them.
  The order in which the keys of the weight table are iterated is the argument \<open>key_order\<close>.
\<close>

section \<open>The pass pipeline\<close>

datatype pass_level = PassBasic | PassExtended | PassAll

datatype opt_level = OptNone | OptBasic | OptExtended | OptAll

type_synonym shape_map = "string \<Rightarrow> nat list option"

text \<open>One node of \<open>materialize_shape_ops\<close>.\<close>

definition materialize_node :: "shape_map \<Rightarrow> node \<Rightarrow> tensor_map \<Rightarrow> tensor_map" where
  "materialize_node known_shapes nd weights =
     (if n_op nd \<noteq> ''Shape'' then weights
      else case n_inputs nd of
        [] \<Rightarrow> weights
      | input_name # _ \<Rightarrow>
          if input_name = [] then weights
          else case known_shapes input_name of
            None \<Rightarrow> weights
          | Some shape \<Rightarrow>
              (case n_outputs nd of
                 [] \<Rightarrow> weights
               | output_name # _ \<Rightarrow>
                   if output_name = [] \<or> weights output_name \<noteq> None then weights
                   else weights(output_name \<mapsto> \<lparr>t_data = map f32_of_nat shape, t_shape = [length shape]\<rparr>)))"

definition materialize_shape_ops :: "node list \<Rightarrow> tensor_map \<Rightarrow> shape_map \<Rightarrow> tensor_map" where
  "materialize_shape_ops nodes weights known_shapes = fold (materialize_node known_shapes) nodes weights"

record passes =
  ps_infer_shapes :: "node list \<Rightarrow> tensor_map \<Rightarrow> shape_map \<Rightarrow> shape_map"
  ps_cse :: "node list \<Rightarrow> string list \<Rightarrow> node list"
  ps_fusions :: "shape_map \<Rightarrow> string list \<Rightarrow> node list \<times> tensor_map \<Rightarrow> node list \<times> tensor_map"

definition optimize_with_input_shapes ::
  "passes \<Rightarrow> (string \<Rightarrow> operator option) \<Rightarrow> pass_level \<Rightarrow> shape_map \<Rightarrow> string list \<Rightarrow>
     node list \<times> tensor_map \<Rightarrow> node list \<times> tensor_map" where
  "optimize_with_input_shapes ps registry level input_shapes output_names = (\<lambda>(nodes, weights).
     let (nodes, weights) =
           (if level = PassAll then
              let known_shapes = ps_infer_shapes ps nodes weights input_shapes
              in constant_fold registry output_names nodes (materialize_shape_ops nodes weights known_shapes)
            else (nodes, weights));
         nodes = dead_node_elimination nodes output_names
     in if level = PassBasic then (nodes, weights)
        else
          let nodes = (if level = PassAll then ps_cse ps nodes output_names else nodes)
          in ps_fusions ps input_shapes output_names (nodes, weights))"

section \<open>Building a session\<close>

text \<open>The shapes of the graph inputs that are fully static.\<close>

definition static_input_shapes :: "tensor_info list \<Rightarrow> shape_map" where
  "static_input_shapes input_infos =
     fold (\<lambda>info out.
         if in_name info = [] \<or> in_shape info = [] then out
         else if list_all (\<lambda>dim. dim \<noteq> None) (in_shape info)
         then out(in_name info \<mapsto> map the (in_shape info)) else out)
       input_infos Map.empty"

text \<open>
  The level, the passes, the topological sort of the result and the session. The sort
  returns, so \<open>None\<close> is not a result (\<open>build_from_graph_total\<close>).
\<close>

definition build_from_graph ::
  "(tensor_map \<Rightarrow> string list) \<Rightarrow> passes \<Rightarrow> (f32 list \<Rightarrow> nat) \<Rightarrow> (tensor_map \<Rightarrow> string list) \<Rightarrow>
     graph \<Rightarrow> tensor_map \<Rightarrow> model_metadata \<Rightarrow> (string \<Rightarrow> operator option) \<Rightarrow> opt_level \<Rightarrow> session option" where
  "build_from_graph key_order ps capacity drain g weights md registry level =
     (let declared_input_shapes = static_input_shapes (g_input_infos g);
          optimize = (\<lambda>pass_level. optimize_with_input_shapes ps registry pass_level declared_input_shapes
            (g_output_names g) (g_nodes g, weights));
          (optimized_nodes, weights) =
            (case level of OptNone \<Rightarrow> (g_nodes g, weights)
             | OptBasic \<Rightarrow> optimize PassBasic
             | OptExtended \<Rightarrow> optimize PassExtended
             | OptAll \<Rightarrow> optimize PassAll);
          opt_graph = Graph [] optimized_nodes (g_input_names g) (g_output_names g) [] [];
          known = key_order weights @ g_input_names g
      in case topological_sort opt_graph known of
           None \<Rightarrow> None
         | Some order \<Rightarrow> Some
             \<lparr>s_nodes = map ((!) optimized_nodes) order, s_weights = weights,
              s_output_names = g_output_names g, s_registry = registry, s_input_infos = g_input_infos g,
              s_opset_imports = md_opset_imports md, s_capacity = capacity, s_drain = drain\<rparr>)"

text \<open>Loading a cache: the decoded graph at level \<open>None\<close>, and the tripwire on the node count.\<close>

definition check_no_nodes_were_dropped :: "session \<Rightarrow> nat \<Rightarrow> onnx_error + unit" where
  "check_no_nodes_were_dropped s expected = (if length (s_nodes s) = expected then Inr () else Inl ParseError)"

definition from_optimized_bytes_with_registry ::
  "(tensor_map \<Rightarrow> string list) \<Rightarrow> passes \<Rightarrow> (f32 list \<Rightarrow> nat) \<Rightarrow> (tensor_map \<Rightarrow> string list) \<Rightarrow>
     bytes \<Rightarrow> (string \<Rightarrow> operator option) \<Rightarrow> (onnx_error + session) option" where
  "from_optimized_bytes_with_registry key_order ps capacity drain bs registry =
     (case decode bs of
        Inl e \<Rightarrow> Some (Inl e)
      | Inr cached \<Rightarrow>
          (case build_from_graph key_order ps capacity drain (cg_graph cached) (map_of (cg_weights cached))
             (cg_metadata cached) registry OptNone of
             None \<Rightarrow> None
           | Some s \<Rightarrow> Some (rbind (check_no_nodes_were_dropped s (length (g_nodes (cg_graph cached)))) (\<lambda>_. Inr s))))"

lemma build_from_graph_total: "\<exists>s. build_from_graph key_order ps capacity drain g weights md registry level = Some s"
proof -
  have sorts: "topological_sort g' known = None \<longleftrightarrow> False" for g' known using sort_total [of g' known] by auto
  show ?thesis by (simp add: build_from_graph_def Let_def sorts split: prod.split option.split)
qed

section \<open>A built session runs the graph\<close>

text \<open>
  What ONNX requires of a graph and the inputs of a run: single assignment, producers before readers, names of inputs, weights and results
  apart, names in subgraphs their own; and no subgraph captures a result.
\<close>

definition well_formed :: "graph \<Rightarrow> tensor_map \<Rightarrow> (string \<times> tensor) list \<Rightarrow> bool" where
  "well_formed g weights inputs \<longleftrightarrow>
     forward (g_nodes g) \<and> single_assignment (g_nodes g) \<and> captures_outside (g_nodes g) \<and>
     (\<forall>x\<in>produced (g_nodes g). weights x = None \<and> x \<notin> set (g_input_names g) \<and> x \<notin> fst ` set inputs) \<and>
     apart (g_nodes g) (map_of inputs) \<and> distinct (map fst inputs) \<and> [] \<notin> set (g_output_names g)"

lemma zip_filter_subseq:
  "set (map fst (filter snd (zip nds flags))) \<subseteq> set nds"
  by (auto dest: set_zip_leftD)

lemma filtered_forward:
  assumes "forward nds" and "single_assignment nds"
  shows "forward (map fst (filter snd (zip nds flags))) \<and> single_assignment (map fst (filter snd (zip nds flags)))"
  using assms
proof (induction nds arbitrary: flags)
  case (Cons nd nds)
  note sa = single_assignment_Cons [OF Cons.prems(2)]
  show ?case
  proof (cases flags)
    case (Cons f fs)
    let ?rest = "map fst (filter snd (zip nds fs))"
    have IH: "forward ?rest" "single_assignment ?rest"
      using Cons.IH [of fs] Cons.prems sa by simp_all
    have sub: "produced ?rest \<subseteq> produced nds"
      using zip_filter_subseq [of nds fs] by (auto simp: produced_def)
    have "forward (nd # ?rest)" using Cons.prems(1) sub IH(1) by auto
    moreover have "single_assignment (nd # ?rest)"
      using Cons.prems(2) IH(2) sub unfolding single_assignment_Cons_iff by blast
    ultimately show ?thesis using IH Cons by simp
  qed (simp add: single_assignment_def)
qed simp

lemma sorted_session:
  assumes "forward nodes" and "single_assignment nodes" and "captures_outside nodes" and "contracts s nodes"
    and "\<forall>x\<in>produced nodes. weights x = None \<and> x \<notin> set input_names \<and> x \<notin> fst ` set inputs"
    and "apart nodes (map_of inputs)" and "distinct (map fst inputs)" and "set (key_order weights) \<subseteq> dom weights"
    and "topological_sort (Graph [] nodes input_names output_names [] []) (key_order weights @ input_names) = Some order"
    and "eval_run (s\<lparr>s_nodes := nodes\<rparr>) inputs = Inr outputs"
  shows "eval_run (s\<lparr>s_nodes := map ((!) nodes) order\<rparr>) inputs = Inr outputs"
proof -
  let ?env = "fold (\<lambda>(name, t) env. env(name \<mapsto> t)) inputs Map.empty" and ?g = "Graph [] nodes input_names output_names [] []"
  have env: "?env = map_of inputs" using assms(7) by (simp add: seeded_env)
  have known: "set (key_order weights @ input_names) \<inter> produced (g_nodes ?g) = {}"
    using assms(5,8) by (auto simp: dom_def)
  have ord: "forward (map ((!) nodes) order)" "mset (map ((!) nodes) order) = mset nodes"
    using sort_order [of ?g, OF _ _ known assms(9)] assms(1,2) by simp_all
  have same: "eval_nodes (s\<lparr>s_nodes := ns\<rparr>) nds e = eval_nodes s nds e" for ns nds e
    by (rule eval_nodes_session) simp_all
  have sel: "select_outputs (s\<lparr>s_nodes := ns\<rparr>) e = select_outputs s e" for ns e
    by (rule select_outputs_session) simp_all
  from assms(10) obtain env1 where e1: "eval_nodes s nodes ?env = Inr env1" "select_outputs s env1 = Inr outputs"
    and fits: "\<exists>val. shapes_fit val (s_input_infos s) (map_of inputs)"
    by (auto simp: eval_run_def eval_graph_def result_simps same sel split: if_splits)
  have "\<forall>x\<in>produced nodes. ?env x = None" using assms(5) env by (simp add: map_of_eq_None_iff)
  with e1(1) have "eval_nodes s (map ((!) nodes) order) ?env = Inr env1"
    using env by (intro eval_any_order [OF assms(4,3,2) ord(2) assms(1) ord(1)]) (simp_all add: assms(6))
  with e1(2) fits show ?thesis by (simp add: eval_run_def eval_graph_def same sel)
qed

lemma built_session:
  assumes "level \<in> {OptNone, OptBasic}" and "well_formed g weights inputs" and "set (key_order weights) \<subseteq> dom weights"
    and "build_from_graph key_order ps capacity drain g weights md registry level = Some s"
    and "contracts s (g_nodes g)" and "eval_run (s\<lparr>s_nodes := g_nodes g\<rparr>) inputs = Inr outputs"
  shows "eval_run s inputs = Inr outputs" and "set (s_nodes s) \<subseteq> set (g_nodes g)"
proof -
  define nodes where "nodes = (if level = OptNone then g_nodes g else dead_node_elimination (g_nodes g) (g_output_names g))"
  have "topological_sort g' known = None \<longleftrightarrow> False" for g' known using sort_total [of g' known] by auto
  with assms(1,4) obtain order where
    sort: "topological_sort (Graph [] nodes (g_input_names g) (g_output_names g) [] []) (key_order weights @ g_input_names g) = Some order"
    and s: "s = \<lparr>s_nodes = map ((!) nodes) order, s_weights = weights, s_output_names = g_output_names g, s_registry = registry,
      s_input_infos = g_input_infos g, s_opset_imports = md_opset_imports md, s_capacity = capacity, s_drain = drain\<rparr>"
    by (auto simp: build_from_graph_def Let_def optimize_with_input_shapes_def nodes_def split: option.splits)
  have wf: "forward (g_nodes g)" "single_assignment (g_nodes g)" "captures_outside (g_nodes g)"
    "\<forall>x\<in>produced (g_nodes g). weights x = None \<and> x \<notin> set (g_input_names g) \<and> x \<notin> fst ` set inputs"
    "apart (g_nodes g) (map_of inputs)" "distinct (map fst inputs)" "[] \<notin> set (g_output_names g)"
    using assms(2) by (simp_all add: well_formed_def)
  have sub: "set nodes \<subseteq> set (g_nodes g)"
    using zip_filter_subseq [of "g_nodes g"] by (auto simp: nodes_def dead_node_elimination_def)
  have fwd: "forward nodes" "single_assignment nodes"
    using filtered_forward [OF wf(1,2)] wf(1,2) by (simp_all add: nodes_def dead_node_elimination_def)
  have run: "eval_run (s\<lparr>s_nodes := nodes\<rparr>) inputs = Inr outputs"
  proof (cases "level = OptNone")
    case False
    have "eval_run (s\<lparr>s_nodes := g_nodes g, s_nodes := dead_node_elimination (g_nodes g) (g_output_names g)\<rparr>) inputs = Inr outputs"
      using dead_code_run [of "s\<lparr>s_nodes := g_nodes g\<rparr>" inputs outputs] assms(5,6) wf
      by (simp add: contracts_def scopes_apart_def s)
    with False show ?thesis by (simp add: nodes_def)
  qed (use assms(6) in \<open>simp add: nodes_def\<close>)
  have "eval_run (s\<lparr>s_nodes := map ((!) nodes) order\<rparr>) inputs = Inr outputs"
  proof (rule sorted_session [where key_order = key_order and weights = weights, OF fwd _ _ _ _ wf(6) assms(3) sort run])
    show "captures_outside nodes" using wf(3) sub by (fastforce simp: captures_outside_def)
    show "contracts s nodes" using assms(5) sub by (auto simp: contracts_def)
    show "apart nodes (map_of inputs)" using wf(5) sub by (fastforce simp: apart_def)
    show "\<forall>x\<in>produced nodes. weights x = None \<and> x \<notin> set (g_input_names g) \<and> x \<notin> fst ` set inputs"
      using wf(4) sub by (fastforce simp: produced_def)
  qed
  then show "eval_run s inputs = Inr outputs" by (simp add: s)
  have "set order = {..<length nodes}" using sort_total [of "Graph [] nodes (g_input_names g) (g_output_names g) [] []"
      "key_order weights @ g_input_names g"] sort by auto
  then show "set (s_nodes s) \<subseteq> set (g_nodes g)" using sub by (auto simp: s)
qed

text \<open>
  C4. Load and run: a session built from a well-formed graph without optimisation, or with
  dead-node elimination, runs its sorted nodes with reference counts and recycled buffers
  and gives the outputs that evaluating the graph's nodes in their listed order gives.
\<close>

theorem build_and_run:
  assumes "level \<in> {OptNone, OptBasic}" and "well_formed g weights inputs" and "set (key_order weights) \<subseteq> dom weights"
    and "build_from_graph key_order ps capacity drain g weights md registry level = Some s"
    and "\<And>nd oper. nd \<in> set (g_nodes g) \<Longrightarrow> s_registry s (n_op nd) = Some oper \<Longrightarrow> operator_contract oper nd"
    and "eval_run (s\<lparr>s_nodes := g_nodes g\<rparr>) inputs = Inr outputs"
    and "\<And>d. length d \<le> s_capacity s d" and "distinct (g_output_names g)" and "\<And>p. pool = Some p \<Longrightarrow> pool_ok p"
  shows "\<exists>pool'. run_internal s inputs resolved pool = Inr (outputs, pool') \<and> (\<forall>p. pool' = Some p \<longrightarrow> pool_ok p)"
proof -
  have "contracts s (g_nodes g)" using assms(5) by (auto simp: contracts_def)
  note built = built_session [OF assms(1-4) this assms(6)]
  have out: "s_output_names s = g_output_names g"
    using assms(4) by (auto simp: build_from_graph_def Let_def split: prod.splits option.splits)
  have ap: "apart (g_nodes g) (map_of inputs)" "distinct (map fst inputs)" using assms(2) by (simp_all add: well_formed_def)
  have "scopes_apart s inputs" using ap(1) built(2) unfolding scopes_apart_def apart_def by blast
  have "operator_contract oper nd" if "nd \<in> set (s_nodes s)" "s_registry s (n_op nd) = Some oper" for nd oper
    using assms(5) that built(2) by blast
  then have "case run_internal s inputs resolved pool of Inl e \<Rightarrow> eval_run s inputs = Inl e
    | Inr (outputs, pool') \<Rightarrow> eval_run s inputs = Inr outputs \<and> (\<forall>p. pool' = Some p \<longrightarrow> pool_ok p)"
    using assms(7,8,9) \<open>scopes_apart s inputs\<close> ap(2) out by (intro run_refines) auto
  with built(1) show ?thesis by (auto split: sum.splits prod.splits)
qed

section \<open>A cached session runs like the session it was saved from\<close>

lemma built_fields:
  assumes "build_from_graph key_order ps capacity drain g weights md registry level = Some s" and "level \<in> {OptNone, OptBasic}"
  shows "s_weights s = weights" and "s_output_names s = g_output_names g" and "s_registry s = registry"
    and "s_input_infos s = g_input_infos g" and "s_opset_imports s = md_opset_imports md" and "s_capacity s = capacity"
  using assms by (auto simp: build_from_graph_def Let_def optimize_with_input_shapes_def split: option.splits)

lemma eval_run_fields:
  assumes "s_weights s' = s_weights s" and "s_registry s' = s_registry s" and "s_opset_imports s' = s_opset_imports s"
    and "s_output_names s' = s_output_names s" and "s_input_infos s' = s_input_infos s" and "s_nodes s' = s_nodes s"
  shows "eval_run s' = eval_run s"
proof -
  have sel: "select_outputs s' = select_outputs s" by (intro ext select_outputs_session assms)
  show ?thesis
    by (intro ext) (simp add: eval_run_def eval_graph_def sel eval_nodes_session [OF assms(1-3)] assms(5,6))
qed

text \<open>The parts of a session that its cache holds.\<close>

definition parts_of :: "session \<Rightarrow> (string \<times> tensor) list \<Rightarrow> model_metadata \<Rightarrow> string list \<Rightarrow> tensor_info list \<Rightarrow> session_parts" where
  "parts_of s weights md input_names output_infos =
     \<lparr>sp_sorted_nodes = s_nodes s, sp_weights = weights, sp_metadata = md, sp_input_names = input_names,
      sp_output_names = s_output_names s, sp_input_infos = s_input_infos s, sp_output_infos = output_infos\<rparr>"

lemma loaded_length:
  "build_from_graph key_order ps capacity drain g weights md registry OptNone = Some s \<Longrightarrow> length (s_nodes s) = length (g_nodes g)"
proof -
  assume "build_from_graph key_order ps capacity drain g weights md registry OptNone = Some s"
  then obtain order where "topological_sort (Graph [] (g_nodes g) (g_input_names g) (g_output_names g) [] [])
      (key_order weights @ g_input_names g) = Some order" "length (s_nodes s) = length order"
    by (auto simp: build_from_graph_def Let_def split: option.splits)
  moreover from this(1) have "distinct order" "set order = {..<length (g_nodes g)}"
    using sort_total [of "Graph [] (g_nodes g) (g_input_names g) (g_output_names g) [] []" "key_order weights @ g_input_names g"] by auto
  ultimately show ?thesis by (metis card_lessThan distinct_card)
qed

text \<open>
  C13. Save, load and run: the cache of a well-formed session loads, with every node, and the
  loaded session, whose nodes are sorted again, gives every run that succeeded the same
  outputs. Attribute maps are taken in key order, which is the order the cache has them in.
\<close>

theorem cached_session_runs_alike:
  assumes "parts = parts_of s weights md input_names output_infos" and "map_of weights = s_weights s"
    and "s_opset_imports s = md_opset_imports md" and "map canon_node (s_nodes s) = s_nodes s"
    and "to_optimized_bytes parts = Inr bs" and "parts_rep parts"
    and "well_formed (Graph [] (s_nodes s) input_names (s_output_names s) [] []) (s_weights s) inputs"
    and "\<And>w. set (key_order w) \<subseteq> dom w"
    and "\<And>nd oper. nd \<in> set (s_nodes s) \<Longrightarrow> s_registry s (n_op nd) = Some oper \<Longrightarrow> operator_contract oper nd"
    and "eval_run s inputs = Inr outputs"
  shows "\<exists>s'. from_optimized_bytes_with_registry key_order ps capacity drain bs (s_registry s) = Some (Inr s') \<and>
    length (s_nodes s') = length (s_nodes s) \<and> eval_run s' inputs = Inr outputs"
proof -
  let ?g = "Graph (md_graph_name md) (s_nodes s) input_names (s_output_names s) (s_input_infos s) output_infos"
  have dist: "distinct (map fst weights)" using assms(1,6) by (simp add: parts_rep_def map_rep_def parts_of_def)
  have dec: "decode bs = Inr (cached_parts parts)" by (rule file_written [OF assms(5,6)])
  have c: "cg_graph (cached_parts parts) = ?g" "map_of (cg_weights (cached_parts parts)) = s_weights s"
    "md_opset_imports (cg_metadata (cached_parts parts)) = md_opset_imports md"
    using assms(1-4) dist by (simp_all add: cached_parts_def parts_of_def)
  obtain s' where s': "build_from_graph key_order ps capacity drain ?g (s_weights s) (cg_metadata (cached_parts parts))
      (s_registry s) OptNone = Some s'"
    using build_from_graph_total by blast
  note fields = built_fields [OF s', simplified]
  have wf: "well_formed ?g (s_weights s) inputs" using assms(7) by (simp add: well_formed_def)
  have run: "eval_run (s'\<lparr>s_nodes := g_nodes ?g\<rparr>) = eval_run s"
    by (rule eval_run_fields) (simp_all add: fields c(3) assms(3))
  have "eval_run s' inputs = Inr outputs"
  proof (rule built_session(1) [OF _ wf assms(8) s'])
    show "contracts s' (g_nodes ?g)" using assms(9) by (simp add: contracts_def fields)
  qed (simp_all add: run [simplified] assms(10))
  moreover have len: "length (s_nodes s') = length (s_nodes s)" using loaded_length [OF s'] by simp
  ultimately show ?thesis
    using s' by (simp add: from_optimized_bytes_with_registry_def dec c check_no_nodes_were_dropped_def)
qed

section \<open>Examples\<close>

definition no_passes :: passes where
  "no_passes = \<lparr>ps_infer_shapes = (\<lambda>_ _ shapes. shapes), ps_cse = (\<lambda>nodes _. nodes), ps_fusions = (\<lambda>_ _ result. result)\<rparr>"

definition demo_graph_of :: graph where
  "demo_graph_of = Graph [] (s_nodes demo_session) [''x''] [''y''] [] []"

lemma demo_well_formed: "well_formed demo_graph_of Map.empty demo_x"
  by (auto simp: well_formed_def demo_graph_of_def demo_session_def single_assignment_def captures_outside_def
      subgraph_captures_def produced_def apart_def no_attrs_def)

theorem build_and_run_witness:
  "\<exists>s pool'. build_from_graph (\<lambda>_. []) no_passes length (\<lambda>_. [''x'']) demo_graph_of Map.empty
       (sp_metadata demo_parts) (s_registry demo_session) OptBasic = Some s \<and>
     run_internal s demo_x (\<lambda>_. None) (Some pool_new) =
       Inr (\<lambda>x. if x = ''y'' then Some \<lparr>t_data = [3, 4], t_shape = [2]\<rparr> else None, pool')"
proof -
  obtain s where s: "build_from_graph (\<lambda>_. []) no_passes length (\<lambda>_. [''x'']) demo_graph_of Map.empty
      (sp_metadata demo_parts) (s_registry demo_session) OptBasic = Some s"
    using build_from_graph_total by blast
  note fields = built_fields [OF s, simplified]
  have f: "s_registry s = s_registry demo_session" "s_capacity s = length" "s_weights s = Map.empty"
    "s_output_names s = [''y'']" "s_input_infos s = []"
    by (simp_all add: fields demo_graph_of_def)
  let ?s = "s\<lparr>s_nodes := g_nodes demo_graph_of\<rparr>"
  have "eval_run ?s = eval_run (demo_session\<lparr>s_opset_imports := s_opset_imports s\<rparr>)"
    by (rule eval_run_fields) (simp_all add: f, simp_all add: demo_graph_of_def demo_session_def)
  moreover have "eval_run (demo_session\<lparr>s_opset_imports := v\<rparr>) demo_x
      = Inr (\<lambda>x. if x = ''y'' then Some \<lparr>t_data = [3, 4], t_shape = [2]\<rparr> else None)" for v
    by (simp add: eval_run_def shapes_fit_def eval_graph_def demo_session_def eval_node_def unary_operator_def make_context_def
      lookup_input_def cx_input_def cx_optional_input_def map_tensor_def select_outputs_def fun_eq_iff Let_def)
  ultimately have run: "eval_run ?s demo_x = Inr (\<lambda>x. if x = ''y'' then Some \<lparr>t_data = [3, 4], t_shape = [2]\<rparr> else None)"
    by simp
  have "\<exists>pool'. run_internal s demo_x (\<lambda>_. None) (Some pool_new)
      = Inr (\<lambda>x. if x = ''y'' then Some \<lparr>t_data = [3, 4], t_shape = [2]\<rparr> else None, pool') \<and> (\<forall>p. pool' = Some p \<longrightarrow> pool_ok p)"
  proof (rule build_and_run [OF _ demo_well_formed _ s _ run])
    show "operator_contract oper nd" if "s_registry s (n_op nd) = Some oper" for nd oper
      using that unary.operator_contract_axioms by (auto simp: f demo_session_def split: if_splits)
  qed (auto simp: f demo_graph_of_def pool_new_ok)
  with s show ?thesis by blast
qed

definition saved_parts :: session_parts where
  "saved_parts = parts_of demo_session [] ((sp_metadata demo_parts)\<lparr>md_opset_imports := [([], 13)]\<rparr>) [''x''] []"

lemma saved_parts_rep: "parts_rep saved_parts"
proof -
  have s: "str_ok s" if "\<forall>c\<in>set s. (of_char c :: nat) < 128" for s using that by (rule str_ok_ascii)
  have op: "op_parse ''Neg'' = ''Neg''" by (rule op_parse_id) code_simp
  show ?thesis
    by (simp add: parts_rep_def saved_parts_def parts_of_def demo_session_def demo_parts_def list_rep_def map_rep_def
        pair_rep_def metadata_rep_def str_rep_def no_attrs_def usize_max_def op s)
qed

theorem cached_session_runs_alike_witness:
  "\<exists>s'. from_optimized_bytes_with_registry (\<lambda>_. []) no_passes length (\<lambda>_. [])
       (projr (to_optimized_bytes saved_parts)) (s_registry demo_session) = Some (Inr s') \<and>
     length (s_nodes s') = length (s_nodes demo_session) \<and>
     eval_run s' demo_x = Inr (\<lambda>x. if x = ''y'' then Some \<lparr>t_data = [3, 4], t_shape = [2]\<rparr> else None)"
proof (rule cached_session_runs_alike [OF saved_parts_def _ _ _ _ saved_parts_rep])
  have "is_ok (to_optimized_bytes saved_parts)"
    by (simp add: bytes_ok saved_parts_def parts_of_def demo_session_def no_attrs_def)
  then show "to_optimized_bytes saved_parts = Inr (projr (to_optimized_bytes saved_parts))"
    by (auto simp: is_ok_iff)
  show "well_formed (Graph [] (s_nodes demo_session) [''x''] (s_output_names demo_session) [] []) (s_weights demo_session) demo_x"
    using demo_well_formed by (simp add: demo_graph_of_def demo_session_def)
  show "operator_contract oper nd" if "s_registry demo_session (n_op nd) = Some oper" for nd oper
    using that unary.operator_contract_axioms by (auto simp: demo_session_def split: if_splits)
  show "eval_run demo_session demo_x = Inr (\<lambda>x. if x = ''y'' then Some \<lparr>t_data = [3, 4], t_shape = [2]\<rparr> else None)"
    by (rule demo_session_result)
qed (simp_all add: demo_session_def no_attrs_def sorted_entries_def)

section \<open>Captures and the sort\<close>

text \<open>
  The chain \<open>x \<rightarrow> t \<rightarrow> a\<close> and an If that captures \<open>a\<close>, listed in the order ONNX
  requires. The If node has no input that is a result, so it is ready at once.
\<close>

definition capture_graph :: graph where
  "capture_graph = Graph [] [Node ''Neg'' [] [''x''] [''t''] no_attrs, Node ''Neg'' [] [''t''] [''a''] no_attrs, if_node]
     [''x''] [''y''] [] []"

lemma capture_graph_sorted: "topological_sort capture_graph [''c'', ''x''] = Some [0, 2, 1]"
proof -
  have init: "in_degrees (g_nodes capture_graph) [''c'', ''x''] = [0, 1, 0]"
    by code_simp
  have deps: "dependents (g_nodes capture_graph) [''c'', ''x''] 0 = [1]"
    "dependents (g_nodes capture_graph) [''c'', ''x''] (Suc 0) = []"
    "dependents (g_nodes capture_graph) [''c'', ''x''] (Suc (Suc 0)) = []"
    by code_simp+
  have n: "length (g_nodes capture_graph) = 3" by (simp add: capture_graph_def)
  have "[0..<3] = [0, 1, 2 :: nat]" by code_simp
  then show ?thesis
    by (simp add: topological_sort_def init n deps append_remaining_def Let_def numeral_2_eq_2 del: upt_rec_numeral)
qed

text \<open>
  C24. The sort looks at the inputs of nodes only, not at what their subgraphs capture. In
  the order it gives the example graph, the If runs before the producer of the tensor its
  branch reads, and the run fails with \<open>TensorNotFound\<close>; in the listed order it succeeds.
\<close>

theorem sort_overlooks_captures:
  "\<exists>order. topological_sort capture_graph [''c'', ''x''] = Some order \<and>
     is_ok (eval_run (demo_if_session\<lparr>s_nodes := g_nodes capture_graph\<rparr>) demo_x) \<and>
     eval_run (demo_if_session\<lparr>s_nodes := map ((!) (g_nodes capture_graph)) order\<rparr>) demo_x = Inl TensorNotFound"
proof (intro exI conjI)
  show "topological_sort capture_graph [''c'', ''x''] = Some [0, 2, 1]" by (rule capture_graph_sorted)
  let ?neg = "map_tensor (\<lambda>f. f + 0x80000000)" and ?x = "\<lparr>t_data = [1, 2], t_shape = [2]\<rparr>"
  let ?n = "\<lambda>x y. Node ''Neg'' [] [x] [y] no_attrs"
  have nodes: "g_nodes capture_graph = [?n ''x'' ''t'', ?n ''t'' ''a'', if_node]"
    and sorted: "map ((!) (g_nodes capture_graph)) [0, 2, 1] = [?n ''x'' ''t'', if_node, ?n ''t'' ''a'']"
    by (simp_all add: capture_graph_def)
  have fits: "shapes_fit val (s_input_infos demo_if_session) ins" for val ins
    by (simp add: demo_if_session_def)
  have e: "eval_nodes (demo_if_session\<lparr>s_nodes := ns\<rparr>) nds env = eval_nodes demo_if_session nds env" for ns nds env
    by (rule eval_nodes_session) simp_all
  have sel: "select_outputs (demo_if_session\<lparr>s_nodes := ns\<rparr>) env = select_outputs demo_if_session env" for ns env
    by (rule select_outputs_session) simp_all
  have first: "eval_nodes demo_if_session (?n ''x'' ''t'' # nds) [''x'' \<mapsto> ?x]
      = eval_nodes demo_if_session nds [''x'' \<mapsto> ?x, ''t'' \<mapsto> ?neg ?x]" for nds
    by (rule eval_neg_node) simp_all
  have second: "eval_nodes demo_if_session (?n ''t'' ''a'' # nds) [''x'' \<mapsto> ?x, ''t'' \<mapsto> ?neg ?x]
      = eval_nodes demo_if_session nds [''x'' \<mapsto> ?x, ''t'' \<mapsto> ?neg ?x, ''a'' \<mapsto> ?neg (?neg ?x)]" for nds
    by (rule eval_neg_node) simp_all
  have "\<exists>env. eval_nodes demo_if_session (g_nodes capture_graph) [''x'' \<mapsto> ?x] = Inr env \<and> env ''y'' \<noteq> None"
    unfolding nodes first second by (simp add: eval_if_node del: eval_nodes.simps)
  then show "is_ok (eval_run (demo_if_session\<lparr>s_nodes := g_nodes capture_graph\<rparr>) demo_x)"
    using fits by (auto simp: eval_run_def eval_graph_def e sel select_outputs_def Let_def demo_if_session_parts(3))
  have "eval_nodes demo_if_session (if_node # nds) env = Inl TensorNotFound"
    if "eval_nodes demo_if_session [if_node] env = Inl TensorNotFound" for nds env
    using that by (auto split: option.splits simp: result_simps)
  then have "eval_nodes demo_if_session [?n ''x'' ''t'', if_node, ?n ''t'' ''a''] [''x'' \<mapsto> ?x] = Inl TensorNotFound"
    unfolding first by (simp add: eval_if_node del: eval_nodes.simps)
  then show "eval_run (demo_if_session\<lparr>s_nodes := map ((!) (g_nodes capture_graph)) [0, 2, 1]\<rparr>) demo_x = Inl TensorNotFound"
    using fits by (simp only: sorted) (simp add: eval_run_def eval_graph_def e del: eval_nodes.simps)
qed

end
