(* ===== verification/KvCache.thy ===== *)
theory KvCache
  imports Graphs
begin

text \<open>
  The key-value cache of autoregressive decoding
  (\<open>oxionnx-ops/src/kv_cache/types.rs\<close>): one growing ring of floats per layer, laid out as
  \<open>[batch, heads, cap, head_dim]\<close> with a live window inside every block. Its contract is
  that of a list of tokens per block, to which new tokens are appended and from whose
  front old ones are dropped; where the window lies, how it slides and when the buffer
  grows must not show.

  The products of dimensions are taken in \<open>nat\<close>, as \<open>usize\<close> has them while they do not
  overflow.
\<close>

section \<open>Copies\<close>

text \<open>\<open>data[dst..dst + xs.len()].copy_from_slice(xs)\<close>\<close>

definition write_at :: "nat \<Rightarrow> 'a list \<Rightarrow> 'a list \<Rightarrow> 'a list" where
  "write_at dst xs buf = take dst buf @ xs @ drop (dst + length xs) buf"

section \<open>One layer\<close>

definition MIN_SEQ_CAPACITY :: nat where
  "MIN_SEQ_CAPACITY = 8"

record layer_cache =
  lc_data :: "f32 list"
  lc_batch :: nat
  lc_heads :: nat
  lc_head_dim :: nat
  lc_cap :: nat
  lc_start :: nat
  lc_len :: nat

definition block_stride :: "layer_cache \<Rightarrow> nat" where
  "block_stride c = lc_cap c * lc_head_dim c"

definition blocks :: "layer_cache \<Rightarrow> nat" where
  "blocks c = lc_batch c * lc_heads c"

definition write_new :: "tensor \<Rightarrow> nat \<Rightarrow> layer_cache \<Rightarrow> layer_cache" where
  "write_new new_tensor new_seq c =
     (let stride = block_stride c; new_block = new_seq * lc_head_dim c in
      if new_block = 0 then c
      else
        let offset = (lc_start c + lc_len c) * lc_head_dim c
        in c\<lparr>lc_data := fold (\<lambda>bh buf. write_at (bh * stride + offset)
               (subslice (bh * new_block) (bh * new_block + new_block) (t_data new_tensor)) buf)
             [0..<blocks c] (lc_data c)\<rparr>)"

definition with_first :: "tensor \<Rightarrow> layer_cache" where
  "with_first new_tensor =
     (let batch = t_shape new_tensor ! 0; heads = t_shape new_tensor ! 1; new_seq = t_shape new_tensor ! 2;
          head_dim = t_shape new_tensor ! 3; cap = max new_seq MIN_SEQ_CAPACITY;
          slot = \<lparr>lc_data = replicate (batch * heads * cap * head_dim) 0, lc_batch = batch, lc_heads = heads,
            lc_head_dim = head_dim, lc_cap = cap, lc_start = 0, lc_len = 0\<rparr>
      in (write_new new_tensor new_seq slot)\<lparr>lc_len := new_seq\<rparr>)"

definition reserve :: "nat \<Rightarrow> layer_cache \<Rightarrow> layer_cache" where
  "reserve need c =
     (if lc_start c + need \<le> lc_cap c then c
      else
        let live = lc_len c * lc_head_dim c; stride = block_stride c in
        if need \<le> lc_cap c then
          (if lc_start c > 0 \<and> live > 0
           then c\<lparr>lc_data := fold (\<lambda>bh buf. let src = bh * stride + lc_start c * lc_head_dim c
                  in write_at (bh * stride) (subslice src (src + live) buf) buf) [0..<blocks c] (lc_data c)\<rparr>
           else c)\<lparr>lc_start := 0\<rparr>
        else
          let new_cap = max (max need (saturating_mul (lc_cap c) 2)) MIN_SEQ_CAPACITY;
              new_stride = new_cap * lc_head_dim c;
              fresh = replicate (blocks c * new_stride) 0;
              fresh = (if live > 0
                then fold (\<lambda>bh buf. let src = bh * stride + lc_start c * lc_head_dim c
                   in write_at (bh * new_stride) (subslice src (src + live) (lc_data c)) buf) [0..<blocks c] fresh
                else fresh)
          in c\<lparr>lc_data := fresh, lc_cap := new_cap, lc_start := 0\<rparr>)"

definition kv_append :: "tensor \<Rightarrow> nat \<Rightarrow> layer_cache \<Rightarrow> layer_cache" where
  "kv_append new_tensor new_seq c =
     (let c = write_new new_tensor new_seq (reserve (lc_len c + new_seq) c)
      in c\<lparr>lc_len := lc_len c + new_seq\<rparr>)"

definition gather :: "layer_cache \<Rightarrow> tensor" where
  "gather c =
     (let shape = [lc_batch c, lc_heads c, lc_len c, lc_head_dim c] in
      if lc_start c = 0 \<and> lc_len c = lc_cap c then \<lparr>t_data = lc_data c, t_shape = shape\<rparr>
      else
        let out_block = lc_len c * lc_head_dim c; out = replicate (blocks c * out_block) 0; stride = block_stride c;
            out = (if out_block > 0
              then fold (\<lambda>bh buf. let src = bh * stride + lc_start c * lc_head_dim c
                   in write_at (bh * out_block) (subslice src (src + out_block) (lc_data c)) buf) [0..<blocks c] out
              else out)
        in \<lparr>t_data = out, t_shape = shape\<rparr>)"

definition trim_front :: "nat \<Rightarrow> layer_cache \<Rightarrow> layer_cache" where
  "trim_front max_len c =
     (if lc_len c > max_len then c\<lparr>lc_start := lc_start c + (lc_len c - max_len), lc_len := max_len\<rparr> else c)"

section \<open>The cache\<close>

datatype kv_error =
    LayerOutOfRange
  | KeyNot4D
  | ValueNot4D
  | EmptySequence
  | TensorTooShort
  | BatchMismatch
  | HeadsMismatch
  | HeadDimMismatch
  | StorageMissing

record kv_cache =
  kc_past_keys :: "layer_cache option list"
  kc_past_values :: "layer_cache option list"
  kc_max_seq_len :: "nat option"
  kc_num_layers :: nat

definition kv_new :: "nat \<Rightarrow> kv_cache" where
  "kv_new num_layers = \<lparr>kc_past_keys = replicate num_layers None, kc_past_values = replicate num_layers None,
     kc_max_seq_len = None, kc_num_layers = num_layers\<rparr>"

definition with_max_seq_len :: "nat \<Rightarrow> nat \<Rightarrow> kv_cache" where
  "with_max_seq_len num_layers max_seq_len =
     \<lparr>kc_past_keys = replicate num_layers None, kc_past_values = replicate num_layers None,
      kc_max_seq_len = Some max_seq_len, kc_num_layers = num_layers\<rparr>"

definition kv_seq_len :: "nat \<Rightarrow> kv_cache \<Rightarrow> nat" where
  "kv_seq_len layer c =
     (if layer \<ge> kc_num_layers c then 0
      else case kc_past_keys c ! layer of Some slot \<Rightarrow> lc_len slot | None \<Rightarrow> 0)"

definition kv_clear :: "kv_cache \<Rightarrow> kv_cache" where
  "kv_clear c = c\<lparr>kc_past_keys := map (\<lambda>_. None) (kc_past_keys c), kc_past_values := map (\<lambda>_. None) (kc_past_values c)\<rparr>"

definition check_appendable :: "layer_cache option \<Rightarrow> tensor \<Rightarrow> kv_error + unit" where
  "check_appendable past new_tensor =
     (let expected = saturating_mul (saturating_mul (saturating_mul (t_shape new_tensor ! 0) (t_shape new_tensor ! 1))
            (t_shape new_tensor ! 2)) (t_shape new_tensor ! 3)
      in if length (t_data new_tensor) < expected then Inl TensorTooShort
         else case past of
           None \<Rightarrow> Inr ()
         | Some slot \<Rightarrow>
             if lc_batch slot \<noteq> t_shape new_tensor ! 0 then Inl BatchMismatch
             else if lc_heads slot \<noteq> t_shape new_tensor ! 1 then Inl HeadsMismatch
             else if lc_head_dim slot \<noteq> t_shape new_tensor ! 3 then Inl HeadDimMismatch
             else Inr ())"

text \<open>\<open>match self.past[layer].as_mut() { Some(slot) => append, None => with_first }\<close>\<close>

definition store_new :: "tensor \<Rightarrow> layer_cache option \<Rightarrow> layer_cache option" where
  "store_new new_tensor past =
     (case past of
        Some slot \<Rightarrow> Some (kv_append new_tensor (t_shape new_tensor ! 2) slot)
      | None \<Rightarrow> Some (with_first new_tensor))"

text \<open>The checks of an update, in their order, before anything is changed.\<close>

definition kv_check :: "nat \<Rightarrow> tensor \<Rightarrow> tensor \<Rightarrow> kv_cache \<Rightarrow> kv_error + unit" where
  "kv_check layer new_key new_value c =
     (if layer \<ge> kc_num_layers c then Inl LayerOutOfRange
      else if length (t_shape new_key) \<noteq> 4 then Inl KeyNot4D
      else if length (t_shape new_value) \<noteq> 4 then Inl ValueNot4D
      else if t_shape new_key ! 2 = 0 \<or> t_shape new_value ! 2 = 0 then Inl EmptySequence
      else rbind (check_appendable (kc_past_keys c ! layer) new_key) (\<lambda>_.
        check_appendable (kc_past_values c ! layer) new_value))"

text \<open>The result and the cache after the call.\<close>

definition kv_update :: "nat \<Rightarrow> tensor \<Rightarrow> tensor \<Rightarrow> kv_cache \<Rightarrow> (kv_error + tensor \<times> tensor) \<times> kv_cache" where
  "kv_update layer new_key new_value c =
     (case kv_check layer new_key new_value c of
        Inl e \<Rightarrow> (Inl e, c)
      | Inr _ \<Rightarrow>
          let c = c\<lparr>kc_past_keys := (kc_past_keys c)[layer := store_new new_key (kc_past_keys c ! layer)]\<rparr>;
              c = c\<lparr>kc_past_values := (kc_past_values c)[layer := store_new new_value (kc_past_values c ! layer)]\<rparr>
          in case (kc_past_keys c ! layer, kc_past_values c ! layer) of
               (Some k, Some v) \<Rightarrow>
                 (let full = (gather k, gather v);
                      trim = (\<lambda>max_len. map_option (trim_front max_len))
                  in (Inr full,
                      case kc_max_seq_len c of
                        None \<Rightarrow> c
                      | Some max_len \<Rightarrow>
                          c\<lparr>kc_past_keys := (kc_past_keys c)[layer := trim max_len (kc_past_keys c ! layer)],
                            kc_past_values := (kc_past_values c)[layer := trim max_len (kc_past_values c ! layer)]\<rparr>))
             | _ \<Rightarrow> (Inl StorageMissing, c))"

section \<open>Buffers as lists of blocks\<close>

definition blocked :: "nat \<Rightarrow> nat \<Rightarrow> 'a list list \<Rightarrow> bool" where
  "blocked n k bs \<longleftrightarrow> length bs = n \<and> (\<forall>b\<in>set bs. length b = k)"

lemma blockedI: "length buf = n * k \<Longrightarrow> \<exists>bs. blocked n k bs \<and> buf = concat bs"
proof (induction n arbitrary: buf)
  case (Suc n)
  then have "length (drop k buf) = n * k" by simp
  from Suc.IH [OF this] obtain bs where "blocked n k bs" "drop k buf = concat bs" by blast
  moreover have "buf = take k buf @ drop k buf" by simp
  ultimately have "blocked (Suc n) k (take k buf # bs) \<and> buf = concat (take k buf # bs)"
    using Suc.prems by (simp add: blocked_def)
  then show ?case by blast
qed (auto simp: blocked_def)

lemma blocked_split:
  assumes "blocked n k bs" and "i < n"
  shows "concat bs = concat (take i bs) @ bs ! i @ concat (drop (Suc i) bs)" and "length (concat (take i bs)) = i * k"
    and "length (bs ! i) = k"
proof -
  have "bs = take i bs @ bs ! i # drop (Suc i) bs" using assms by (simp add: blocked_def id_take_nth_drop)
  then show "concat bs = concat (take i bs) @ bs ! i @ concat (drop (Suc i) bs)" by (metis concat.simps(2) concat_append)
  have "length (concat xs) = length xs * k" if "\<forall>b\<in>set xs. length b = k" for xs :: "'a list list"
    using that by (induction xs) auto
  from this [of "take i bs"] show "length (concat (take i bs)) = i * k"
    using assms by (auto simp: blocked_def dest: in_set_takeD)
  show "length (bs ! i) = k" using assms by (auto simp: blocked_def)
qed

lemma length_blocked: "blocked n k bs \<Longrightarrow> length (concat bs) = n * k"
proof -
  have "length (concat bs) = length bs * k" if "\<forall>b\<in>set bs. length b = k" for bs :: "'a list list"
    using that by (induction bs) auto
  then show "blocked n k bs \<Longrightarrow> length (concat bs) = n * k" by (auto simp: blocked_def)
qed

lemma subslice_blocked:
  assumes "blocked n k bs" and "i < n" and "b \<le> k"
  shows "subslice (i * k + a) (i * k + b) (concat bs) = subslice a b (bs ! i)"
  using blocked_split [OF assms(1,2)] assms(3) by (simp add: subslice_def)

lemma write_blocked:
  assumes "blocked n k bs" and "i < n" and "off + length xs \<le> k"
  shows "write_at (i * k + off) xs (concat bs) = concat (bs[i := write_at off xs (bs ! i)])"
proof -
  have "concat (bs[i := c]) = concat (take i bs) @ c @ concat (drop (Suc i) bs)" for c
    using assms(1,2) by (simp add: blocked_def upd_conv_take_nth_drop)
  then show ?thesis
    using blocked_split [OF assms(1,2)] assms(3) by (simp add: write_at_def add.assoc)
qed

lemma length_write_at: "dst + length xs \<le> length buf \<Longrightarrow> length (write_at dst xs buf) = length buf"
  by (simp add: write_at_def)

text \<open>A loop over the blocks that changes block \<open>i\<close> in step \<open>i\<close>.\<close>

lemma fold_blocks:
  assumes "blocked n k bs"
    and "\<And>i bs'. i < n \<Longrightarrow> blocked n k bs' \<Longrightarrow> step i (concat bs') = concat (bs'[i := f i (bs' ! i)])"
    and "\<And>i b. i < n \<Longrightarrow> length b = k \<Longrightarrow> length (f i b) = k"
  shows "fold step [0..<n] (concat bs) = concat (map (\<lambda>i. f i (bs ! i)) [0..<n])"
    and "blocked n k (map (\<lambda>i. f i (bs ! i)) [0..<n])"
proof -
  have "fold step [0..<m] (concat bs) = concat (map (\<lambda>i. if i < m then f i (bs ! i) else bs ! i) [0..<n]) \<and>
      blocked n k (map (\<lambda>i. if i < m then f i (bs ! i) else bs ! i) [0..<n])" if "m \<le> n" for m
    using that
  proof (induction m)
    case 0
    have "map ((!) bs) [0..<n] = bs" using assms(1) by (auto simp: blocked_def map_nth)
    with assms(1) show ?case by simp
  next
    case (Suc m)
    let ?bs = "map (\<lambda>i. if i < m then f i (bs ! i) else bs ! i) [0..<n]"
    have "?bs[m := f m (?bs ! m)] = map (\<lambda>i. if i < Suc m then f i (bs ! i) else bs ! i) [0..<n]"
      using Suc.prems by (intro nth_equalityI) (auto simp: nth_list_update less_Suc_eq)
    moreover have "blocked n k (map (\<lambda>i. if i < Suc m then f i (bs ! i) else bs ! i) [0..<n])"
      using assms(1,3) by (auto simp: blocked_def)
    ultimately show ?case using Suc assms(2) [of m ?bs] by simp
  qed
  note all = this [of n]
  have "map (\<lambda>i. if i < n then f i (bs ! i) else bs ! i) [0..<n] = map (\<lambda>i. f i (bs ! i)) [0..<n]"
    by (rule map_cong) auto
  with all show "fold step [0..<n] (concat bs) = concat (map (\<lambda>i. f i (bs ! i)) [0..<n])"
    and "blocked n k (map (\<lambda>i. f i (bs ! i)) [0..<n])"
    by simp_all
qed

lemma replicate_blocked: "replicate (n * k) x = concat (replicate n (replicate k x))" "blocked n k (replicate n (replicate k x))"
  by (induction n) (auto simp: blocked_def replicate_add)

section \<open>A layer as lists of tokens\<close>

definition slot_ok :: "layer_cache \<Rightarrow> bool" where
  "slot_ok c \<longleftrightarrow> length (lc_data c) = blocks c * block_stride c \<and> lc_start c + lc_len c \<le> lc_cap c"

text \<open>The live tokens of every block, and the part of a new tensor that goes to each block.\<close>

definition live_blocks :: "layer_cache \<Rightarrow> f32 list list" where
  "live_blocks c = map (\<lambda>bh. subslice (bh * block_stride c + lc_start c * lc_head_dim c)
     (bh * block_stride c + (lc_start c + lc_len c) * lc_head_dim c) (lc_data c)) [0..<blocks c]"

definition new_blocks :: "tensor \<Rightarrow> f32 list list" where
  "new_blocks t = map (\<lambda>bh. subslice (bh * (t_shape t ! 2 * t_shape t ! 3)) (bh * (t_shape t ! 2 * t_shape t ! 3) + t_shape t ! 2 * t_shape t ! 3)
     (t_data t)) [0..<t_shape t ! 0 * t_shape t ! 1]"

lemma window_fits: "slot_ok c \<Longrightarrow> (lc_start c + lc_len c) * lc_head_dim c \<le> block_stride c"
  by (simp add: slot_ok_def block_stride_def)

lemma live_blocks_of:
  assumes "blocked (blocks c) (block_stride c) bs" and "lc_data c = concat bs"
    and "(lc_start c + lc_len c) * lc_head_dim c \<le> block_stride c"
  shows "live_blocks c = map (\<lambda>i. subslice (lc_start c * lc_head_dim c) ((lc_start c + lc_len c) * lc_head_dim c) (bs ! i)) [0..<blocks c]"
  using subslice_blocked [OF assms(1) _ assms(3)] by (simp add: live_blocks_def assms(2))

lemma slot_blocks:
  assumes "slot_ok c"
  obtains bs where "blocked (blocks c) (block_stride c) bs" and "lc_data c = concat bs"
  using blockedI [of "lc_data c" "blocks c" "block_stride c"] assms by (auto simp: slot_ok_def)

text \<open>Sliding the windows back or moving to a larger buffer keeps the live tokens.\<close>

lemma moved_window:
  assumes "length b = k'" and "dst = write_at 0 (subslice s (s + live) b0) b" and "live \<le> k'" and "s + live \<le> length b0"
  shows "subslice 0 live dst = subslice s (s + live) b0"
  using assms by (simp add: write_at_def subslice_def)

lemma reserve_spec:
  assumes ok: "slot_ok c" and need: "lc_len c \<le> need"
  shows "slot_ok (reserve need c)" and "live_blocks (reserve need c) = live_blocks c"
    and "lc_start (reserve need c) + need \<le> lc_cap (reserve need c)"
    and "lc_len (reserve need c) = lc_len c" and "lc_batch (reserve need c) = lc_batch c"
    and "lc_heads (reserve need c) = lc_heads c" and "lc_head_dim (reserve need c) = lc_head_dim c"
proof -
  let ?hd = "lc_head_dim c" and ?n = "blocks c" and ?k = "block_stride c"
  let ?s = "lc_start c * ?hd" and ?live = "lc_len c * ?hd"
  obtain bs where bs: "blocked ?n ?k bs" and buf: "lc_data c = concat bs" using slot_blocks [OF ok] .
  have win: "?s + ?live \<le> ?k" using window_fits [OF ok] by (simp add: algebra_simps)
  have views: "live_blocks c = map (\<lambda>i. subslice ?s (?s + ?live) (bs ! i)) [0..<?n]"
    using live_blocks_of [OF bs buf window_fits [OF ok]] by (simp add: algebra_simps)
  have src: "subslice (i * ?k + ?s) (i * ?k + ?s + ?live) (concat bs') = subslice ?s (?s + ?live) (bs' ! i)"
    if "blocked ?n ?k bs'" "i < ?n" for i and bs' :: "f32 list list"
    using subslice_blocked [OF that win, of ?s] by (simp add: add.assoc)
  have len: "length (subslice ?s (?s + ?live) b) = ?live" if "length b = ?k" for b :: "f32 list"
    using that win by simp
  have blk: "length (bs ! i) = ?k" if "i < ?n" for i using blocked_split(3) [OF bs that] .
  consider (room) "lc_start c + need \<le> lc_cap c"
    | (slide) "\<not> lc_start c + need \<le> lc_cap c" "need \<le> lc_cap c"
    | (grow) "\<not> lc_start c + need \<le> lc_cap c" "\<not> need \<le> lc_cap c" by blast
  then have "slot_ok (reserve need c) \<and> live_blocks (reserve need c) = live_blocks c \<and>
    lc_start (reserve need c) + need \<le> lc_cap (reserve need c)"
  proof cases
    case room
    with ok show ?thesis by (simp add: reserve_def)
  next
    case slide
    let ?step = "\<lambda>bh (buf :: f32 list). write_at (bh * ?k) (subslice (bh * ?k + ?s) (bh * ?k + ?s + ?live) buf) buf"
    let ?f = "\<lambda>i::nat. \<lambda>b :: f32 list. write_at 0 (subslice ?s (?s + ?live) b) b"
    have live: "?live \<le> ?k" using win by simp
    have step: "?step i (concat bs') = concat (bs'[i := ?f i (bs' ! i)])" if "i < ?n" "blocked ?n ?k bs'" for i and bs' :: "f32 list list"
      using write_blocked [OF that(2,1), of 0 "subslice ?s (?s + ?live) (bs' ! i)"] src [OF that(2,1)]
        len [OF blocked_split(3) [OF that(2,1)]] live by simp
    have fl: "length (?f i b) = ?k" if "length b = ?k" for i and b :: "f32 list"
      using that live len [OF that] by (simp add: length_write_at)
    note loop = fold_blocks [of ?n ?k bs ?step ?f, OF bs step fl]
    let ?bs = "map (\<lambda>i. ?f i (bs ! i)) [0..<?n]"
    have moved: "subslice 0 ?live (?f i (bs ! i)) = subslice ?s (?s + ?live) (bs ! i)" if "i < ?n" for i
      by (rule moved_window [OF blk [OF that] refl live]) (use win blk [OF that] in simp)
    show ?thesis
    proof (cases "lc_start c > 0 \<and> ?live > 0")
      case True
      let ?c = "c\<lparr>lc_data := concat ?bs, lc_start := 0\<rparr>"
      have r: "reserve need c = ?c"
        using slide True loop(1) by (simp add: reserve_def Let_def buf)
      have "live_blocks ?c = map (\<lambda>i. subslice 0 ?live (?bs ! i)) [0..<?n]"
        using live_blocks_of [of ?c ?bs] loop(2) live by (simp add: blocks_def block_stride_def)
      also have "\<dots> = live_blocks c" using moved by (auto simp: views)
      finally show ?thesis
        using slide ok length_blocked [OF loop(2)] by (simp add: r slot_ok_def blocks_def block_stride_def)
    next
      case False
      then have "live_blocks (c\<lparr>lc_start := 0\<rparr>) = live_blocks c"
        by (auto simp: live_blocks_def blocks_def block_stride_def subslice_def)
      then show ?thesis using slide False ok by (auto simp: reserve_def Let_def slot_ok_def blocks_def block_stride_def)
    qed
  next
    case grow
    define cap where "cap = max (max need (saturating_mul (lc_cap c) 2)) MIN_SEQ_CAPACITY"
    let ?k' = "cap * ?hd"
    have cap: "need \<le> cap" "lc_len c \<le> cap" using need by (auto simp: cap_def)
    have live: "?live \<le> ?k'" using cap(2) by simp
    let ?step = "\<lambda>bh buf. write_at (bh * ?k') (subslice (bh * ?k + ?s) (bh * ?k + ?s + ?live) (lc_data c)) buf"
    let ?f = "\<lambda>i. write_at 0 (subslice ?s (?s + ?live) (bs ! i))"
    let ?zeros = "replicate ?n (replicate ?k' (0 :: f32))"
    have step: "?step i (concat bs') = concat (bs'[i := ?f i (bs' ! i)])" if "i < ?n" "blocked ?n ?k' bs'" for i bs'
      using write_blocked [OF that(2,1), of 0 "subslice ?s (?s + ?live) (bs ! i)"] src [OF bs that(1)]
        len [OF blk [OF that(1)]] live by (simp add: buf)
    have fl: "length (?f i b) = ?k'" if "i < ?n" "length b = ?k'" for i and b :: "f32 list"
      using that live len [OF blk [OF that(1)]] by (simp add: length_write_at)
    note loop = fold_blocks [of ?n ?k' ?zeros ?step ?f, OF replicate_blocked(2) step fl]
    let ?bs = "map (\<lambda>i. ?f i (?zeros ! i)) [0..<?n]"
    let ?fresh = "if ?live > 0 then concat ?bs else replicate (?n * ?k') 0"
    let ?c = "c\<lparr>lc_data := ?fresh, lc_cap := cap, lc_start := 0\<rparr>"
    have r: "reserve need c = ?c"
      using grow loop(1) by (simp add: reserve_def Let_def replicate_blocked(1) [of ?n ?k'] flip: cap_def)
    have "live_blocks ?c = live_blocks c"
    proof (cases "?live > 0")
      case True
      then have "live_blocks ?c = map (\<lambda>i. subslice 0 ?live (?bs ! i)) [0..<?n]"
        using live_blocks_of [of ?c ?bs] loop(2) live by (simp add: blocks_def block_stride_def)
      also have "\<dots> = live_blocks c"
        using len [OF blk] live by (auto simp: views write_at_def subslice_def)
      finally show ?thesis .
    next
      case False
      then show ?thesis by (auto simp: live_blocks_def blocks_def subslice_def)
    qed
    moreover have "length ?fresh = ?n * ?k'" using length_blocked [OF loop(2)] by simp
    ultimately show ?thesis using cap by (simp add: r slot_ok_def blocks_def block_stride_def)
  qed
  then show "slot_ok (reserve need c)" and "live_blocks (reserve need c) = live_blocks c"
    and "lc_start (reserve need c) + need \<le> lc_cap (reserve need c)" by simp_all
qed (simp_all add: reserve_def Let_def)

text \<open>The new tokens come after the live ones in every block.\<close>

definition fits_slot :: "tensor \<Rightarrow> layer_cache \<Rightarrow> bool" where
  "fits_slot t c \<longleftrightarrow> t_shape t ! 0 = lc_batch c \<and> t_shape t ! 1 = lc_heads c \<and> t_shape t ! 3 = lc_head_dim c \<and>
     blocks c * (t_shape t ! 2 * lc_head_dim c) \<le> length (t_data t)"

lemma extended_window:
  assumes "s + live + length xs \<le> length b"
  shows "subslice s (s + live + length xs) (write_at (s + live) xs b) = subslice s (s + live) b @ xs"
  using assms by (simp add: write_at_def subslice_def drop_take)

lemma write_new_spec:
  assumes ok: "slot_ok c" and fits: "fits_slot t c" and room: "lc_start c + lc_len c + t_shape t ! 2 \<le> lc_cap c"
  shows "slot_ok ((write_new t (t_shape t ! 2) c)\<lparr>lc_len := lc_len c + t_shape t ! 2\<rparr>)" (is ?ok)
    and "live_blocks ((write_new t (t_shape t ! 2) c)\<lparr>lc_len := lc_len c + t_shape t ! 2\<rparr>) = map2 (@) (live_blocks c) (new_blocks t)"
      (is ?live)
proof -
  let ?hd = "lc_head_dim c" and ?n = "blocks c" and ?k = "block_stride c" and ?seq = "t_shape t ! 2"
  let ?s = "lc_start c * ?hd" and ?l = "lc_len c * ?hd" and ?nb = "?seq * ?hd"
  let ?x = "\<lambda>i. subslice (i * ?nb) (i * ?nb + ?nb) (t_data t)"
  obtain bs where bs: "blocked ?n ?k bs" and buf: "lc_data c = concat bs" using slot_blocks [OF ok] .
  have win: "?s + ?l + ?nb \<le> ?k"
    using mult_le_mono1 [OF room, of ?hd] by (simp add: block_stride_def algebra_simps)
  have views: "live_blocks c = map (\<lambda>i. subslice ?s (?s + ?l) (bs ! i)) [0..<?n]"
    using live_blocks_of [OF bs buf window_fits [OF ok]] by (simp add: algebra_simps)
  have new: "new_blocks t = map ?x [0..<?n]"
    using fits by (simp add: new_blocks_def fits_slot_def blocks_def)
  have blk: "length (bs ! i) = ?k" if "i < ?n" for i using blocked_split(3) [OF bs that] .
  have x: "length (?x i) = ?nb" if "i < ?n" for i
  proof -
    have "(i + 1) * ?nb \<le> ?n * ?nb" using that by (intro mult_le_mono1) simp
    then have "i * ?nb + ?nb \<le> length (t_data t)" using fits by (simp add: fits_slot_def add.commute)
    then show ?thesis by simp
  qed
  have "?ok \<and> ?live"
  proof (cases "?nb = 0")
    case True
    then have w: "write_new t ?seq c = c" by (simp add: write_new_def)
    have "?x i = []" for i using True by (simp add: subslice_def)
    then have "new_blocks t = map (\<lambda>_. []) [0..<?n]" by (simp only: new)
    then have "map2 (@) (live_blocks c) (new_blocks t) = live_blocks c"
      by (intro nth_equalityI) (simp_all add: live_blocks_def)
    moreover have "live_blocks (c\<lparr>lc_len := lc_len c + ?seq\<rparr>) = live_blocks c"
      using True by (cases "?hd = 0") (simp_all add: live_blocks_def blocks_def block_stride_def)
    ultimately show ?thesis
      using ok room by (simp add: w slot_ok_def blocks_def block_stride_def)
  next
    case False
    let ?f = "\<lambda>i. write_at (?s + ?l) (?x i)"
    let ?step = "\<lambda>bh. write_at (bh * ?k + (lc_start c + lc_len c) * ?hd) (?x bh)"
    have step: "?step i (concat bs') = concat (bs'[i := ?f i (bs' ! i)])" if "i < ?n" "blocked ?n ?k bs'" for i bs'
      using write_blocked [OF that(2,1), of "?s + ?l" "?x i"] x [OF that(1)] win by (simp add: algebra_simps)
    have fl: "length (?f i b) = ?k" if "i < ?n" "length b = ?k" for i and b :: "f32 list"
      using that win x [OF that(1)] by (simp add: length_write_at)
    note loop = fold_blocks [of ?n ?k bs ?step ?f, OF bs step fl]
    let ?bs = "map (\<lambda>i. ?f i (bs ! i)) [0..<?n]"
    let ?c = "c\<lparr>lc_data := concat ?bs, lc_len := lc_len c + ?seq\<rparr>"
    have w: "(write_new t ?seq c)\<lparr>lc_len := lc_len c + ?seq\<rparr> = ?c"
      using False loop(1) by (simp add: write_new_def Let_def buf)
    have "live_blocks ?c = map (\<lambda>i. subslice ?s (?s + ?l + ?nb) (?bs ! i)) [0..<?n]"
      using live_blocks_of [of ?c ?bs] loop(2) win by (simp add: blocks_def block_stride_def algebra_simps)
    also have "\<dots> = map (\<lambda>i. subslice ?s (?s + ?l) (bs ! i) @ ?x i) [0..<?n]"
    proof (rule map_cong [OF refl])
      fix i assume "i \<in> set [0..<?n]"
      then have i: "i < ?n" by simp
      with extended_window [of ?s ?l "?x i" "bs ! i"] x [OF i] blk [OF i] win
      show "subslice ?s (?s + ?l + ?nb) (?bs ! i) = subslice ?s (?s + ?l) (bs ! i) @ ?x i" by simp
    qed
    also have "\<dots> = map2 (@) (live_blocks c) (new_blocks t)"
      by (intro nth_equalityI) (simp_all add: views new)
    finally show ?thesis
      using ok room length_blocked [OF loop(2)] by (simp add: w slot_ok_def blocks_def block_stride_def)
  qed
  then show ?ok and ?live by simp_all
qed

lemma gather_spec:
  assumes ok: "slot_ok c"
  shows "gather c = \<lparr>t_data = concat (live_blocks c), t_shape = [lc_batch c, lc_heads c, lc_len c, lc_head_dim c]\<rparr>"
proof -
  let ?hd = "lc_head_dim c" and ?n = "blocks c" and ?k = "block_stride c"
  let ?s = "lc_start c * ?hd" and ?l = "lc_len c * ?hd"
  obtain bs where bs: "blocked ?n ?k bs" and buf: "lc_data c = concat bs" using slot_blocks [OF ok] .
  have win: "?s + ?l \<le> ?k" using window_fits [OF ok] by (simp add: algebra_simps)
  have views: "live_blocks c = map (\<lambda>i. subslice ?s (?s + ?l) (bs ! i)) [0..<?n]"
    using live_blocks_of [OF bs buf window_fits [OF ok]] by (simp add: algebra_simps)
  have blk: "length (bs ! i) = ?k" if "i < ?n" for i using blocked_split(3) [OF bs that] .
  show ?thesis
  proof (cases "lc_start c = 0 \<and> lc_len c = lc_cap c")
    case True
    then have "?l = ?k" "?s = 0" by (simp_all add: block_stride_def)
    then have "live_blocks c = map ((!) bs) [0..<?n]"
      using blk by (auto simp: views subslice_def)
    also have "\<dots> = bs" using bs map_nth [of bs] by (simp add: blocked_def)
    finally show ?thesis using True by (simp add: gather_def buf)
  next
    case False
    let ?zeros = "replicate ?n (replicate ?l (0 :: f32))"
    let ?step = "\<lambda>bh. write_at (bh * ?l) (subslice (bh * ?k + ?s) (bh * ?k + ?s + ?l) (lc_data c))"
    let ?f = "\<lambda>i. write_at 0 (subslice ?s (?s + ?l) (bs ! i))"
    have src: "subslice (i * ?k + ?s) (i * ?k + ?s + ?l) (concat bs) = subslice ?s (?s + ?l) (bs ! i)" if "i < ?n" for i
      using subslice_blocked [OF bs that win, of ?s] by (simp add: add.assoc)
    have len: "length (subslice ?s (?s + ?l) (bs ! i)) = ?l" if "i < ?n" for i using blk [OF that] win by simp
    have step: "?step i (concat bs') = concat (bs'[i := ?f i (bs' ! i)])" if "i < ?n" "blocked ?n ?l bs'" for i bs'
      using write_blocked [OF that(2,1), of 0 "subslice ?s (?s + ?l) (bs ! i)"] src [OF that(1)] len [OF that(1)] by (simp add: buf)
    have fl: "length (?f i b) = ?l" if "i < ?n" "length b = ?l" for i and b :: "f32 list"
      using that len [OF that(1)] by (simp add: length_write_at)
    note loop = fold_blocks [of ?n ?l ?zeros ?step ?f, OF replicate_blocked(2) step fl]
    have "map (\<lambda>i. ?f i (?zeros ! i)) [0..<?n] = live_blocks c"
      using len by (auto simp: views write_at_def)
    with loop(1) have "0 < ?l \<Longrightarrow> fold ?step [0..<?n] (replicate (?n * ?l) 0) = concat (live_blocks c)"
      by (simp add: replicate_blocked(1) [of ?n ?l])
    moreover have "concat (live_blocks c) = replicate (?n * ?l) 0" if "?l = 0"
      unfolding views subslice_def that by simp
    ultimately show ?thesis
      by (cases "?l = 0") (use False in \<open>auto simp: gather_def Let_def\<close>)
  qed
qed

lemma trim_spec:
  assumes ok: "slot_ok c"
  shows "slot_ok (trim_front m c)"
    and "live_blocks (trim_front m c) = map (drop ((lc_len c - m) * lc_head_dim c)) (live_blocks c)"
    and "lc_len (trim_front m c) = min m (lc_len c)"
proof -
  show "slot_ok (trim_front m c)"
    using ok by (auto simp: trim_front_def slot_ok_def blocks_def block_stride_def)
  show "lc_len (trim_front m c) = min m (lc_len c)" by (simp add: trim_front_def)
  show "live_blocks (trim_front m c) = map (drop ((lc_len c - m) * lc_head_dim c)) (live_blocks c)"
  proof (cases "lc_len c > m")
    case True
    then obtain d where "lc_len c = m + d" by (metis less_imp_add_positive)
    moreover have "drop d (subslice a b xs) = subslice (a + d) b xs" for a b d and xs :: "f32 list"
      by (simp add: subslice_def drop_take add.commute)
    ultimately show ?thesis
      using True by (simp add: trim_front_def live_blocks_def blocks_def block_stride_def algebra_simps)
  next
    case False
    then show ?thesis by (simp add: trim_front_def map_idI)
  qed
qed

section \<open>The contract\<close>

text \<open>A layer as its tokens, and the cache as its layers.\<close>

record layer_view =
  lv_batch :: nat
  lv_heads :: nat
  lv_dim :: nat
  lv_len :: nat
  lv_blocks :: "f32 list list"

record cache_view =
  cv_keys :: "layer_view option list"
  cv_values :: "layer_view option list"
  cv_max :: "nat option"
  cv_layers :: nat

definition view_layer :: "layer_cache \<Rightarrow> layer_view" where
  "view_layer c = \<lparr>lv_batch = lc_batch c, lv_heads = lc_heads c, lv_dim = lc_head_dim c, lv_len = lc_len c,
     lv_blocks = live_blocks c\<rparr>"

definition view_cache :: "kv_cache \<Rightarrow> cache_view" where
  "view_cache c = \<lparr>cv_keys = map (map_option view_layer) (kc_past_keys c),
     cv_values = map (map_option view_layer) (kc_past_values c), cv_max = kc_max_seq_len c, cv_layers = kc_num_layers c\<rparr>"

definition view_store :: "tensor \<Rightarrow> layer_view option \<Rightarrow> layer_view" where
  "view_store t past =
     (case past of
        None \<Rightarrow> \<lparr>lv_batch = t_shape t ! 0, lv_heads = t_shape t ! 1, lv_dim = t_shape t ! 3, lv_len = t_shape t ! 2,
          lv_blocks = new_blocks t\<rparr>
      | Some v \<Rightarrow> v\<lparr>lv_len := lv_len v + t_shape t ! 2, lv_blocks := map2 (@) (lv_blocks v) (new_blocks t)\<rparr>)"

definition view_trim :: "nat option \<Rightarrow> layer_view \<Rightarrow> layer_view" where
  "view_trim limit v =
     (case limit of
        None \<Rightarrow> v
      | Some m \<Rightarrow> v\<lparr>lv_len := min m (lv_len v), lv_blocks := map (drop ((lv_len v - m) * lv_dim v)) (lv_blocks v)\<rparr>)"

definition view_tensor :: "layer_view \<Rightarrow> tensor" where
  "view_tensor v = \<lparr>t_data = concat (lv_blocks v), t_shape = [lv_batch v, lv_heads v, lv_len v, lv_dim v]\<rparr>"

definition view_accepts :: "layer_view option \<Rightarrow> tensor \<Rightarrow> kv_error + unit" where
  "view_accepts past t =
     (if length (t_data t) < t_shape t ! 0 * t_shape t ! 1 * t_shape t ! 2 * t_shape t ! 3 then Inl TensorTooShort
      else case past of
        None \<Rightarrow> Inr ()
      | Some v \<Rightarrow>
          if lv_batch v \<noteq> t_shape t ! 0 then Inl BatchMismatch
          else if lv_heads v \<noteq> t_shape t ! 1 then Inl HeadsMismatch
          else if lv_dim v \<noteq> t_shape t ! 3 then Inl HeadDimMismatch
          else Inr ())"

definition view_update :: "nat \<Rightarrow> tensor \<Rightarrow> tensor \<Rightarrow> cache_view \<Rightarrow> (kv_error + tensor \<times> tensor) \<times> cache_view" where
  "view_update layer new_key new_value c =
     (let checked =
            (if layer \<ge> cv_layers c then Inl LayerOutOfRange
             else if length (t_shape new_key) \<noteq> 4 then Inl KeyNot4D
             else if length (t_shape new_value) \<noteq> 4 then Inl ValueNot4D
             else if t_shape new_key ! 2 = 0 \<or> t_shape new_value ! 2 = 0 then Inl EmptySequence
             else rbind (view_accepts (cv_keys c ! layer) new_key) (\<lambda>_. view_accepts (cv_values c ! layer) new_value));
          k = view_store new_key (cv_keys c ! layer); v = view_store new_value (cv_values c ! layer)
      in case checked of
           Inl e \<Rightarrow> (Inl e, c)
         | Inr _ \<Rightarrow> (Inr (view_tensor k, view_tensor v),
             c\<lparr>cv_keys := (cv_keys c)[layer := Some (view_trim (cv_max c) k)],
               cv_values := (cv_values c)[layer := Some (view_trim (cv_max c) v)]\<rparr>))"

definition slots_ok :: "layer_cache option list \<Rightarrow> bool" where
  "slots_ok slots \<longleftrightarrow> (\<forall>c. Some c \<in> set slots \<longrightarrow> slot_ok c)"

definition kv_ok :: "kv_cache \<Rightarrow> bool" where
  "kv_ok c \<longleftrightarrow> length (kc_past_keys c) = kc_num_layers c \<and> length (kc_past_values c) = kc_num_layers c \<and>
     slots_ok (kc_past_keys c) \<and> slots_ok (kc_past_values c)"

lemma kv_new_ok: "kv_ok (kv_new n)" "kv_ok (with_max_seq_len n m)" "kv_ok c \<Longrightarrow> kv_ok (kv_clear c)"
  by (auto simp: kv_ok_def kv_new_def with_max_seq_len_def kv_clear_def slots_ok_def)

text \<open>The element count of \<open>check_appendable\<close> saturates only when no vector is that long.\<close>

lemma saturating_product:
  assumes "n < usize_max"
  shows "n < saturating_mul (saturating_mul (saturating_mul a b) c) d \<longleftrightarrow> n < a * b * c * d"
proof -
  have step: "saturating_mul (min x usize_max) y = min (x * y) usize_max" if "0 < y" for x y
  proof -
    have le: "usize_max \<le> usize_max * y" "x \<le> x * y" using that by simp_all
    show ?thesis
    proof (cases "x \<le> usize_max")
      case False
      with le(2) have "usize_max \<le> x * y" by linarith
      with False le(1) show ?thesis by (simp add: saturating_mul_def min.absorb2)
    qed (simp add: saturating_mul_def min.absorb1)
  qed
  show ?thesis
  proof (cases "c = 0 \<or> d = 0")
    case True
    then show ?thesis by (auto simp: saturating_mul_def)
  next
    case False
    then have "saturating_mul (saturating_mul (saturating_mul a b) c) d = min (a * b * c * d) usize_max"
      using step by (simp add: saturating_mul_def [of a b])
    with assms show ?thesis by simp
  qed
qed

lemma check_view:
  assumes "length (t_data t) < usize_max"
  shows "check_appendable past t = view_accepts (map_option view_layer past) t"
  using saturating_product [OF assms]
  by (simp add: check_appendable_def view_accepts_def Let_def view_layer_def split: option.split)

lemma store_spec:
  assumes ok: "\<And>c. past = Some c \<Longrightarrow> slot_ok c" and acc: "view_accepts (map_option view_layer past) t = Inr ()"
  shows "\<exists>c. store_new t past = Some c \<and> slot_ok c \<and> view_layer c = view_store t (map_option view_layer past)"
proof -
  let ?seq = "t_shape t ! 2"
  have size: "t_shape t ! 0 * t_shape t ! 1 * (?seq * t_shape t ! 3) \<le> length (t_data t)"
    using acc by (simp add: view_accepts_def mult.assoc split: if_splits)
  show ?thesis
  proof (cases past)
    case None
    define c where "c = \<lparr>lc_data = replicate (t_shape t ! 0 * t_shape t ! 1 * max ?seq MIN_SEQ_CAPACITY * t_shape t ! 3) 0,
        lc_batch = t_shape t ! 0, lc_heads = t_shape t ! 1, lc_head_dim = t_shape t ! 3, lc_cap = max ?seq MIN_SEQ_CAPACITY,
        lc_start = 0, lc_len = 0\<rparr>"
    have c: "slot_ok c" "fits_slot t c" "lc_start c + lc_len c + ?seq \<le> lc_cap c" "lc_len c = 0" "lc_batch c = t_shape t ! 0"
      "lc_heads c = t_shape t ! 1" "lc_head_dim c = t_shape t ! 3"
      using size by (simp_all add: c_def slot_ok_def fits_slot_def blocks_def block_stride_def mult.assoc)
    have w: "with_first t = (write_new t ?seq c)\<lparr>lc_len := lc_len c + ?seq\<rparr>"
      by (simp add: with_first_def c_def Let_def)
    have fields: "lc_batch (write_new t ?seq c) = lc_batch c" "lc_heads (write_new t ?seq c) = lc_heads c"
      "lc_head_dim (write_new t ?seq c) = lc_head_dim c"
      by (simp_all add: write_new_def Let_def)
    have "map2 (@) (live_blocks c) (new_blocks t) = new_blocks t"
    proof (rule nth_equalityI)
      show n: "length (map2 (@) (live_blocks c) (new_blocks t)) = length (new_blocks t)"
        by (simp add: live_blocks_def new_blocks_def blocks_def c)
      fix i assume "i < length (map2 (@) (live_blocks c) (new_blocks t))"
      then show "map2 (@) (live_blocks c) (new_blocks t) ! i = new_blocks t ! i"
        by (simp add: live_blocks_def new_blocks_def subslice_def c)
    qed
    with write_new_spec [OF c(1-3)] show ?thesis
      by (simp add: store_new_def None w view_layer_def view_store_def fields c)
  next
    case (Some c)
    define c' where "c' = reserve (lc_len c + ?seq) c"
    have ok': "slot_ok c" using ok Some by simp
    note r = reserve_spec [OF ok', of "lc_len c + ?seq", simplified, folded c'_def]
    have dims: "lc_batch c = t_shape t ! 0" "lc_heads c = t_shape t ! 1" "lc_head_dim c = t_shape t ! 3"
      using acc by (auto simp: Some view_accepts_def view_layer_def split: if_splits)
    have fits: "fits_slot t c'" using size dims r by (simp add: fits_slot_def blocks_def)
    have room: "lc_start c' + lc_len c' + ?seq \<le> lc_cap c'" using r by simp
    have a: "kv_append t ?seq c = (write_new t ?seq c')\<lparr>lc_len := lc_len c' + ?seq\<rparr>"
      by (simp add: kv_append_def Let_def c'_def write_new_def)
    have fields: "lc_batch (write_new t ?seq c') = lc_batch c" "lc_heads (write_new t ?seq c') = lc_heads c"
      "lc_head_dim (write_new t ?seq c') = lc_head_dim c"
      by (simp_all add: write_new_def Let_def r)
    from write_new_spec [OF r(1) fits room] show ?thesis
      by (simp add: store_new_def Some a view_layer_def view_store_def fields r)
  qed
qed

lemma trim_view:
  assumes "slot_ok c"
  shows "view_layer (trim_front m c) = view_trim (Some m) (view_layer c)"
  using trim_spec [OF assms, of m] by (auto simp: view_layer_def view_trim_def trim_front_def)

lemma gather_view: "slot_ok c \<Longrightarrow> gather c = view_tensor (view_layer c)"
  by (simp add: gather_spec view_tensor_def view_layer_def)

text \<open>
  C17. The cache is its tokens: an update appends the new tokens to every block, returns
  everything cached so far and keeps the newest \<open>max_seq_len\<close> tokens, whatever sliding and
  growing the buffers go through; a refused update gives the error of the first failed
  check and changes nothing.
\<close>

theorem kv_update_refines:
  assumes "kv_ok c" and "length (t_data new_key) < usize_max" and "length (t_data new_value) < usize_max"
    and "kv_update layer new_key new_value c = (result, c')"
  shows "kv_ok c' \<and> view_update layer new_key new_value (view_cache c) = (result, view_cache c')"
proof (cases "kv_check layer new_key new_value c")
  case (Inl e)
  have "layer < kc_num_layers c \<Longrightarrow> kc_past_keys c ! layer = kc_past_keys c ! layer" ..
  with Inl assms show ?thesis
    by (auto simp: kv_update_def view_update_def kv_check_def view_cache_def check_view kv_ok_def Let_def split: if_splits)
next
  case (Inr u)
  let ?K = "kc_past_keys c ! layer" and ?V = "kc_past_values c ! layer"
  have layer: "layer < length (kc_past_keys c)" "layer < length (kc_past_values c)"
    and acc: "view_accepts (map_option view_layer ?K) new_key = Inr ()" "view_accepts (map_option view_layer ?V) new_value = Inr ()"
    and pre: "length (t_shape new_key) = 4" "length (t_shape new_value) = 4" "t_shape new_key ! 2 \<noteq> 0" "t_shape new_value ! 2 \<noteq> 0"
    using Inr assms(1-3) by (auto simp: kv_check_def kv_ok_def check_view result_simps split: if_splits)
  have old: "slot_ok s" if "?K = Some s \<or> ?V = Some s" for s
    using that assms(1) layer by (metis kv_ok_def slots_ok_def nth_mem)
  obtain k where k: "store_new new_key ?K = Some k" "slot_ok k" "view_layer k = view_store new_key (map_option view_layer ?K)"
    using store_spec [OF _ acc(1)] old by blast
  obtain v where v: "store_new new_value ?V = Some v" "slot_ok v" "view_layer v = view_store new_value (map_option view_layer ?V)"
    using store_spec [OF _ acc(2)] old by blast
  define trim where "trim = (case kc_max_seq_len c of None \<Rightarrow> (\<lambda>s. s) | Some m \<Rightarrow> trim_front m)"
  have trim: "slot_ok (trim s)" "view_layer (trim s) = view_trim (kc_max_seq_len c) (view_layer s)" if "slot_ok s" for s
    using that trim_spec(1) [OF that] trim_view [OF that] by (simp_all add: trim_def view_trim_def split: option.split)
  have res: "result = Inr (gather k, gather v)"
    and c': "c' = c\<lparr>kc_past_keys := (kc_past_keys c)[layer := Some (trim k)], kc_past_values := (kc_past_values c)[layer := Some (trim v)]\<rparr>"
    using assms(4) k(1) v(1) layer by (auto simp: kv_update_def Inr Let_def trim_def split: option.splits)
  have "kv_ok c'"
    using assms(1) trim(1) [OF k(2)] trim(1) [OF v(2)] by (auto simp: c' kv_ok_def slots_ok_def dest!: set_update_subset_insert [THEN subsetD])
  moreover have "view_update layer new_key new_value (view_cache c) = (result, view_cache c')"
    using layer acc pre assms(1) k v
    by (simp add: view_update_def view_cache_def c' res gather_view trim(2) map_update kv_ok_def Let_def)
  ultimately show ?thesis by simp
qed

definition kv_token :: "f32 \<Rightarrow> tensor" where
  "kv_token x = \<lparr>t_data = [x, x + 1], t_shape = [1, 2, 1, 1]\<rparr>"

theorem kv_update_refines_witness:
  "kv_ok (snd (kv_update 0 (kv_token 1) (kv_token 5) (with_max_seq_len 1 3))) \<and>
   view_update 0 (kv_token 1) (kv_token 5) (view_cache (with_max_seq_len 1 3)) =
     (fst (kv_update 0 (kv_token 1) (kv_token 5) (with_max_seq_len 1 3)),
      view_cache (snd (kv_update 0 (kv_token 1) (kv_token 5) (with_max_seq_len 1 3))))"
  by (rule kv_update_refines [OF kv_new_ok(2)]) (simp_all add: kv_token_def usize_max_def)

end
