(* ===== verification/Parallel.thy ===== *)
theory Parallel
  imports Ordering
begin

text \<open>
  The parallel CPU path (\<open>src/session/run/parallel.rs\<close>, with the checked write-back of
  \<open>dispatch.rs\<close> and the schedule of \<open>plan.rs\<close>). The nodes of a level that carry no subgraph
  are claimed, resolved, executed and written in four phases; only the execution is
  concurrent, and it works on what its item owns or borrows from the settled state, so it
  is a map over the items. The proof is that a parallel run gives what the evaluator gives.

  The cost that orders the nodes of a level (\<open>optimizer/cost_model.rs\<close>) is the argument
  \<open>cost\<close>; mixed precision, profiling and accelerators are off, as in \<open>Engine\<close>.
\<close>

section \<open>The schedule\<close>

definition depth_groups :: "node list \<Rightarrow> (string \<rightharpoonup> tensor) \<Rightarrow> (nat \<Rightarrow> nat) \<Rightarrow> nat list list" where
  "depth_groups sorted_nodes weights cost =
     map (sort_key (\<lambda>i. - int (cost i))) (group_by_depth (compute_node_depths sorted_nodes weights))"

section \<open>The checked write-back\<close>

fun validate_outputs :: "(string \<Rightarrow> nat list option) \<Rightarrow> (string \<times> tensor) list \<Rightarrow> onnx_error + unit" where
  "validate_outputs resolved [] = Inr ()"
| "validate_outputs resolved ((out_name, t) # outs) =
     (if out_name = [] then validate_outputs resolved outs
      else case checked_product 1 (t_shape t) of
        None \<Rightarrow> Inl ShapeMismatch
      | Some expected_elems \<Rightarrow>
          if length (t_data t) \<noteq> expected_elems then Inl ShapeMismatch
          else case resolved out_name of
            Some expected_shape \<Rightarrow>
              if t_shape t \<noteq> expected_shape then Inl ShapeMismatch else validate_outputs resolved outs
          | None \<Rightarrow> validate_outputs resolved outs)"

definition commit_outputs :: "session \<Rightarrow> (string \<times> tensor) list \<Rightarrow> run_state \<Rightarrow> run_state" where
  "commit_outputs s outs st =
     fold (\<lambda>(out_name, t) st.
       if out_name = [] then st\<lparr>rs_pool := release_to_pool s t (rs_pool st)\<rparr>
       else state_insert s out_name t st) outs st"

definition write_node_outputs ::
  "session \<Rightarrow> node \<Rightarrow> tensor list \<Rightarrow> run_state \<Rightarrow> (string \<Rightarrow> nat list option) \<Rightarrow> onnx_error + run_state" where
  "write_node_outputs s nd results st resolved =
     (if length results \<noteq> length (n_outputs nd) then Inl Internal
      else rbind (validate_outputs resolved (zip (n_outputs nd) results)) (\<lambda>_.
        Inr (commit_outputs s (zip (n_outputs nd) results) st)))"

section \<open>Work items\<close>

record cpu_claim =
  cl_idx :: nat
  cl_node :: node
  cl_operator :: operator
  cl_owned_input :: "tensor option"
  cl_slots :: "tensor list option"
  cl_inplace :: bool

record cpu_work_item =
  wi_idx :: nat
  wi_node :: node
  wi_operator :: operator
  wi_inputs :: "tensor option list"
  wi_owned_input :: "tensor option"
  wi_slots :: "tensor list option"

fun claim_cpu_fast_paths ::
  "session \<Rightarrow> (string \<Rightarrow> nat list option) \<Rightarrow> ref_counts \<Rightarrow> nat list \<Rightarrow> run_state \<Rightarrow>
    onnx_error + (cpu_claim list \<times> run_state)" where
  "claim_cpu_fast_paths s resolved refs [] st = Inr ([], st)"
| "claim_cpu_fast_paths s resolved refs (idx # cpu_nodes) st =
     (let nd = s_nodes s ! idx in
      case s_registry s (n_op nd) of
        None \<Rightarrow> Inl UnsupportedOp
      | Some oper \<Rightarrow>
          let inplace = node_can_execute_inplace s nd oper refs;
              (owned_input, st) = (if inplace then state_take (hd (n_inputs nd)) st else (None, st));
              (slots, pool) = (if \<not> inplace \<and> supports_output_slots oper
                 then acquire_output_slots nd resolved (rs_pool st) else (None, rs_pool st));
              claim = \<lparr>cl_idx = idx, cl_node = nd, cl_operator = oper, cl_owned_input = owned_input,
                cl_slots = slots, cl_inplace = inplace\<rparr>
          in rbind (claim_cpu_fast_paths s resolved refs cpu_nodes (st\<lparr>rs_pool := pool\<rparr>)) (\<lambda>(claims, st).
               Inr (claim # claims, st)))"

definition resolve_item :: "session \<Rightarrow> run_state \<Rightarrow> cpu_claim \<Rightarrow> cpu_work_item" where
  "resolve_item s st claim =
     \<lparr>wi_idx = cl_idx claim, wi_node = cl_node claim, wi_operator = cl_operator claim,
      wi_inputs = map (\<lambda>(i, name). if name = [] \<or> (cl_inplace claim \<and> i = 0) then None
        else lookup_input s (rs_tensors st) name) (enumerate 0 (n_inputs (cl_node claim))),
      wi_owned_input = cl_owned_input claim, wi_slots = cl_slots claim\<rparr>"

definition resolve_work_item_inputs :: "session \<Rightarrow> cpu_claim list \<Rightarrow> run_state \<Rightarrow> cpu_work_item list" where
  "resolve_work_item_inputs s claims st = map (resolve_item s st) claims"

text \<open>The closure a worker runs.\<close>

definition execute_item :: "session \<Rightarrow> tensor_map \<Rightarrow> cpu_work_item \<Rightarrow> onnx_error + (nat \<times> tensor list)" where
  "execute_item s outer_scope item =
     (let ctx = make_context s (wi_node item) (wi_inputs item) outer_scope;
          oper = wi_operator item
      in rbind (case (wi_slots item, wi_owned_input item) of
            (Some slots, _) \<Rightarrow> execute_into_slots oper ctx slots
          | (None, Some owned) \<Rightarrow> execute_inplace oper owned ctx
          | (None, None) \<Rightarrow> execute oper ctx) (\<lambda>res. Inr (wi_idx item, res)))"

section \<open>Levels\<close>

text \<open>\<open>dispatch_serially\<close>: a node on the sequential path, and its references.\<close>

definition dispatch_serially ::
  "session \<Rightarrow> node \<Rightarrow> (string \<Rightarrow> nat list option) \<Rightarrow> run_state \<times> ref_counts \<Rightarrow> onnx_error + (run_state \<times> ref_counts)" where
  "dispatch_serially s nd resolved = (\<lambda>(st, refs).
     case s_registry s (n_op nd) of
       None \<Rightarrow> Inl UnsupportedOp
     | Some oper \<Rightarrow> rbind (dispatch_node s nd oper resolved refs st) (\<lambda>st.
         Inr (decrement_refs_state s nd (st, refs))))"

text \<open>Phase 1: control-flow nodes are dispatched, the indices of the others collected.\<close>

fun dispatch_control ::
  "session \<Rightarrow> (string \<Rightarrow> nat list option) \<Rightarrow> nat list \<Rightarrow> run_state \<times> ref_counts \<Rightarrow>
    onnx_error + (nat list \<times> run_state \<times> ref_counts)" where
  "dispatch_control s resolved [] sr = Inr ([], sr)"
| "dispatch_control s resolved (idx # grp) sr =
     (if at_graphs (n_attrs (s_nodes s ! idx)) \<noteq> [] then
        rbind (dispatch_serially s (s_nodes s ! idx) resolved sr) (dispatch_control s resolved grp)
      else rbind (dispatch_control s resolved grp sr) (\<lambda>(cpu_nodes, sr). Inr (idx # cpu_nodes, sr)))"

text \<open>The write phase.\<close>

fun write_results ::
  "session \<Rightarrow> (string \<Rightarrow> nat list option) \<Rightarrow> (onnx_error + nat \<times> tensor list) list \<Rightarrow> run_state \<Rightarrow>
    onnx_error + run_state" where
  "write_results s resolved [] st = Inr st"
| "write_results s resolved (r # rs) st =
     rbind r (\<lambda>(idx, tensors).
       rbind (write_node_outputs s (s_nodes s ! idx) tensors st resolved) (write_results s resolved rs))"

definition run_cpu_nodes ::
  "session \<Rightarrow> (string \<Rightarrow> nat list option) \<Rightarrow> nat list \<Rightarrow> run_state \<times> ref_counts \<Rightarrow>
    onnx_error + (run_state \<times> ref_counts)" where
  "run_cpu_nodes s resolved cpu_nodes = (\<lambda>(st, refs).
     rbind (claim_cpu_fast_paths s resolved refs cpu_nodes st) (\<lambda>(claims, st).
       let outer_scope = rs_tensors st;
           work_items = resolve_work_item_inputs s claims st;
           par_results = map (execute_item s outer_scope) work_items
       in rbind (write_results s resolved par_results st) (\<lambda>st.
            Inr (fold (\<lambda>idx. decrement_refs_state s (s_nodes s ! idx)) cpu_nodes (st, refs)))))"

definition run_group ::
  "session \<Rightarrow> (string \<Rightarrow> nat list option) \<Rightarrow> nat list \<Rightarrow> run_state \<times> ref_counts \<Rightarrow>
    onnx_error + (run_state \<times> ref_counts)" where
  "run_group s resolved grp sr =
     (if grp = [] then Inr sr
      else if length grp = 1 then dispatch_serially s (s_nodes s ! hd grp) resolved sr
      else rbind (dispatch_control s resolved grp sr) (\<lambda>(cpu_nodes, sr). run_cpu_nodes s resolved cpu_nodes sr))"

fun run_parallel_inner ::
  "session \<Rightarrow> (string \<Rightarrow> nat list option) \<Rightarrow> nat list list \<Rightarrow> run_state \<times> ref_counts \<Rightarrow>
    onnx_error + (run_state \<times> ref_counts)" where
  "run_parallel_inner s resolved [] sr = Inr sr"
| "run_parallel_inner s resolved (grp # groups) sr =
     rbind (run_group s resolved grp sr) (run_parallel_inner s resolved groups)"

text \<open>\<open>run_internal\<close> of a session with parallel execution.\<close>

definition run_internal_parallel ::
  "session \<Rightarrow> (nat \<Rightarrow> nat) \<Rightarrow> (string \<times> tensor) list \<Rightarrow> (string \<Rightarrow> nat list option) \<Rightarrow> size_class_pool option \<Rightarrow>
    onnx_error + ((string \<Rightarrow> tensor option) \<times> size_class_pool option)" where
  "run_internal_parallel s cost inputs resolved pool =
     rbind (check_inputs s (map_of inputs)) (\<lambda>_.
      let refs = base_ref_counts (s_nodes s) (s_weights s) (s_output_names s);
          st = fold (\<lambda>(name, t) st. state_insert s name t st) inputs \<lparr>rs_tensors = Map.empty, rs_pool = pool\<rparr>;
          groups = depth_groups (s_nodes s) (s_weights s) cost
      in rbind (run_parallel_inner s resolved groups (st, refs)) (\<lambda>(st, refs).
           let (result, pool) = take_outputs s (s_output_names s) st
           in rbind result (\<lambda>result. Inr (result, pool))))"

end
