(* ===== verification/ParallelProof.thy ===== *)
theory ParallelProof
  imports Parallel
begin

text \<open>
  A parallel run gives what the evaluator gives. The evaluator runs the nodes in the order
  of the levels, within a level those with subgraphs first (\<open>level_order\<close>); by the
  theorems of \<open>Ordering\<close> that is the same as the order of the session. Per phase of a
  level there is one lemma: what was claimed has no other reader, what an item computes is
  what the evaluator computes from the environment at the start of the level, and the
  writes keep the states in agreement.
\<close>

section \<open>Liveness does not depend on the order\<close>

lemma remaining_uses_mset: "mset nds = mset nds' \<Longrightarrow> remaining_uses nds x = remaining_uses nds' x"
  unfolding remaining_uses_def by (metis mset_map sum_mset_sum_list)

lemma counts_ok_mset: "mset nds = mset nds' \<Longrightarrow> counts_ok s nds refs = counts_ok s nds' refs"
  by (simp add: counts_ok_def remaining_uses_mset [of nds nds'])

lemma live_mset: "mset nds = mset nds' \<Longrightarrow> live s nds x = live s nds' x"
  by (simp add: live_def remaining_uses_mset [of nds nds'])

lemma remaining_uses_append: "remaining_uses (nds @ nds') x = remaining_uses nds x + remaining_uses nds' x"
  by (simp add: remaining_uses_def)

lemma live_append: "live s nds' x \<Longrightarrow> live s (nds @ nds') x"
  by (auto simp: live_def remaining_uses_append)

lemma agree_append: "agree s (nds @ nds') tensors env \<Longrightarrow> agree s nds' tensors env"
  by (auto simp: agree_def live_append)

lemma agree_bind_same: "agree s nds tensors env \<Longrightarrow> agree s nds (bind_outputs outs tensors) (bind_outputs outs env)"
  by (auto simp: agree_def bind_outputs_None intro!: bind_outputs_agree)

section \<open>Evaluating lists of nodes\<close>

lemma eval_nodes_append: "eval_nodes s (nds @ nds') env = rbind (eval_nodes s nds env) (eval_nodes s nds')"
  by (induction nds arbitrary: env) (auto simp: rbind_assoc split: option.split intro!: rbind_cong)

lemma apart_eval:
  "apart (nds @ nds') env \<Longrightarrow> eval_nodes s nds env = Inr env' \<Longrightarrow> apart nds' env'"
proof (induction nds arbitrary: env)
  case (Cons nd nds)
  then obtain oper results where "s_registry s (n_op nd) = Some oper"
    "eval_nodes s nds (bind_outputs (zip (n_outputs nd) results) env) = Inr env'"
    by (auto simp: eval_node_def result_simps split: option.splits)
  with Cons.IH [OF apart_bind [of nd "nds @ nds'" env]] Cons.prems(1) show ?case by simp
qed simp

text \<open>What a part of a parallel run must satisfy with respect to the evaluator.\<close>

text \<open>
  In the environment \<open>env\<close> at the end of an evaluation, every kernel has returned one
  consistent tensor per output, of the shape that is resolved for the output.
\<close>

definition well_shaped :: "session \<Rightarrow> (string \<Rightarrow> nat list option) \<Rightarrow> tensor_map \<Rightarrow> bool" where
  "well_shaped s resolved env \<longleftrightarrow> (\<forall>nd\<in>set (s_nodes s). \<forall>oper results. s_registry s (n_op nd) = Some oper \<longrightarrow>
     execute oper (make_context s nd (map (lookup_input s env) (n_inputs nd)) env) = Inr results \<longrightarrow>
       length results = length (n_outputs nd) \<and>
       (\<forall>(x, t)\<in>set (zip (n_outputs nd) results). x \<noteq> [] \<longrightarrow>
          checked_product 1 (t_shape t) = Some (length (t_data t)) \<and> (resolved x = None \<or> resolved x = Some (t_shape t))))"

text \<open>
  What a part of a parallel run must satisfy with respect to the evaluator, where \<open>rest\<close> is
  still to be run: it fails only if no evaluation ends in a well-shaped \<open>final\<close>.
\<close>

definition part_refines ::
  "session \<Rightarrow> (string \<Rightarrow> nat list option) \<Rightarrow> tensor_map \<Rightarrow> node list \<Rightarrow> onnx_error + (run_state \<times> ref_counts) \<Rightarrow>
    onnx_error + tensor_map \<Rightarrow> bool" where
  "part_refines s resolved final rest r e \<longleftrightarrow> (case r of
     Inl err \<Rightarrow> well_shaped s resolved final \<longrightarrow> rbind e (eval_nodes s rest) \<noteq> Inr final
   | Inr (st, refs) \<Rightarrow> (\<exists>env. e = Inr env \<and> agree s rest (rs_tensors st) env \<and> pool_inv (rs_pool st) \<and>
       counts_ok s rest refs))"

lemma part_refines_bind:
  assumes "part_refines s resolved final (nds @ rest) r e"
    and "\<And>st refs env. r = Inr (st, refs) \<Longrightarrow> e = Inr env \<Longrightarrow> agree s (nds @ rest) (rs_tensors st) env \<Longrightarrow>
      pool_inv (rs_pool st) \<Longrightarrow> counts_ok s (nds @ rest) refs \<Longrightarrow>
      part_refines s resolved final rest (f (st, refs)) (eval_nodes s nds env)"
  shows "part_refines s resolved final rest (rbind r f) (rbind e (eval_nodes s nds))"
proof (cases r)
  case (Inl err)
  have "rbind (rbind e (eval_nodes s nds)) (eval_nodes s rest) = rbind e (eval_nodes s (nds @ rest))"
    by (simp add: rbind_assoc eval_nodes_append cong: rbind_cong)
  with assms(1) Inl show ?thesis by (simp add: part_refines_def)
next
  case (Inr sr)
  obtain st refs where sr: "sr = (st, refs)" by fastforce
  with assms(1) Inr obtain env where env: "e = Inr env" "agree s (nds @ rest) (rs_tensors st) env"
    "pool_inv (rs_pool st)" "counts_ok s (nds @ rest) refs" by (auto simp: part_refines_def)
  with assms(2) [of st refs env] Inr sr show ?thesis by simp
qed

lemma eval_nodes_elsewhere:
  "eval_nodes s nds env = Inr env' \<Longrightarrow> x \<notin> produced nds \<Longrightarrow> env' x = env x"
proof (induction nds arbitrary: env)
  case (Cons nd nds)
  then obtain oper results where "eval_nodes s nds (bind_outputs (zip (n_outputs nd) results) env) = Inr env'"
    by (auto simp: eval_node_def result_simps split: option.splits)
  with Cons.IH Cons.prems(2) show ?case by (auto simp: bound_elsewhere)
qed simp

lemma in_order_append: "in_order (nds @ nds') \<Longrightarrow> in_order nds'"
  by (induction nds) simp_all

section \<open>Serial dispatch\<close>

lemma dispatch_serially_refines:
  assumes "contracts s [nd]" and "capacity_ok s" and "\<forall>x\<in>set (inner_names nd). env x = None"
    and "agree s (nd # rest) (rs_tensors st) env" and "pool_inv (rs_pool st)" and "counts_ok s (nd # rest) refs"
  shows "part_refines s resolved final rest (dispatch_serially s nd resolved (st, refs)) (eval_nodes s [nd] env)"
proof (cases "s_registry s (n_op nd)")
  case None
  then show ?thesis by (simp add: part_refines_def dispatch_serially_def)
next
  case (Some oper)
  then have "operator_contract oper nd" using assms(1) by (simp add: contracts_def)
  from dispatch_node_refines [OF this assms(4,3,2,5,6), of resolved]
  have refines: "node_refines s rest (dispatch_node s nd oper resolved refs st) (eval_node s nd oper env)" .
  show ?thesis
  proof (cases "dispatch_node s nd oper resolved refs st")
    case (Inl e)
    with refines Some show ?thesis by (simp add: part_refines_def dispatch_serially_def node_refines_def)
  next
    case (Inr st1)
    obtain st2 refs2 where d: "decrement_refs_state s nd (st1, refs) = (st2, refs2)" by fastforce
    note dec = decrement_spec [OF assms(6) d]
    from refines Inr obtain env1 where env1: "eval_node s nd oper env = Inr env1"
      "agree s rest (rs_tensors st1) env1" "pool_inv (rs_pool st1)" by (auto simp: node_refines_def)
    have "agree s rest (rs_tensors st2) env1" using env1(2) dec(2,4) by (auto simp: agree_def)
    with env1 dec(1) dec(3) [OF assms(2) env1(3)] Inr Some d show ?thesis
      by (simp add: part_refines_def dispatch_serially_def)
  qed
qed

abbreviation nodes_at :: "session \<Rightarrow> nat list \<Rightarrow> node list" where
  "nodes_at s \<equiv> map ((!) (s_nodes s))"

definition has_graphs :: "session \<Rightarrow> nat \<Rightarrow> bool" where
  "has_graphs s i \<longleftrightarrow> at_graphs (n_attrs (s_nodes s ! i)) \<noteq> []"

text \<open>The control-flow nodes, while the others (the nodes of \<open>rest\<close> among them) wait.\<close>

lemma dispatch_control_refines:
  assumes "contracts s (nodes_at s grp)" and "capacity_ok s"
    and "apart (nodes_at s (filter (has_graphs s) grp) @ rest) env"
    and "agree s (nodes_at s (filter (has_graphs s) grp) @ rest) (rs_tensors st) env" and "pool_inv (rs_pool st)"
    and "counts_ok s (nodes_at s (filter (has_graphs s) grp) @ rest) refs"
  shows "part_refines s resolved final rest (rbind (dispatch_control s resolved grp (st, refs)) (\<lambda>(_, sr). Inr sr))
      (eval_nodes s (nodes_at s (filter (has_graphs s) grp)) env)
    \<and> (\<forall>cpu sr. dispatch_control s resolved grp (st, refs) = Inr (cpu, sr) \<longrightarrow> cpu = filter (\<lambda>j. \<not> has_graphs s j) grp)"
  using assms(1,3-6)
proof (induction grp arbitrary: st refs env)
  case Nil
  then show ?case by (simp add: part_refines_def)
next
  case (Cons i grp)
  let ?nd = "s_nodes s ! i"
  have contracts: "contracts s [?nd]" "contracts s (nodes_at s grp)"
    using Cons.prems(1) by (auto simp: contracts_def)
  show ?case
  proof (cases "has_graphs s i")
    case True
    let ?later = "nodes_at s (filter (has_graphs s) grp)"
    have inner: "\<forall>x\<in>set (inner_names ?nd). env x = None"
      using Cons.prems(2) True by (simp add: apart_def)
    have serial: "part_refines s resolved final (?later @ rest) (dispatch_serially s ?nd resolved (st, refs)) (eval_nodes s [?nd] env)"
      by (rule dispatch_serially_refines [OF contracts(1) assms(2) inner]) (use Cons.prems(3-5) True in simp_all)
    have rest: "part_refines s resolved final rest (rbind (dispatch_control s resolved grp (st', refs')) (\<lambda>(_, sr). Inr sr))
        (eval_nodes s ?later env') \<and>
      (\<forall>cpu sr. dispatch_control s resolved grp (st', refs') = Inr (cpu, sr) \<longrightarrow> cpu = filter (\<lambda>j. \<not> has_graphs s j) grp)"
      if "eval_nodes s [?nd] env = Inr env'" "agree s (?later @ rest) (rs_tensors st') env'" "pool_inv (rs_pool st')"
        "counts_ok s (?later @ rest) refs'" for st' refs' env'
    proof (rule Cons.IH [OF contracts(2) _ that(2-4)])
      show "apart (?later @ rest) env'"
        using apart_eval [of "[?nd]" "?later @ rest" env s env'] that(1) Cons.prems(2) True by simp
    qed
    have step: "dispatch_control s resolved (i # grp) (st, refs)
        = rbind (dispatch_serially s ?nd resolved (st, refs)) (dispatch_control s resolved grp)"
      using True by (simp add: has_graphs_def)
    have evals: "eval_nodes s (nodes_at s (filter (has_graphs s) (i # grp))) env
        = rbind (eval_nodes s [?nd] env) (eval_nodes s ?later)"
      using True eval_nodes_append [of s "[?nd]" ?later env] by simp
    have "part_refines s resolved final rest
      (rbind (dispatch_serially s ?nd resolved (st, refs)) (\<lambda>sr. rbind (dispatch_control s resolved grp sr) (\<lambda>(_, sr). Inr sr)))
      (rbind (eval_nodes s [?nd] env) (eval_nodes s ?later))"
      by (rule part_refines_bind [OF serial]) (use rest in blast)
    moreover have "cpu = filter (\<lambda>j. \<not> has_graphs s j) (i # grp)"
      if c: "dispatch_control s resolved (i # grp) (st, refs) = Inr (cpu, sr)" for cpu sr
    proof -
      from c [unfolded step] obtain st' refs' where d: "dispatch_serially s ?nd resolved (st, refs) = Inr (st', refs')"
        "dispatch_control s resolved grp (st', refs') = Inr (cpu, sr)" by (auto simp: result_simps)
      with serial obtain env' where "eval_nodes s [?nd] env = Inr env'" "agree s (?later @ rest) (rs_tensors st') env'"
        "pool_inv (rs_pool st')" "counts_ok s (?later @ rest) refs'" by (auto simp: part_refines_def)
      from rest [OF this] d(2) True show ?thesis by simp
    qed
    ultimately show ?thesis unfolding evals step rbind_assoc by blast
  next
    case False
    have IH: "part_refines s resolved final rest (rbind (dispatch_control s resolved grp (st, refs)) (\<lambda>(_, sr). Inr sr))
        (eval_nodes s (nodes_at s (filter (has_graphs s) grp)) env) \<and>
      (\<forall>cpu sr. dispatch_control s resolved grp (st, refs) = Inr (cpu, sr) \<longrightarrow> cpu = filter (\<lambda>j. \<not> has_graphs s j) grp)"
      by (rule Cons.IH [OF contracts(2)]) (use Cons.prems(2-5) False in simp_all)
    have step: "dispatch_control s resolved (i # grp) (st, refs)
        = rbind (dispatch_control s resolved grp (st, refs)) (\<lambda>(cpu, sr). Inr (i # cpu, sr))"
      using False by (simp add: has_graphs_def)
    have "rbind (dispatch_control s resolved (i # grp) (st, refs)) (\<lambda>(_, sr). Inr sr)
        = rbind (dispatch_control s resolved grp (st, refs)) (\<lambda>(_, sr). Inr sr)"
      unfolding step by (cases "dispatch_control s resolved grp (st, refs)") auto
    moreover have "cpu = filter (\<lambda>j. \<not> has_graphs s j) (i # grp)"
      if "dispatch_control s resolved (i # grp) (st, refs) = Inr (cpu, sr)" for cpu sr
      using that [unfolded step] IH False by (auto simp: rbind_Inr_iff split: prod.splits)
    ultimately show ?thesis using IH False by (auto simp del: dispatch_control.simps)
  qed
qed

section \<open>Claims\<close>

text \<open>The names whose tensors the in-place claims take out of the state.\<close>

definition takes_input :: "session \<Rightarrow> ref_counts \<Rightarrow> nat \<Rightarrow> bool" where
  "takes_input s refs i \<longleftrightarrow> (\<exists>oper. s_registry s (n_op (s_nodes s ! i)) = Some oper \<and>
     node_can_execute_inplace s (s_nodes s ! i) oper refs)"

definition first_input :: "session \<Rightarrow> nat \<Rightarrow> string" where
  "first_input s i = hd (n_inputs (s_nodes s ! i))"

definition taken_names :: "session \<Rightarrow> ref_counts \<Rightarrow> nat list \<Rightarrow> string list" where
  "taken_names s refs is = map (first_input s) (filter (takes_input s refs) is)"

lemma taken_names_simps [simp]:
  "taken_names s refs [] = []"
  "taken_names s refs (i # is) = (if takes_input s refs i then [first_input s i] else []) @ taken_names s refs is"
  "taken_names s refs (is @ js) = taken_names s refs is @ taken_names s refs js"
  by (simp_all add: taken_names_def)

text \<open>Nobody else of the level or later reads what is taken.\<close>

lemma taken_sole_reader:
  assumes "takes_input s refs i" and "counts_ok s (nodes_at s (is @ i # js) @ rest) refs"
  shows "\<exists>ins. n_inputs (s_nodes s ! i) = first_input s i # ins \<and> first_input s i \<notin> set ins \<and>
    first_input s i \<noteq> [] \<and> s_weights s (first_input s i) = None \<and>
    \<not> live s (nodes_at s (is @ js) @ rest) (first_input s i)"
proof -
  obtain oper where "node_can_execute_inplace s (s_nodes s ! i) oper refs"
    using assms(1) by (auto simp: takes_input_def)
  moreover have "counts_ok s ((s_nodes s ! i) # nodes_at s (is @ js) @ rest) refs"
    using assms(2) by (subst counts_ok_mset [where nds' = "nodes_at s (is @ i # js) @ rest"]) simp_all
  ultimately obtain first ins where "n_inputs (s_nodes s ! i) = first # ins" "first \<noteq> []" "first \<notin> set ins"
    "s_weights s first = None" "\<not> live s (nodes_at s (is @ js) @ rest) first"
    by (rule inplace_sole_reader)
  then show ?thesis by (simp add: first_input_def)
qed

lemma taken_not_live:
  assumes "x \<in> set (taken_names s refs (is @ js))" and "counts_ok s (nodes_at s (is @ i # js) @ rest) refs"
  shows "x \<notin> reads (s_nodes s ! i)" and "\<not> live s rest x"
proof -
  obtain k where k: "k \<in> set (is @ js)" "takes_input s refs k" "x = first_input s k"
    using assms(1) by (auto simp: taken_names_def)
  have *: "x \<notin> reads (s_nodes s ! i) \<and> \<not> live s rest x"
    if "mset (is @ i # js) = mset (i # us @ k # vs)" for us vs
  proof -
    have "mset (nodes_at s (is @ i # js)) = mset (nodes_at s ((i # us) @ k # vs))"
      using that by (metis append_Cons mset_map)
    then have "counts_ok s (nodes_at s ((i # us) @ k # vs) @ rest) refs"
      using assms(2) counts_ok_mset [of "nodes_at s ((i # us) @ k # vs) @ rest" "nodes_at s (is @ i # js) @ rest"] by simp
    from taken_sole_reader [OF k(2) this] have nl: "\<not> live s ((s_nodes s ! i) # nodes_at s (us @ vs) @ rest) x"
      by (auto simp: k(3))
    then show ?thesis
      using live_inputs [of x "s_nodes s ! i" s "nodes_at s (us @ vs) @ rest"]
        live_append [of s rest x "(s_nodes s ! i) # nodes_at s (us @ vs)"]
      by (auto simp: reads_def)
  qed
  from k(1) obtain us vs where "is @ js = us @ k # vs" by (meson split_list)
  then have "mset (is @ js) = mset (us @ k # vs)" by simp
  then show "x \<notin> reads (s_nodes s ! i)" and "\<not> live s rest x" using * [of us vs] by simp_all
qed

lemma taken_distinct:
  assumes "counts_ok s (nodes_at s (ks @ is) @ rest) refs"
  shows "distinct (taken_names s refs is)"
  using assms
proof (induction "is" arbitrary: ks)
  case (Cons i "is")
  have "first_input s i \<notin> set (taken_names s refs is)" if i: "takes_input s refs i"
  proof
    assume "first_input s i \<in> set (taken_names s refs is)"
    then have "first_input s i \<notin> reads (s_nodes s ! i)"
      using taken_not_live(1) [of "first_input s i" s refs ks "is" i rest] Cons.prems by simp
    with taken_sole_reader [OF i, of ks "is" rest] Cons.prems show False by (auto simp: reads_def)
  qed
  with Cons.IH [of "ks @ [i]"] Cons.prems show ?case by simp
qed simp

lemma list_all2_conj_in: "list_all2 P xs ys \<Longrightarrow> list_all2 (\<lambda>x y. P x y \<and> x \<in> set xs) xs ys"
  by (auto simp: list_all2_conv_all_nth)

text \<open>A claim, over the tensors \<open>tensors\<close> at the start of the phase.\<close>

definition claim_of :: "session \<Rightarrow> ref_counts \<Rightarrow> tensor_map \<Rightarrow> nat \<Rightarrow> cpu_claim \<Rightarrow> bool" where
  "claim_of s refs tensors i c \<longleftrightarrow>
     cl_idx c = i \<and> cl_node c = s_nodes s ! i \<and> s_registry s (n_op (s_nodes s ! i)) = Some (cl_operator c) \<and>
     cl_inplace c = takes_input s refs i \<and>
     cl_owned_input c = (if takes_input s refs i then tensors (first_input s i) else None) \<and>
     (\<forall>slots. cl_slots c = Some slots \<longrightarrow> \<not> takes_input s refs i \<and> supports_output_slots (cl_operator c) \<and>
        length slots = length (n_outputs (s_nodes s ! i)) \<and> (\<forall>t\<in>set slots. zeroed t))"

lemma claim_of_agree:
  "claim_of s refs tensors i c \<Longrightarrow> (takes_input s refs i \<Longrightarrow> tensors (first_input s i) = tensors' (first_input s i)) \<Longrightarrow>
     claim_of s refs tensors' i c"
  by (auto simp: claim_of_def)

lemma claims_spec:
  assumes "claim_cpu_fast_paths s resolved refs is st = Inr (claims, st')" and "pool_inv (rs_pool st)"
    and "distinct (taken_names s refs is)"
  shows "list_all2 (claim_of s refs (rs_tensors st)) is claims \<and> pool_inv (rs_pool st') \<and>
    (\<forall>x. rs_tensors st' x = (if x \<in> set (taken_names s refs is) then None else rs_tensors st x))"
  using assms
proof (induction "is" arbitrary: st claims)
  case (Cons i "is")
  let ?nd = "s_nodes s ! i"
  obtain oper where oper: "s_registry s (n_op ?nd) = Some oper"
    using Cons.prems(1) by (cases "s_registry s (n_op ?nd)") (simp_all add: Let_def)
  let ?inp = "node_can_execute_inplace s ?nd oper refs"
  have takes: "takes_input s refs i = ?inp" using oper by (simp add: takes_input_def)
  define owned where "owned = (if ?inp then rs_tensors st (first_input s i) else None)"
  define st1 where "st1 = (if ?inp then st\<lparr>rs_tensors := (rs_tensors st)(first_input s i := None)\<rparr> else st)"
  obtain slots pool where a: "(if \<not> ?inp \<and> supports_output_slots oper
      then acquire_output_slots ?nd resolved (rs_pool st1) else (None, rs_pool st1)) = (slots, pool)" by fastforce
  have "(if ?inp then state_take (hd (n_inputs ?nd)) st else (None, st)) = (owned, st1)"
    by (simp add: owned_def st1_def state_take_def first_input_def)
  with Cons.prems(1) oper a obtain cs where
    rest: "claim_cpu_fast_paths s resolved refs is (st1\<lparr>rs_pool := pool\<rparr>) = Inr (cs, st')"
    and claims: "claims = \<lparr>cl_idx = i, cl_node = ?nd, cl_operator = oper, cl_owned_input = owned,
      cl_slots = slots, cl_inplace = ?inp\<rparr> # cs"
    by (simp add: Let_def rbind_Inr_iff) blast
  have pool: "pool_inv (rs_pool st1)" using Cons.prems(2) by (simp add: st1_def)
  have slots: "pool_inv pool \<and> (\<forall>sl. slots = Some sl \<longrightarrow> \<not> ?inp \<and> supports_output_slots oper \<and>
      length sl = length (n_outputs ?nd) \<and> (\<forall>t\<in>set sl. zeroed t))"
    using a pool acquire_output_slots_spec [of ?nd resolved "rs_pool st1" slots pool]
    by (auto split: if_splits)
  have dist: "distinct (taken_names s refs is)" using Cons.prems(3) by simp
  have IH: "list_all2 (claim_of s refs (rs_tensors st1)) is cs" "pool_inv (rs_pool st')"
    "rs_tensors st' x = (if x \<in> set (taken_names s refs is) then None else rs_tensors st1 x)" for x
    using Cons.IH [OF rest _ dist] slots by simp_all
  have "list_all2 (claim_of s refs (rs_tensors st)) is cs"
  proof (rule list_all2_mono [OF list_all2_conj_in [OF IH(1)]])
    fix j c assume j: "claim_of s refs (rs_tensors st1) j c \<and> j \<in> set is"
    show "claim_of s refs (rs_tensors st) j c"
    proof (rule claim_of_agree)
      assume "takes_input s refs j"
      with j have "first_input s j \<in> set (taken_names s refs is)" by (auto simp: taken_names_def)
      then have "takes_input s refs i \<Longrightarrow> first_input s j \<noteq> first_input s i" using Cons.prems(3) by auto
      then show "rs_tensors st1 (first_input s j) = rs_tensors st (first_input s j)"
        unfolding st1_def takes by simp
    qed (use j in simp)
  qed
  moreover have "claim_of s refs (rs_tensors st) i (hd claims)"
    using claims slots oper takes by (simp add: claim_of_def owned_def)
  ultimately have "list_all2 (claim_of s refs (rs_tensors st)) (i # is) claims" using claims by simp
  moreover have "rs_tensors st' x = (if x \<in> set (taken_names s refs (i # is)) then None else rs_tensors st x)" for x
    unfolding IH(3) by (simp add: st1_def takes)
  ultimately show ?case using IH(2) by simp
qed simp

section \<open>Execution\<close>

lemma no_graphs_scope: "\<not> has_graphs s i \<Longrightarrow> scope_agrees (s_nodes s ! i) tensors env"
  by (cases "s_nodes s ! i"; cases "n_attrs (s_nodes s ! i)")
    (simp add: scope_agrees_def has_graphs_def subgraph_captures_def)

lemma map_enumerate_inputs:
  "map (\<lambda>(i, name). if name = [] \<or> i = 0 then None else f name) (enumerate (Suc k) xs)
     = map (\<lambda>name. if name = [] then None else f name) xs"
  "map (\<lambda>(i, name). if name = [] then None else f name) (enumerate k xs)
     = map (\<lambda>name. if name = [] then None else f name) xs"
  by (induction xs arbitrary: k) simp_all

text \<open>
  An item computes what the evaluator computes from the environment at the start of the
  phase, whichever of the three paths it takes.
\<close>

lemma execute_item_eval:
  assumes contract: "operator_contract oper (s_nodes s ! i)" and oper: "s_registry s (n_op (s_nodes s ! i)) = Some oper"
    and plain: "\<not> has_graphs s i" and claim: "claim_of s refs tensors i c"
    and st: "\<And>x. rs_tensors st x = (if x \<in> set (taken_names s refs (is @ i # js)) then None else tensors x)"
    and agr: "agree s (nodes_at s (is @ i # js) @ rest) tensors env"
    and counts: "counts_ok s (nodes_at s (is @ i # js) @ rest) refs"
  shows "execute_item s (rs_tensors st) (resolve_item s st c)
    = rbind (execute oper (make_context s (s_nodes s ! i) (map (lookup_input s env) (n_inputs (s_nodes s ! i))) env))
        (\<lambda>results. Inr (i, results))"
proof -
  let ?nd = "s_nodes s ! i"
  have c: "cl_idx c = i" "cl_node c = ?nd" "cl_operator c = oper" "cl_inplace c = takes_input s refs i"
    "cl_owned_input c = (if takes_input s refs i then tensors (first_input s i) else None)"
    using claim oper by (simp_all add: claim_of_def)
  have slots: "supports_output_slots oper \<and> length slots = length (n_outputs ?nd) \<and> (\<forall>t\<in>set slots. zeroed t)"
    if "cl_slots c = Some slots" for slots
    using claim that oper by (auto simp: claim_of_def)
  note scope = no_graphs_scope [OF plain, of "rs_tensors st" env]
  have read: "tensors x = env x" if "x \<in> set (n_inputs ?nd)" for x
  proof -
    have "live s (?nd # (nodes_at s (is @ js) @ rest)) x" using live_inputs that by fastforce
    then have "live s (nodes_at s (is @ i # js) @ rest) x"
      by (subst live_mset [where nds' = "?nd # (nodes_at s (is @ js) @ rest)"]) simp_all
    with agr show ?thesis by (simp add: agree_def)
  qed
  have lookup: "lookup_input s (rs_tensors st) x = lookup_input s env x"
    if x: "x \<in> set (n_inputs ?nd)" "takes_input s refs i \<Longrightarrow> x \<noteq> first_input s i" for x
  proof -
    have "x \<notin> set (taken_names s refs (is @ js))"
      using taken_not_live(1) [OF _ counts, of x] x(1) by (auto simp: reads_def)
    with x(2) have "x \<notin> set (taken_names s refs (is @ i # js))" by auto
    then have "rs_tensors st x = env x" unfolding st using read [OF x(1)] by (simp only: if_False)
    then show ?thesis by (simp add: lookup_input_def)
  qed
  have drop_empty: "map (\<lambda>name. if name = [] then None else lookup_input s t name) xs = map (lookup_input s t) xs" for t xs
    by (simp add: lookup_input_def)
  show ?thesis
  proof (cases "takes_input s refs i")
    case True
    from taken_sole_reader [OF True counts] obtain ins where
      f: "n_inputs ?nd = first_input s i # ins" "first_input s i \<notin> set ins" "first_input s i \<noteq> []"
        "s_weights s (first_input s i) = None" by blast
    have "supports_inplace oper" using True oper by (auto simp: takes_input_def node_can_execute_inplace_def)
    note inplace = operator_contract.inplace_scope [OF contract this scope]
      and execute = operator_contract.execute_scope [OF contract scope]
    have no_slots: "cl_slots c = None"
      using claim True by (cases "cl_slots c") (auto simp: claim_of_def)
    have ins: "map (lookup_input s (rs_tensors st)) ins = map (lookup_input s env) ins"
      using lookup f(1,2) by auto
    have inputs: "wi_inputs (resolve_item s st c) = None # map (lookup_input s env) ins"
      by (simp add: resolve_item_def c True f(1,3) map_enumerate_inputs drop_empty ins)
    have first: "lookup_input s env (first_input s i) = tensors (first_input s i)"
      using read [of "first_input s i"] f by (simp add: lookup_input_def split: option.split)
    show ?thesis
      using True no_slots first inplace execute
      by (simp add: execute_item_def inputs Let_def make_context_def f(1) split: option.split)
        (simp add: resolve_item_def c)
  next
    case False
    have inputs: "wi_inputs (resolve_item s st c) = map (lookup_input s env) (n_inputs ?nd)"
      using lookup False by (simp add: resolve_item_def c map_enumerate_inputs drop_empty)
    show ?thesis
    proof (cases "cl_slots c")
      case None
      show ?thesis
        using None False operator_contract.execute_scope [OF contract scope]
        by (simp add: execute_item_def inputs Let_def make_context_def) (simp add: resolve_item_def c)
    next
      case (Some slots)
      show ?thesis
        using Some operator_contract.slots_scope [OF contract _ _ _ scope] slots [OF Some]
        by (simp add: execute_item_def inputs Let_def make_context_def) (simp add: resolve_item_def c)
    qed
  qed
qed

section \<open>The write phase\<close>

lemma commit_outputs_tensors: "rs_tensors (commit_outputs s outs st) = bind_outputs outs (rs_tensors st)"
  unfolding commit_outputs_def bind_outputs_def by (induction outs arbitrary: st) auto

lemma commit_outputs_inv:
  "capacity_ok s \<Longrightarrow> pool_inv (rs_pool st) \<Longrightarrow> pool_inv (rs_pool (commit_outputs s outs st))"
  unfolding commit_outputs_def
  by (induction outs arbitrary: st) (auto simp: state_insert_inv release_to_pool_inv)

lemma validate_outputs_ok:
  "\<forall>(x, t)\<in>set outs. x \<noteq> [] \<longrightarrow> checked_product 1 (t_shape t) = Some (length (t_data t)) \<and>
     (resolved x = None \<or> resolved x = Some (t_shape t)) \<Longrightarrow> validate_outputs resolved outs = Inr ()"
  by (induction resolved outs rule: validate_outputs.induct) (auto split: option.split)

lemma write_node_outputs_cases:
  assumes "capacity_ok s" and "pool_inv (rs_pool st)"
  obtains e where "write_node_outputs s nd results st resolved = Inl e"
  | st' where "write_node_outputs s nd results st resolved = Inr st'"
      "rs_tensors st' = bind_outputs (zip (n_outputs nd) results) (rs_tensors st)" "pool_inv (rs_pool st')"
proof (cases "write_node_outputs s nd results st resolved")
  case (Inr st')
  then have "st' = commit_outputs s (zip (n_outputs nd) results) st"
    by (auto simp: write_node_outputs_def result_simps split: if_splits)
  with Inr show ?thesis
    by (intro that(2) [of st']) (simp_all add: commit_outputs_tensors commit_outputs_inv assms)
qed (use that in auto)

text \<open>What the item of a node gives, in terms of the evaluator's environment.\<close>

definition item_result :: "session \<Rightarrow> tensor_map \<Rightarrow> nat \<Rightarrow> onnx_error + nat \<times> tensor list" where
  "item_result s env i =
     (case s_registry s (n_op (s_nodes s ! i)) of
        None \<Rightarrow> Inl UnsupportedOp
      | Some oper \<Rightarrow>
          rbind (execute oper (make_context s (s_nodes s ! i) (map (lookup_input s env) (n_inputs (s_nodes s ! i))) env))
            (\<lambda>results. Inr (i, results)))"

lemma write_results_refines:
  assumes "contracts s (nodes_at s is)" and "\<forall>i\<in>set is. \<not> has_graphs s i \<and> i < length (s_nodes s)"
    and cap: "capacity_ok s"
    and "\<forall>i\<in>set is. set (n_inputs (s_nodes s ! i)) \<inter> P = {}" and "produced (nodes_at s is) \<subseteq> P"
    and "\<forall>x. x \<notin> P \<longrightarrow> env x = env0 x"
    and "agree s rest (rs_tensors st) env" and "pool_inv (rs_pool st)" and "in_order (nodes_at s is @ rest)"
  shows "case write_results s resolved (map (item_result s env0) is) st of
      Inl e \<Rightarrow> well_shaped s resolved final \<longrightarrow> eval_nodes s (nodes_at s is @ rest) env \<noteq> Inr final
    | Inr st' \<Rightarrow> \<exists>env'. eval_nodes s (nodes_at s is) env = Inr env' \<and> agree s rest (rs_tensors st') env' \<and>
        pool_inv (rs_pool st')"
  using assms(1,2,4-9)
proof (induction "is" arbitrary: st env)
  case (Cons i "is")
  let ?nd = "s_nodes s ! i"
  show ?case
  proof (cases "s_registry s (n_op ?nd)")
    case None
    then show ?thesis by (simp add: item_result_def)
  next
    case (Some oper)
    have contract: "operator_contract oper ?nd" using Cons.prems(1) Some by (simp add: contracts_def)
    have plain: "at_graphs (n_attrs ?nd) = []" using Cons.prems(2) by (simp add: has_graphs_def)
    have exec: "execute oper (make_context s ?nd (map (lookup_input s env) (n_inputs ?nd)) env)
        = execute oper (make_context s ?nd (map (lookup_input s env0) (n_inputs ?nd)) env0)"
      by (rule eval_node_agree [OF contract])
        (use Cons.prems(3,5) plain in \<open>auto simp: captures_no_graphs inner_names_no_graphs\<close>)
    show ?thesis
    proof (cases "execute oper (make_context s ?nd (map (lookup_input s env0) (n_inputs ?nd)) env0)")
      case (Inl e)
      with Some exec show ?thesis by (simp add: item_result_def eval_node_def)
    next
      case (Inr results)
      let ?env = "bind_outputs (zip (n_outputs ?nd) results) env"
      have step: "eval_nodes s (nodes_at s (i # is)) env = eval_nodes s (nodes_at s is) ?env"
        "write_results s resolved (map (item_result s env0) (i # is)) st
           = rbind (write_node_outputs s ?nd results st resolved) (write_results s resolved (map (item_result s env0) is))"
        using Inr Some exec by (simp_all add: item_result_def eval_node_def)
      show ?thesis
      proof (cases rule: write_node_outputs_cases [OF cap Cons.prems(7), of ?nd results resolved])
        case (1 e)
        have "eval_nodes s (nodes_at s (i # is) @ rest) env \<noteq> Inr final" if w: "well_shaped s resolved final"
        proof
          assume "eval_nodes s (nodes_at s (i # is) @ rest) env = Inr final"
          from eval_nodes_elsewhere [OF this] Cons.prems(8)
          have final: "final x = env x" if "x \<in> set (n_inputs ?nd)" for x using that by (auto simp: reads_def)
          have "execute oper (make_context s ?nd (map (lookup_input s final) (n_inputs ?nd)) final) = Inr results"
            unfolding Inr [symmetric] exec [symmetric]
            by (rule eval_node_agree [OF contract])
              (use final plain in \<open>auto simp: captures_no_graphs inner_names_no_graphs\<close>)
          moreover have "?nd \<in> set (s_nodes s)" using Cons.prems(2) by simp
          ultimately have "length results = length (n_outputs ?nd)"
            "\<forall>(x, t)\<in>set (zip (n_outputs ?nd) results). x \<noteq> [] \<longrightarrow>
               checked_product 1 (t_shape t) = Some (length (t_data t)) \<and> (resolved x = None \<or> resolved x = Some (t_shape t))"
            using Some w unfolding well_shaped_def by blast+
          then show False using 1 validate_outputs_ok by (simp add: write_node_outputs_def)
        qed
        then show ?thesis unfolding step(2) 1 rbind.simps by simp
      next
        case (2 st1)
        have off: "\<forall>x. x \<notin> P \<longrightarrow> ?env x = env0 x"
        proof (intro allI impI)
          fix x assume "x \<notin> P"
          with Cons.prems(4) have "x \<notin> set (n_outputs ?nd) \<or> x = []" by auto
          then show "?env x = env0 x" using Cons.prems(5) \<open>x \<notin> P\<close> by (simp add: bound_elsewhere)
        qed
        have "contracts s (nodes_at s is)" using Cons.prems(1) by (simp add: contracts_def)
        from Cons.IH [OF this _ _ _ off, of st1] Cons.prems(2,3,4,8) 2 agree_bind_same [OF Cons.prems(6)]
        have IH: "case write_results s resolved (map (item_result s env0) is) st1 of
            Inl e \<Rightarrow> well_shaped s resolved final \<longrightarrow> eval_nodes s (nodes_at s is @ rest) ?env \<noteq> Inr final
          | Inr st' \<Rightarrow> \<exists>env'. eval_nodes s (nodes_at s is) ?env = Inr env' \<and> agree s rest (rs_tensors st') env' \<and>
              pool_inv (rs_pool st')" by simp
        have "eval_nodes s (nodes_at s (i # is) @ rest) env = eval_nodes s (nodes_at s is @ rest) ?env"
          using Inr Some exec by (simp add: eval_node_def)
        then show ?thesis using IH unfolding step 2(1) rbind.simps by (simp only:)
      qed
    qed
  qed
qed simp

section \<open>The references of a level\<close>

lemma decrement_all:
  assumes "counts_ok s (nodes_at s is @ rest) refs"
    and "fold (\<lambda>idx. decrement_refs_state s (s_nodes s ! idx)) is (st, refs) = (st', refs')"
  shows "counts_ok s rest refs' \<and> (\<forall>x. live s rest x \<longrightarrow> rs_tensors st' x = rs_tensors st x) \<and>
    (capacity_ok s \<longrightarrow> pool_inv (rs_pool st) \<longrightarrow> pool_inv (rs_pool st')) \<and>
    (\<forall>x. rs_tensors st x = None \<longrightarrow> rs_tensors st' x = None)"
  using assms
proof (induction "is" arbitrary: st refs)
  case (Cons i "is")
  obtain st1 refs1 where d: "decrement_refs_state s (s_nodes s ! i) (st, refs) = (st1, refs1)" by fastforce
  note dec = decrement_spec [OF _ d, of "nodes_at s is @ rest", simplified]
  have counts: "counts_ok s ((s_nodes s ! i) # nodes_at s is @ rest) refs" using Cons.prems(1) by simp
  have IH: "counts_ok s rest refs'" "\<And>x. live s rest x \<Longrightarrow> rs_tensors st' x = rs_tensors st1 x"
    "capacity_ok s \<Longrightarrow> pool_inv (rs_pool st1) \<Longrightarrow> pool_inv (rs_pool st')"
    "\<And>x. rs_tensors st1 x = None \<Longrightarrow> rs_tensors st' x = None"
    using Cons.IH [OF dec(1) [OF counts]] Cons.prems(2) d by simp_all
  show ?case
  proof (intro conjI allI impI)
    show "rs_tensors st' x = rs_tensors st x" if "live s rest x" for x
      using IH(2) [OF that] dec(2) [OF counts live_append [OF that]] by simp
  qed (use IH dec(3,4) [OF counts] in simp_all)
qed simp

section \<open>The concurrent part of a level\<close>

lemma eval_nodes_unregistered:
  "nd \<in> set nds \<Longrightarrow> s_registry s (n_op nd) = None \<Longrightarrow> \<exists>e. eval_nodes s nds env = Inl e"
proof (induction nds arbitrary: env)
  case (Cons n nds)
  show ?case
  proof (cases "s_registry s (n_op n)")
    case (Some oper)
    with Cons.prems have "nd \<in> set nds" by auto
    with Cons.IH Cons.prems(2) Some show ?thesis by (cases "eval_node s n oper env") simp_all
  qed simp
qed simp

lemma claims_fail:
  "claim_cpu_fast_paths s resolved refs is st = Inl e \<Longrightarrow> \<exists>i\<in>set is. s_registry s (n_op (s_nodes s ! i)) = None"
proof (induction "is" arbitrary: st e)
  case (Cons i "is")
  show ?case
  proof (cases "s_registry s (n_op (s_nodes s ! i))")
    case (Some oper)
    with Cons.prems obtain st1 e1 where "claim_cpu_fast_paths s resolved refs is st1 = Inl e1"
      by (auto simp: Let_def rbind_Inl_iff split: if_splits prod.splits)
    from Cons.IH [OF this] show ?thesis by auto
  qed simp
qed simp

lemma claims_items:
  assumes "contracts s (nodes_at s cpu)" and "\<forall>i\<in>set cpu. \<not> has_graphs s i"
    and claims: "claim_cpu_fast_paths s resolved refs cpu st = Inr (claims, st1)" and pool: "pool_inv (rs_pool st)"
    and agr: "agree s (nodes_at s cpu @ rest) (rs_tensors st) env" and counts: "counts_ok s (nodes_at s cpu @ rest) refs"
  shows "map (execute_item s (rs_tensors st1)) (resolve_work_item_inputs s claims st1) = map (item_result s env) cpu"
    and "agree s rest (rs_tensors st1) env" and "pool_inv (rs_pool st1)"
proof -
  have "distinct (taken_names s refs cpu)" by (rule taken_distinct [of s "[]" cpu rest]) (use counts in simp)
  from claims_spec [OF claims pool this]
  have spec: "list_all2 (claim_of s refs (rs_tensors st)) cpu claims" "pool_inv (rs_pool st1)"
    "\<And>x. rs_tensors st1 x = (if x \<in> set (taken_names s refs cpu) then None else rs_tensors st x)" by blast+
  show "pool_inv (rs_pool st1)" by (rule spec(2))
  have "execute_item s (rs_tensors st1) (resolve_item s st1 (claims ! k)) = item_result s env (cpu ! k)"
    if k: "k < length cpu" for k
  proof -
    let ?i = "cpu ! k" and ?as = "take k cpu" and ?bs = "drop (Suc k) cpu"
    have split: "cpu = ?as @ ?i # ?bs" by (rule id_take_nth_drop [OF k])
    have claim: "claim_of s refs (rs_tensors st) ?i (claims ! k)" using spec(1) k by (rule list_all2_nthD)
    then obtain oper where oper: "s_registry s (n_op (s_nodes s ! ?i)) = Some oper" by (auto simp: claim_of_def)
    have "?i \<in> set cpu" using k by simp
    with assms(1,2) oper have c: "operator_contract oper (s_nodes s ! ?i)" "\<not> has_graphs s ?i"
      by (auto simp: contracts_def)
    show ?thesis
      using execute_item_eval [OF c(1) oper c(2) claim, of st1 ?as ?bs rest env, folded split, OF spec(3) agr counts] oper
      by (simp add: item_result_def)
  qed
  then show "map (execute_item s (rs_tensors st1)) (resolve_work_item_inputs s claims st1) = map (item_result s env) cpu"
    using list_all2_lengthD [OF spec(1)] by (auto simp: resolve_work_item_inputs_def intro!: nth_equalityI)
  have not_taken: "x \<notin> set (taken_names s refs cpu)" if live: "live s rest x" for x
  proof
    assume "x \<in> set (taken_names s refs cpu)"
    then obtain k where k: "k \<in> set cpu" "takes_input s refs k" "x = first_input s k" by (auto simp: taken_names_def)
    then obtain as bs where "cpu = as @ k # bs" by (meson split_list)
    with taken_sole_reader [OF k(2), of as bs rest] counts live_append [OF live, of "nodes_at s (as @ bs)"] k(3)
    show False by simp
  qed
  show "agree s rest (rs_tensors st1) env"
    unfolding agree_def
  proof (intro conjI allI impI)
    fix x assume live: "live s rest x"
    have "rs_tensors st1 x = rs_tensors st x" unfolding spec(3) using not_taken [OF live] by (simp only: if_False)
    then show "rs_tensors st1 x = env x" using agr live_append [OF live] by (simp add: agree_def)
  next
    fix x assume "env x = None"
    then show "rs_tensors st1 x = None" unfolding spec(3) using agr by (simp add: agree_def)
  qed
qed

lemma run_cpu_nodes_refines:
  assumes "contracts s (nodes_at s cpu)" and "\<forall>i\<in>set cpu. \<not> has_graphs s i \<and> i < length (s_nodes s)"
    and cap: "capacity_ok s" and indep: "\<forall>i\<in>set cpu. set (n_inputs (s_nodes s ! i)) \<inter> produced (nodes_at s cpu) = {}"
    and "agree s (nodes_at s cpu @ rest) (rs_tensors st) env" and "pool_inv (rs_pool st)"
    and "counts_ok s (nodes_at s cpu @ rest) refs" and order: "in_order (nodes_at s cpu @ rest)"
  shows "part_refines s resolved final rest (run_cpu_nodes s resolved cpu (st, refs)) (eval_nodes s (nodes_at s cpu) env)"
proof (cases "claim_cpu_fast_paths s resolved refs cpu st")
  case (Inl e)
  from claims_fail [OF this] obtain i where "i \<in> set cpu" "s_registry s (n_op (s_nodes s ! i)) = None" by blast
  then have "\<exists>e. eval_nodes s (nodes_at s cpu) env = Inl e" by (intro eval_nodes_unregistered) auto
  with Inl show ?thesis by (auto simp add: part_refines_def run_cpu_nodes_def)
next
  case (Inr r)
  obtain claims st1 where r: "r = (claims, st1)" by fastforce
  have plain: "\<forall>i\<in>set cpu. \<not> has_graphs s i" using assms(2) by blast
  note items = claims_items [OF assms(1) plain Inr [unfolded r] assms(6,5,7)]
  let ?w = "write_results s resolved (map (item_result s env) cpu) st1"
  have run: "run_cpu_nodes s resolved cpu (st, refs)
      = rbind ?w (\<lambda>st. Inr (fold (\<lambda>idx. decrement_refs_state s (s_nodes s ! idx)) cpu (st, refs)))"
    by (simp add: run_cpu_nodes_def Inr r items(1) Let_def)
  have w: "case ?w of
      Inl e \<Rightarrow> well_shaped s resolved final \<longrightarrow> eval_nodes s (nodes_at s cpu @ rest) env \<noteq> Inr final
    | Inr st' \<Rightarrow> \<exists>env'. eval_nodes s (nodes_at s cpu) env = Inr env' \<and> agree s rest (rs_tensors st') env' \<and>
        pool_inv (rs_pool st')"
    by (rule write_results_refines [OF assms(1,2) cap indep subset_refl]) (use items(2,3) order in simp_all)
  show ?thesis
  proof (cases ?w)
    case (Inl e)
    with w show ?thesis by (simp add: run part_refines_def eval_nodes_append)
  next
    case (Inr st2)
    with w obtain env' where env': "eval_nodes s (nodes_at s cpu) env = Inr env'"
      "agree s rest (rs_tensors st2) env'" "pool_inv (rs_pool st2)" by auto
    obtain st3 refs3 where d: "fold (\<lambda>idx. decrement_refs_state s (s_nodes s ! idx)) cpu (st2, refs) = (st3, refs3)"
      by fastforce
    note dec = decrement_all [OF assms(7) d]
    have "agree s rest (rs_tensors st3) env'" using env'(2) dec by (simp add: agree_def)
    with env' dec cap show ?thesis by (simp add: run Inr d part_refines_def)
  qed
qed

section \<open>Levels and runs\<close>

definition level_order :: "session \<Rightarrow> nat list \<Rightarrow> nat list" where
  "level_order s grp = filter (has_graphs s) grp @ filter (\<lambda>i. \<not> has_graphs s i) grp"

lemma level_order_set [simp]: "set (level_order s grp) = set grp"
  by (auto simp: level_order_def)

lemma level_order_mset [simp]: "mset (level_order s grp) = mset grp"
  by (simp add: level_order_def)

definition level_independent :: "session \<Rightarrow> nat list \<Rightarrow> bool" where
  "level_independent s grp \<longleftrightarrow> (\<forall>i\<in>set grp. \<forall>j\<in>set grp.
     \<forall>x\<in>reads (s_nodes s ! i). x \<noteq> [] \<longrightarrow> x \<notin> set (n_outputs (s_nodes s ! j)))"

lemma level_independent_inputs:
  assumes "level_independent s grp"
  shows "\<forall>i\<in>set (filter P grp). set (n_inputs (s_nodes s ! i)) \<inter> produced (nodes_at s (filter P grp)) = {}"
proof -
  have False if "i \<in> set grp" "j \<in> set grp" "x \<in> set (n_inputs (s_nodes s ! i))" "x \<noteq> []"
    "x \<in> set (n_outputs (s_nodes s ! j))" for i j x
    using assms that unfolding level_independent_def reads_def by (metis UnI1)
  then show ?thesis unfolding produced_def by fastforce
qed

lemma run_group_refines:
  assumes "contracts s (nodes_at s grp)" and "\<forall>i\<in>set grp. i < length (s_nodes s)" and cap: "capacity_ok s"
    and indep: "level_independent s grp" and "apart (nodes_at s (level_order s grp) @ rest) env"
    and "agree s (nodes_at s (level_order s grp) @ rest) (rs_tensors st) env" and "pool_inv (rs_pool st)"
    and "counts_ok s (nodes_at s (level_order s grp) @ rest) refs"
    and order: "in_order (nodes_at s (level_order s grp) @ rest)"
  shows "part_refines s resolved final rest (run_group s resolved grp (st, refs)) (eval_nodes s (nodes_at s (level_order s grp)) env)"
proof -
  consider "grp = []" | i where "grp = [i]" | "1 < length grp"
    by (cases grp; cases "tl grp") auto
  then show ?thesis
  proof cases
    case 1
    with assms show ?thesis by (simp add: run_group_def level_order_def part_refines_def)
  next
    case (2 i)
    then have order: "level_order s grp = [i]" by (simp add: level_order_def)
    have "part_refines s resolved final rest (dispatch_serially s (s_nodes s ! i) resolved (st, refs))
        (eval_nodes s [s_nodes s ! i] env)"
      by (rule dispatch_serially_refines) (use assms 2 order in \<open>simp_all add: apart_def\<close>)
    with 2 order show ?thesis by (simp add: run_group_def)
  next
    case 3
    let ?ctrl = "nodes_at s (filter (has_graphs s) grp)" and ?cpu = "filter (\<lambda>i. \<not> has_graphs s i) grp"
    let ?dc = "dispatch_control s resolved grp (st, refs)"
    have ctrl: "part_refines s resolved final (nodes_at s ?cpu @ rest) (rbind ?dc (\<lambda>(_, sr). Inr sr)) (eval_nodes s ?ctrl env)"
      and cpu: "\<And>cpu sr. ?dc = Inr (cpu, sr) \<Longrightarrow> cpu = ?cpu"
      using dispatch_control_refines [OF assms(1) cap, of "nodes_at s ?cpu @ rest" env st refs resolved] assms(5-8)
      by (simp_all add: level_order_def)
    have "run_group s resolved grp (st, refs) = rbind ?dc (\<lambda>(cpu, sr). run_cpu_nodes s resolved cpu sr)"
      using 3 by (auto simp: run_group_def)
    also have "\<dots> = rbind (rbind ?dc (\<lambda>(_, sr). Inr sr)) (run_cpu_nodes s resolved ?cpu)"
      using cpu by (cases ?dc) auto
    finally have run: "run_group s resolved grp (st, refs)
        = rbind (rbind ?dc (\<lambda>(_, sr). Inr sr)) (run_cpu_nodes s resolved ?cpu)" .
    have evals: "eval_nodes s (nodes_at s (level_order s grp)) env = rbind (eval_nodes s ?ctrl env) (eval_nodes s (nodes_at s ?cpu))"
      by (simp add: level_order_def eval_nodes_append)
    show ?thesis
      unfolding run evals
    proof (rule part_refines_bind [OF ctrl])
      fix st' :: run_state and refs' env'
      assume "agree s (nodes_at s ?cpu @ rest) (rs_tensors st') env'" "pool_inv (rs_pool st')"
        "counts_ok s (nodes_at s ?cpu @ rest) refs'"
      moreover have "in_order (nodes_at s ?cpu @ rest)"
        using order in_order_append [of ?ctrl "nodes_at s ?cpu @ rest"] by (simp add: level_order_def)
      ultimately show "part_refines s resolved final rest (run_cpu_nodes s resolved ?cpu (st', refs')) (eval_nodes s (nodes_at s ?cpu) env')"
        by (intro run_cpu_nodes_refines [OF _ _ cap level_independent_inputs [OF indep]])
          (use assms(1,2) in \<open>auto simp: contracts_def\<close>)
    qed
  qed
qed

lemma run_parallel_refines:
  assumes "\<forall>grp\<in>set groups. contracts s (nodes_at s grp) \<and> (\<forall>i\<in>set grp. i < length (s_nodes s)) \<and> level_independent s grp"
    and cap: "capacity_ok s" and "apart (nodes_at s (concat (map (level_order s) groups))) env"
    and "agree s (nodes_at s (concat (map (level_order s) groups))) (rs_tensors st) env" and "pool_inv (rs_pool st)"
    and "counts_ok s (nodes_at s (concat (map (level_order s) groups))) refs"
    and "in_order (nodes_at s (concat (map (level_order s) groups)))"
  shows "part_refines s resolved final [] (run_parallel_inner s resolved groups (st, refs))
    (eval_nodes s (nodes_at s (concat (map (level_order s) groups))) env)"
  using assms(1,3-7)
proof (induction groups arbitrary: st refs env)
  case Nil
  then show ?case by (simp add: part_refines_def)
next
  case (Cons grp groups)
  let ?rest = "nodes_at s (concat (map (level_order s) groups))"
  have grp: "part_refines s resolved final ?rest (run_group s resolved grp (st, refs))
      (eval_nodes s (nodes_at s (level_order s grp)) env)"
    by (rule run_group_refines [OF _ _ cap]) (use Cons.prems in simp_all)
  have "part_refines s resolved final [] (rbind (run_group s resolved grp (st, refs)) (run_parallel_inner s resolved groups))
      (rbind (eval_nodes s (nodes_at s (level_order s grp)) env) (eval_nodes s ?rest))"
  proof (rule part_refines_bind [where rest = "[]", simplified, OF grp])
    fix st' :: run_state and refs' env'
    assume e: "eval_nodes s (nodes_at s (level_order s grp)) env = Inr env'"
      and *: "agree s ?rest (rs_tensors st') env'" "pool_inv (rs_pool st')" "counts_ok s ?rest refs'"
    have "apart ?rest env'" using apart_eval [OF _ e, of ?rest] Cons.prems(2) by simp
    from Cons.IH [OF _ this *] Cons.prems(1,6) in_order_append [of "nodes_at s (level_order s grp)" ?rest]
    show "part_refines s resolved final [] (run_parallel_inner s resolved groups (st', refs')) (eval_nodes s ?rest env')" by simp
  qed
  then show ?case by (simp add: eval_nodes_append)
qed

section \<open>The schedule is an order of the nodes\<close>

lemma in_order_nth:
  assumes "in_order nds" and "i \<le> p" and "p < length nds" and "x \<in> reads (nds ! i)" and "x \<noteq> []"
  shows "x \<notin> set (n_outputs (nds ! p))"
  using assms
proof (induction nds arbitrary: i p)
  case (Cons nd nds)
  show ?case
  proof (cases i)
    case 0
    have "nd' \<in> set (nd # nds) \<Longrightarrow> x \<notin> set (n_outputs nd')" for nd'
      using Cons.prems 0 by (auto simp: produced_def)
    with Cons.prems(3) show ?thesis by (metis nth_mem)
  next
    case (Suc i')
    with Cons.prems obtain p' where "p = Suc p'" by (cases p) auto
    with Suc Cons show ?thesis by simp
  qed
qed simp

lemma in_order_splitI:
  assumes "\<And>xs nd ys. nds = xs @ nd # ys \<Longrightarrow> reads nd \<inter> produced (nd # ys) = {}"
  shows "in_order nds"
  using assms
proof (induction nds)
  case (Cons nd nds)
  have "in_order nds"
    by (rule Cons.IH) (use Cons.prems [of "nd # xs" for xs] in simp)
  then show ?case using Cons.prems [of "[]"] by simp
qed simp

lemma deeper:
  assumes "in_order nds" and "single_assignment nds" and "\<forall>x\<in>produced nds. weights x = None"
    and "i < length nds" and "j < length nds" and "x \<in> reads (nds ! j)" and "x \<in> set (n_outputs (nds ! i))" and "x \<noteq> []"
  shows "compute_node_depths nds weights ! i < compute_node_depths nds weights ! j"
proof (rule producer_below)
  show ij: "i < j" using in_order_nth [OF assms(1) _ assms(4,6,8)] assms(7) by (meson not_less)
  show "\<forall>k. i < k \<and> k < j \<longrightarrow> x \<notin> set (n_outputs (nds ! k))"
  proof (intro allI impI notI)
    fix k assume k: "i < k \<and> k < j" and "x \<in> set (n_outputs (nds ! k))"
    with single_assignment_nth [OF assms(2,4) _ assms(8,7), of k] assms(5) show False by simp
  qed
  have "x \<in> produced nds" using assms(4,7,8) by (auto simp: produced_def)
  with assms(3) show "weights x = None" by blast
qed (use assms in \<open>simp_all add: reads_def\<close>)

definition schedule :: "session \<Rightarrow> (nat \<Rightarrow> nat) \<Rightarrow> nat list" where
  "schedule s cost = concat (map (level_order s) (depth_groups (s_nodes s) (s_weights s) cost))"

lemma depth_groups_levels:
  "depth_groups nds weights cost = map (\<lambda>d. sort_key (\<lambda>i. - int (cost i))
     (filter (\<lambda>i. compute_node_depths nds weights ! i = d) [0..<length nds]))
     [0..<fold max (compute_node_depths nds weights) 0 + 1]"
  by (simp add: depth_groups_def group_by_depth_eq compute_node_depths_def del: upt_Suc)

lemma mset_levels:
  "mset (concat (map (\<lambda>d. filter (\<lambda>i. f i = d) is) [0..<n])) = mset (filter (\<lambda>i. f i < n) is)"
proof (induction n)
  case (Suc n)
  have "mset (filter (\<lambda>i. f i < Suc n) is) = mset (filter (\<lambda>i. f i < n) is) + mset (filter (\<lambda>i. f i = n) is)"
    by (induction "is") auto
  with Suc show ?case by simp
qed simp

lemma concat_mset_cong:
  "(\<And>x. x \<in> set xs \<Longrightarrow> mset (f x) = mset (g x)) \<Longrightarrow> mset (concat (map f xs)) = mset (concat (map g xs))"
  by (induction xs) simp_all

lemma schedule_mset: "mset (schedule s cost) = mset [0..<length (s_nodes s)]"
proof -
  let ?d = "compute_node_depths (s_nodes s) (s_weights s)"
  let ?m = "fold max ?d 0 + 1"
  have "mset (schedule s cost) = mset (concat (map (\<lambda>d. filter (\<lambda>i. ?d ! i = d) [0..<length (s_nodes s)]) [0..<?m]))"
    unfolding schedule_def depth_groups_levels map_map by (rule concat_mset_cong) simp
  also have "\<dots> = mset (filter (\<lambda>i. ?d ! i < ?m) [0..<length (s_nodes s)])" by (rule mset_levels)
  also have "filter (\<lambda>i. ?d ! i < ?m) [0..<length (s_nodes s)] = [0..<length (s_nodes s)]"
    using fold_max_le [of ?d 0 "fold max ?d 0"]
    by (intro filter_True) (auto simp: compute_node_depths_def le_imp_less_Suc)
  finally show ?thesis .
qed

lemma sorted_levels:
  assumes "\<And>d i. i \<in> set (f d) \<Longrightarrow> depth i = d"
  shows "sorted (map depth (concat (map f [m..<n])))"
proof (induction n)
  case (Suc n)
  have "\<forall>i\<in>set (concat (map f [m..<n])). depth i < n" using assms by auto
  moreover have "map depth (f n) = replicate (length (f n)) n"
    using assms by (intro nth_equalityI) simp_all
  then have "sorted (map depth (f n))" by (metis sorted_replicate)
  moreover have "\<forall>i\<in>set (f n). depth i = n" using assms by auto
  ultimately show ?case using Suc by (cases "m \<le> n") (auto simp: sorted_append less_imp_le)
qed simp

lemma schedule_sorted: "sorted (map ((!) (compute_node_depths (s_nodes s) (s_weights s))) (schedule s cost))"
  unfolding schedule_def depth_groups_levels map_map by (rule sorted_levels) simp

lemma schedule_in_order:
  assumes "in_order (s_nodes s)" and "single_assignment (s_nodes s)"
    and "\<forall>x\<in>produced (s_nodes s). s_weights s x = None"
  shows "in_order (nodes_at s (schedule s cost))"
proof (rule in_order_splitI, rule ccontr)
  fix xs nd ys
  let ?d = "compute_node_depths (s_nodes s) (s_weights s)"
  assume split: "nodes_at s (schedule s cost) = xs @ nd # ys" and bad: "reads nd \<inter> produced (nd # ys) \<noteq> {}"
  from split obtain as j bs where order: "schedule s cost = as @ j # bs" and nd: "nd = s_nodes s ! j"
    and ys: "ys = nodes_at s bs"
    by (auto simp: map_eq_append_conv Cons_eq_map_conv map_eq_Cons_conv)
  have "set (schedule s cost) = {..<length (s_nodes s)}"
    using schedule_mset [of s cost] by (metis atLeast0LessThan atLeastLessThan_upt set_mset_mset)
  then have bound: "k \<in> set (j # bs) \<Longrightarrow> k < length (s_nodes s)" for k by (auto simp: order)
  from bad obtain x where x: "x \<in> reads nd" "x \<in> produced (nd # ys)" by blast
  then obtain i where i: "i \<in> set (j # bs)" "x \<in> set (n_outputs (s_nodes s ! i))" "x \<noteq> []"
    by (auto simp: produced_def nd ys)
  have "?d ! i < ?d ! j"
    by (rule deeper [OF assms]) (use x(1) i bound nd in auto)
  moreover have "?d ! j \<le> ?d ! i"
    using schedule_sorted [of s cost] i(1) by (auto simp: order sorted_append)
  ultimately show False by simp
qed

lemma schedule_groups:
  assumes "contracts s (s_nodes s)" and "in_order (s_nodes s)" and "single_assignment (s_nodes s)"
    and "\<forall>x\<in>produced (s_nodes s). s_weights s x = None"
    and "grp \<in> set (depth_groups (s_nodes s) (s_weights s) cost)"
  shows "contracts s (nodes_at s grp) \<and> (\<forall>i\<in>set grp. i < length (s_nodes s)) \<and> level_independent s grp"
proof -
  let ?d = "compute_node_depths (s_nodes s) (s_weights s)"
  obtain d where d: "\<And>i. i \<in> set grp \<Longrightarrow> i < length (s_nodes s) \<and> ?d ! i = d"
    using assms(5) by (auto simp: depth_groups_levels)
  have "level_independent s grp"
    unfolding level_independent_def
  proof (intro ballI impI notI)
    fix i j x assume "i \<in> set grp" "j \<in> set grp" "x \<in> reads (s_nodes s ! i)" "x \<noteq> []" "x \<in> set (n_outputs (s_nodes s ! j))"
    with deeper [OF assms(2-4), of j i x] d show False by (metis less_irrefl)
  qed
  with d assms(1) show ?thesis by (auto simp: contracts_def)
qed

section \<open>The whole run\<close>

definition runs_in_parallel :: "session \<Rightarrow> (string \<times> tensor) list \<Rightarrow> bool" where
  "runs_in_parallel s inputs \<longleftrightarrow> in_order (s_nodes s) \<and> single_assignment (s_nodes s) \<and>
     (\<forall>x\<in>produced (s_nodes s). s_weights s x = None \<and> map_of inputs x = None)"

lemma eval_schedule:
  assumes "contracts s (s_nodes s)" and "runs_in_parallel s inputs" and "apart (s_nodes s) (map_of inputs)"
  shows "(\<forall>env. eval_nodes s (nodes_at s (schedule s cost)) (map_of inputs) = Inr env \<longleftrightarrow>
    eval_nodes s (s_nodes s) (map_of inputs) = Inr env)"
proof -
  let ?nds = "nodes_at s (schedule s cost)"
  have "mset ?nds = mset (nodes_at s [0..<length (s_nodes s)])" using schedule_mset [of s cost] by simp
  then have mset: "mset ?nds = mset (s_nodes s)" by (simp only: map_nth)
  then have set: "set ?nds = set (s_nodes s)" by (metis set_mset_mset)
  have c: "contracts s ?nds" "apart ?nds (map_of inputs)" "produced ?nds = produced (s_nodes s)"
    "single_assignment ?nds"
    using assms(1) assms(3) assms(2) single_assignment_mset [OF mset] unfolding contracts_def apart_def produced_def
      runs_in_parallel_def set by blast+
  have o: "in_order ?nds"
    by (rule schedule_in_order) (use assms(2) in \<open>simp_all add: runs_in_parallel_def\<close>)
  have p: "in_order (s_nodes s)" "single_assignment (s_nodes s)" "\<forall>x\<in>produced (s_nodes s). map_of inputs x = None"
    using assms(2) by (simp_all add: runs_in_parallel_def)
  have q: "\<forall>x\<in>produced ?nds. map_of inputs x = None" unfolding c(3) by (rule p(3))
  have "eval_nodes s (s_nodes s) (map_of inputs) = Inr env \<Longrightarrow> eval_nodes s ?nds (map_of inputs) = Inr env" for env
    by (rule eval_reordered [OF assms(1) p(2) mset p(1) o assms(3) p(3)])
  moreover have "eval_nodes s ?nds (map_of inputs) = Inr env \<Longrightarrow> eval_nodes s (s_nodes s) (map_of inputs) = Inr env" for env
    by (rule eval_reordered [OF c(1,4) mset [symmetric] o p(1) c(2) q])
  ultimately show ?thesis by blast
qed

lemma parallel_refines:
  assumes ops: "contracts s (s_nodes s)" and cap: "capacity_ok s" and "distinct (s_output_names s)"
    and pool: "pool_inv pool" and "scopes_apart s inputs" and "distinct (map fst inputs)"
    and "runs_in_parallel s inputs"
  shows "case run_internal_parallel s cost inputs resolved pool of
      Inl e \<Rightarrow> \<not> is_ok (eval_run s inputs) \<or>
        (\<exists>env. eval_nodes s (s_nodes s) (map_of inputs) = Inr env \<and> \<not> well_shaped s resolved env)
    | Inr (outputs, pool') \<Rightarrow> eval_run s inputs = Inr outputs \<and> pool_inv pool'"
proof -
  let ?st = "fold (\<lambda>(name, t) st. state_insert s name t st) inputs \<lparr>rs_tensors = Map.empty, rs_pool = pool\<rparr>"
  let ?env = "fold (\<lambda>(name, t) env. env(name \<mapsto> t)) inputs Map.empty"
  let ?refs = "base_ref_counts (s_nodes s) (s_weights s) (s_output_names s)"
  let ?groups = "depth_groups (s_nodes s) (s_weights s) cost" and ?nds = "nodes_at s (schedule s cost)"
  let ?run = "run_parallel_inner s resolved ?groups (?st, ?refs)"
  have env: "?env = map_of inputs" using assms(6) by (simp add: seeded_env)
  have ap: "apart (s_nodes s) (map_of inputs)" using assms(5) by (simp add: scopes_apart_def)
  have "mset ?nds = mset (nodes_at s [0..<length (s_nodes s)])" using schedule_mset [of s cost] by simp
  then have mset: "mset ?nds = mset (s_nodes s)" by (simp only: map_nth)
  then have set: "set ?nds = set (s_nodes s)" by (metis set_mset_mset)
  have run: "part_refines s resolved final [] ?run (eval_nodes s ?nds ?env)" for final
    unfolding schedule_def
  proof (rule run_parallel_refines [OF _ cap], fold schedule_def)
    show "\<forall>grp\<in>set ?groups. contracts s (nodes_at s grp) \<and> (\<forall>i\<in>set grp. i < length (s_nodes s)) \<and> level_independent s grp"
      using schedule_groups [OF ops, of _ cost] assms(7) by (simp add: runs_in_parallel_def)
    show "apart ?nds ?env" using ap unfolding env apart_def set .
    show "agree s ?nds (rs_tensors ?st) ?env" by (simp add: agree_def seed_inputs)
    show "pool_inv (rs_pool ?st)" using seed_inputs(2) [OF cap] pool by simp
    show "counts_ok s ?nds ?refs"
      unfolding counts_ok_mset [OF mset] by (simp add: counts_ok_def base_ref_counts_exact)
    show "in_order ?nds"
      by (rule schedule_in_order) (use assms(7) in \<open>simp_all add: runs_in_parallel_def\<close>)
  qed
  have same: "eval_nodes s ?nds (map_of inputs) = Inr e \<longleftrightarrow> eval_nodes s (s_nodes s) (map_of inputs) = Inr e" for e
    using eval_schedule [OF ops assms(7) ap] by blast
  show ?thesis
  proof (cases "\<exists>val. shapes_fit val (s_input_infos s) (map_of inputs)")
    case False
    then show ?thesis by (simp add: run_internal_parallel_def check_inputs_decides eval_run_def)
  next
    case fits: True
    then have run_eq: "eval_run s inputs = rbind (eval_nodes s (s_nodes s) (map_of inputs)) (select_outputs s)"
      "check_inputs s (map_of inputs) = Inr ()"
      by (simp_all add: eval_run_def check_inputs_decides eval_graph_def env)
    show ?thesis
    proof (cases ?run)
      case (Inl e)
      have "\<not> is_ok (eval_run s inputs) \<or>
        (\<exists>env. eval_nodes s (s_nodes s) (map_of inputs) = Inr env \<and> \<not> well_shaped s resolved env)"
      proof (cases "eval_nodes s (s_nodes s) (map_of inputs)")
        case ok: (Inr env')
        with same [of env'] run [of env'] Inl have "\<not> well_shaped s resolved env'" by (simp add: part_refines_def env)
        with ok show ?thesis by blast
      qed (simp add: run_eq(1))
      with Inl show ?thesis by (simp add: run_internal_parallel_def run_eq(2) Let_def)
    next
      case (Inr r)
      obtain st refs where r: "r = (st, refs)" by fastforce
      with run Inr obtain env' where env': "eval_nodes s ?nds (map_of inputs) = Inr env'"
        "agree s [] (rs_tensors st) env'" "pool_inv (rs_pool st)" by (auto simp: part_refines_def env)
      obtain res p where tk: "take_outputs s (s_output_names s) st = (res, p)" by fastforce
      have "res = select_outputs s env'" "pool_inv p"
        using take_outputs_select [OF assms(3) env'(2)] take_outputs_pool [OF cap env'(3), of "s_output_names s"] tk
        by simp_all
      moreover have "eval_run s inputs = select_outputs s env'"
        unfolding run_eq(1) using env'(1) same [of env'] by simp
      ultimately show ?thesis
        using Inr r tk by (cases "select_outputs s env'")
          (simp_all add: run_internal_parallel_def run_eq(2) Let_def)
    qed
  qed
qed

text \<open>
  C2. A run with parallel execution gives what the sequential evaluator gives, whatever the
  cost model says about the order inside a level: when it returns outputs they are the
  evaluator's, and the pool stays well formed; when it fails, the evaluation fails as well,
  or some kernel did not return one consistent tensor of the resolved shape per output. It
  holds for graphs in single-assignment form whose nodes come after the producers of what
  they read or capture. With \<open>run_refines_evaluator\<close>, parallel and sequential runs agree.
\<close>

theorem parallel_run_refines_evaluator:
  assumes "\<And>nd oper. nd \<in> set (s_nodes s) \<Longrightarrow> s_registry s (n_op nd) = Some oper \<Longrightarrow> operator_contract oper nd"
    and "\<And>d. length d \<le> s_capacity s d" and "distinct (s_output_names s)"
    and "\<And>p. pool = Some p \<Longrightarrow> pool_ok p" and "scopes_apart s inputs" and "distinct (map fst inputs)"
    and "runs_in_parallel s inputs"
  shows "case run_internal_parallel s cost inputs resolved pool of
      Inl e \<Rightarrow> \<not> is_ok (eval_run s inputs) \<or>
        (\<exists>env. eval_nodes s (s_nodes s) (map_of inputs) = Inr env \<and> \<not> well_shaped s resolved env)
    | Inr (outputs, pool') \<Rightarrow> eval_run s inputs = Inr outputs \<and> (\<forall>p. pool' = Some p \<longrightarrow> pool_ok p)"
proof -
  have "contracts s (s_nodes s)" "capacity_ok s" "pool_inv pool"
    using assms(1,2,4) by (auto simp: contracts_def capacity_ok_def pool_inv_def split: option.split)
  from parallel_refines [OF this(1,2) assms(3) this(3) assms(5-7), of resolved cost] show ?thesis
    by (auto simp: pool_inv_def split: sum.splits)
qed

text \<open>
  A level with two nodes that read the same input, one of them in place on a tensor of its
  own, and a node above them.
\<close>

definition wide_session :: session where
  "wide_session = \<lparr>s_nodes = [Node ''Neg'' [] [''x''] [''a''] no_attrs, Node ''Neg'' [] [''y''] [''b''] no_attrs,
       Node ''Neg'' [] [''a''] [''c''] no_attrs],
     s_weights = Map.empty, s_output_names = [''b'', ''c''],
     s_registry = [''Neg'' \<mapsto> unary_operator (\<lambda>f. f + 1)], s_input_infos = [], s_opset_imports = [([], 13)],
     s_capacity = length, s_drain = (\<lambda>_. [])\<rparr>"

definition wide_inputs :: "(string \<times> tensor) list" where
  "wide_inputs = [(''x'', \<lparr>t_data = [1, 2], t_shape = [2]\<rparr>), (''y'', \<lparr>t_data = [5], t_shape = [1]\<rparr>)]"

lemma wide_result:
  "eval_run wide_session wide_inputs
     = Inr [''b'' \<mapsto> \<lparr>t_data = [6], t_shape = [1]\<rparr>, ''c'' \<mapsto> \<lparr>t_data = [3, 4], t_shape = [2]\<rparr>]"
  by (simp add: eval_run_def shapes_fit_def eval_graph_def wide_session_def wide_inputs_def eval_node_def
      unary_operator_def make_context_def lookup_input_def cx_input_def cx_optional_input_def map_tensor_def
      bind_outputs_def select_outputs_def fun_eq_iff Let_def)

lemma wide_evaluation:
  "eval_nodes wide_session (s_nodes wide_session) (map_of wide_inputs) = Inr env \<Longrightarrow>
     well_shaped wide_session (\<lambda>_. None) env"
  by (auto simp: well_shaped_def wide_session_def wide_inputs_def eval_node_def unary_operator_def make_context_def
      lookup_input_def cx_input_def cx_optional_input_def map_tensor_def bind_outputs_def checked_mul_def usize_max_def Let_def)

theorem parallel_run_refines_evaluator_witness:
  "case run_internal_parallel wide_session id wide_inputs (\<lambda>_. None) (Some pool_new) of
     Inl e \<Rightarrow> False
   | Inr (outputs, pool') \<Rightarrow> outputs ''c'' = Some \<lparr>t_data = [3, 4], t_shape = [2]\<rparr>"
proof -
  have "case run_internal_parallel wide_session id wide_inputs (\<lambda>_. None) (Some pool_new) of
      Inl e \<Rightarrow> \<not> is_ok (eval_run wide_session wide_inputs) \<or> (\<exists>env. eval_nodes wide_session (s_nodes wide_session)
          (map_of wide_inputs) = Inr env \<and> \<not> well_shaped wide_session (\<lambda>_. None) env)
    | Inr (outputs, pool') \<Rightarrow> eval_run wide_session wide_inputs = Inr outputs \<and> (\<forall>p. pool' = Some p \<longrightarrow> pool_ok p)"
  proof (rule parallel_run_refines_evaluator)
    show "operator_contract oper nd" if "s_registry wide_session (n_op nd) = Some oper" for nd oper
      using that unary.operator_contract_axioms by (auto simp: wide_session_def split: if_splits)
    show "runs_in_parallel wide_session wide_inputs"
      by (simp add: runs_in_parallel_def wide_session_def wide_inputs_def reads_def single_assignment_def no_attrs_def)
  qed (auto simp: wide_session_def wide_inputs_def pool_new_ok scopes_apart_def apart_def no_attrs_def)
  then show ?thesis using wide_result wide_evaluation by (auto split: sum.splits prod.splits)
qed

section \<open>A difference between the paths\<close>

text \<open>An operator that returns one tensor on a node that declares two outputs.\<close>

definition short_session :: session where
  "short_session = \<lparr>s_nodes = [Node ''Split'' [] [''x''] [''a'', ''b''] no_attrs, Node ''Split'' [] [''x''] [''c''] no_attrs],
     s_weights = Map.empty, s_output_names = [''a'', ''c''],
     s_registry = [''Split'' \<mapsto> pure_operator False (\<lambda>_ ins. case ins of Some t # _ \<Rightarrow> Inr [t] | _ \<Rightarrow> Inl TensorNotFound)],
     s_input_infos = [], s_opset_imports = [], s_capacity = length, s_drain = (\<lambda>_. [])\<rparr>"

lemmas short_run_defs =
  check_inputs_def state_insert_def base_ref_counts_def count_node_def count_name_def dispatch_node_def
  node_can_execute_inplace_def pure_operator_def dispatch_plain_def lookup_input_def write_outputs_def
  decrement_refs_state_def release_one_ref_def take_outputs_def release_to_pool_def make_context_def state_take_def
  no_attrs_def Let_def
  run_group_def run_cpu_nodes_def resolve_work_item_inputs_def resolve_item_def execute_item_def write_node_outputs_def

lemma short_groups: "depth_groups (s_nodes short_session) (s_weights short_session) (\<lambda>_. 0) = [[0, 1]]"
  by (simp add: short_session_def depth_groups_def group_by_depth_def compute_node_depths_def node_depth_def
      depth_step_def no_attrs_def Let_def)

text \<open>
  The two paths differ on a kernel that returns fewer tensors than its node declares:
  the sequential path drops the missing outputs silently and returns the graph's outputs,
  the parallel path refuses the node as soon as its level has another one.
\<close>

theorem parallel_refuses_short_results:
  "(case run_internal short_session [(''x'', \<lparr>t_data = [7], t_shape = [1]\<rparr>)] (\<lambda>_. None) None of
     Inl e \<Rightarrow> False | Inr (outputs, _) \<Rightarrow> outputs ''a'' = Some \<lparr>t_data = [7], t_shape = [1]\<rparr>) \<and>
  (case run_internal_parallel short_session (\<lambda>_. 0) [(''x'', \<lparr>t_data = [7], t_shape = [1]\<rparr>)] (\<lambda>_. None) None of
     Inl e \<Rightarrow> e = Internal | Inr _ \<Rightarrow> False)"
  by (simp add: run_internal_def run_internal_parallel_def short_groups)
    (simp add: short_session_def short_run_defs)

end
