(* ===== verification/GraphUtils.thy ===== *)
theory GraphUtils
  imports Graphs Decimal
begin

text \<open>
  What the optimizer's passes share (\<open>src/optimizer/graph_utils.rs\<close>): how often a tensor is
  read and whether it is an output of the graph, and fresh names for new tensors. The set of
  taken names is the list of its elements.
\<close>

section \<open>Usage of tensors\<close>

record tensor_usage =
  tu_consumer_count :: "string \<Rightarrow> nat"
  tu_graph_outputs :: "string set"

definition usage_new :: "node list \<Rightarrow> string list \<Rightarrow> tensor_usage" where
  "usage_new nodes output_names =
     \<lparr>tu_consumer_count =
        fold (\<lambda>nd counts. fold (\<lambda>inp counts. if inp = [] then counts else counts(inp := Suc (counts inp))) (n_inputs nd) counts)
          nodes (\<lambda>_. 0),
      tu_graph_outputs = set (filter (\<lambda>name. name \<noteq> []) output_names)\<rparr>"

definition consumers :: "tensor_usage \<Rightarrow> string \<Rightarrow> nat" where
  "consumers usage name = tu_consumer_count usage name"

definition is_graph_output :: "tensor_usage \<Rightarrow> string \<Rightarrow> bool" where
  "is_graph_output usage name \<longleftrightarrow> name \<in> tu_graph_outputs usage"

definition is_fusable_intermediate :: "tensor_usage \<Rightarrow> string \<Rightarrow> bool" where
  "is_fusable_intermediate usage name \<longleftrightarrow> name \<noteq> [] \<and> \<not> is_graph_output usage name \<and> consumers usage name = 1"

definition none_is_graph_output :: "tensor_usage \<Rightarrow> string list \<Rightarrow> bool" where
  "none_is_graph_output usage names \<longleftrightarrow> \<not> list_ex (is_graph_output usage) names"

definition const_scalar :: "tensor_map \<Rightarrow> string \<Rightarrow> f32 option" where
  "const_scalar weights name =
     (if name = [] then None
      else case weights name of
        None \<Rightarrow> None
      | Some t \<Rightarrow> if length (t_data t) \<noteq> 1 then None else Some (hd (t_data t)))"

lemma consumers_new:
  "consumers (usage_new nodes output_names) x =
     (if x = [] then 0 else length (filter (\<lambda>y. y = x) (concat (map n_inputs nodes))))"
proof -
  let ?count = "\<lambda>inp counts. if inp = [] then counts else counts(inp := Suc (counts inp))"
  have one: "fold ?count xs c x = (if x = [] then c x else c x + length (filter (\<lambda>y. y = x) xs))" for xs c
    by (induction xs arbitrary: c) simp_all
  have "fold (\<lambda>nd. fold ?count (n_inputs nd)) nodes c x
      = (if x = [] then c x else c x + length (filter (\<lambda>y. y = x) (concat (map n_inputs nodes))))" for c
  proof (induction nodes arbitrary: c)
    case (Cons nd nodes)
    show ?case unfolding fold_simps Cons.IH one by simp
  qed simp
  then show ?thesis by (simp add: consumers_def usage_new_def)
qed

lemma none_is_graph_output_new:
  "none_is_graph_output (usage_new nodes output_names) names \<longleftrightarrow>
     (\<forall>x\<in>set names. x \<noteq> [] \<longrightarrow> x \<notin> set output_names)"
  by (auto simp: none_is_graph_output_def is_graph_output_def usage_new_def list_ex_iff)

section \<open>Fresh names\<close>

definition allocator_new :: "node list \<Rightarrow> string list \<Rightarrow> string list" where
  "allocator_new nodes weight_names =
     weight_names @ filter (\<lambda>name. name \<noteq> []) (concat (map (\<lambda>nd. n_inputs nd @ n_outputs nd) nodes))"

definition candidate :: "string \<Rightarrow> string \<Rightarrow> nat \<Rightarrow> string" where
  "candidate base suffix counter = base @ suffix @ ''_'' @ show_nat counter"

lemma candidate_inj: "candidate base suffix i = candidate base suffix j \<Longrightarrow> i = j"
  by (auto simp: candidate_def intro: show_nat_inj)

text \<open>The loop; it ends because the candidates differ and finitely many names are taken.\<close>

function next_free :: "string list \<Rightarrow> string \<Rightarrow> string \<Rightarrow> nat \<Rightarrow> string \<Rightarrow> string" where
  "next_free taken base suffix counter name =
     (if name \<in> set taken then next_free taken base suffix (counter + 1) (candidate base suffix counter) else name)"
  by pat_completeness auto
termination
proof (relation "measure (\<lambda>(taken, base, suffix, counter, name).
    card {i. counter \<le> i \<and> candidate base suffix i \<in> set taken} +
    (if name \<in> set taken then 1 else 0))")
  show "wf (measure (\<lambda>(taken, base, suffix, counter, name).
    card {i. counter \<le> i \<and> candidate base suffix i \<in> set taken} +
    (if name \<in> set taken then 1 else 0)))" by simp
  fix taken base suffix counter name
  assume taken: "(name::string) \<in> set taken"
  let ?free = "\<lambda>c::nat. {i. c \<le> i \<and> candidate base suffix i \<in> set taken}"
  have "finite {i. candidate base suffix i \<in> set taken}"
    by (rule finite_imageD [of "candidate base suffix"])
      (auto intro: finite_subset [of _ "set taken"] simp: inj_on_def dest: candidate_inj)
  then have fin: "finite (?free c)" for c by (rule rev_finite_subset) auto
  have "card (?free (counter + 1)) + (if candidate base suffix counter \<in> set taken then 1 else 0) \<le> card (?free counter)"
  proof (cases "candidate base suffix counter \<in> set taken")
    case True
    then have "?free counter = insert counter (?free (counter + 1))" by (auto simp: le_eq_less_or_eq)
    then show ?thesis using True fin by simp
  next
    case False
    have "card (?free (counter + 1)) \<le> card (?free counter)" by (rule card_mono [OF fin]) auto
    with False show ?thesis by simp
  qed
  with taken show "((taken, base, suffix, counter + 1, candidate base suffix counter), taken, base, suffix, counter, name)
      \<in> measure (\<lambda>(taken, base, suffix, counter, name).
    card {i. counter \<le> i \<and> candidate base suffix i \<in> set taken} +
    (if name \<in> set taken then 1 else 0))" by simp
qed

declare next_free.simps [simp del]

definition allocate :: "string list \<Rightarrow> string \<Rightarrow> string \<Rightarrow> string \<times> string list" where
  "allocate taken base suffix =
     (let name = next_free taken base suffix 1 (base @ suffix) in (name, name # taken))"

lemma next_free_fresh: "next_free taken base suffix counter name \<notin> set taken"
  by (induction taken base suffix counter name rule: next_free.induct) (subst next_free.simps, simp)

lemma next_free_form:
  "next_free taken base suffix counter name = name \<or>
   (\<exists>k\<ge>counter. next_free taken base suffix counter name = candidate base suffix k \<and>
     name \<in> set taken \<and> (\<forall>i. counter \<le> i \<and> i < k \<longrightarrow> candidate base suffix i \<in> set taken))"
proof (induction taken base suffix counter name rule: next_free.induct)
  case (1 taken base suffix counter name)
  show ?case
  proof (cases "name \<in> set taken")
    case True
    let ?r = "next_free taken base suffix (counter + 1) (candidate base suffix counter)"
    have eq: "next_free taken base suffix counter name = ?r" using True by (subst next_free.simps) simp
    from "1.IH" [OF True] show ?thesis
    proof (elim disjE exE conjE)
      assume "?r = candidate base suffix counter"
      with True eq show ?thesis by (intro disjI2 exI [of _ counter]) auto
    next
      fix k assume k: "counter + 1 \<le> k" "?r = candidate base suffix k" "candidate base suffix counter \<in> set taken"
        "\<forall>i. counter + 1 \<le> i \<and> i < k \<longrightarrow> candidate base suffix i \<in> set taken"
      have "candidate base suffix i \<in> set taken" if "counter \<le> i" "i < k" for i
        using k(3,4) that by (cases "i = counter") auto
      with True eq k(1,2) show ?thesis by (intro disjI2 exI [of _ k]) simp
    qed
  next
    case False
    then show ?thesis by (subst (1) next_free.simps) simp
  qed
qed

text \<open>
  C37. The names the optimizer allocates are fresh: the search for one ends, the name is none
  of the graph's or of the weights' and none that was allocated before, and it is the first
  free one of its form.
\<close>

theorem allocate_fresh:
  "fst (allocate taken base suffix) \<notin> set taken \<and>
   set (snd (allocate taken base suffix)) = insert (fst (allocate taken base suffix)) (set taken) \<and>
   (fst (allocate taken base suffix) = base @ suffix \<or>
    (\<exists>k\<ge>1. fst (allocate taken base suffix) = base @ suffix @ ''_'' @ show_nat k))"
proof -
  have "next_free taken base suffix 1 (base @ suffix) = base @ suffix \<or>
    (\<exists>k\<ge>1. next_free taken base suffix 1 (base @ suffix) = base @ suffix @ ''_'' @ show_nat k)"
    using next_free_form [of taken base suffix 1 "base @ suffix"] by (auto simp: candidate_def)
  then show ?thesis using next_free_fresh [of taken base suffix 1 "base @ suffix"] by (simp add: allocate_def Let_def)
qed

end
