(* ===== verification/Cse.thy ===== *)
theory Cse
  imports GraphUtils ConstantFold Bytes "HOL-Library.List_Lexorder" "HOL-Library.Char_ord"
begin

text \<open>
  Common subexpression elimination (\<open>src/optimizer/cse.rs\<close>): the fingerprint of a node, the
  scan that marks duplicates and redirects their outputs, and the rewriting. The argument
  \<open>debug\<close> is how \<open>{:?}\<close> quotes a string.
\<close>

section \<open>Fingerprints\<close>

definition COMMUTATIVE_OPS :: "string list" where
  "COMMUTATIVE_OPS = [''Add'', ''Mul'', ''And'', ''Or'', ''Xor'', ''Min'', ''Max'', ''Mean'', ''Sum'', ''Equal'',
     ''BitwiseAnd'', ''BitwiseOr'', ''BitwiseXor'']"

definition NON_DETERMINISTIC_OPS :: "string list" where
  "NON_DETERMINISTIC_OPS = [''Dropout'', ''Bernoulli'', ''Multinomial'', ''RandomNormal'', ''RandomUniform'',
     ''RandomNormalLike'', ''RandomUniformLike'']"

text \<open>FNV-1a over little-endian 64-bit values; both zeros are hashed as the positive one.\<close>

definition FNV_OFFSET :: "64 word" where "FNV_OFFSET = 0xcbf29ce484222325"

definition FNV_PRIME :: "64 word" where "FNV_PRIME = 0x100000001b3"

definition fnv_mix :: "64 word \<Rightarrow> 64 word \<Rightarrow> 64 word" where
  "fnv_mix value hash = fold (\<lambda>byte hash. (hash XOR ucast byte) * FNV_PRIME) (le_bytes 8 (unat value)) hash"

definition tensor_hash :: "tensor \<Rightarrow> 64 word" where
  "tensor_hash t =
     fold fnv_mix
       (of_nat (length (t_shape t)) # map of_nat (t_shape t) @ of_nat (length (t_data t)) #
        map (\<lambda>v. if v = 0x80000000 then 0 else ucast v) (t_data t))
       FNV_OFFSET"

definition show_word :: "'a::len word \<Rightarrow> string" where
  "show_word w = show_nat (unat w)"

text \<open>One kind of attribute: a part per key, in the order of the keys.\<close>

definition keyed_parts :: "string \<Rightarrow> ('a \<Rightarrow> string) \<Rightarrow> (string \<times> 'a) list \<Rightarrow> string list" where
  "keyed_parts tag render entries =
     concat (map (\<lambda>k. case map_of entries k of Some v \<Rightarrow> [tag @ k @ ''='' @ render v] | None \<Rightarrow> []) (sort (map fst entries)))"

primrec attrs_fingerprint :: "attributes \<Rightarrow> (string \<Rightarrow> string) \<Rightarrow> string"
  and node_parts :: "node \<Rightarrow> (string \<Rightarrow> string) \<Rightarrow> string"
  and graph_fingerprint :: "graph \<Rightarrow> (string \<Rightarrow> string) \<Rightarrow> string" where
  "attrs_fingerprint (Attributes fs is ss ts fls ils sls gs) = (\<lambda>debug. join_strs '';''
     (keyed_parts ''f:'' show_word fs @
      keyed_parts ''i:'' (\<lambda>v. show_int (sint v)) is @
      keyed_parts ''s:'' (\<lambda>v. v) ss @
      keyed_parts ''il:'' (show_list (\<lambda>v. show_int (sint v))) ils @
      keyed_parts ''fl:'' (show_list show_word) fls @
      keyed_parts ''sl:'' (show_list debug) sls @
      keyed_parts ''t:'' (\<lambda>t. ''shape'' @ show_list show_nat (t_shape t) @ ''hash'' @ show_word (tensor_hash t)) ts @
      keyed_parts ''g:'' (\<lambda>fp. ''['' @ fp debug @ '']'') (map (map_prod id graph_fingerprint) gs)))"
| "node_parts (Node op name inputs outputs attrs) = (\<lambda>debug.
     op @ ''('' @ join_strs '','' inputs @ '')->('' @ join_strs '','' outputs @ ''){'' @ attrs_fingerprint attrs debug @ ''}'')"
| "graph_fingerprint (Graph name nodes input_names output_names iis ois) = (\<lambda>debug. join_strs '';''
     ((''in['' @ join_strs '','' input_names @ '']'') # (''out['' @ join_strs '','' output_names @ '']'') #
      map (\<lambda>f. f debug) (map node_parts nodes)))"

definition operands :: "node \<Rightarrow> string list" where
  "operands nd = (if n_op nd \<in> set COMMUTATIVE_OPS then sort (n_inputs nd) else n_inputs nd)"

definition node_fingerprint :: "(string \<Rightarrow> string) \<Rightarrow> node \<Rightarrow> string" where
  "node_fingerprint debug nd =
     n_op nd @ ''|'' @ join_strs '','' (operands nd) @ ''|'' @ show_nat (length (n_outputs nd)) @ ''|'' @
     attrs_fingerprint (n_attrs nd) debug"

section \<open>The pass\<close>

definition add_redirects :: "string list \<Rightarrow> string list \<Rightarrow> (string \<Rightarrow> string option) \<Rightarrow> string \<Rightarrow> string option" where
  "add_redirects dup_outs orig_outs redirects =
     fold (\<lambda>(dup_out, orig_out) redirects.
         if dup_out \<noteq> [] \<and> orig_out \<noteq> [] then redirects(dup_out \<mapsto> orig_out) else redirects)
       (zip dup_outs orig_outs) redirects"

text \<open>The scan: for each node, whether it is a duplicate; and the redirects.\<close>

fun cse_scan :: "(string \<Rightarrow> string) \<Rightarrow> tensor_usage \<Rightarrow> node list \<Rightarrow> (string \<Rightarrow> string list option) \<Rightarrow>
    (string \<Rightarrow> string option) \<Rightarrow> bool list \<times> (string \<Rightarrow> string option)" where
  "cse_scan debug usage [] seen redirects = ([], redirects)"
| "cse_scan debug usage (nd # nodes) seen redirects =
     (let (duplicate, seen, redirects) =
        (if n_op nd \<in> set NON_DETERMINISTIC_OPS then (False, seen, redirects)
         else case seen (node_fingerprint debug nd) of
           Some original_outputs \<Rightarrow>
             if \<not> none_is_graph_output usage (n_outputs nd) then (False, seen, redirects)
             else (True, seen, add_redirects (n_outputs nd) original_outputs redirects)
         | None \<Rightarrow> (False, seen(node_fingerprint debug nd \<mapsto> n_outputs nd), redirects));
      (flags, redirects) = cse_scan debug usage nodes seen redirects
      in (duplicate # flags, redirects))"

definition redirect :: "(string \<Rightarrow> string option) \<Rightarrow> string \<Rightarrow> string" where
  "redirect redirects x = (case redirects x of Some y \<Rightarrow> y | None \<Rightarrow> x)"

definition redirect_node :: "(string \<Rightarrow> string option) \<Rightarrow> node \<Rightarrow> node" where
  "redirect_node redirects nd =
     Node (n_op nd) (n_name nd) (map (redirect redirects) (n_inputs nd)) (n_outputs nd) (n_attrs nd)"

definition eliminate_common_subexpressions :: "(string \<Rightarrow> string) \<Rightarrow> node list \<Rightarrow> string list \<Rightarrow> node list" where
  "eliminate_common_subexpressions debug nodes output_names =
     (let (flags, redirects) = cse_scan debug (usage_new nodes output_names) nodes Map.empty Map.empty
      in map (redirect_node redirects) (map fst (filter (\<lambda>(_, duplicate). \<not> duplicate) (zip nodes flags))))"

end
