(* ===== verification/CseProof.thy ===== *)
theory CseProof
  imports Cse
begin

text \<open>
  What common subexpression elimination keeps. Two runs are related by the redirects: every
  tensor of the original run is found in the new one under its redirected name. The theorem
  has what it takes, and the examples show what happens where that does not hold.
\<close>

section \<open>Expressions\<close>









section \<open>The scan\<close>



lemma cse_scan_length: "cse_scan debug usage nodes seen red = (flags, red') \<Longrightarrow> length flags = length nodes"
  by (induction nodes arbitrary: seen red flags) (auto simp: Let_def split: prod.splits)




section \<open>The runs are related\<close>





















section \<open>The property\<close>




lemmas cse_simps = eliminate_common_subexpressions_def node_fingerprint_def operands_def COMMUTATIVE_OPS_def
  NON_DETERMINISTIC_OPS_def none_is_graph_output_def is_graph_output_def usage_new_def add_redirects_def
  redirect_node_def redirect_def Let_def



section \<open>Where the pass changes the graph's meaning\<close>

definition captured_session :: session where
  "captured_session = demo_if_session\<lparr>s_nodes :=
     [Node ''Neg'' [] [''x''] [''p''] no_attrs, Node ''Neg'' [] [''x''] [''a''] no_attrs, if_node]\<rparr>"

lemma captured_eval:
  "eval_nodes (captured_session\<lparr>s_nodes := ns\<rparr>) nds env = eval_nodes demo_if_session nds env"
  by (rule eval_nodes_session) (simp_all add: captured_session_def)

text \<open>
  A duplicate that is read only inside a subgraph is lost: redirects rewrite the inputs
  of the remaining nodes, not the names their subgraphs capture. Here both Neg nodes negate
  \<open>x\<close> and the If node reads the second result in its branch; the run, which succeeded, fails
  with \<open>TensorNotFound\<close> after the pass.
\<close>

theorem cse_drops_captured:
  "eliminate_common_subexpressions debug (s_nodes captured_session) (s_output_names captured_session) =
     [Node ''Neg'' [] [''x''] [''p''] no_attrs, if_node] \<and>
   is_ok (eval_run captured_session demo_x) \<and>
   eval_run (captured_session\<lparr>s_nodes := [Node ''Neg'' [] [''x''] [''p''] no_attrs, if_node]\<rparr>) demo_x = Inl TensorNotFound"
proof (intro conjI)
  have parts: "s_nodes captured_session = [Node ''Neg'' [] [''x''] [''p''] no_attrs, Node ''Neg'' [] [''x''] [''a''] no_attrs, if_node]"
    "s_output_names captured_session = [''y'']" "s_input_infos captured_session = []"
    by (simp_all add: captured_session_def demo_if_session_def)
  have "node_fingerprint debug if_node \<noteq> node_fingerprint debug (Node ''Neg'' [] [''x''] [''p''] no_attrs)"
    by (simp add: node_fingerprint_def if_node_def)
  moreover have "n_op if_node = ''If''" "n_inputs if_node = [''c'']" "n_outputs if_node = [''y'']"
    "if_node = Node (n_op if_node) (n_name if_node) (n_inputs if_node) (n_outputs if_node) (n_attrs if_node)"
    by (simp_all add: if_node_def)
  ultimately show "eliminate_common_subexpressions debug (s_nodes captured_session) (s_output_names captured_session) =
     [Node ''Neg'' [] [''x''] [''p''] no_attrs, if_node]"
    by (simp add: parts cse_simps if_node_def)
  show "eval_run (captured_session\<lparr>s_nodes := [Node ''Neg'' [] [''x''] [''p''] no_attrs, if_node]\<rparr>) demo_x = Inl TensorNotFound"
    by (simp add: eval_run_def eval_graph_def captured_eval eval_neg_node eval_if_node parts shapes_fit_def del: eval_nodes.simps)
  have "eval_nodes captured_session (s_nodes captured_session) env = eval_nodes demo_if_session (s_nodes captured_session) env" for env
    by (rule eval_nodes_session) (simp_all add: captured_session_def)
  then have "\<exists>env. eval_nodes captured_session (s_nodes captured_session) [''x'' \<mapsto> \<lparr>t_data = [1, 2], t_shape = [2]\<rparr>] = Inr env \<and>
      env ''y'' \<noteq> None"
    by (simp add: parts(1) eval_neg_node eval_if_node del: eval_nodes.simps)
  then show "is_ok (eval_run captured_session demo_x)"
    by (auto simp: eval_run_def eval_graph_def select_outputs_def Let_def parts shapes_fit_def)
qed




text \<open>
  Attributes are joined with no quoting, so two nodes with different attributes can have
  one fingerprint, and the second is removed: the text attribute of the first holds the text
  that separates the two attributes of the second.
\<close>

theorem cse_merges_different_attributes:
  "(let a = Node ''Einsum'' [] [''x''] [''a''] (Attributes [] [] [(''p'', ''1;s:q=2'')] [] [] [] [] []);
        b = Node ''Einsum'' [] [''x''] [''y''] (Attributes [] [] [(''p'', ''1''), (''q'', ''2'')] [] [] [] [] [])
    in n_attrs a \<noteq> n_attrs b \<and> node_fingerprint debug a = node_fingerprint debug b)"
  by (simp add: node_fingerprint_def operands_def keyed_parts_def Let_def COMMUTATIVE_OPS_def)

end
