(* ===== verification/Streaming.thy ===== *)
theory Streaming
  imports ModelBuild
begin

text \<open>
  The streaming parser (\<open>oxionnx-proto/src/streaming_parser\<close>): a model is read from a
  \<open>Read\<close> source field by field, and each part is handed to a callback as an event. A source
  is the bytes it still has and whether it then fails instead of ending; the callback carries
  its state. The body of a graph is read into memory and parsed by offset.
\<close>

section \<open>Sources\<close>

record source =
  src_bytes :: bytes
  src_breaks :: bool

datatype stream_error =
    VarintEofMid
  | VarintReadError
  | StreamVarintOverflow
  | StreamWireType u8
  | LengthNotAddressable u64
  | ReadExactFailed nat nat
  | SkipFailed nat
  | UnexpectedEof
  | EndGroupTag u32
  | GroupsTooDeep
  | GroupNotTerminated u32
  | GroupEndMismatch u32 u32
  | SparseUnsupported
  | InParser wire_error
  | InTensor reader_error
  | InCallback
  | InInlining load_error

text \<open>\<open>Read::read_exact\<close>: the bytes, or whether the source ended early rather than failed.\<close>

definition read_exact :: "source \<Rightarrow> nat \<Rightarrow> bool + (bytes \<times> source)" where
  "read_exact src n =
     (if n \<le> length (src_bytes src)
      then Inr (take n (src_bytes src), src\<lparr>src_bytes := drop n (src_bytes src)\<rparr>)
      else Inl (\<not> src_breaks src))"

definition MAX_PREALLOC :: nat where
  "MAX_PREALLOC = 16 * 1024 * 1024"

datatype wire_type = VarintType | Fixed64Type | LenDelim | StartGroup | EndGroup | Fixed32Type

definition wire_type_from_u8 :: "u8 \<Rightarrow> stream_error + wire_type" where
  "wire_type_from_u8 wt =
     (if wt = 0 then Inr VarintType else if wt = 1 then Inr Fixed64Type else if wt = 2 then Inr LenDelim
      else if wt = 3 then Inr StartGroup else if wt = 4 then Inr EndGroup else if wt = 5 then Inr Fixed32Type
      else Inl (StreamWireType wt))"

unbundle bit_operations_syntax

function read_varint_bytes :: "source \<Rightarrow> u64 \<Rightarrow> nat \<Rightarrow> stream_error + (u64 option \<times> source)" where
  "read_varint_bytes src result shift =
     (case read_exact src 1 of
        Inl eof \<Rightarrow>
          if eof then (if shift = 0 then Inr (None, src) else Inl VarintEofMid) else Inl VarintReadError
      | Inr (one, src) \<Rightarrow>
          let byte = one ! 0 in
          if shift = 63 then
            (if byte > 0x01 then Inl StreamVarintOverflow
             else Inr (Some (result OR push_bit 63 (ucast byte)), src))
          else let result = result OR push_bit shift (ucast (byte AND 0x7F)) in
            if byte AND 0x80 = 0 then Inr (Some result, src)
            else read_varint_bytes src result (shift + 7))"
  by pat_completeness auto
termination
  by (relation "measure (\<lambda>(src, _, _). length (src_bytes src))") (auto simp: read_exact_def split: if_splits)

declare read_varint_bytes.simps [simp del]

definition read_varint_from_reader :: "source \<Rightarrow> stream_error + (u64 option \<times> source)" where
  "read_varint_from_reader src = read_varint_bytes src 0 0"

definition stream_len_to_usize :: "u64 \<Rightarrow> stream_error + nat" where
  "stream_len_to_usize len = (if unat len \<le> usize_max then Inr (unat len) else Inl (LengthNotAddressable len))"

text \<open>The growth loop of a read longer than the preallocation.\<close>

function read_growing :: "source \<Rightarrow> nat \<Rightarrow> bytes \<Rightarrow> nat \<Rightarrow> stream_error + (bytes \<times> source)" where
  "read_growing src len buf remaining =
     (if remaining > 0 then
        (let filled = length buf; chunk = min remaining (max filled MAX_PREALLOC) in
         case read_exact src chunk of
           Inl _ \<Rightarrow> Inl (ReadExactFailed len filled)
         | Inr (bs, src) \<Rightarrow> read_growing src len (buf @ bs) (remaining - chunk))
      else Inr (buf, src))"
  by pat_completeness auto
termination
  by (relation "measure (\<lambda>(_, _, _, remaining). remaining)") (auto simp: MAX_PREALLOC_def)

declare read_growing.simps [simp del]

definition read_exact_vec :: "source \<Rightarrow> nat \<Rightarrow> stream_error + (bytes \<times> source)" where
  "read_exact_vec src len =
     (if len \<le> MAX_PREALLOC then
        (case read_exact src len of Inl _ \<Rightarrow> Inl (ReadExactFailed len 0) | Inr (bs, src) \<Rightarrow> Inr (bs, src))
      else read_growing src len [] len)"

function skip_bytes :: "source \<Rightarrow> nat \<Rightarrow> stream_error + source" where
  "skip_bytes src len =
     (if len > 0 then
        (let chunk = min len 8192 in
         case read_exact src chunk of
           Inl _ \<Rightarrow> Inl (SkipFailed len)
         | Inr (_, src) \<Rightarrow> skip_bytes src (len - chunk))
      else Inr src)"
  by pat_completeness auto
termination by (relation "measure (\<lambda>(_, len). len)") auto

declare skip_bytes.simps [simp del]

section \<open>Fields\<close>

definition read_field_header :: "source \<Rightarrow> stream_error + ((u32 \<times> wire_type) option \<times> source)" where
  "read_field_header src =
     rbind (read_varint_from_reader src) (\<lambda>(tag, src).
       case tag of
         None \<Rightarrow> Inr (None, src)
       | Some tag \<Rightarrow> rbind (wire_type_from_u8 (ucast (tag AND 0x7))) (\<lambda>wire_type.
           Inr (Some (ucast (drop_bit 3 tag), wire_type), src)))"

text \<open>A varint that must be there.\<close>

definition read_varint_value :: "source \<Rightarrow> stream_error + (u64 \<times> source)" where
  "read_varint_value src =
     rbind (read_varint_from_reader src) (\<lambda>(v, src). case v of Some v \<Rightarrow> Inr (v, src) | None \<Rightarrow> Inl UnexpectedEof)"

definition read_len_delim_value :: "source \<Rightarrow> stream_error + (bytes \<times> source)" where
  "read_len_delim_value src =
     rbind (read_varint_value src) (\<lambda>(len, src).
     rbind (stream_len_to_usize len) (\<lambda>len. read_exact_vec src len))"

lemma read_exact_less: "read_exact src n = Inr (bs, src') \<Longrightarrow> length (src_bytes src') = length (src_bytes src) - n"
  by (auto simp: read_exact_def split: if_splits)

lemma read_varint_bytes_less:
  "read_varint_bytes src result shift = Inr (Some v, src') \<Longrightarrow> length (src_bytes src') < length (src_bytes src)"
proof (induction src result shift rule: read_varint_bytes.induct)
  case (1 src result shift)
  show ?case
  proof (cases "read_exact src 1")
    case (Inl e)
    with "1.prems" show ?thesis by (auto simp: read_varint_bytes.simps [of src] split: if_splits)
  next
    case (Inr r)
    obtain one src1 where r: "r = (one, src1)" by fastforce
    have "length (src_bytes src1) < length (src_bytes src)"
      using Inr r by (auto simp: read_exact_def split: if_splits)
    with "1.prems" "1.IH" [OF Inr [unfolded r] refl refl] Inr r show ?thesis
      by (fastforce simp: read_varint_bytes.simps [of src] Let_def split: if_splits)
  qed
qed

lemma read_field_header_less:
  "read_field_header src = Inr (Some hdr, src') \<Longrightarrow> length (src_bytes src') < length (src_bytes src)"
  by (auto simp: read_field_header_def read_varint_from_reader_def rbind_Inr_iff split: option.splits
      dest: read_varint_bytes_less)

text \<open>
  Skipping a value and skipping a group call each other; the group loop goes on with the
  source that the value has left, which the guard says is shorter than the loop's own.
\<close>

function (sequential)
  skip_field_value_at :: "source \<Rightarrow> wire_type \<Rightarrow> u32 \<Rightarrow> nat \<Rightarrow> stream_error + source" and
  skip_stream_group :: "source \<Rightarrow> u32 \<Rightarrow> nat \<Rightarrow> stream_error + source" and
  skip_stream_group_loop :: "source \<Rightarrow> u32 \<Rightarrow> nat \<Rightarrow> stream_error + source"
where
  "skip_field_value_at src wire_type field_no depth =
     (case wire_type of
        VarintType \<Rightarrow> rbind (read_varint_value src) (\<lambda>(_, src). Inr src)
      | Fixed64Type \<Rightarrow> skip_bytes src 8
      | Fixed32Type \<Rightarrow> skip_bytes src 4
      | LenDelim \<Rightarrow>
          rbind (read_varint_value src) (\<lambda>(len, src).
          rbind (stream_len_to_usize len) (\<lambda>len. skip_bytes src len))
      | StartGroup \<Rightarrow> skip_stream_group src field_no (depth + 1)
      | EndGroup \<Rightarrow> Inl (EndGroupTag field_no))"
| "skip_stream_group src group_field_no depth =
     (if depth \<ge> MAX_NESTING_DEPTH then Inl GroupsTooDeep
      else skip_stream_group_loop src group_field_no depth)"
| "skip_stream_group_loop src group_field_no depth =
     rbind (read_field_header src) (\<lambda>(hdr, rest).
       case hdr of
         None \<Rightarrow> Inl (GroupNotTerminated group_field_no)
       | Some (field_no, wire_type) \<Rightarrow>
           if wire_type = EndGroup then
             (if field_no \<noteq> group_field_no then Inl (GroupEndMismatch group_field_no field_no) else Inr rest)
           else if length (src_bytes rest) < length (src_bytes src) then
             rbind (skip_field_value_at rest wire_type field_no depth) (\<lambda>rest.
               if length (src_bytes rest) < length (src_bytes src) then skip_stream_group_loop rest group_field_no depth
               else Inl (GroupNotTerminated group_field_no))
           else Inl (GroupNotTerminated group_field_no))"
  by pat_completeness auto
termination
  by (relation "measure (\<lambda>x. case x of
       Inl (src, _) \<Rightarrow> 3 * length (src_bytes src) + 2
     | Inr (Inl (src, _)) \<Rightarrow> 3 * length (src_bytes src) + 1
     | Inr (Inr (src, _)) \<Rightarrow> 3 * length (src_bytes src))") auto

declare skip_field_value_at.simps [simp del] skip_stream_group.simps [simp del] skip_stream_group_loop.simps [simp del]

definition skip_field_value :: "source \<Rightarrow> wire_type \<Rightarrow> u32 \<Rightarrow> stream_error + source" where
  "skip_field_value src wire_type field_no = skip_field_value_at src wire_type field_no 0"

lemma skip_bytes_less: "skip_bytes src n = Inr src' \<Longrightarrow> length (src_bytes src') \<le> length (src_bytes src)"
proof (induction src n rule: skip_bytes.induct)
  case (1 src len)
  show ?case
  proof (cases "0 < len")
    case True
    then show ?thesis
    proof (cases "read_exact src (min len 8192)")
      case (Inr r)
      obtain bs src1 where r: "r = (bs, src1)" by fastforce
      from "1.IH" [OF True refl Inr [unfolded r] refl] "1.prems" True Inr r read_exact_less [OF Inr [unfolded r]]
      show ?thesis by (simp add: skip_bytes.simps [of src len])
    qed (use "1.prems" in \<open>simp add: skip_bytes.simps [of src len]\<close>)
  qed (use "1.prems" in \<open>simp add: skip_bytes.simps [of src]\<close>)
qed

lemma read_varint_value_less: "read_varint_value src = Inr (v, src') \<Longrightarrow> length (src_bytes src') < length (src_bytes src)"
  by (auto simp: read_varint_value_def read_varint_from_reader_def rbind_Inr_iff split: option.splits
      dest: read_varint_bytes_less)

lemma skip_less:
  "skip_field_value_at src wt f depth = Inr src1 \<Longrightarrow> length (src_bytes src1) \<le> length (src_bytes src)"
  "skip_stream_group src g depth = Inr src2 \<Longrightarrow> length (src_bytes src2) \<le> length (src_bytes src)"
  "skip_stream_group_loop src g depth = Inr src3 \<Longrightarrow> length (src_bytes src3) \<le> length (src_bytes src)"
proof (induction src wt f depth and src g depth and src g depth arbitrary: src1 and src2 and src3
    rule: skip_field_value_at_skip_stream_group_skip_stream_group_loop.induct)
  case (1 src wt f depth)
  show ?case
  proof (cases wt)
    case LenDelim
    with "1.prems" obtain v len src' where "read_varint_value src = Inr (v, src')" "skip_bytes src' len = Inr src1"
      by (auto simp: skip_field_value_at.simps [of src] rbind_Inr_iff)
    then show ?thesis using read_varint_value_less skip_bytes_less by fastforce
  qed (use 1 in \<open>auto simp: skip_field_value_at.simps [of src] rbind_Inr_iff dest: skip_bytes_less read_varint_value_less\<close>)
next
  case (2 src g depth)
  then show ?case by (auto simp: skip_stream_group.simps [of src] split: if_splits)
next
  case (3 src g depth)
  then obtain f wt rest where hdr: "read_field_header src = Inr (Some (f, wt), rest)"
    by (auto simp: skip_stream_group_loop.simps [of src] rbind_Inr_iff split: option.splits)
  note less = read_field_header_less [OF hdr]
  show ?case
  proof (cases "wt = EndGroup")
    case True
    with "3.prems" hdr less show ?thesis
      by (auto simp: skip_stream_group_loop.simps [of src] split: if_splits)
  next
    case False
    with "3.prems" hdr less obtain rest' where "length (src_bytes rest') < length (src_bytes src)"
      "skip_field_value_at rest wt f depth = Inr rest'" "skip_stream_group_loop rest' g depth = Inr src3"
      by (auto simp: skip_stream_group_loop.simps [of src] rbind_Inr_iff split: if_splits)
    moreover from this "3.IH"(2) [OF hdr [symmetric, THEN sym] refl refl refl False less] have "length (src_bytes src3) \<le> length (src_bytes rest')"
      by blast
    ultimately show ?thesis by simp
  qed
qed

text \<open>The guards of the group loop are true, which gives the loop of the source.\<close>

lemma skip_stream_group_code:
  "skip_stream_group_loop src group_field_no depth =
     rbind (read_field_header src) (\<lambda>(hdr, rest).
       case hdr of
         None \<Rightarrow> Inl (GroupNotTerminated group_field_no)
       | Some (field_no, wire_type) \<Rightarrow>
           if wire_type = EndGroup then
             (if field_no \<noteq> group_field_no then Inl (GroupEndMismatch group_field_no field_no) else Inr rest)
           else rbind (skip_field_value_at rest wire_type field_no depth) (\<lambda>rest.
             skip_stream_group_loop rest group_field_no depth))"
proof (cases "read_field_header src")
  case (Inr r)
  obtain hdr rest where r: "r = (hdr, rest)" by fastforce
  have "length (src_bytes rest) < length (src_bytes src)" if "hdr = Some h" for h
    using read_field_header_less Inr r that by blast
  then show ?thesis
    using skip_less(1) [of rest] Inr r
    by (subst skip_stream_group_loop.simps) (fastforce split: option.splits intro!: rbind_cong)
qed (simp add: skip_stream_group_loop.simps [of src])

section \<open>Events\<close>

datatype parse_event =
    ModelHeader i64 i64 string string "(string \<times> i64) list"
  | OpsetImport string i64
  | GraphName string
  | NodeEvent node_proto
  | Weight string tensor
  | GraphInput value_info_proto
  | GraphOutput value_info_proto
  | ValueInfo value_info_proto
  | LocalFunction function_proto
  | End

type_synonym 's callback = "parse_event \<Rightarrow> 's \<Rightarrow> stream_error + 's"

definition in_parser :: "wire_error + 'a \<Rightarrow> stream_error + 'a" where
  "in_parser r = (case r of Inl e \<Rightarrow> Inl (InParser e) | Inr x \<Rightarrow> Inr x)"

text \<open>
  A loop over the tags of a buffer whose handler says where it goes on; handlers never go
  back, so that the loop ends.
\<close>

function tag_loop :: "(bytes \<Rightarrow> nat \<Rightarrow> u32 \<Rightarrow> u8 \<Rightarrow> 's \<Rightarrow> stream_error + (nat \<times> 's)) \<Rightarrow> bytes \<Rightarrow> nat \<Rightarrow> 's \<Rightarrow> stream_error + 's" where
  "tag_loop handle buf pos s =
     (if pos < length buf then
        rbind (in_parser (read_tag buf pos)) (\<lambda>(field_no, wire_type, next).
        rbind (handle buf next field_no wire_type s) (\<lambda>(next, s).
          if pos < next then tag_loop handle buf next s else Inl (InParser NoProgress)))
      else Inr s)"
  by pat_completeness auto
termination by (relation "measure (\<lambda>(handle, buf, pos, s). length buf - pos)") auto

declare tag_loop.simps [simp del]

definition skip_tag :: "bytes \<Rightarrow> nat \<Rightarrow> u32 \<Rightarrow> u8 \<Rightarrow> 's \<Rightarrow> stream_error + (nat \<times> 's)" where
  "skip_tag buf pos field_no wire_type s =
     rbind (in_parser (skip_field_value_in_buf buf pos field_no wire_type)) (\<lambda>pos. Inr (pos, s))"

definition opset_tag :: "bytes \<Rightarrow> nat \<Rightarrow> u32 \<Rightarrow> u8 \<Rightarrow> string \<times> i64 \<Rightarrow> stream_error + (nat \<times> string \<times> i64)" where
  "opset_tag buf pos field_no wire_type s =
     (if field_no = 1 \<and> wire_type = 2 then
        rbind (in_parser (read_len_delim_at buf pos ''opset_import domain'')) (\<lambda>(body, next).
          Inr (next, from_utf8_lossy body, snd s))
      else if field_no = 2 \<and> wire_type = 0 then
        rbind (in_parser (read_varint buf pos)) (\<lambda>(v, next). Inr (next, fst s, v))
      else skip_tag buf pos field_no wire_type s)"

definition parse_opset_import_bytes :: "bytes \<Rightarrow> stream_error + (string \<times> i64)" where
  "parse_opset_import_bytes buf = tag_loop opset_tag buf 0 ([], 0)"

text \<open>The event of a field of the graph; every such field is length-delimited.\<close>

definition graph_event :: "half_crate \<Rightarrow> u32 \<Rightarrow> bytes \<Rightarrow> stream_error + parse_event" where
  "graph_event half field_no body =
     (if field_no = 1 then rbind (in_parser (parse_node body)) (\<lambda>n. Inr (NodeEvent n))
      else if field_no = 2 then Inr (GraphName (from_utf8_lossy body))
      else if field_no = 5 then
        rbind (in_parser (parse_tensor_proto body)) (\<lambda>tp.
          case try_to_tensor half tp of Inl e \<Rightarrow> Inl (InTensor e) | Inr t \<Rightarrow> Inr (Weight (tp_name tp) t))
      else if field_no = 11 then rbind (in_parser (parse_value_info_proto body)) (\<lambda>vi. Inr (GraphInput vi))
      else if field_no = 12 then rbind (in_parser (parse_value_info_proto body)) (\<lambda>vi. Inr (GraphOutput vi))
      else rbind (in_parser (parse_value_info_proto body)) (\<lambda>vi. Inr (ValueInfo vi)))"

definition graph_what :: "u32 \<Rightarrow> string" where
  "graph_what field_no =
     (if field_no = 1 then ''graph node'' else if field_no = 2 then ''graph name''
      else if field_no = 5 then ''graph initializer'' else if field_no = 11 then ''graph input''
      else if field_no = 12 then ''graph output'' else ''graph value_info'')"

definition graph_tag ::
  "half_crate \<Rightarrow> 's callback \<Rightarrow> bytes \<Rightarrow> nat \<Rightarrow> u32 \<Rightarrow> u8 \<Rightarrow> 's \<Rightarrow> stream_error + (nat \<times> 's)" where
  "graph_tag half callback buf pos field_no wire_type s =
     (if wire_type = 2 \<and> field_no \<in> {1, 2, 5, 11, 12, 13} then
        rbind (in_parser (read_len_delim_at buf pos (graph_what field_no))) (\<lambda>(body, next).
        rbind (graph_event half field_no body) (\<lambda>event.
        rbind (callback event s) (\<lambda>s. Inr (next, s))))
      else if wire_type = 2 \<and> field_no = 15 then Inl SparseUnsupported
      else skip_tag buf pos field_no wire_type s)"

definition parse_graph_streaming :: "half_crate \<Rightarrow> 's callback \<Rightarrow> bytes \<Rightarrow> 's \<Rightarrow> stream_error + 's" where
  "parse_graph_streaming half callback graph_bytes s = tag_loop (graph_tag half callback) graph_bytes 0 s"

section \<open>The parser\<close>

record stream_header =
  sh_ir_version :: i64
  sh_model_version :: i64
  sh_producer_name :: string
  sh_producer_version :: string
  sh_opset_imports :: "(string \<times> i64) list"
  sh_emitted :: bool

definition stream_header_default :: stream_header where
  "stream_header_default = \<lparr>sh_ir_version = 0, sh_model_version = 0, sh_producer_name = [],
     sh_producer_version = [], sh_opset_imports = [], sh_emitted = False\<rparr>"

definition emit_header :: "'s callback \<Rightarrow> stream_header \<Rightarrow> 's \<Rightarrow> stream_error + (stream_header \<times> 's)" where
  "emit_header callback h s =
     (if sh_emitted h then Inr (h, s)
      else rbind (callback (ModelHeader (sh_ir_version h) (sh_model_version h) (sh_producer_name h)
             (sh_producer_version h) (sh_opset_imports h)) s) (\<lambda>s. Inr (h\<lparr>sh_emitted := True\<rparr>, s)))"

definition stream_field :: "half_crate \<Rightarrow> 's callback \<Rightarrow> u32 \<Rightarrow> wire_type \<Rightarrow> source \<Rightarrow> stream_header \<times> 's \<Rightarrow>
    stream_error + (source \<times> stream_header \<times> 's)" where
  "stream_field half callback field_no wire_type src = (\<lambda>(h, s).
     if field_no = 1 \<and> wire_type = VarintType then
       rbind (read_varint_value src) (\<lambda>(v, src). Inr (src, h\<lparr>sh_ir_version := v\<rparr>, s))
     else if field_no = 2 \<and> wire_type = LenDelim then
       rbind (read_len_delim_value src) (\<lambda>(b, src). Inr (src, h\<lparr>sh_producer_name := from_utf8_lossy b\<rparr>, s))
     else if field_no = 3 \<and> wire_type = LenDelim then
       rbind (read_len_delim_value src) (\<lambda>(b, src). Inr (src, h\<lparr>sh_producer_version := from_utf8_lossy b\<rparr>, s))
     else if field_no = 4 \<and> wire_type = LenDelim then
       rbind (read_len_delim_value src) (\<lambda>(_, src). Inr (src, h, s))
     else if field_no = 5 \<and> wire_type = VarintType then
       rbind (read_varint_value src) (\<lambda>(v, src). Inr (src, h\<lparr>sh_model_version := v\<rparr>, s))
     else if field_no = 6 \<and> wire_type = LenDelim then
       rbind (read_len_delim_value src) (\<lambda>(_, src). Inr (src, h, s))
     else if field_no = 7 \<and> wire_type = LenDelim then
       rbind (emit_header callback h s) (\<lambda>(h, s).
       rbind (read_len_delim_value src) (\<lambda>(graph_bytes, src).
       rbind (parse_graph_streaming half callback graph_bytes s) (\<lambda>s. Inr (src, h, s))))
     else if field_no = 8 \<and> wire_type = LenDelim then
       rbind (read_len_delim_value src) (\<lambda>(b, src).
       rbind (parse_opset_import_bytes b) (\<lambda>(domain, version).
       rbind (emit_header callback h s) (\<lambda>(h, s).
       rbind (callback (OpsetImport domain version) s) (\<lambda>s.
         Inr (src, h\<lparr>sh_opset_imports := sh_opset_imports h @ [(domain, version)]\<rparr>, s)))))
     else if field_no = 25 \<and> wire_type = LenDelim then
       rbind (emit_header callback h s) (\<lambda>(h, s).
       rbind (read_len_delim_value src) (\<lambda>(b, src).
       rbind (in_parser (parse_function_proto b)) (\<lambda>f.
       rbind (callback (LocalFunction f) s) (\<lambda>s. Inr (src, h, s)))))
     else rbind (skip_field_value src wire_type field_no) (\<lambda>src. Inr (src, h, s)))"

function stream_fields :: "half_crate \<Rightarrow> 's callback \<Rightarrow> source \<Rightarrow> stream_header \<times> 's \<Rightarrow> stream_error + (stream_header \<times> 's)" where
  "stream_fields half callback src st =
     rbind (read_field_header src) (\<lambda>(hdr, rest).
       case hdr of
         None \<Rightarrow> Inr st
       | Some (field_no, wire_type) \<Rightarrow>
           rbind (stream_field half callback field_no wire_type rest st) (\<lambda>(rest, st).
             if length (src_bytes rest) < length (src_bytes src) then stream_fields half callback rest st
             else Inl UnexpectedEof))"
  by pat_completeness auto
termination by (relation "measure (\<lambda>(half, callback, src, st). length (src_bytes src))") auto

declare stream_fields.simps [simp del]

definition stream_parse :: "half_crate \<Rightarrow> 's callback \<Rightarrow> source \<Rightarrow> 's \<Rightarrow> stream_error + 's" where
  "stream_parse half callback src s =
     rbind (stream_fields half callback src (stream_header_default, s)) (\<lambda>(h, s).
     rbind (emit_header callback h s) (\<lambda>(h, s). callback End s))"

section \<open>Whole models\<close>

record streamed =
  sd_nodes :: "node_proto list"
  sd_weights :: tensor_map
  sd_name :: string
  sd_inputs :: "value_info_proto list"
  sd_outputs :: "value_info_proto list"
  sd_value_infos :: "value_info_proto list"
  sd_functions :: "function_proto list"

definition streamed_empty :: streamed where
  "streamed_empty = \<lparr>sd_nodes = [], sd_weights = Map.empty, sd_name = [], sd_inputs = [], sd_outputs = [],
     sd_value_infos = [], sd_functions = []\<rparr>"

definition filtered_event :: "(string \<Rightarrow> nat list \<Rightarrow> bool) \<Rightarrow> parse_event \<Rightarrow> streamed \<Rightarrow> stream_error + streamed" where
  "filtered_event weight_filter event s = (case event of
     ModelHeader _ _ _ _ _ \<Rightarrow> Inr s
   | OpsetImport _ _ \<Rightarrow> Inr s
   | GraphName name \<Rightarrow> Inr (s\<lparr>sd_name := name\<rparr>)
   | NodeEvent n \<Rightarrow> Inr (s\<lparr>sd_nodes := push n (sd_nodes s)\<rparr>)
   | Weight name t \<Rightarrow>
       if weight_filter name (t_shape t) then Inr (s\<lparr>sd_weights := (sd_weights s)(name \<mapsto> t)\<rparr>) else Inr s
   | GraphInput vi \<Rightarrow> Inr (s\<lparr>sd_inputs := push vi (sd_inputs s)\<rparr>)
   | GraphOutput vi \<Rightarrow> Inr (s\<lparr>sd_outputs := push vi (sd_outputs s)\<rparr>)
   | ValueInfo vi \<Rightarrow> Inr (s\<lparr>sd_value_infos := push vi (sd_value_infos s)\<rparr>)
   | LocalFunction f \<Rightarrow> Inr (s\<lparr>sd_functions := push f (sd_functions s)\<rparr>)
   | End \<Rightarrow> Inr s)"

text \<open>\<open>parse_streaming\<close> has a closure of its own, which keeps every weight.\<close>

definition collect_event :: "parse_event \<Rightarrow> streamed \<Rightarrow> stream_error + streamed" where
  "collect_event event s = (case event of
     ModelHeader _ _ _ _ _ \<Rightarrow> Inr s
   | OpsetImport _ _ \<Rightarrow> Inr s
   | GraphName name \<Rightarrow> Inr (s\<lparr>sd_name := name\<rparr>)
   | NodeEvent n \<Rightarrow> Inr (s\<lparr>sd_nodes := push n (sd_nodes s)\<rparr>)
   | Weight name t \<Rightarrow> Inr (s\<lparr>sd_weights := (sd_weights s)(name \<mapsto> t)\<rparr>)
   | GraphInput vi \<Rightarrow> Inr (s\<lparr>sd_inputs := push vi (sd_inputs s)\<rparr>)
   | GraphOutput vi \<Rightarrow> Inr (s\<lparr>sd_outputs := push vi (sd_outputs s)\<rparr>)
   | ValueInfo vi \<Rightarrow> Inr (s\<lparr>sd_value_infos := push vi (sd_value_infos s)\<rparr>)
   | LocalFunction f \<Rightarrow> Inr (s\<lparr>sd_functions := push f (sd_functions s)\<rparr>)
   | End \<Rightarrow> Inr s)"

definition streamed_graph :: "streamed \<Rightarrow> graph_proto" where
  "streamed_graph s = GraphProto (sd_nodes s) (sd_name s) [] (map vi_name (sd_inputs s)) (map vi_name (sd_outputs s))
     (sd_inputs s) (sd_outputs s) (sd_value_infos s)"

definition finish_streamed :: "streamed \<Rightarrow> stream_error + (graph_proto \<times> tensor_map)" where
  "finish_streamed s =
     (case inline_local_functions (streamed_graph s) (sd_functions s) of
        Inl e \<Rightarrow> Inl (InInlining e)
      | Inr gp \<Rightarrow> Inr (gp, sd_weights s))"

definition parse_streaming :: "half_crate \<Rightarrow> source \<Rightarrow> stream_error + (graph_proto \<times> tensor_map)" where
  "parse_streaming half src = rbind (stream_parse half collect_event src streamed_empty) finish_streamed"

definition parse_with_weight_filter ::
  "half_crate \<Rightarrow> source \<Rightarrow> (string \<Rightarrow> nat list \<Rightarrow> bool) \<Rightarrow> stream_error + (graph_proto \<times> tensor_map)" where
  "parse_with_weight_filter half src weight_filter =
     rbind (stream_parse half (filtered_event weight_filter) src streamed_empty) finish_streamed"

end
