(* ===== verification/StreamingProof.thy ===== *)
theory StreamingProof
  imports Streaming ModelLoad
begin

text \<open>
  The streaming loader against the one that has the whole file in memory: both are folds of
  their handlers over the fields of the message, and the folds agree.
\<close>

section \<open>Fields of a buffer\<close>

primrec rfold :: "('a \<Rightarrow> 's \<Rightarrow> 'e + 's) \<Rightarrow> 'a list \<Rightarrow> 's \<Rightarrow> 'e + 's" where
  "rfold h [] s = Inr s"
| "rfold h (x # xs) s = rbind (h x s) (rfold h xs)"

inductive fields_at :: "bytes \<Rightarrow> nat \<Rightarrow> (u32 \<times> wire_value) list \<Rightarrow> bool" where
  fields_end: "pos \<ge> length buf \<Longrightarrow> fields_at buf pos []"
| fields_step: "pos < length buf \<Longrightarrow> read_field buf pos = Inr (f, v, next) \<Longrightarrow> fields_at buf next fs \<Longrightarrow>
    fields_at buf pos ((f, v) # fs)"

lemma parse_fields_fold: "fields_at buf pos fs \<Longrightarrow> parse_fields h buf pos m = rfold (\<lambda>(f, v). h f v) fs m"
  by (induction arbitrary: m rule: fields_at.induct) (simp_all add: parse_fields.simps [of h] cong: rbind_cong)

lemma parse_fields_trace: "parse_fields h buf pos m = Inr m' \<Longrightarrow> \<exists>fs. fields_at buf pos fs"
proof (induction h buf pos m rule: parse_fields.induct)
  case (1 h buf pos m)
  show ?case
  proof (cases "pos < length buf")
    case True
    with "1.prems" obtain f v n m1 where rd: "read_field buf pos = Inr (f, v, n)"
      and m1: "h f v m = Inr m1" "parse_fields h buf n m1 = Inr m'"
      by (auto simp: parse_fields.simps [of h buf pos m] result_simps)
    from "1.IH" [OF True rd refl refl m1] show ?thesis using True rd by (blast intro: fields_step)
  qed (use fields_end [of buf pos] in auto)
qed

text \<open>The same for the tag loops of the streaming parser.\<close>

lemma read_field_tag: "read_field buf pos = Inr (f, v, n) \<Longrightarrow> \<exists>w p. read_tag buf pos = Inr (f, w, p)"
  by (auto simp: read_field_def read_field_at.simps rbind_Inr_iff split: if_splits)

lemma tag_loop_fold:
  assumes "fields_at buf pos fs"
    and "\<And>pos f v n w p s. read_field buf pos = Inr (f, v, n) \<Longrightarrow> read_tag buf pos = Inr (f, w, p) \<Longrightarrow>
      handle buf p f w s = rbind (g f v s) (\<lambda>s. Inr (n, s))"
  shows "tag_loop handle buf pos s = rfold (\<lambda>(f, v). g f v) fs s"
  using assms
proof (induction arbitrary: s rule: fields_at.induct)
  case (fields_step pos buf f v n fs)
  from read_field_tag [OF fields_step.hyps(2)] obtain w p where tag: "read_tag buf pos = Inr (f, w, p)" by blast
  have "pos < n" using read_field_progress [OF fields_step.hyps(2)] by blast
  with fields_step.hyps(1) tag fields_step.prems [OF fields_step.hyps(2) tag] fields_step.IH [OF fields_step.prems]
  show ?case
    by (cases "g f v s") (simp_all add: tag_loop.simps [of handle buf pos] in_parser_def)
qed (simp add: tag_loop.simps)

section \<open>A source that has a whole buffer\<close>

definition reading :: "bytes \<Rightarrow> nat \<Rightarrow> source" where
  "reading buf pos = \<lparr>src_bytes = drop pos buf, src_breaks = False\<rparr>"

lemma read_exact_reading:
  "pos + n \<le> length buf \<Longrightarrow> read_exact (reading buf pos) n = Inr (subslice pos (pos + n) buf, reading buf (pos + n))"
  by (simp add: read_exact_def reading_def subslice_def add.commute)

lemma skip_bytes_reading:
  "pos + n \<le> length buf \<Longrightarrow> skip_bytes (reading buf pos) n = Inr (reading buf (pos + n))"
proof (induction n arbitrary: pos rule: less_induct)
  case (less n)
  show ?case
  proof (cases "0 < n")
    case True
    then have "skip_bytes (reading buf (pos + min n 8192)) (n - min n 8192) = Inr (reading buf (pos + min n 8192 + (n - min n 8192)))"
      by (intro less.IH) (use less.prems in auto)
    with True less.prems read_exact_reading [of pos "min n 8192" buf] show ?thesis
      by (subst skip_bytes.simps) (simp add: Let_def)
  qed (simp add: skip_bytes.simps)
qed

lemma subslice_join: "a \<le> b \<Longrightarrow> b \<le> c \<Longrightarrow> c \<le> length xs \<Longrightarrow> subslice a b xs @ subslice b c xs = subslice a c xs"
proof -
  assume "a \<le> b" "b \<le> c" "c \<le> length xs"
  then have "take (c - a) (drop a xs) = take (b - a) (drop a xs) @ take (c - b) (drop (b - a) (drop a xs))"
    using take_add [of "b - a" "c - b" "drop a xs"] by simp
  then show ?thesis using \<open>a \<le> b\<close> by (simp add: subslice_def)
qed

lemma read_growing_reading:
  "start + length got = pos \<Longrightarrow> got = subslice start pos buf \<Longrightarrow> pos + n \<le> length buf \<Longrightarrow>
     read_growing (reading buf pos) len got n = Inr (subslice start (pos + n) buf, reading buf (pos + n))"
proof (induction n arbitrary: pos got rule: less_induct)
  case (less n)
  show ?case
  proof (cases "0 < n")
    case True
    let ?c = "min n (max (length got) MAX_PREALLOC)"
    have pos: "0 < ?c" using True by (simp add: MAX_PREALLOC_def)
    have "read_growing (reading buf (pos + ?c)) len (got @ subslice pos (pos + ?c) buf) (n - ?c)
        = Inr (subslice start (pos + ?c + (n - ?c)) buf, reading buf (pos + ?c + (n - ?c)))"
    proof (rule less.IH)
      show "got @ subslice pos (pos + ?c) buf = subslice start (pos + ?c) buf"
        using less.prems subslice_join [of start pos "pos + ?c" buf] by simp
    qed (use less.prems pos True in auto)
    with True less.prems read_exact_reading [of pos ?c buf] show ?thesis
      by (subst read_growing.simps) (simp add: Let_def)
  qed (use less.prems in \<open>simp add: read_growing.simps\<close>)
qed

lemma read_exact_vec_reading:
  "pos + n \<le> length buf \<Longrightarrow> read_exact_vec (reading buf pos) n = Inr (subslice pos (pos + n) buf, reading buf (pos + n))"
  using read_growing_reading [of pos "[]" pos buf n n] read_exact_reading [of pos n buf]
  by (simp add: read_exact_vec_def) (simp add: subslice_def)

lemma read_varint_bytes_reading:
  "read_varint_loop buf pos result shift = Inr (v, p) \<Longrightarrow>
     read_varint_bytes (reading buf pos) result shift = Inr (Some v, reading buf p)"
proof (induction buf pos result shift rule: read_varint_loop.induct)
  case (1 buf pos result shift)
  from "1.prems" have pos: "pos < length buf"
    by (auto simp: read_varint_loop.simps [of buf pos] split: if_splits)
  have one: "subslice pos (Suc pos) buf = [buf ! pos]"
    using pos by (simp add: subslice_def take_Suc_conv_app_nth hd_drop_conv_nth take_Suc)
  show ?case
    using "1.prems" "1.IH" [OF _ refl refl _ refl] pos read_exact_reading [of pos 1 buf]
    by (auto simp: read_varint_loop.simps [of buf pos] read_varint_bytes.simps [of "reading buf pos"] one Let_def
        split: if_splits)
qed

lemma read_varint_value_reading: "read_varint buf pos = Inr (v, p) \<Longrightarrow> read_varint_value (reading buf pos) = Inr (v, reading buf p)"
  using read_varint_bytes_reading [of buf pos 0 0]
  by (simp add: read_varint_value_def read_varint_from_reader_def read_varint_def)

lemma stream_len_to_usize_Inr [simp]: "stream_len_to_usize len = Inr (unat len)"
proof -
  have "unat len < 2 ^ LENGTH(64)" by (rule unsigned_less)
  then show ?thesis by (simp add: stream_len_to_usize_def usize_max_def)
qed

lemma read_field_header_reading:
  assumes "read_tag buf pos = Inr (f, w, p)" and "wire_type_from_u8 w = Inr wt"
  shows "read_field_header (reading buf pos) = Inr (Some (f, wt), reading buf p)"
proof -
  from assms(1) obtain tag where tag: "read_varint buf pos = Inr (tag, p)" "f = ucast (drop_bit 3 tag)" "w = ucast (tag AND 0x7)"
    by (auto simp: read_tag_def rbind_Inr_iff Let_def split: if_splits)
  with assms(2) read_varint_bytes_reading [of buf pos 0 0] show ?thesis
    by (simp add: read_field_header_def read_varint_from_reader_def read_varint_def)
qed

lemma read_field_header_end:
  assumes "length buf \<le> pos"
  shows "read_field_header (reading buf pos) = Inr (None, reading buf pos)"
proof -
  have "read_varint_bytes (reading buf pos) 0 0 = Inr (None, reading buf pos)"
    using assms by (subst read_varint_bytes.simps) (simp add: read_exact_def reading_def)
  then show ?thesis by (simp add: read_field_header_def read_varint_from_reader_def)
qed

section \<open>The parser as a fold\<close>

definition value_step ::
  "half_crate \<Rightarrow> 's callback \<Rightarrow> u32 \<Rightarrow> wire_value \<Rightarrow> stream_header \<times> 's \<Rightarrow> stream_error + (stream_header \<times> 's)" where
  "value_step half callback f v = (\<lambda>(h, s).
     case v of
       Varint n \<Rightarrow>
         if f = 1 then Inr (h\<lparr>sh_ir_version := n\<rparr>, s)
         else if f = 5 then Inr (h\<lparr>sh_model_version := n\<rparr>, s) else Inr (h, s)
     | Bytes b \<Rightarrow>
         if f = 2 then Inr (h\<lparr>sh_producer_name := from_utf8_lossy b\<rparr>, s)
         else if f = 3 then Inr (h\<lparr>sh_producer_version := from_utf8_lossy b\<rparr>, s)
         else if f = 7 then
           rbind (emit_header callback h s) (\<lambda>(h, s).
           rbind (parse_graph_streaming half callback b s) (\<lambda>s. Inr (h, s)))
         else if f = 8 then
           rbind (parse_opset_import_bytes b) (\<lambda>(domain, version).
           rbind (emit_header callback h s) (\<lambda>(h, s).
           rbind (callback (OpsetImport domain version) s) (\<lambda>s.
             Inr (h\<lparr>sh_opset_imports := sh_opset_imports h @ [(domain, version)]\<rparr>, s))))
         else if f = 25 then
           rbind (emit_header callback h s) (\<lambda>(h, s).
           rbind (in_parser (parse_function_proto b)) (\<lambda>fn.
           rbind (callback (LocalFunction fn) s) (\<lambda>s. Inr (h, s))))
         else Inr (h, s)
     | _ \<Rightarrow> Inr (h, s))"

lemma read_len_delim_value_reading:
  "read_varint buf pos = Inr (len, p) \<Longrightarrow> p + unat len \<le> length buf \<Longrightarrow>
     read_len_delim_value (reading buf pos) = Inr (subslice p (p + unat len) buf, reading buf (p + unat len))"
  by (simp add: read_len_delim_value_def read_varint_value_reading read_exact_vec_reading)

lemma stream_step:
  assumes "read_field buf pos = Inr (f, v, n)" and "v \<noteq> Group"
  shows "\<exists>wt p. read_field_header (reading buf pos) = Inr (Some (f, wt), reading buf p) \<and>
    (\<forall>st. stream_field half callback f wt (reading buf p) st = rbind (value_step half callback f v st) (\<lambda>st. Inr (reading buf n, st)))"
proof -
  from read_field_tag [OF assms(1)] obtain w p where tag: "read_tag buf pos = Inr (f, w, p)" by blast
  have case_of: "(w = 0 \<and> (\<exists>x. v = Varint x \<and> read_varint buf p = Inr (x, n))) \<or>
    (w = 1 \<and> (\<exists>b. v = Fixed64 b) \<and> n = p + 8 \<and> n \<le> length buf) \<or>
    (w = 2 \<and> (\<exists>len q. read_varint buf p = Inr (len, q) \<and> v = Bytes (subslice q (q + unat len) buf) \<and>
       n = q + unat len \<and> n \<le> length buf)) \<or>
    (w = 5 \<and> (\<exists>b. v = Fixed32 b) \<and> n = p + 4 \<and> n \<le> length buf)"
    using assms tag by (auto simp: read_field_def read_field_at.simps result_simps split: if_splits)
  then show ?thesis
  proof (elim disjE conjE exE)
    fix x assume "w = 0" "v = Varint x" "read_varint buf p = Inr (x, n)"
    then show ?thesis using read_field_header_reading [OF tag] read_varint_value_reading [of buf p]
      by (intro exI [of _ VarintType] exI [of _ p])
        (auto simp: wire_type_from_u8_def stream_field_def value_step_def skip_field_value_def skip_field_value_at.simps)
  next
    fix b assume "w = 1" "v = Fixed64 b" "n = p + 8" "n \<le> length buf"
    then show ?thesis using read_field_header_reading [OF tag] skip_bytes_reading [of p 8 buf]
      by (intro exI [of _ Fixed64Type] exI [of _ p])
        (auto simp: wire_type_from_u8_def stream_field_def value_step_def skip_field_value_def skip_field_value_at.simps)
  next
    fix len q assume *: "w = 2" "read_varint buf p = Inr (len, q)" "v = Bytes (subslice q (q + unat len) buf)"
      "n = q + unat len" "n \<le> length buf"
    then have "skip_field_value (reading buf p) LenDelim f = Inr (reading buf n)"
      using read_varint_value_reading [of buf p] skip_bytes_reading [of q "unat len" buf]
      by (simp add: skip_field_value_def skip_field_value_at.simps)
    with * show ?thesis using read_field_header_reading [OF tag] read_len_delim_value_reading [of buf p len q]
      by (intro exI [of _ LenDelim] exI [of _ p])
        (auto simp: wire_type_from_u8_def stream_field_def value_step_def rbind_assoc split_def)
  next
    fix b assume "w = 5" "v = Fixed32 b" "n = p + 4" "n \<le> length buf"
    then show ?thesis using read_field_header_reading [OF tag] skip_bytes_reading [of p 4 buf]
      by (intro exI [of _ Fixed32Type] exI [of _ p])
        (auto simp: wire_type_from_u8_def stream_field_def value_step_def skip_field_value_def skip_field_value_at.simps)
  qed
qed

lemma stream_fields_fold:
  "fields_at buf pos fs \<Longrightarrow> Group \<notin> snd ` set fs \<Longrightarrow>
     stream_fields half callback (reading buf pos) st = rfold (\<lambda>(f, v). value_step half callback f v) fs st"
proof (induction arbitrary: st rule: fields_at.induct)
  case (fields_end pos buf)
  then show ?case by (simp add: stream_fields.simps [of _ _ "reading buf pos"] read_field_header_end)
next
  case (fields_step pos buf f v n fs)
  from stream_step [OF fields_step.hyps(2)] fields_step.prems obtain wt p where
    hdr: "read_field_header (reading buf pos) = Inr (Some (f, wt), reading buf p)" and
    step: "\<And>st. stream_field half callback f wt (reading buf p) st = rbind (value_step half callback f v st) (\<lambda>st. Inr (reading buf n, st))"
    by fastforce
  have less: "length (src_bytes (reading buf n)) < length (src_bytes (reading buf pos))"
    using read_field_progress [OF fields_step.hyps(2)] by (auto simp: reading_def)
  from fields_step.IH fields_step.prems less show ?case
    by (cases "value_step half callback f v st")
      (simp_all add: stream_fields.simps [of _ _ "reading buf pos"] hdr step)
qed

definition opset_value :: "u32 \<Rightarrow> wire_value \<Rightarrow> string \<times> i64 \<Rightarrow> stream_error + (string \<times> i64)" where
  "opset_value f v s = (case v of Bytes b \<Rightarrow> if f = 1 then Inr (from_utf8_lossy b, snd s) else Inr s
    | Varint n \<Rightarrow> if f = 2 then Inr (fst s, n) else Inr s | _ \<Rightarrow> Inr s)"

lemma opset_import_bytes:
  assumes "parse_opset_import b = Inr oi"
  shows "parse_opset_import_bytes b = Inr (oi_domain oi, oi_version oi)"
proof -
  from parse_fields_trace [OF assms [unfolded parse_opset_import_def]] obtain fs where fs: "fields_at b 0 fs" ..
  have "tag_loop opset_tag b 0 s = rfold (\<lambda>(f, v). opset_value f v) fs s" for s
  proof (rule tag_loop_fold [OF fs])
    fix pos f v n w p and s :: "string \<times> i64"
    assume rd: "read_field b pos = Inr (f, v, n)" and tag: "read_tag b pos = Inr (f, w, p)"
    have skip: "skip_tag b p f w s = Inr (n, s)"
      using skip_agrees_with_read [OF tag] rd by (simp add: skip_tag_def in_parser_def)
    show "opset_tag b p f w s = rbind (opset_value f v s) (\<lambda>s. Inr (n, s))"
      using rd tag skip
      by (auto simp: opset_tag_def opset_value_def read_field_def read_field_at.simps result_simps read_len_delim_at_def in_parser_def checked_end_def checked_add_def
          split: if_splits option.splits)
  qed
  moreover have "rfold (\<lambda>(f, v). opset_field f v) fs oi0 = Inr oi \<Longrightarrow>
      rfold (\<lambda>(f, v). opset_value f v) fs (oi_domain oi0, oi_version oi0) = Inr (oi_domain oi, oi_version oi)" for oi0 oi fs
  proof (induction fs arbitrary: oi0)
    case (Cons x fs)
    obtain f v where x: "x = (f, v)" by fastforce
    with Cons.prems obtain oi1 where oi1: "opset_field f v oi0 = Inr oi1" "rfold (\<lambda>(f, v). opset_field f v) fs oi1 = Inr oi"
      by (auto simp: rbind_Inr_iff)
    then have "opset_value f v (oi_domain oi0, oi_version oi0) = Inr (oi_domain oi1, oi_version oi1)"
      by (auto simp: opset_field_def opset_value_def split: wire_value.splits if_splits)
    with Cons.IH [OF oi1(2)] x show ?case by simp
  qed simp
  moreover have "rfold (\<lambda>(f, v). opset_field f v) fs \<lparr>oi_domain = [], oi_version = 0\<rparr> = Inr oi"
    using assms by (simp add: parse_opset_import_def parse_fields_fold [OF fs])
  ultimately show ?thesis by (fastforce simp: parse_opset_import_bytes_def)
qed

section \<open>Graphs\<close>

definition graph_value :: "half_crate \<Rightarrow> 's callback \<Rightarrow> u32 \<Rightarrow> wire_value \<Rightarrow> 's \<Rightarrow> stream_error + 's" where
  "graph_value half callback f v s = (case v of
     Bytes b \<Rightarrow>
       if f \<in> {1, 2, 5, 11, 12, 13} then rbind (graph_event half f b) (\<lambda>event. callback event s)
       else if f = 15 then Inl SparseUnsupported else Inr s
   | _ \<Rightarrow> Inr s)"

lemma parse_graph_streaming_fold:
  assumes "fields_at b 0 fs"
  shows "parse_graph_streaming half callback b s = rfold (\<lambda>(f, v). graph_value half callback f v) fs s"
  unfolding parse_graph_streaming_def
proof (rule tag_loop_fold [OF assms])
  fix pos f v n w p and s :: 'a
  assume rd: "read_field b pos = Inr (f, v, n)" and tag: "read_tag b pos = Inr (f, w, p)"
  have skip: "skip_tag b p f w s = Inr (n, s)"
    using skip_agrees_with_read [OF tag] rd by (simp add: skip_tag_def in_parser_def)
  show "graph_tag half callback b p f w s = rbind (graph_value half callback f v s) (\<lambda>s. Inr (n, s))"
  proof (cases "w = 2")
    case True
    with rd tag obtain len q where rv: "read_varint b p = Inr (len, q)" "v = Bytes (subslice q n b)" "n = q + unat len"
      "n \<le> length b" "n \<le> usize_max"
      by (auto simp: read_field_def read_field_at.simps result_simps)
    then obtain x where x: "v = Bytes x" "\<And>what. read_len_delim_at b p what = Inr (x, n)"
      by (simp add: read_len_delim_at_def checked_end_def checked_add_def)
    have "graph_tag half callback b p f w s = (if f \<in> {1, 2, 5, 11, 12, 13}
        then rbind (rbind (graph_event half f x) (\<lambda>event. callback event s)) (\<lambda>s. Inr (n, s))
        else if f = 15 then Inl SparseUnsupported else Inr (n, s))"
      using True x(2) skip by (simp add: graph_tag_def in_parser_def rbind_assoc)
    then show ?thesis using x(1) by (simp add: graph_value_def)
  next
    case False
    with rd tag have "\<forall>x. v \<noteq> Bytes x"
      by (auto simp: read_field_def read_field_at.simps result_simps split: if_splits)
    with False skip show ?thesis by (cases v) (simp_all add: graph_tag_def graph_value_def)
  qed
qed

text \<open>What has been collected is the graph so far; its tensors are decoded.\<close>

definition decoded :: "half_crate \<Rightarrow> tensor_proto list \<Rightarrow> tensor_map" where
  "decoded half inits = fold (\<lambda>init w. w(tp_name init \<mapsto> projr (try_to_tensor half init))) inits Map.empty"

definition collects :: "half_crate \<Rightarrow> graph_proto \<Rightarrow> streamed \<Rightarrow> bool" where
  "collects half g s \<longleftrightarrow> g = GraphProto (sd_nodes s) (sd_name s) (gp_initializers g) (map vi_name (sd_inputs s))
     (map vi_name (sd_outputs s)) (sd_inputs s) (sd_outputs s) (sd_value_infos s) \<and> sd_weights s = decoded half (gp_initializers g)"

lemma graph_field_initializers: "graph_field p f v g = Inr g' \<Longrightarrow> set (gp_initializers g) \<subseteq> set (gp_initializers g')"
  by (cases g) (auto simp: graph_field_def push_def result_simps split: wire_value.splits if_splits)

lemma rfold_initializers:
  "rfold (\<lambda>(f, v). graph_field p f v) fs g = Inr g' \<Longrightarrow> set (gp_initializers g) \<subseteq> set (gp_initializers g')"
proof (induction fs arbitrary: g)
  case (Cons x fs)
  then show ?case using graph_field_initializers by (fastforce simp: rbind_Inr_iff split: prod.splits)
qed simp

lemma graph_value_collects:
  assumes "graph_field parse_node f v g = Inr g'" and "collects half g s"
    and "\<And>init. init \<in> set (gp_initializers g') \<Longrightarrow> is_ok (try_to_tensor half init)"
  shows "\<exists>s'. graph_value half collect_event f v s = Inr s' \<and> collects half g' s' \<and> sd_functions s' = sd_functions s"
proof (cases v)
  case (Bytes b)
  obtain nodes name inits ins outs iis ois vis where g: "g = GraphProto nodes name inits ins outs iis ois vis"
    by (cases g)
  consider "f = 1" | "f = 2" | "f = 5" | "f = 11" | "f = 12" | "f = 13" | "f = 15" | "f \<notin> {1, 2, 5, 11, 12, 13, 15}" by auto
  then show ?thesis
  proof cases
    case 3
    with assms(1) Bytes obtain tp where tp: "parse_tensor_proto b = Inr tp" "g' = gp_initializers_update (push tp) g"
      by (auto simp: graph_field_def result_simps)
    then have "is_ok (try_to_tensor half tp)" using assms(3) g by (simp add: push_def)
    then obtain t where "try_to_tensor half tp = Inr t" by (auto simp: is_ok_iff)
    with 3 Bytes tp assms(2) g show ?thesis
      by (auto simp: graph_value_def graph_event_def in_parser_def collect_event_def collects_def decoded_def push_def)
  qed (use assms Bytes g in \<open>auto simp: graph_field_def graph_value_def graph_event_def in_parser_def collect_event_def
      collects_def push_def result_simps\<close>)
qed (use assms in \<open>simp_all add: graph_field_def graph_value_def\<close>)

lemma graph_collects:
  "rfold (\<lambda>(f, v). graph_field parse_node f v) fs g = Inr g' \<Longrightarrow> collects half g s \<Longrightarrow>
   (\<And>init. init \<in> set (gp_initializers g') \<Longrightarrow> is_ok (try_to_tensor half init)) \<Longrightarrow>
   \<exists>s'. rfold (\<lambda>(f, v). graph_value half collect_event f v) fs s = Inr s' \<and> collects half g' s' \<and> sd_functions s' = sd_functions s"
proof (induction fs arbitrary: g s)
  case (Cons x fs)
  obtain f v where x: "x = (f, v)" by fastforce
  from Cons.prems(1) x obtain g1 where g1: "graph_field parse_node f v g = Inr g1"
    "rfold (\<lambda>(f, v). graph_field parse_node f v) fs g1 = Inr g'" by (auto simp: rbind_Inr_iff)
  have "is_ok (try_to_tensor half init)" if "init \<in> set (gp_initializers g1)" for init
    using that Cons.prems(3) rfold_initializers [OF g1(2)] by blast
  from graph_value_collects [OF g1(1) Cons.prems(2) this] obtain s1 where
    s1: "graph_value half collect_event f v s = Inr s1" "collects half g1 s1" "sd_functions s1 = sd_functions s" by blast
  from Cons.IH [OF g1(2) s1(2) Cons.prems(3)] s1 x show ?case by auto
qed auto

lemma parse_graph_collects:
  assumes "parse_graph b = Inr g" and "\<And>init. init \<in> set (gp_initializers g) \<Longrightarrow> is_ok (try_to_tensor half init)"
    and "collects half graph_default s"
  shows "\<exists>s'. parse_graph_streaming half collect_event b s = Inr s' \<and> collects half g s' \<and> sd_functions s' = sd_functions s"
proof -
  have g: "parse_fields (graph_field parse_node) b 0 graph_default = Inr g"
    using assms(1) by (simp add: parse_graph_def parse_graph_at.simps parse_node_def [abs_def] split: if_splits)
  from parse_fields_trace [OF g] obtain fs where fs: "fields_at b 0 fs" ..
  with g have "rfold (\<lambda>(f, v). graph_field parse_node f v) fs graph_default = Inr g" by (simp add: parse_fields_fold)
  from graph_collects [OF this assms(3,2)] show ?thesis by (simp add: parse_graph_streaming_fold [OF fs])
qed

section \<open>Models\<close>

text \<open>The fields of a message, and the messages the theorem is about.\<close>

definition top_fields :: "bytes \<Rightarrow> (u32 \<times> wire_value) list" where
  "top_fields bs = (case parse_fields (\<lambda>f v fs. Inr (push (f, v) fs)) bs 0 [] of Inr fs \<Rightarrow> fs | Inl _ \<Rightarrow> [])"

fun is_graph_field :: "u32 \<times> wire_value \<Rightarrow> bool" where
  "is_graph_field (f, Bytes b) = (f = 7)"
| "is_graph_field _ = False"

lemma top_fields_eq:
  assumes "fields_at bs 0 fs"
  shows "top_fields bs = fs"
proof -
  have "rfold (\<lambda>(f, v) fs. Inr (push (f, v) fs)) fs acc = (Inr (acc @ fs) :: wire_error + _)" for acc
    by (induction fs arbitrary: acc) (auto simp: push_def)
  from this [of "[]"] have "parse_fields (\<lambda>f v fs. Inr (push (f, v) fs)) bs 0 [] = Inr fs"
    using parse_fields_fold [OF assms, of "\<lambda>f v fs. Inr (push (f, v) fs)" "[]"] by simp
  then show ?thesis by (simp add: top_fields_def)
qed

lemma collect_header: "\<exists>h'. emit_header collect_event h s = Inr (h', s)"
  by (simp add: emit_header_def collect_event_def)

lemma collects_functions: "collects half g (s\<lparr>sd_functions := fns\<rparr>) \<longleftrightarrow> collects half g s"
  by (simp add: collects_def)

lemma model_field_graph: "model_field f v m = Inr m' \<Longrightarrow> \<not> is_graph_field (f, v) \<Longrightarrow> mp_graph m' = mp_graph m"
  by (cases v) (auto simp: model_field_def result_simps Let_def split: if_splits)

lemma model_graph_kept:
  "rfold (\<lambda>(f, v). model_field f v) fs m = Inr m' \<Longrightarrow> \<forall>x\<in>set fs. \<not> is_graph_field x \<Longrightarrow> mp_graph m' = mp_graph m"
proof (induction fs arbitrary: m)
  case (Cons x fs)
  then show ?case using model_field_graph by (fastforce simp: rbind_Inr_iff split: prod.splits)
qed simp

lemma step_collects:
  assumes "model_field f v m = Inr m'" and "collects half (mp_graph m) s" and "sd_functions s = mp_functions m"
    and "is_graph_field (f, v) \<Longrightarrow> mp_graph m = graph_default \<and>
      (\<forall>init\<in>set (gp_initializers (mp_graph m')). is_ok (try_to_tensor half init))"
  shows "\<exists>h' s'. value_step half collect_event f v (h, s) = Inr (h', s') \<and> collects half (mp_graph m') s' \<and>
    sd_functions s' = mp_functions m'"
proof (cases v)
  case (Bytes b)
  obtain h1 where h1: "emit_header collect_event h s = Inr (h1, s)" using collect_header by blast
  consider "f = 7" | "f = 8" | "f = 25" | "f \<noteq> 7" "f \<noteq> 8" "f \<noteq> 25" by blast
  then show ?thesis
  proof cases
    case 1
    with assms(1) Bytes obtain g where g: "parse_graph b = Inr g" "m' = m\<lparr>mp_graph := g\<rparr>"
      by (auto simp: model_field_def result_simps)
    from parse_graph_collects [OF g(1), of half s] assms(2-4) g(2) 1 Bytes obtain s' where
      "parse_graph_streaming half collect_event b s = Inr s'" "collects half g s'" "sd_functions s' = sd_functions s"
      by auto
    with 1 Bytes g h1 assms(3) show ?thesis by (simp add: value_step_def)
  next
    case 2
    with assms(1) Bytes obtain oi where "parse_opset_import b = Inr oi" "mp_graph m' = mp_graph m" "mp_functions m' = mp_functions m"
      by (auto simp: model_field_def result_simps Let_def split: if_splits)
    with 2 Bytes h1 assms(2,3) opset_import_bytes show ?thesis by (simp add: value_step_def collect_event_def)
  next
    case 3
    with assms(1) Bytes obtain fn where "parse_function_proto b = Inr fn" "m' = m\<lparr>mp_functions := push fn (mp_functions m)\<rparr>"
      by (auto simp: model_field_def result_simps)
    with 3 Bytes h1 assms(2,3) show ?thesis
      by (simp add: value_step_def collect_event_def in_parser_def collects_functions)
  next
    case 4
    with assms(1) Bytes have "mp_graph m' = mp_graph m" "mp_functions m' = mp_functions m"
      by (auto simp: model_field_def result_simps split: if_splits)
    with 4 Bytes assms(2,3) show ?thesis by (simp add: value_step_def)
  qed
qed (use assms in \<open>auto simp: model_field_def value_step_def split: if_splits\<close>)

lemma model_collects:
  "rfold (\<lambda>(f, v). model_field f v) fs m = Inr m' \<Longrightarrow> collects half (mp_graph m) s \<Longrightarrow> sd_functions s = mp_functions m \<Longrightarrow>
   length (filter is_graph_field fs) \<le> (if mp_graph m = graph_default then 1 else 0) \<Longrightarrow>
   (\<And>init. init \<in> set (gp_initializers (mp_graph m')) \<Longrightarrow> is_ok (try_to_tensor half init)) \<Longrightarrow>
   \<exists>h' s'. rfold (\<lambda>(f, v). value_step half collect_event f v) fs (h, s) = Inr (h', s') \<and> collects half (mp_graph m') s' \<and>
     sd_functions s' = mp_functions m'"
proof (induction fs arbitrary: m h s)
  case (Cons x fs)
  obtain f v where x: "x = (f, v)" by fastforce
  from Cons.prems(1) x obtain m1 where m1: "model_field f v m = Inr m1" "rfold (\<lambda>(f, v). model_field f v) fs m1 = Inr m'"
    by (auto simp: rbind_Inr_iff)
  have once: "filter is_graph_field fs = []" "mp_graph m = graph_default" if "is_graph_field (f, v)"
    using that Cons.prems(4) x by (auto split: if_splits)
  have "mp_graph m' = mp_graph m1" if "is_graph_field (f, v)"
    using model_graph_kept [OF m1(2)] once(1) [OF that] by (simp add: filter_empty_conv)
  with Cons.prems(5) once obtain h1 s1 where s1: "value_step half collect_event f v (h, s) = Inr (h1, s1)"
    "collects half (mp_graph m1) s1" "sd_functions s1 = mp_functions m1"
    using step_collects [OF m1(1) Cons.prems(2,3)] by metis
  have "length (filter is_graph_field fs) \<le> (if mp_graph m1 = graph_default then 1 else 0)"
    using once Cons.prems(4) x model_field_graph [OF m1(1)] by (cases "is_graph_field (f, v)") auto
  from Cons.IH [OF m1(2) s1(2,3) this Cons.prems(5)] s1(1) x show ?case by auto
qed simp

lemma inline_initializers:
  "inline_local_functions (gp_initializers_update (\<lambda>_. inits) g) fns =
     rbind (inline_local_functions g fns) (\<lambda>g. Inr (gp_initializers_update (\<lambda>_. inits) g))"
proof -
  have nodes: "gp_nodes (gp_initializers_update (\<lambda>_. inits) g) = gp_nodes g" by (cases g) simp
  have swap: "gp_nodes_update (\<lambda>_. ns) (gp_initializers_update (\<lambda>_. inits) g) =
      gp_initializers_update (\<lambda>_. inits) (gp_nodes_update (\<lambda>_. ns) g)" for ns by (cases g) simp
  show ?thesis by (simp add: inline_local_functions_def nodes swap rbind_assoc split_def)
qed

lemma collect_weights_decoded:
  "collect_weights (\<lambda>init. if is_external init then Inl ExternalNeedsPath else decode_tensor_proto half init) inits w = Inr w' \<Longrightarrow>
     (\<forall>init\<in>set inits. is_ok (try_to_tensor half init)) \<and>
     w' = fold (\<lambda>init w. w(tp_name init \<mapsto> projr (try_to_tensor half init))) inits w"
proof (induction inits arbitrary: w)
  case (Cons init inits)
  from Cons.prems obtain t where t: "try_to_tensor half init = Inr t"
    and rest: "collect_weights (\<lambda>init. if is_external init then Inl ExternalNeedsPath else decode_tensor_proto half init) inits
      (w(tp_name init \<mapsto> t)) = Inr w'"
    by (auto simp: rbind_Inr_iff decode_tensor_proto_def of_reader_def split: if_splits sum.splits)
  from Cons.IH [OF rest] t show ?case by (simp del: fun_upd_apply)
qed simp

text \<open>
  C11. Streaming a model gives what loading it from memory gives: if \<open>load\<close> accepts the
  bytes, and the message has one graph and no groups at its top level, the streaming parser
  accepts a source of these bytes, its weights are the same, and the graph built from its
  graph and weights is the same.
\<close>

theorem streaming_load_agrees:
  assumes "load half bs = Inr (g, weights)" and "length (filter is_graph_field (top_fields bs)) \<le> 1"
    and "Group \<notin> snd ` set (top_fields bs)"
  shows "\<exists>gp. parse_streaming half \<lparr>src_bytes = bs, src_breaks = False\<rparr> = Inr (gp, weights) \<and> build_graph half gp weights = Inr g"
proof -
  from assms(1) obtain m gp0 w where m: "parse_model bs = Inr m"
    and gp0: "inline_local_functions (mp_graph m) (mp_functions m) = Inr gp0"
    and w: "collect_weights (\<lambda>init. if is_external init then Inl ExternalNeedsPath else decode_tensor_proto half init)
       (gp_initializers gp0) Map.empty = Inr weights"
    and built: "build_graph_impl half no_files weights None gp0 = Inr g"
    by (auto simp: load_def load_with_metadata_def parse_and_inline_def build_graph_and_weights_def result_simps split: sum.splits)
  from parse_fields_trace [OF m [unfolded parse_model_def]] obtain fs where fs: "fields_at bs 0 fs" ..
  have inits: "gp_initializers gp0 = gp_initializers (mp_graph m)"
    using gp0 by (cases "mp_graph m") (auto simp: inline_local_functions_def result_simps dest: sym split: if_splits)
  note dec = collect_weights_decoded [OF w]
  have "collects half (mp_graph model_default) streamed_empty" "sd_functions streamed_empty = mp_functions model_default"
    by (simp_all add: collects_def model_default_def graph_default_def streamed_empty_def decoded_def)
  moreover have "rfold (\<lambda>(f, v). model_field f v) fs model_default = Inr m"
    using m by (simp add: parse_model_def parse_fields_fold [OF fs])
  moreover have "length (filter is_graph_field fs) \<le> (if mp_graph model_default = graph_default then 1 else 0)"
    using assms(2) top_fields_eq [OF fs] by (simp add: model_default_def)
  ultimately obtain h s where run: "rfold (\<lambda>(f, v). value_step half collect_event f v) fs (stream_header_default, streamed_empty) = Inr (h, s)"
    and s: "collects half (mp_graph m) s" "sd_functions s = mp_functions m"
    using model_collects [of fs model_default m half streamed_empty] dec inits by metis
  have src: "\<lparr>src_bytes = bs, src_breaks = False\<rparr> = reading bs 0" by (simp add: reading_def)
  have "stream_fields half collect_event (reading bs 0) (stream_header_default, streamed_empty) = Inr (h, s)"
    using assms(3) top_fields_eq [OF fs] run by (simp add: stream_fields_fold [OF fs])
  moreover obtain h1 where "emit_header collect_event h s = Inr (h1, s)" using collect_header by blast
  ultimately have parse: "stream_parse half collect_event (reading bs 0) streamed_empty = Inr s"
    by (simp add: stream_parse_def collect_event_def)
  have graph: "streamed_graph s = gp_initializers_update (\<lambda>_. []) (mp_graph m)"
    using s(1) unfolding collects_def streamed_graph_def by (metis gp_initializers_update.simps)
  have "finish_streamed s = Inr (gp_initializers_update (\<lambda>_. []) gp0, weights)"
    using s gp0 dec inits by (simp add: finish_streamed_def graph inline_initializers collects_def decoded_def)
  moreover have "build_graph half (gp_initializers_update (\<lambda>_. []) gp0) weights = Inr g"
    using built by (cases gp0) (simp add: build_graph_def build_graph_impl.simps assemble_graph_def)
  ultimately show ?thesis using parse by (simp add: src parse_streaming_def)
qed

section \<open>Examples\<close>

lemma fields_encoded:
  "pbs_ok xs \<Longrightarrow> length (pre @ encode_pbs xs) \<le> usize_max \<Longrightarrow>
     fields_at (pre @ encode_pbs xs) (length pre) (map (\<lambda>x. (pb_field x, pb_value x)) xs)"
proof (induction xs arbitrary: pre)
  case (Cons x xs)
  have "read_field (pre @ encode_pb x @ encode_pbs xs) (length pre)
      = Inr (pb_field x, pb_value x, length pre + length (encode_pb x))"
    using Cons.prems read_encoded [of x pre "encode_pbs xs" 0] by (simp add: read_field_def)
  moreover have "fields_at ((pre @ encode_pb x) @ encode_pbs xs) (length (pre @ encode_pb x)) (map (\<lambda>x. (pb_field x, pb_value x)) xs)"
    by (rule Cons.IH) (use Cons.prems in auto)
  ultimately show ?case using encode_pb_not_Nil [of x] by (auto intro: fields_step)
qed (simp add: fields_end)

lemma encoded_fields:
  "pbs_ok xs \<Longrightarrow> length (encode_pbs xs) \<le> usize_max \<Longrightarrow> fields_at (encode_pbs xs) 0 (map (\<lambda>x. (pb_field x, pb_value x)) xs)"
  using fields_encoded [of xs "[]"] by simp

theorem streaming_load_agrees_witness:
  "\<forall>half. \<exists>gp. parse_streaming half \<lparr>src_bytes = encode_pbs (model_fields True weighted_model), src_breaks = False\<rparr>
       = Inr (gp, [''w'' \<mapsto> \<lparr>t_data = [5], t_shape = [1]\<rparr>]) \<and>
     build_graph half gp [''w'' \<mapsto> \<lparr>t_data = [5], t_shape = [1]\<rparr>] = Inr weighted_graph"
proof
  fix half
  have fields: "model_fields True weighted_model =
      [PbVarint 1 0, string_field 2 [], string_field 3 [], string_field 4 [], PbVarint 5 0,
       string_field 6 [], message_field 7 (graph_fields True (mp_graph weighted_model))]"
    by (simp add: model_fields_def weighted_model_def model_default_def)
  have "length (encode_pbs (model_fields True weighted_model)) \<le> 1000"
    unfolding fields by code_simp
  then have "fields_at (encode_pbs (model_fields True weighted_model)) 0
      (map (\<lambda>x. (pb_field x, pb_value x)) (model_fields True weighted_model))"
    by (intro encoded_fields small_encoding) (simp_all add: fields string_field_def message_field_def field_ok_def)
  note top = top_fields_eq [OF this]
  have "load half (encode_pbs (model_fields True weighted_model)) = Inr (weighted_graph, [''w'' \<mapsto> \<lparr>t_data = [5], t_shape = [1]\<rparr>])"
    by (simp add: load_def weighted_model_loaded)
  from streaming_load_agrees [OF this] show "\<exists>gp. parse_streaming half
      \<lparr>src_bytes = encode_pbs (model_fields True weighted_model), src_breaks = False\<rparr>
       = Inr (gp, [''w'' \<mapsto> \<lparr>t_data = [5], t_shape = [1]\<rparr>]) \<and>
     build_graph half gp [''w'' \<mapsto> \<lparr>t_data = [5], t_shape = [1]\<rparr>] = Inr weighted_graph"
    unfolding top by (simp add: fields string_field_def message_field_def)
qed



text \<open>
  A field number is cut to 32 bits by the streaming parser and refused by the one in memory:
  the tag of field 4294967303 is read as that of the graph.
\<close>

lemma streaming_truncates_field_numbers:
  "map_sum id fst (read_field_header \<lparr>src_bytes = [0xBA, 0x80, 0x80, 0x80, 0x80, 0x01], src_breaks = False\<rparr>) = Inr (Some (7, LenDelim))"
  "read_tag [0xBA, 0x80, 0x80, 0x80, 0x80, 0x01] 0 = Inl (InvalidFieldNumber 4294967303)"
  by code_simp+

end
