(* ===== verification/Generation.thy ===== *)
theory Generation
  imports Graphs Floats
begin

text \<open>
  Token-by-token generation (\<open>src/streaming.rs\<close>): a stream that runs the model once per
  token, picks the token with the largest logit and feeds the key-value outputs back in. The
  argument \<open>run\<close> is \<open>Session::run_internal\<close> on a map of inputs. The cancellation token of
  the configuration is a flag that any thread may raise: every call of \<open>next\<close> gets what the
  flag then says, and \<open>gc_cancellation\<close> whether there is one.
\<close>

section \<open>Configuration\<close>

record kv_binding =
  kb_past_input :: string
  kb_present_output :: string
  kb_initial :: tensor

definition kv_binding_empty :: "string \<Rightarrow> string \<Rightarrow> nat list \<Rightarrow> kv_binding" where
  "kv_binding_empty past_input present_output initial_shape =
     \<lparr>kb_past_input = past_input, kb_present_output = present_output,
      kb_initial = \<lparr>t_data = replicate (prod_list initial_shape) 0, t_shape = initial_shape\<rparr>\<rparr>"

definition kv_binding_seeded :: "string \<Rightarrow> string \<Rightarrow> tensor \<Rightarrow> kv_binding" where
  "kv_binding_seeded past_input present_output initial =
     \<lparr>kb_past_input = past_input, kb_present_output = present_output, kb_initial = initial\<rparr>"

record generation_config =
  gc_input_ids :: string
  gc_logits :: string
  gc_attention_mask :: "string option"
  gc_position_ids :: "string option"
  gc_kv_cache :: "kv_binding list"
  gc_max_new_tokens :: nat
  gc_eos_token_id :: "i64 option"
  gc_emit_logits :: bool
  gc_cancellation :: bool

definition generation_config_default :: generation_config where
  "generation_config_default = \<lparr>gc_input_ids = ''input_ids'', gc_logits = ''logits'', gc_attention_mask = None,
     gc_position_ids = None, gc_kv_cache = [], gc_max_new_tokens = 32, gc_eos_token_id = None,
     gc_emit_logits = False, gc_cancellation = False\<rparr>"

definition with_input_ids :: "string \<Rightarrow> generation_config \<Rightarrow> generation_config" where
  "with_input_ids name c = c\<lparr>gc_input_ids := name\<rparr>"

definition with_logits :: "string \<Rightarrow> generation_config \<Rightarrow> generation_config" where
  "with_logits name c = c\<lparr>gc_logits := name\<rparr>"

definition with_attention_mask :: "string \<Rightarrow> generation_config \<Rightarrow> generation_config" where
  "with_attention_mask name c = c\<lparr>gc_attention_mask := Some name\<rparr>"

definition with_position_ids :: "string \<Rightarrow> generation_config \<Rightarrow> generation_config" where
  "with_position_ids name c = c\<lparr>gc_position_ids := Some name\<rparr>"

definition with_kv_cache :: "kv_binding list \<Rightarrow> generation_config \<Rightarrow> generation_config" where
  "with_kv_cache bindings c = c\<lparr>gc_kv_cache := bindings\<rparr>"

definition with_max_new_tokens :: "nat \<Rightarrow> generation_config \<Rightarrow> generation_config" where
  "with_max_new_tokens n c = c\<lparr>gc_max_new_tokens := n\<rparr>"

definition with_eos_token_id :: "i64 \<Rightarrow> generation_config \<Rightarrow> generation_config" where
  "with_eos_token_id eos c = c\<lparr>gc_eos_token_id := Some eos\<rparr>"

definition with_emit_logits :: "bool \<Rightarrow> generation_config \<Rightarrow> generation_config" where
  "with_emit_logits emit c = c\<lparr>gc_emit_logits := emit\<rparr>"

definition with_cancellation :: "generation_config \<Rightarrow> generation_config" where
  "with_cancellation c = c\<lparr>gc_cancellation := True\<rparr>"

record stream_step =
  ss_token :: i64
  ss_index :: nat
  ss_logits :: "f32 list option"

record token_stream =
  ts_prompt :: "i64 list"
  ts_generated :: "i64 list"
  ts_past :: tensor_map
  ts_finished :: bool

text \<open>\<open>Session::generate\<close>: the names of the configuration are checked once.\<close>

fun start_cache :: "string list \<Rightarrow> string list \<Rightarrow> kv_binding list \<Rightarrow> tensor_map \<Rightarrow> onnx_error + tensor_map" where
  "start_cache inputs outputs [] past = Inr past"
| "start_cache inputs outputs (b # bs) past =
     (if kb_past_input b \<notin> set inputs \<or> kb_present_output b \<notin> set outputs then Inl InvalidModel
      else start_cache inputs outputs bs (past(kb_past_input b \<mapsto> kb_initial b)))"

definition optional_input_declared :: "string list \<Rightarrow> string option \<Rightarrow> bool" where
  "optional_input_declared inputs name = (case name of Some name \<Rightarrow> name \<in> set inputs | None \<Rightarrow> True)"

definition generate :: "string list \<Rightarrow> string list \<Rightarrow> i64 list \<Rightarrow> generation_config \<Rightarrow> onnx_error + token_stream" where
  "generate inputs outputs prompt config =
     (if prompt = [] then Inl InvalidModel
      else if gc_input_ids config \<notin> set inputs then Inl InvalidModel
      else if gc_logits config \<notin> set outputs then Inl InvalidModel
      else if \<not> optional_input_declared inputs (gc_attention_mask config) then Inl InvalidModel
      else if \<not> optional_input_declared inputs (gc_position_ids config) then Inl InvalidModel
      else rbind (start_cache inputs outputs (gc_kv_cache config) Map.empty) (\<lambda>past.
        Inr \<lparr>ts_prompt = prompt, ts_generated = [], ts_past = past, ts_finished = False\<rparr>))"

section \<open>One step\<close>

text \<open>The ids of a step, and the inputs that are built from them.\<close>

definition step_ids :: "generation_config \<Rightarrow> token_stream \<Rightarrow> i64 list" where
  "step_ids config s =
     (if gc_kv_cache config = [] \<or> ts_generated s = [] then ts_prompt s @ ts_generated s
      else [last (ts_generated s)])"

definition put_named :: "string option \<Rightarrow> tensor \<Rightarrow> tensor_map \<Rightarrow> tensor_map" where
  "put_named name t m = (case name of Some name \<Rightarrow> m(name \<mapsto> t) | None \<Rightarrow> m)"

definition step_inputs :: "generation_config \<Rightarrow> i64 list \<Rightarrow> nat \<Rightarrow> tensor_map \<Rightarrow> tensor_map" where
  "step_inputs config ids total_len past =
     (let seq_len = length ids;
          owned = [gc_input_ids config \<mapsto> \<lparr>t_data = map (\<lambda>id. f32_of_int (sint id)) ids, t_shape = [1, seq_len]\<rparr>];
          owned = put_named (gc_attention_mask config)
            \<lparr>t_data = replicate total_len 0x3F800000, t_shape = [1, total_len]\<rparr> owned;
          owned = put_named (gc_position_ids config)
            \<lparr>t_data = map (\<lambda>p. f32_of_int (int p)) [total_len - seq_len..<total_len], t_shape = [1, seq_len]\<rparr> owned
      in owned ++ past)"

fun refresh_cache :: "kv_binding list \<Rightarrow> tensor_map \<Rightarrow> tensor_map \<Rightarrow> onnx_error + tensor_map" where
  "refresh_cache [] outputs next_past = Inr next_past"
| "refresh_cache (b # bs) outputs next_past =
     (case outputs (kb_present_output b) of
        None \<Rightarrow> Inl InvalidModel
      | Some present \<Rightarrow> refresh_cache bs outputs (next_past(kb_past_input b \<mapsto> present)))"

text \<open>\<open>last_position_logits\<close>: the row of the last position, for the three accepted ranks.\<close>

definition last_position_logits :: "tensor \<Rightarrow> onnx_error + f32 list" where
  "last_position_logits logits =
     (if t_shape logits = [] then Inl ShapeMismatch
      else let vocab = last (t_shape logits); n = length (t_data logits) in
        if vocab = 0 then Inl ShapeMismatch
        else if n < vocab \<or> n mod vocab \<noteq> 0 then Inl ShapeMismatch
        else if length (t_shape logits) \<le> 3 then Inr (drop (n - vocab) (t_data logits))
        else Inl ShapeMismatch)"

fun argmax_loop :: "f32 list \<Rightarrow> nat \<Rightarrow> nat \<Rightarrow> f32 \<Rightarrow> nat" where
  "argmax_loop [] i best best_value = best"
| "argmax_loop (value # row) i best best_value =
     (if f32_greater value best_value then argmax_loop row (i + 1) i value
      else argmax_loop row (i + 1) best best_value)"

definition argmax :: "f32 list \<Rightarrow> i64" where
  "argmax row = of_nat (argmax_loop row 0 0 0xFF800000)"

definition logits_row :: "generation_config \<Rightarrow> tensor_map \<Rightarrow> onnx_error + f32 list" where
  "logits_row config outputs =
     (case outputs (gc_logits config) of None \<Rightarrow> Inl InvalidModel | Some logits \<Rightarrow> last_position_logits logits)"

definition step :: "(tensor_map \<Rightarrow> onnx_error + tensor_map) \<Rightarrow> generation_config \<Rightarrow> token_stream \<Rightarrow>
    onnx_error + (stream_step \<times> token_stream)" where
  "step run config s =
     (let ids = step_ids config s; total_len = length (ts_prompt s) + length (ts_generated s) in
      rbind (run (step_inputs config ids total_len (ts_past s))) (\<lambda>outputs.
      rbind (refresh_cache (gc_kv_cache config) outputs Map.empty) (\<lambda>next_past.
      rbind (logits_row config outputs) (\<lambda>row.
        let token = argmax row in
        Inr (\<lparr>ss_token = token, ss_index = length (ts_generated s),
              ss_logits = (if gc_emit_logits config then Some row else None)\<rparr>,
             s\<lparr>ts_past := next_past, ts_generated := ts_generated s @ [token],
               ts_finished := ts_finished s \<or> gc_eos_token_id config = Some token\<rparr>)))))"

section \<open>The stream\<close>

text \<open>\<open>Iterator::next\<close>; \<open>cancelled\<close> is what the cancellation flag says at this call.\<close>

definition stream_next :: "(tensor_map \<Rightarrow> onnx_error + tensor_map) \<Rightarrow> generation_config \<Rightarrow> bool \<Rightarrow> token_stream \<Rightarrow>
    (onnx_error + stream_step) option \<times> token_stream" where
  "stream_next run config cancelled s =
     (if ts_finished s \<or> length (ts_generated s) \<ge> gc_max_new_tokens config then (None, s)
      else if gc_cancellation config \<and> cancelled then (Some (Inl Cancelled), s\<lparr>ts_finished := True\<rparr>)
      else case step run config s of
        Inr (st, s) \<Rightarrow> (Some (Inr st), s)
      | Inl e \<Rightarrow> (Some (Inl e), s\<lparr>ts_finished := True\<rparr>))"

definition size_hint :: "generation_config \<Rightarrow> token_stream \<Rightarrow> nat" where
  "size_hint config s = (if ts_finished s then 0 else gc_max_new_tokens config - length (ts_generated s))"

lemma step_generated:
  "step run config s = Inr (st, s') \<Longrightarrow> ts_generated s' = ts_generated s @ [ss_token st] \<and> ss_index st = length (ts_generated s) \<and>
     ts_prompt s' = ts_prompt s \<and> ts_finished s' = (ts_finished s \<or> gc_eos_token_id config = Some (ss_token st))"
  by (auto simp: step_def Let_def rbind_Inr_iff)

lemma stream_next_less: "stream_next run config cancelled s = (Some r, s') \<Longrightarrow> size_hint config s' < size_hint config s"
  by (auto simp: stream_next_def size_hint_def split: if_splits sum.splits dest!: step_generated)

text \<open>All that a consumer gets who calls \<open>next\<close> until it answers \<open>None\<close>.\<close>

function drain :: "(tensor_map \<Rightarrow> onnx_error + tensor_map) \<Rightarrow> generation_config \<Rightarrow> (nat \<Rightarrow> bool) \<Rightarrow> nat \<Rightarrow> token_stream \<Rightarrow>
    (onnx_error + stream_step) list" where
  "drain run config flag calls s =
     (case stream_next run config (flag calls) s of
        (None, _) \<Rightarrow> []
      | (Some r, s) \<Rightarrow> r # drain run config flag (calls + 1) s)"
  by pat_completeness auto
termination
  by (relation "measure (\<lambda>(run, config, flag, calls, s). size_hint config s)") (auto dest: sym [THEN stream_next_less])

declare drain.simps [simp del]

text \<open>\<open>Session::generate_tokens\<close>: the tokens, or the first error.\<close>

definition generate_tokens :: "(tensor_map \<Rightarrow> onnx_error + tensor_map) \<Rightarrow> string list \<Rightarrow> string list \<Rightarrow> i64 list \<Rightarrow>
    generation_config \<Rightarrow> (nat \<Rightarrow> bool) \<Rightarrow> onnx_error + i64 list" where
  "generate_tokens run inputs outputs prompt config flag =
     rbind (generate inputs outputs prompt config) (\<lambda>s.
       rmap (\<lambda>r. rbind r (\<lambda>st. Inr (ss_token st))) (drain run config flag 0 s))"

section \<open>What a stream yields\<close>

lemma drain_None: "stream_next run config (flag calls) s = (None, s') \<Longrightarrow> drain run config flag calls s = []"
  by (simp add: drain.simps [of run config])

lemma drain_Some: "stream_next run config (flag calls) s = (Some r, s') \<Longrightarrow> drain run config flag calls s = r # drain run config flag (calls + 1) s'"
  by (simp add: drain.simps [of run config flag calls s])

lemma drain_finished: "ts_finished s \<Longrightarrow> drain run config flag calls s = []"
  by (rule drain_None) (simp add: stream_next_def)

text \<open>
  The results are steps and perhaps one error at the end; a step that yields the end token is
  the last result.
\<close>

inductive well_formed_stream :: "generation_config \<Rightarrow> nat \<Rightarrow> (onnx_error + stream_step) list \<Rightarrow> bool" for config where
  stream_end: "well_formed_stream config n []"
| stream_error: "n < gc_max_new_tokens config \<Longrightarrow> well_formed_stream config n [Inl e]"
| stream_eos: "n < gc_max_new_tokens config \<Longrightarrow> ss_index st = n \<Longrightarrow> gc_eos_token_id config = Some (ss_token st) \<Longrightarrow>
    well_formed_stream config n [Inr st]"
| stream_step: "n < gc_max_new_tokens config \<Longrightarrow> ss_index st = n \<Longrightarrow> gc_eos_token_id config \<noteq> Some (ss_token st) \<Longrightarrow>
    well_formed_stream config (n + 1) rs \<Longrightarrow> well_formed_stream config n (Inr st # rs)"

lemma drain_well_formed: "well_formed_stream config (length (ts_generated s)) (drain run config flag calls s)"
proof (induction run config flag calls s rule: drain.induct)
  case (1 run config flag calls s)
  obtain r s' where nx: "stream_next run config (flag calls) s = (r, s')" by fastforce
  show ?case
  proof (cases r)
    case None
    with nx drain_None [of run config flag calls s s'] show ?thesis by (simp add: stream_end)
  next
    case (Some r')
    have rest: "drain run config flag calls s = r' # drain run config flag (calls + 1) s'"
      by (rule drain_Some) (simp add: nx Some)
    from nx Some have less: "length (ts_generated s) < gc_max_new_tokens config" and going: "\<not> ts_finished s"
      by (auto simp: stream_next_def split: if_splits)
    show ?thesis
    proof (cases r')
      case (Inl e)
      then have "ts_finished s'" using nx Some by (auto simp: stream_next_def split: if_splits sum.splits)
      with rest Inl less show ?thesis by (simp add: drain_finished stream_error)
    next
      case (Inr st)
      then have "step run config s = Inr (st, s')" using nx Some by (auto simp: stream_next_def split: if_splits sum.splits)
      note g = step_generated [OF this]
      show ?thesis
      proof (cases "gc_eos_token_id config = Some (ss_token st)")
        case True
        with g rest Inr less show ?thesis by (simp add: drain_finished stream_eos)
      next
        case False
        with g rest Inr less "1.IH" [OF nx [symmetric] Some] show ?thesis by (auto intro: stream_step)
      qed
    qed
  qed
qed

lemma well_formed_length: "well_formed_stream config n rs \<Longrightarrow> length rs \<le> gc_max_new_tokens config - n"
  by (induction rule: well_formed_stream.induct) auto

lemma well_formed_index: "well_formed_stream config n rs \<Longrightarrow> i < length rs \<Longrightarrow> rs ! i = Inr st \<Longrightarrow> ss_index st = n + i"
proof (induction arbitrary: i rule: well_formed_stream.induct)
  case (stream_step n st' rs)
  then show ?case by (cases i) auto
qed auto

lemma well_formed_last:
  "well_formed_stream config n rs \<Longrightarrow> i < length rs \<Longrightarrow> \<not> is_ok (rs ! i) \<or> (rs ! i = Inr st \<and> gc_eos_token_id config = Some (ss_token st)) \<Longrightarrow>
     i = length rs - 1"
proof (induction arbitrary: i rule: well_formed_stream.induct)
  case (stream_step n st' rs)
  show ?case
  proof (cases i)
    case (Suc j)
    with stream_step.prems stream_step.IH [of j] show ?thesis by auto
  qed (use stream_step in auto)
qed auto

text \<open>
  C34. A stream ends: over its whole life it yields at most \<open>max_new_tokens\<close> results; the
  steps are numbered from 0; and an error, or a step with the end token, is the last result.
\<close>

theorem stream_well_formed:
  assumes "generate inputs outputs prompt config = Inr s"
  shows "length (drain run config flag 0 s) \<le> gc_max_new_tokens config \<and>
    (\<forall>i<length (drain run config flag 0 s). case drain run config flag 0 s ! i of
       Inl e \<Rightarrow> i = length (drain run config flag 0 s) - 1
     | Inr st \<Rightarrow> ss_index st = i \<and> (gc_eos_token_id config = Some (ss_token st) \<longrightarrow> i = length (drain run config flag 0 s) - 1))"
proof -
  have "ts_generated s = []" using assms by (auto simp: generate_def rbind_Inr_iff split: if_splits)
  then have wf: "well_formed_stream config 0 (drain run config flag 0 s)"
    using drain_well_formed [of config s run flag 0] by simp
  show ?thesis
    using well_formed_length [OF wf] well_formed_index [OF wf] well_formed_last [OF wf]
    by (auto split: sum.splits)
qed

section \<open>The greedy choice\<close>

lemma f32_greater_trans: "f32_greater a b \<Longrightarrow> f32_greater b c \<Longrightarrow> f32_greater a c"
  by (auto simp: f32_greater_def)

lemma argmax_loop_cases:
  "argmax_loop row i best bv = best \<and> (\<forall>v\<in>set row. \<not> f32_greater v bv) \<or>
   (\<exists>k<length row. argmax_loop row i best bv = i + k \<and> f32_greater (row ! k) bv \<and>
     (\<forall>j<length row. \<not> f32_greater (row ! j) (row ! k)) \<and> (\<forall>j<k. f32_nan (row ! j) \<or> f32_greater (row ! k) (row ! j)))"
proof (induction row i best bv rule: argmax_loop.induct)
  case (2 x row i best bv)
  show ?case
  proof (cases "f32_greater x bv")
    case True
    note ih = "2.IH"(1) [OF True]
    from ih show ?thesis
    proof (elim disjE conjE exE)
      assume *: "argmax_loop row (i + 1) i x = i" "\<forall>v\<in>set row. \<not> f32_greater v x"
      have "\<not> f32_greater ((x # row) ! j) x" if "j < length (x # row)" for j
        using *(2) that by (cases j) (auto simp: f32_greater_def)
      with True *(1) show ?thesis by (intro disjI2 exI [of _ 0]) auto
    next
      fix k assume k: "k < length row" "argmax_loop row (i + 1) i x = i + 1 + k" "f32_greater (row ! k) x"
        "\<forall>j<length row. \<not> f32_greater (row ! j) (row ! k)" "\<forall>j<k. f32_nan (row ! j) \<or> f32_greater (row ! k) (row ! j)"
      have "\<not> f32_greater ((x # row) ! j) (row ! k)" if "j < length (x # row)" for j
        using k(3,4) that by (cases j) (auto simp: f32_greater_def)
      moreover have "f32_nan ((x # row) ! j) \<or> f32_greater (row ! k) ((x # row) ! j)" if "j < Suc k" for j
        using k(3,5) that by (cases j) auto
      moreover have "f32_greater (row ! k) bv" using f32_greater_trans [OF k(3) True] .
      ultimately show ?thesis using k(1,2) True by (intro disjI2 exI [of _ "Suc k"]) auto
    qed
  next
    case False
    note ih = "2.IH"(2) [OF False]
    from ih show ?thesis
    proof (elim disjE conjE exE)
      fix k assume k: "k < length row" "argmax_loop row (i + 1) best bv = i + 1 + k" "f32_greater (row ! k) bv"
        "\<forall>j<length row. \<not> f32_greater (row ! j) (row ! k)" "\<forall>j<k. f32_nan (row ! j) \<or> f32_greater (row ! k) (row ! j)"
      have first: "f32_nan x \<or> f32_greater (row ! k) x" using False k(3) by (auto simp: f32_greater_def)
      have "\<not> f32_greater ((x # row) ! j) (row ! k)" if "j < length (x # row)" for j
        using first k(4) that by (cases j) (auto simp: f32_greater_def)
      moreover have "f32_nan ((x # row) ! j) \<or> f32_greater (row ! k) ((x # row) ! j)" if "j < Suc k" for j
        using first k(5) that by (cases j) auto
      ultimately show ?thesis using k(1-3) False by (intro disjI2 exI [of _ "Suc k"]) auto
    qed (use False in auto)
  qed
qed simp

text \<open>
  The greedy choice is the first of the largest logits: no logit is larger, every earlier one
  is smaller or NaN. It is 0 if no logit is larger than minus infinity.
\<close>

lemma argmax_first_maximum:
  assumes "v \<in> set row" and "f32_greater v 0xFF800000" and "length row < 2 ^ 64"
  shows "\<exists>i<length row. unat (argmax row) = i \<and> (\<forall>j<length row. \<not> f32_greater (row ! j) (row ! i)) \<and>
    (\<forall>j<i. f32_nan (row ! j) \<or> f32_greater (row ! i) (row ! j))"
proof -
  from argmax_loop_cases [of row 0 0 "0xFF800000"] assms(1,2) obtain k where k: "k < length row"
    "argmax_loop row 0 0 0xFF800000 = k" "\<forall>j<length row. \<not> f32_greater (row ! j) (row ! k)"
    "\<forall>j<k. f32_nan (row ! j) \<or> f32_greater (row ! k) (row ! j)" by auto
  then have "unat (argmax row) = k" using assms(3) by (simp add: argmax_def unat_of_nat)
  with k show ?thesis by blast
qed

lemma argmax_degenerate: "\<forall>v\<in>set row. \<not> f32_greater v 0xFF800000 \<Longrightarrow> argmax row = 0"
  using argmax_loop_cases [of row 0 0 "0xFF800000"] by (auto simp: argmax_def dest: nth_mem)

section \<open>Generating with and without a cache\<close>

definition cache_of :: "generation_config \<Rightarrow> (string \<Rightarrow> tensor) \<Rightarrow> tensor_map" where
  "cache_of config c = (\<lambda>x. if x \<in> kb_past_input ` set (gc_kv_cache config) then Some (c x) else None)"

text \<open>
  A model without a cache whose logits are a function of the sequence, and the model with a
  cache that goes with it: given the cache of a prefix it gives the logits of the longer
  sequence and that sequence's cache.
\<close>

definition full_model :: "(tensor_map \<Rightarrow> onnx_error + tensor_map) \<Rightarrow> generation_config \<Rightarrow> (i64 list \<Rightarrow> f32 list) \<Rightarrow> bool" where
  "full_model run config logits \<longleftrightarrow> (\<forall>ids. ids \<noteq> [] \<longrightarrow>
     (\<exists>outputs. run (step_inputs config ids (length ids) Map.empty) = Inr outputs \<and> logits_row config outputs = Inr (logits ids)))"

definition cached_model :: "(tensor_map \<Rightarrow> onnx_error + tensor_map) \<Rightarrow> generation_config \<Rightarrow> (i64 list \<Rightarrow> f32 list) \<Rightarrow>
    (i64 list \<Rightarrow> string \<Rightarrow> tensor) \<Rightarrow> bool" where
  "cached_model run config logits cache \<longleftrightarrow>
     (\<forall>b\<in>set (gc_kv_cache config). kb_initial b = cache [] (kb_past_input b)) \<and>
     (\<forall>covered ids. ids \<noteq> [] \<longrightarrow>
       (\<exists>outputs. run (step_inputs config ids (length covered + length ids) (cache_of config (cache covered))) = Inr outputs \<and>
          logits_row config outputs = Inr (logits (covered @ ids)) \<and>
          (\<forall>b\<in>set (gc_kv_cache config). outputs (kb_present_output b) = Some (cache (covered @ ids) (kb_past_input b)))))"

lemma refresh_cache_all:
  "(\<forall>b\<in>set bs. outputs (kb_present_output b) = Some (c (kb_past_input b))) \<Longrightarrow>
     refresh_cache bs outputs m = Inr (\<lambda>x. if x \<in> kb_past_input ` set bs then Some (c x) else m x)"
  by (induction bs arbitrary: m) (auto simp: fun_eq_iff)

lemma start_cache_all:
  "start_cache inputs outputs bs m = Inr past \<Longrightarrow> (\<forall>b\<in>set bs. kb_initial b = c (kb_past_input b)) \<Longrightarrow>
     past = (\<lambda>x. if x \<in> kb_past_input ` set bs then Some (c x) else m x)"
  by (induction bs arbitrary: m) (auto simp: fun_eq_iff split: if_splits)

definition same_stream :: "generation_config \<Rightarrow> (i64 list \<Rightarrow> string \<Rightarrow> tensor) \<Rightarrow> token_stream \<Rightarrow> token_stream \<Rightarrow> bool" where
  "same_stream config cache s s' \<longleftrightarrow>
     ts_prompt s' = ts_prompt s \<and> ts_prompt s \<noteq> [] \<and> ts_generated s' = ts_generated s \<and> ts_finished s' = ts_finished s \<and>
     ts_past s' = Map.empty \<and>
     ts_past s = cache_of config (cache (if ts_generated s = [] then [] else ts_prompt s @ butlast (ts_generated s)))"

lemma cached_step:
  assumes full: "full_model run' config logits" and cached: "cached_model run config logits cache" and "gc_kv_cache config \<noteq> []"
    and same: "same_stream config cache s s'"
  shows "\<exists>st t t'. step run config s = Inr (st, t) \<and> step run' (config\<lparr>gc_kv_cache := []\<rparr>) s' = Inr (st, t') \<and> same_stream config cache t t'"
proof -
  let ?c = "config\<lparr>gc_kv_cache := []\<rparr>" and ?ids = "step_ids config s"
  define covered where "covered = (if ts_generated s = [] then [] else ts_prompt s @ butlast (ts_generated s))"
  have ids: "?ids \<noteq> []" "covered @ ?ids = ts_prompt s @ ts_generated s" "step_ids ?c s' = ts_prompt s @ ts_generated s"
    using same assms(3) by (auto simp: same_stream_def step_ids_def covered_def)
  have total: "length covered + length ?ids = length (ts_prompt s) + length (ts_generated s)"
    using arg_cong [OF ids(2), of length] by simp
  have past: "ts_past s = cache_of config (cache covered)" using same by (simp add: same_stream_def covered_def)
  from cached ids obtain outputs where out: "run (step_inputs config ?ids (length covered + length ?ids) (ts_past s)) = Inr outputs"
    "logits_row config outputs = Inr (logits (ts_prompt s @ ts_generated s))"
    "\<forall>b\<in>set (gc_kv_cache config). outputs (kb_present_output b) = Some (cache (ts_prompt s @ ts_generated s) (kb_past_input b))"
    unfolding cached_model_def past by metis
  have "ts_prompt s @ ts_generated s \<noteq> []" using same by (simp add: same_stream_def)
  with full obtain outputs' where out': "run' (step_inputs config (ts_prompt s @ ts_generated s) (length (ts_prompt s) + length (ts_generated s)) Map.empty) = Inr outputs'"
    "logits_row config outputs' = Inr (logits (ts_prompt s @ ts_generated s))"
    unfolding full_model_def by (metis length_append)
  have "step_inputs ?c = step_inputs config" "logits_row ?c = logits_row config"
    by (simp_all add: step_inputs_def logits_row_def fun_eq_iff)
  with out out' refresh_cache_all [OF out(3), of Map.empty] total ids(3) same show ?thesis
    by (simp add: step_def Let_def same_stream_def cache_of_def cong: if_cong)
qed

lemma drain_alike:
  assumes "stream_next r cfg (flag n) t = (x, u)" and "stream_next r' cfg' (flag n) t' = (x, u')"
    and "\<And>y. x = Some y \<Longrightarrow> drain r cfg flag (n + 1) u = drain r' cfg' flag (n + 1) u'"
  shows "drain r cfg flag n t = drain r' cfg' flag n t'"
  using assms by (cases x) (simp_all add: drain.simps [of r cfg] drain.simps [of r' cfg'])

lemma cached_drain:
  assumes "full_model run' config logits" and "cached_model run config logits cache" and "gc_kv_cache config \<noteq> []"
  shows "same_stream config cache s s' \<Longrightarrow> drain run config flag calls s = drain run' (config\<lparr>gc_kv_cache := []\<rparr>) flag calls s'"
proof (induction "size_hint config s" arbitrary: calls s s' rule: less_induct)
  case less
  let ?c = "config\<lparr>gc_kv_cache := []\<rparr>"
  have same: "ts_finished s' = ts_finished s" "ts_generated s' = ts_generated s"
    using less.prems by (simp_all add: same_stream_def)
  consider "ts_finished s \<or> length (ts_generated s) \<ge> gc_max_new_tokens config"
    | "\<not> (ts_finished s \<or> length (ts_generated s) \<ge> gc_max_new_tokens config)" "gc_cancellation config \<and> flag calls"
    | "\<not> (ts_finished s \<or> length (ts_generated s) \<ge> gc_max_new_tokens config)" "\<not> (gc_cancellation config \<and> flag calls)" by blast
  then show ?case
  proof cases
    case 1
    show ?thesis by (rule drain_alike [where x = None and u = s and u' = s']) (use 1 in \<open>auto simp: stream_next_def same\<close>)
  next
    case 2
    show ?thesis
      by (rule drain_alike [where x = "Some (Inl Cancelled)" and u = "s\<lparr>ts_finished := True\<rparr>" and u' = "s'\<lparr>ts_finished := True\<rparr>"])
        (use 2 in \<open>auto simp: stream_next_def same drain_finished\<close>)
  next
    case 3
    from cached_step [OF assms less.prems] obtain st t t' where *: "step run config s = Inr (st, t)"
      "step run' ?c s' = Inr (st, t')" "same_stream config cache t t'" by blast
    have next1: "stream_next run config (flag calls) s = (Some (Inr st), t)"
      and next2: "stream_next run' ?c (flag calls) s' = (Some (Inr st), t')"
      using 3 *(1,2) by (auto simp: stream_next_def same)
    show ?thesis
      by (rule drain_alike [where flag = flag and n = calls, OF next1 next2]) (rule less.hyps [OF stream_next_less [OF next1] *(3)])
  qed
qed

text \<open>
  C14. Generating with a key-value cache gives what generating without one gives. If the model
  with a cache computes the logits of the model without, given the cache of the prefix, and
  hands out the cache of the longer sequence, then feeding it the prompt once and then one
  token at a time, with its outputs fed back, yields the same results, token by token, as
  feeding the whole sequence to the other at every step; with any end token, limit and
  cancellation.
\<close>

theorem cached_generation_agrees:
  assumes "full_model run' config logits" and "cached_model run config logits cache" and "gc_kv_cache config \<noteq> []"
    and "generate inputs outputs prompt config = Inr s"
    and "generate inputs' outputs' prompt (config\<lparr>gc_kv_cache := []\<rparr>) = Inr s'"
  shows "drain run config flag 0 s = drain run' (config\<lparr>gc_kv_cache := []\<rparr>) flag 0 s'"
proof (rule cached_drain [OF assms(1-3)])
  from assms(4) obtain past where s: "s = \<lparr>ts_prompt = prompt, ts_generated = [], ts_past = past, ts_finished = False\<rparr>"
    "prompt \<noteq> []" "start_cache inputs outputs (gc_kv_cache config) Map.empty = Inr past"
    by (auto simp: generate_def rbind_Inr_iff split: if_splits)
  have "past = cache_of config (cache [])"
    using start_cache_all [OF s(3), of "cache []"] assms(2) by (simp add: cached_model_def cache_of_def)
  moreover have "s' = \<lparr>ts_prompt = prompt, ts_generated = [], ts_past = Map.empty, ts_finished = False\<rparr>"
    using assms(5) by (auto simp: generate_def split: if_splits)
  ultimately show "same_stream config cache s s'" using s by (simp add: same_stream_def)
qed

section \<open>An example\<close>

text \<open>A model that counts: its logits depend on the parity of the length of the sequence.\<close>

definition counting_logits :: "nat \<Rightarrow> f32 list" where
  "counting_logits n = (if even n then [0x3F800000, 0] else [0, 0x3F800000])"

definition counting_model :: "tensor_map \<Rightarrow> onnx_error + tensor_map" where
  "counting_model m =
     (case m ''input_ids'' of
        None \<Rightarrow> Inl TensorNotFound
      | Some ids \<Rightarrow>
          let n = (case m ''past'' of None \<Rightarrow> 0 | Some p \<Rightarrow> hd (t_shape p)) + length (t_data ids) in
          Inr [''logits'' \<mapsto> \<lparr>t_data = counting_logits n, t_shape = [1, 1, 2]\<rparr>, ''present'' \<mapsto> \<lparr>t_data = [], t_shape = [n, 0]\<rparr>])"

definition counting_config :: generation_config where
  "counting_config = generation_config_default\<lparr>gc_kv_cache := [kv_binding_empty ''past'' ''present'' [0, 0]],
     gc_max_new_tokens := 3\<rparr>"

lemma counting_parts:
  "gc_input_ids counting_config = ''input_ids''" "gc_logits counting_config = ''logits''" "gc_attention_mask counting_config = None"
  "gc_position_ids counting_config = None" "gc_kv_cache counting_config = [kv_binding_empty ''past'' ''present'' [0, 0]]"
  "gc_max_new_tokens counting_config = 3" "gc_eos_token_id counting_config = None" "gc_cancellation counting_config = False"
  by (simp_all add: counting_config_def generation_config_default_def)

lemma counting_row: "last_position_logits \<lparr>t_data = counting_logits n, t_shape = [1, 1, 2]\<rparr> = Inr (counting_logits n)"
  by (simp add: last_position_logits_def counting_logits_def)

lemma counting_models:
  "full_model counting_model counting_config (\<lambda>ids. counting_logits (length ids))"
  "cached_model counting_model counting_config (\<lambda>ids. counting_logits (length ids)) (\<lambda>ids _. \<lparr>t_data = [], t_shape = [length ids, 0]\<rparr>)"
  by (simp_all add: full_model_def cached_model_def counting_parts step_inputs_def put_named_def counting_model_def
      cache_of_def kv_binding_empty_def logits_row_def counting_row [simplified] Let_def map_add_def)

theorem cached_generation_agrees_witness:
  "drain counting_model counting_config (\<lambda>_. False) 0
     \<lparr>ts_prompt = [7], ts_generated = [], ts_past = [''past'' \<mapsto> \<lparr>t_data = [], t_shape = [0, 0]\<rparr>], ts_finished = False\<rparr> =
   drain counting_model (counting_config\<lparr>gc_kv_cache := []\<rparr>) (\<lambda>_. False) 0
     \<lparr>ts_prompt = [7], ts_generated = [], ts_past = Map.empty, ts_finished = False\<rparr>"
proof (rule cached_generation_agrees [OF counting_models])
  show "generate [''input_ids'', ''past''] [''logits'', ''present''] [7] counting_config =
      Inr \<lparr>ts_prompt = [7], ts_generated = [], ts_past = [''past'' \<mapsto> \<lparr>t_data = [], t_shape = [0, 0]\<rparr>], ts_finished = False\<rparr>"
    by (simp add: generate_def counting_parts optional_input_declared_def kv_binding_empty_def)
  show "generate [''input_ids''] [''logits''] [7] (counting_config\<lparr>gc_kv_cache := []\<rparr>) =
      Inr \<lparr>ts_prompt = [7], ts_generated = [], ts_past = Map.empty, ts_finished = False\<rparr>"
    by (simp add: generate_def counting_parts optional_input_declared_def)
qed (simp add: counting_parts)

theorem stream_well_formed_witness:
  "length (drain counting_model counting_config (\<lambda>_. False) 0
     \<lparr>ts_prompt = [7], ts_generated = [], ts_past = [''past'' \<mapsto> \<lparr>t_data = [], t_shape = [0, 0]\<rparr>], ts_finished = False\<rparr>) \<le> 3"
proof -
  have "generate [''input_ids'', ''past''] [''logits'', ''present''] [7] counting_config =
      Inr \<lparr>ts_prompt = [7], ts_generated = [], ts_past = [''past'' \<mapsto> \<lparr>t_data = [], t_shape = [0, 0]\<rparr>], ts_finished = False\<rparr>"
    by (simp add: generate_def counting_parts optional_input_declared_def kv_binding_empty_def)
  from stream_well_formed [OF this] show ?thesis by (simp add: counting_parts)
qed

end
