(* ===== verification/FloatArith.thy ===== *)
theory FloatArith
  imports Floats
begin

text \<open>
  The \<open>f32\<close> arithmetic of the language, for the passes that compute new weights: sum,
  product, quotient and square root are the exact results rounded to nearest, ties to even.
  The bits of a NaN that arithmetic produces are not specified by the language; here they
  are those of the positive quiet NaN.
\<close>

section \<open>Numbers\<close>

definition f32_infinite :: "f32 \<Rightarrow> bool" where
  "f32_infinite v \<longleftrightarrow> f32_exponent v = 255 \<and> f32_fraction v = 0"

definition f32_finite :: "f32 \<Rightarrow> bool" where
  "f32_finite v \<longleftrightarrow> f32_exponent v < 255"

definition f32_qnan :: f32 where "f32_qnan = 0x7FC00000"

definition f32_signed :: "bool \<Rightarrow> f32 \<Rightarrow> f32" where
  "f32_signed negative v = v + (if negative then 0x80000000 else 0)"

text \<open>A finite \<open>v\<close> is \<open>f32_mantissa v * 2 ^ f32_scale v\<close>, with the sign.\<close>

definition f32_mantissa :: "f32 \<Rightarrow> nat" where
  "f32_mantissa v = (if f32_exponent v = 0 then f32_fraction v else f32_fraction v + 2 ^ 23)"

definition f32_scale :: "f32 \<Rightarrow> int" where
  "f32_scale v = int (max (f32_exponent v) 1) - 150"

text \<open>Comparisons: \<open>a == b\<close> and \<open>a < b\<close>, false of NaN; \<open>v.abs()\<close>.\<close>

definition f32_eq :: "f32 \<Rightarrow> f32 \<Rightarrow> bool" where
  "f32_eq a b \<longleftrightarrow> \<not> f32_nan a \<and> \<not> f32_nan b \<and> f32_key a = f32_key b"

definition f32_less :: "f32 \<Rightarrow> f32 \<Rightarrow> bool" where
  "f32_less a b \<longleftrightarrow> f32_greater b a"

definition f32_abs :: "f32 \<Rightarrow> f32" where
  "f32_abs v = (if f32_sign v then v - 0x80000000 else v)"

section \<open>Arithmetic\<close>

definition f32_mul :: "f32 \<Rightarrow> f32 \<Rightarrow> f32" where
  "f32_mul a b =
     (let negative = (f32_sign a \<noteq> f32_sign b) in
      if f32_nan a \<or> f32_nan b then f32_qnan
      else if f32_infinite a \<or> f32_infinite b then
        (if f32_nonzero a \<and> f32_nonzero b then f32_signed negative 0x7F800000 else f32_qnan)
      else f32_round negative (f32_mantissa a * f32_mantissa b) (f32_scale a + f32_scale b))"

definition f32_numerator :: "f32 \<Rightarrow> int \<Rightarrow> int" where
  "f32_numerator v e = (if f32_sign v then - 1 else 1) * int (f32_mantissa v * 2 ^ nat (f32_scale v - e))"

definition f32_add :: "f32 \<Rightarrow> f32 \<Rightarrow> f32" where
  "f32_add a b =
     (if f32_nan a \<or> f32_nan b then f32_qnan
      else if f32_infinite a then
        (if f32_infinite b \<and> f32_sign a \<noteq> f32_sign b then f32_qnan else a)
      else if f32_infinite b then b
      else
        let e = min (f32_scale a) (f32_scale b); sum = f32_numerator a e + f32_numerator b e in
        if sum = 0 then f32_signed (f32_sign a \<and> f32_sign b) 0
        else f32_round (sum < 0) (nat \<bar>sum\<bar>) e)"

definition f32_sub :: "f32 \<Rightarrow> f32 \<Rightarrow> f32" where
  "f32_sub a b = f32_add a (b + 0x80000000)"

text \<open>
  A quotient of 50 more bits than the divisor, and one bit for what is left: the bits are
  more than the 24 that are kept and the one that decides, so the rounding is that of the
  exact quotient.
\<close>

definition f32_div :: "f32 \<Rightarrow> f32 \<Rightarrow> f32" where
  "f32_div a b =
     (let negative = (f32_sign a \<noteq> f32_sign b) in
      if f32_nan a \<or> f32_nan b \<or> f32_infinite a \<and> f32_infinite b \<or> \<not> f32_nonzero a \<and> \<not> f32_nonzero b then f32_qnan
      else if f32_infinite a \<or> \<not> f32_nonzero b then f32_signed negative 0x7F800000
      else if f32_infinite b \<or> \<not> f32_nonzero a then f32_signed negative 0
      else
        let m = f32_mantissa a * 2 ^ 50; d = f32_mantissa b in
        f32_round negative (2 * (m div d) + (if m mod d = 0 then 0 else 1)) (f32_scale a - f32_scale b - 51))"

fun floor_sqrt :: "nat \<Rightarrow> nat" where
  "floor_sqrt n =
     (if n = 0 then 0 else let r = 2 * floor_sqrt (n div 4) in if (r + 1) * (r + 1) \<le> n then r + 1 else r)"

declare floor_sqrt.simps [simp del]

definition f32_sqrt :: "f32 \<Rightarrow> f32" where
  "f32_sqrt v =
     (if f32_nan v then f32_qnan
      else if \<not> f32_nonzero v then v
      else if f32_sign v then f32_qnan
      else if f32_infinite v then v
      else
        let (m, e) = (if even (f32_scale v) then (f32_mantissa v, f32_scale v) else (2 * f32_mantissa v, f32_scale v - 1));
            n = m * 2 ^ 52; r = floor_sqrt n
        in f32_round False (2 * r + (if r * r = n then 0 else 1)) ((e - 52) div 2 - 1))"

section \<open>What the definitions compute\<close>

lemma floor_sqrt_bounds: "floor_sqrt n * floor_sqrt n \<le> n \<and> n < (floor_sqrt n + 1) * (floor_sqrt n + 1)"
proof (induction n rule: floor_sqrt.induct)
  case (1 n)
  show ?case
  proof (cases "n = 0")
    case False
    let ?q = "floor_sqrt (n div 4)"
    have IH: "?q * ?q \<le> n div 4" "n div 4 < (?q + 1) * (?q + 1)" using "1.IH" [OF False] by simp_all
    have "4 * (?q * ?q) \<le> n" using IH(1) by linarith
    moreover have "n < 4 * ((?q + 1) * (?q + 1))" using IH(2) by linarith
    ultimately show ?thesis
      using False by (subst (1 2 3 4) floor_sqrt.simps) (auto simp: Let_def algebra_simps)
  qed (simp add: floor_sqrt.simps)
qed

lemma f32_mul_commute: "f32_mul a b = f32_mul b a"
  by (cases "f32_sign a"; cases "f32_sign b") (auto simp: f32_mul_def Let_def mult.commute add.commute)

lemma f32_parts: "unat v = (if f32_sign v then 2 ^ 31 else 0) + f32_exponent v * 2 ^ 23 + f32_fraction v"
proof -
  let ?q = "unat v div 2 ^ 23"
  have "unat v < 512 * 2 ^ 23" using unsigned_less [of v] by simp
  then have q: "?q < 512" by (simp only: less_mult_imp_div_less)
  have sign: "f32_sign v \<longleftrightarrow> 256 \<le> ?q" by (simp add: f32_sign_def less_eq_div_iff_mult_less_eq)
  have "?q = (if 256 \<le> ?q then 256 else 0) + ?q mod 256" using q by (auto simp: mod_if)
  then have "?q * 2 ^ 23 = (if f32_sign v then 2 ^ 31 else 0) + f32_exponent v * 2 ^ 23"
    unfolding sign f32_exponent_def by (cases "256 \<le> ?q") (simp_all add: algebra_simps)
  moreover have "unat v = ?q * 2 ^ 23 + unat v mod 2 ^ 23" by (simp only: div_mult_mod_eq)
  ultimately show ?thesis by (simp only: f32_fraction_def)
qed

lemma f32_add_commute: "f32_add a b = f32_add b a"
proof -
  have "f32_infinite a \<Longrightarrow> f32_infinite b \<Longrightarrow> f32_sign a = f32_sign b \<Longrightarrow> a = b"
  proof -
    assume *: "f32_infinite a" "f32_infinite b" "f32_sign a = f32_sign b"
    have "unat a = unat b" using * f32_parts [of a] f32_parts [of b] by (simp add: f32_infinite_def)
    then show "a = b" by (rule unsigned_word_eqI)
  qed
  then show ?thesis by (auto simp: f32_add_def Let_def min.commute add.commute)
qed

end
