(* ===== verification/Fusion.thy ===== *)
theory Fusion
  imports GraphUtils Cse FloatArith ModelBuild "HOL-Library.Monad_Syntax"
begin

text \<open>
  What the fusion passes of \<open>src/optimizer/fusion\<close> share. Every pass walks over the nodes, keeps
  which of them are removed, which are replaced by a fused node and which names are redirected,
  and builds the new list of nodes at the end. The body of a pass's loop is a function that
  returns \<open>None\<close> where the code has \<open>continue\<close>. A pass that adds weights keeps the weight table
  and the names that are taken in the same state.
\<close>

section \<open>The state of a pass\<close>

record fusion =
  fu_skip :: "nat list"
  fu_replacements :: "nat \<Rightarrow> node option"
  fu_redirects :: "string \<Rightarrow> string option"
  fu_weights :: tensor_map
  fu_names :: "string list"

definition fusion_start :: "tensor_map \<Rightarrow> string list \<Rightarrow> fusion" where
  "fusion_start weights names =
     \<lparr>fu_skip = [], fu_replacements = Map.empty, fu_redirects = Map.empty, fu_weights = weights, fu_names = names\<rparr>"

definition guard :: "bool \<Rightarrow> unit option" where
  "guard b = (if b then Some () else None)"

lemma guard_Some_iff [simp]: "guard b = Some u \<longleftrightarrow> b"
  by (simp add: guard_def)

text \<open>\<open>list.get(i)\<close>\<close>

definition slot :: "'a list \<Rightarrow> nat \<Rightarrow> 'a option" where
  "slot xs i = (if i < length xs then Some (xs ! i) else None)"

definition or_else :: "'a option \<Rightarrow> 'a option \<Rightarrow> 'a option" where
  "or_else a b = (case a of Some x \<Rightarrow> Some x | None \<Rightarrow> b)"

text \<open>The first name of a list, if it has one that is not empty.\<close>

definition first_name :: "string list \<Rightarrow> string option" where
  "first_name xs = (case xs of [] \<Rightarrow> None | name # _ \<Rightarrow> if name = [] then None else Some name)"

definition untouched :: "fusion \<Rightarrow> nat \<Rightarrow> bool" where
  "untouched st i \<longleftrightarrow> i \<notin> set (fu_skip st) \<and> fu_replacements st i = None"

definition replace :: "nat \<Rightarrow> node \<Rightarrow> nat list \<Rightarrow> fusion \<Rightarrow> fusion" where
  "replace i fused removed st =
     st\<lparr>fu_skip := removed @ fu_skip st, fu_replacements := (fu_replacements st)(i \<mapsto> fused)\<rparr>"

definition remove_redirecting :: "nat list \<Rightarrow> string \<Rightarrow> string \<Rightarrow> fusion \<Rightarrow> fusion" where
  "remove_redirecting removed from_name to_name st =
     st\<lparr>fu_skip := removed @ fu_skip st, fu_redirects := (fu_redirects st)(from_name \<mapsto> to_name)\<rparr>"

text \<open>A new weight under a name of its own.\<close>

definition add_weight :: "string \<Rightarrow> string \<Rightarrow> tensor \<Rightarrow> fusion \<Rightarrow> string \<times> fusion" where
  "add_weight base suffix t st =
     (let (name, names) = allocate (fu_names st) base suffix
      in (name, st\<lparr>fu_weights := (fu_weights st)(name \<mapsto> t), fu_names := names\<rparr>))"

lemma replace_simps [simp]:
  "fu_skip (replace i fused removed st) = removed @ fu_skip st"
  "fu_replacements (replace i fused removed st) = (fu_replacements st)(i \<mapsto> fused)"
  "fu_redirects (replace i fused removed st) = fu_redirects st"
  "fu_weights (replace i fused removed st) = fu_weights st"
  "fu_names (replace i fused removed st) = fu_names st"
  by (simp_all add: replace_def)

lemma remove_redirecting_simps [simp]:
  "fu_skip (remove_redirecting removed x y st) = removed @ fu_skip st"
  "fu_replacements (remove_redirecting removed x y st) = fu_replacements st"
  "fu_redirects (remove_redirecting removed x y st) = (fu_redirects st)(x \<mapsto> y)"
  "fu_weights (remove_redirecting removed x y st) = fu_weights st"
  "fu_names (remove_redirecting removed x y st) = fu_names st"
  by (simp_all add: remove_redirecting_def)

lemma fusion_start_simps [simp]:
  "fu_skip (fusion_start weights names) = []"
  "fu_replacements (fusion_start weights names) = Map.empty"
  "fu_redirects (fusion_start weights names) = Map.empty"
  "fu_weights (fusion_start weights names) = weights"
  "fu_names (fusion_start weights names) = names"
  by (simp_all add: fusion_start_def)

section \<open>The loop and the result\<close>

definition fuse_node :: "(nat \<Rightarrow> node \<Rightarrow> fusion \<Rightarrow> fusion option) \<Rightarrow> nat \<times> node \<Rightarrow> fusion \<Rightarrow> fusion" where
  "fuse_node body = (\<lambda>(i, nd) st.
     if i \<in> set (fu_skip st) then st
     else case body i nd st of None \<Rightarrow> st | Some st \<Rightarrow> st)"

definition fuse_loop :: "(nat \<Rightarrow> node \<Rightarrow> fusion \<Rightarrow> fusion option) \<Rightarrow> node list \<Rightarrow> fusion \<Rightarrow> fusion" where
  "fuse_loop body nodes st = fold (fuse_node body) (enumerate 0 nodes) st"

definition rebuild :: "node list \<Rightarrow> fusion \<Rightarrow> node list" where
  "rebuild nodes st =
     map (\<lambda>(i, nd). case fu_replacements st i of Some fused \<Rightarrow> fused | None \<Rightarrow> redirect_node (fu_redirects st) nd)
       (filter (\<lambda>(i, _). i \<notin> set (fu_skip st)) (enumerate 0 nodes))"

lemma redirect_node_empty [simp]: "redirect_node Map.empty nd = nd"
  proof -
  have "redirect Map.empty = (\<lambda>x. x)" by (simp add: redirect_def fun_eq_iff)
  then show ?thesis by (cases nd) (simp add: redirect_node_def)
qed

section \<open>Constants and ranks\<close>

text \<open>The constants of the tests: \<open>1.0\<close>, \<open>2.0\<close>, \<open>6.0\<close>, \<open>0.01\<close>, \<open>1e-5\<close>, \<open>1e-6\<close>, \<open>1e-7\<close> and the infinities.\<close>

definition one_f32 :: f32 where "one_f32 = 0x3F800000"
definition two_f32 :: f32 where "two_f32 = 0x40000000"
definition six_f32 :: f32 where "six_f32 = 0x40C00000"
definition hundredth_f32 :: f32 where "hundredth_f32 = 0x3C23D70A"
definition e5_f32 :: f32 where "e5_f32 = 0x3727C5AC"
definition e6_f32 :: f32 where "e6_f32 = 0x358637BD"
definition e7_f32 :: f32 where "e7_f32 = 0x33D6BF95"
definition infinity_f32 :: f32 where "infinity_f32 = 0x7F800000"
definition neg_infinity_f32 :: f32 where "neg_infinity_f32 = 0xFF800000"

text \<open>\<open>(v - c).abs() < eps\<close>\<close>

definition f32_near :: "f32 \<Rightarrow> f32 \<Rightarrow> f32 \<Rightarrow> bool" where
  "f32_near eps c v \<longleftrightarrow> f32_less (f32_abs (f32_sub v c)) eps"

type_synonym shapes = "string \<Rightarrow> nat list option"

text \<open>The rank of a tensor, from shape inference or from the weights.\<close>

definition known_rank :: "string \<Rightarrow> tensor_map \<Rightarrow> shapes \<Rightarrow> nat option" where
  "known_rank name weights known_shapes =
     (case known_shapes name of
        Some shape \<Rightarrow> Some (length shape)
      | None \<Rightarrow> map_option (\<lambda>t. length (t_shape t)) (weights name))"

end
