(* ===== verification/FuseSimplify.thy ===== *)
theory FuseSimplify
  imports Fusion
begin

text \<open>
  The simplifications of \<open>src/optimizer/fusion/simplify/functions.rs\<close>: consecutive Transpose and
  Reshape nodes, SiLU, the reciprocal of a square root, compositions of Gather nodes, Dropout
  at inference and a Transpose before a Reshape.
\<close>

section \<open>Shapes that are constants\<close>

definition const_i64_operand :: "tensor_map \<Rightarrow> string \<Rightarrow> int list option" where
  "const_i64_operand weights name =
     (if name = [] then None else map_option (\<lambda>t. map f32_to_i64 (t_data t)) (weights name))"

text \<open>The loop of \<open>resolve_reshape_target\<close>: the dimensions, the place of \<open>-1\<close>, the product of the others.\<close>

fun reshape_dims :: "nat list \<Rightarrow> bool \<Rightarrow> nat \<Rightarrow> int list \<Rightarrow> nat list \<Rightarrow> nat option \<Rightarrow> nat \<Rightarrow>
    (nat list \<times> nat option \<times> nat) option" where
  "reshape_dims input_shape allowzero idx [] out infer_at known_product = Some (out, infer_at, known_product)"
| "reshape_dims input_shape allowzero idx (dim # dims) out infer_at known_product =
     (if dim = - 1 then
        (if infer_at \<noteq> None then None
         else reshape_dims input_shape allowzero (idx + 1) dims (out @ [1]) (Some idx) known_product)
      else if dim = 0 \<and> \<not> allowzero then do {
        copied \<leftarrow> slot input_shape idx;
        known_product \<leftarrow> checked_mul known_product copied;
        reshape_dims input_shape allowzero (idx + 1) dims (out @ [copied]) infer_at known_product
      }
      else if dim \<ge> 0 then do {
        known_product \<leftarrow> checked_mul known_product (nat dim);
        reshape_dims input_shape allowzero (idx + 1) dims (out @ [nat dim]) infer_at known_product
      }
      else None)"

definition wrapping_product :: "nat list \<Rightarrow> nat" where
  "wrapping_product dims = prod_list dims mod 2 ^ 64"

definition resolve_reshape_target :: "int list \<Rightarrow> nat list \<Rightarrow> bool \<Rightarrow> nat list option" where
  "resolve_reshape_target dims input_shape allowzero = do {
     (out, infer_at, known_product) \<leftarrow> reshape_dims input_shape allowzero 0 dims [] None 1;
     let input_numel = wrapping_product input_shape;
     case infer_at of
       Some idx \<Rightarrow>
         if known_product = 0 \<or> input_numel mod known_product \<noteq> 0 then None
         else Some (out[idx := input_numel div known_product])
     | None \<Rightarrow> if known_product \<noteq> input_numel then None else Some out
   }"

definition target_shape_is_reparent_safe :: "node \<Rightarrow> tensor_map \<Rightarrow> bool" where
  "target_shape_is_reparent_safe nd weights =
     (if attr_i (n_attrs nd) ''allowzero'' 0 \<noteq> 0 then True
      else case slot (n_inputs nd) 1 \<bind> const_i64_operand weights of
        Some dims \<Rightarrow> 0 \<notin> set dims
      | None \<Rightarrow> False)"

section \<open>Transpose after Transpose\<close>

definition composed_perm :: "i64 list \<Rightarrow> i64 list \<Rightarrow> i64 list" where
  "composed_perm perm1 perm2 = map (\<lambda>j. if unat j < length perm1 then perm1 ! unat j else j) perm2"

definition is_identity :: "i64 list \<Rightarrow> bool" where
  "is_identity perm \<longleftrightarrow> list_all (\<lambda>(idx, v). v = of_nat idx) (enumerate 0 perm)"

definition cancel_transpose :: "node list \<Rightarrow> tensor_usage \<Rightarrow> nat \<Rightarrow> node \<Rightarrow> fusion \<Rightarrow> fusion option" where
  "cancel_transpose nodes usage i nd st = do {
     guard (n_op nd = ''Transpose'');
     input_name \<leftarrow> first_name (n_inputs nd);
     prev_idx \<leftarrow> producers nodes input_name;
     guard (untouched st prev_idx);
     let prev = nodes ! prev_idx;
     guard (n_op prev = ''Transpose'');
     guard (is_fusable_intermediate usage input_name);
     perm1 \<leftarrow> map_of (at_int_lists (n_attrs prev)) ''perm'';
     perm2 \<leftarrow> map_of (at_int_lists (n_attrs nd)) ''perm'';
     guard (length perm1 = length perm2);
     let composed = composed_perm perm1 perm2;
     original_input \<leftarrow> first_name (n_inputs prev);
     if is_identity composed then do {
       out_name \<leftarrow> first_name (n_outputs nd);
       guard (\<not> is_graph_output usage out_name);
       Some (remove_redirecting [prev_idx, i] out_name original_input st)
     }
     else Some (replace i
       (Node ''Transpose'' (n_name prev @ ''_collapsed_transpose'') [original_input] (n_outputs nd)
         (put_int_list ''perm'' composed no_attrs)) [prev_idx] st)
   }"

definition cancel_consecutive_transpose :: "node list \<Rightarrow> string list \<Rightarrow> node list" where
  "cancel_consecutive_transpose nodes output_names =
     rebuild nodes (fuse_loop (cancel_transpose nodes (usage_new nodes output_names)) nodes (fusion_start Map.empty []))"

section \<open>Reshape after Reshape\<close>

definition restores_input_shape :: "node \<Rightarrow> tensor_map \<Rightarrow> shapes \<Rightarrow> string \<Rightarrow> bool" where
  "restores_input_shape nd weights known_shapes original_input =
     (case known_shapes original_input of
        Some x_shape \<Rightarrow>
          (case (do {
             name \<leftarrow> slot (n_inputs nd) 1;
             dims \<leftarrow> const_i64_operand weights name;
             resolve_reshape_target dims x_shape (attr_i (n_attrs nd) ''allowzero'' 0 \<noteq> 0)
           }) of Some resolved \<Rightarrow> resolved = x_shape | None \<Rightarrow> False)
      | None \<Rightarrow> False)"

definition cancel_reshape :: "node list \<Rightarrow> tensor_map \<Rightarrow> shapes \<Rightarrow> tensor_usage \<Rightarrow> nat \<Rightarrow> node \<Rightarrow> fusion \<Rightarrow> fusion option" where
  "cancel_reshape nodes weights known_shapes usage i nd st = do {
     guard (n_op nd = ''Reshape'');
     prev_out \<leftarrow> slot (n_inputs nd) 0;
     guard (is_fusable_intermediate usage prev_out);
     prev_idx \<leftarrow> producers nodes prev_out;
     guard (untouched st prev_idx);
     let prev = nodes ! prev_idx;
     guard (n_op prev = ''Reshape'');
     original_input \<leftarrow> slot (n_inputs prev) 0;
     guard (target_shape_is_reparent_safe nd weights);
     guard (original_input \<noteq> []);
     if restores_input_shape nd weights known_shapes original_input then do {
       out_name \<leftarrow> first_name (n_outputs nd);
       guard (\<not> is_graph_output usage out_name);
       Some (remove_redirecting [prev_idx, i] out_name original_input st)
     }
     else Some (replace i
       (Node ''Reshape'' (n_name prev @ ''_collapsed_reshape'')
         (original_input # (if length (n_inputs nd) > 1 then [n_inputs nd ! 1] else []))
         (n_outputs nd) (n_attrs nd)) [prev_idx] st)
   }"

definition cancel_consecutive_reshape :: "node list \<Rightarrow> tensor_map \<Rightarrow> shapes \<Rightarrow> string list \<Rightarrow> node list" where
  "cancel_consecutive_reshape nodes weights known_shapes output_names =
     (if length nodes < 2 then nodes
      else rebuild nodes (fuse_loop (cancel_reshape nodes weights known_shapes (usage_new nodes output_names)) nodes
        (fusion_start Map.empty [])))"

section \<open>SiLU\<close>

definition try_silu :: "node list \<Rightarrow> tensor_usage \<Rightarrow> fusion \<Rightarrow> string \<Rightarrow> string \<Rightarrow> (string \<times> nat) option" where
  "try_silu nodes usage st sig_candidate x_candidate = do {
     sig_idx \<leftarrow> producers nodes sig_candidate;
     guard (sig_idx \<notin> set (fu_skip st));
     guard (n_op (nodes ! sig_idx) = ''Sigmoid'');
     guard (is_fusable_intermediate usage sig_candidate);
     x \<leftarrow> slot (n_inputs (nodes ! sig_idx)) 0;
     guard (x = x_candidate);
     Some (x_candidate, sig_idx)
   }"

definition fuse_silu :: "node list \<Rightarrow> tensor_usage \<Rightarrow> nat \<Rightarrow> node \<Rightarrow> fusion \<Rightarrow> fusion option" where
  "fuse_silu nodes usage i nd st = do {
     guard (n_op nd = ''Mul'');
     guard (length (n_inputs nd) \<ge> 2);
     let inp0 = n_inputs nd ! 0;
     let inp1 = n_inputs nd ! 1;
     (x_name, sigmoid_idx) \<leftarrow> or_else (try_silu nodes usage st inp1 inp0) (try_silu nodes usage st inp0 inp1);
     Some (replace i (Node ''SiLU'' (n_name nd @ ''_fused_silu'') [x_name] (n_outputs nd) no_attrs) [sigmoid_idx] st)
   }"

definition fuse_mul_sigmoid_to_silu :: "node list \<Rightarrow> string list \<Rightarrow> node list" where
  "fuse_mul_sigmoid_to_silu nodes output_names =
     (if length nodes < 2 then nodes
      else rebuild nodes (fuse_loop (fuse_silu nodes (usage_new nodes output_names)) nodes (fusion_start Map.empty [])))"

section \<open>The reciprocal of a square root\<close>

definition fuse_rsqrt :: "node list \<Rightarrow> tensor_map \<Rightarrow> tensor_usage \<Rightarrow> nat \<Rightarrow> node \<Rightarrow> fusion \<Rightarrow> fusion option" where
  "fuse_rsqrt nodes weights usage i nd st = do {
     guard (n_op nd = ''Div'');
     guard (length (n_inputs nd) \<ge> 2);
     let denominator_name = n_inputs nd ! 1;
     t \<leftarrow> weights (n_inputs nd ! 0);
     guard (length (t_data t) = 1 \<and> f32_near e7_f32 one_f32 (hd (t_data t)));
     sqrt_idx \<leftarrow> producers nodes denominator_name;
     guard (n_op (nodes ! sqrt_idx) = ''Sqrt'');
     guard (consumers usage denominator_name = 1);
     Some (replace i (Node ''Reciprocal'' (n_name nd @ ''_fused_rsqrt'') [denominator_name] (n_outputs nd) no_attrs) [] st)
   }"

definition fuse_div_sqrt_to_rsqrt :: "node list \<Rightarrow> tensor_map \<Rightarrow> node list" where
  "fuse_div_sqrt_to_rsqrt nodes weights =
     (if length nodes < 2 then nodes
      else rebuild nodes (fuse_loop (fuse_rsqrt nodes weights (usage_new nodes [])) nodes (fusion_start Map.empty [])))"

section \<open>Gather after Gather\<close>

text \<open>The indices of the composition; a negative index counts from the end.\<close>

fun compose_indices :: "f32 list \<Rightarrow> f32 list \<Rightarrow> f32 list option" where
  "compose_indices inner [] = Some []"
| "compose_indices inner (oi # outer) =
     (let raw = f32_to_i64 oi;
          normalized = (if raw < 0 then raw + int (length inner) else raw)
      in if 0 \<le> normalized \<and> normalized < int (length inner)
         then map_option (\<lambda>rest. inner ! nat normalized # rest) (compose_indices inner outer)
         else None)"

definition fuse_gather :: "node list \<Rightarrow> tensor_usage \<Rightarrow> nat \<Rightarrow> node \<Rightarrow> fusion \<Rightarrow> fusion option" where
  "fuse_gather nodes usage i nd st = do {
     guard (n_op nd = ''Gather'');
     guard (length (n_inputs nd) \<ge> 2 \<and> n_outputs nd \<noteq> []);
     let outer_axis = attr_i (n_attrs nd) ''axis'' 0;
     let inner_result_name = n_inputs nd ! 0;
     guard (is_fusable_intermediate usage inner_result_name);
     inner_idx \<leftarrow> producers nodes inner_result_name;
     guard (untouched st inner_idx);
     let inner = nodes ! inner_idx;
     guard (n_op inner = ''Gather'');
     guard (length (n_inputs inner) \<ge> 2);
     let inner_axis = attr_i (n_attrs inner) ''axis'' 0;
     guard (outer_axis = inner_axis);
     inner_indices \<leftarrow> fu_weights st (n_inputs inner ! 1);
     guard (length (t_shape inner_indices) = 1);
     outer_indices \<leftarrow> fu_weights st (n_inputs nd ! 1);
     composed_data \<leftarrow> compose_indices (t_data inner_indices) (t_data outer_indices);
     name_base \<leftarrow> first_name (n_outputs nd);
     let (composed_name, st) =
       add_weight name_base ''_composed_indices'' \<lparr>t_data = composed_data, t_shape = t_shape outer_indices\<rparr> st;
     Some (replace i
       (Node ''Gather'' (n_name inner @ ''_fused_gather'') [n_inputs inner ! 0, composed_name] (n_outputs nd)
         (put_int ''axis'' inner_axis no_attrs)) [inner_idx] st)
   }"

definition fuse_gather_composition ::
  "(tensor_map \<Rightarrow> string list) \<Rightarrow> string list \<Rightarrow> node list \<times> tensor_map \<Rightarrow> node list \<times> tensor_map" where
  "fuse_gather_composition key_order output_names = (\<lambda>(nodes, weights).
     if length nodes < 2 then (nodes, weights)
     else let st = fuse_loop (fuse_gather nodes (usage_new nodes output_names)) nodes
                     (fusion_start weights (allocator_new nodes (key_order weights)))
          in (rebuild nodes st, fu_weights st))"

section \<open>Dropout at inference\<close>

definition eliminate_dropout :: "tensor_map \<Rightarrow> tensor_usage \<Rightarrow> nat \<Rightarrow> node \<Rightarrow> fusion \<Rightarrow> fusion option" where
  "eliminate_dropout weights usage i nd st = do {
     guard (n_op nd = ''Dropout'');
     data_input \<leftarrow> slot (n_inputs nd) 0;
     guard (attr_i (n_attrs nd) ''training_mode'' 0 = 0);
     guard (case slot (n_inputs nd) 2 of
         None \<Rightarrow> True
       | Some mode_name \<Rightarrow> mode_name = [] \<or>
           (case const_scalar weights mode_name of Some flag \<Rightarrow> f32_eq flag 0 | None \<Rightarrow> False));
     guard (data_input \<noteq> []);
     out_name \<leftarrow> first_name (n_outputs nd);
     guard (\<not> is_graph_output usage out_name);
     guard (case slot (n_outputs nd) 1 of
         None \<Rightarrow> True
       | Some mask_name \<Rightarrow> mask_name = [] \<or> consumers usage mask_name = 0 \<and> \<not> is_graph_output usage mask_name);
     Some (remove_redirecting [i] out_name data_input st)
   }"

definition eliminate_dropout_inference :: "tensor_map \<Rightarrow> string list \<Rightarrow> node list \<Rightarrow> node list" where
  "eliminate_dropout_inference weights output_names nodes =
     (if nodes = [] then nodes
      else rebuild nodes (fuse_loop (eliminate_dropout weights (usage_new nodes output_names)) nodes (fusion_start Map.empty [])))"

section \<open>Transpose before Reshape\<close>

text \<open>The loop: the axes of extent above 1 come in increasing order.\<close>

fun memory_noop_loop :: "nat list \<Rightarrow> int list \<Rightarrow> int option \<Rightarrow> bool" where
  "memory_noop_loop shape [] previous = True"
| "memory_noop_loop shape (axis # perm) previous =
     (if axis < 0 \<or> axis \<ge> int (length shape) then False
      else if shape ! nat axis = 1 then memory_noop_loop shape perm previous
      else if (case previous of Some prev \<Rightarrow> axis \<le> prev | None \<Rightarrow> False) then False
      else memory_noop_loop shape perm (Some axis))"

definition transpose_is_memory_noop :: "i64 list \<Rightarrow> nat list \<Rightarrow> bool" where
  "transpose_is_memory_noop perm shape \<longleftrightarrow>
     length perm = length shape \<and> memory_noop_loop shape (map sint perm) None"

definition simplify_reshape :: "node list \<Rightarrow> tensor_map \<Rightarrow> shapes \<Rightarrow> tensor_usage \<Rightarrow> nat \<Rightarrow> node \<Rightarrow> fusion \<Rightarrow> fusion option" where
  "simplify_reshape nodes weights known_shapes usage i nd st = do {
     guard (n_op nd = ''Reshape'');
     reshape_input \<leftarrow> slot (n_inputs nd) 0;
     guard (is_fusable_intermediate usage reshape_input);
     transpose_idx \<leftarrow> producers nodes reshape_input;
     guard (untouched st transpose_idx);
     let transpose = nodes ! transpose_idx;
     guard (n_op transpose = ''Transpose'');
     perm \<leftarrow> map_of (at_int_lists (n_attrs transpose)) ''perm'';
     guard (perm \<noteq> []);
     original_input \<leftarrow> first_name (n_inputs transpose);
     (if is_identity perm then Some ()
      else do {
        input_shape \<leftarrow> known_shapes original_input;
        guard (transpose_is_memory_noop perm input_shape);
        guard (target_shape_is_reparent_safe nd weights)
      });
     Some (replace i
       (Node ''Reshape'' (n_name nd @ ''_simplified'') (original_input # drop 1 (n_inputs nd)) (n_outputs nd) (n_attrs nd))
       [transpose_idx] st)
   }"

definition simplify_transpose_reshape :: "node list \<Rightarrow> tensor_map \<Rightarrow> shapes \<Rightarrow> string list \<Rightarrow> node list" where
  "simplify_transpose_reshape nodes weights known_shapes output_names =
     (if length nodes < 2 then nodes
      else rebuild nodes (fuse_loop (simplify_reshape nodes weights known_shapes (usage_new nodes output_names)) nodes
        (fusion_start Map.empty [])))"

end
