(* ===== verification/FuseConv.thy ===== *)
theory FuseConv
  imports Fusion
begin

text \<open>
  The passes around Conv (\<open>src/optimizer/fusion/conv\<close>): a following Relu or Clip becomes the
  \<open>activation\<close> of the Conv, a following BatchNormalization is folded into its weights, a
  BatchNormalization that stands alone becomes a product and a sum with constants, and the
  residual block Conv, Add, Relu becomes one node.
\<close>

section \<open>Clip bounds\<close>

definition resolve_bound :: "node \<Rightarrow> tensor_map \<Rightarrow> nat \<Rightarrow> string \<Rightarrow> f32 \<Rightarrow> f32 option" where
  "resolve_bound nd weights idx attr_name unbounded =
     (case slot (n_inputs nd) idx of
        Some name \<Rightarrow> if name \<noteq> [] then const_scalar weights name else Some (attr_f (n_attrs nd) attr_name unbounded)
      | None \<Rightarrow> Some (attr_f (n_attrs nd) attr_name unbounded))"

definition resolve_clip_bounds :: "node \<Rightarrow> tensor_map \<Rightarrow> (f32 \<times> f32) option" where
  "resolve_clip_bounds nd weights = do {
     lo \<leftarrow> resolve_bound nd weights 1 ''min'' neg_infinity_f32;
     hi \<leftarrow> resolve_bound nd weights 2 ''max'' infinity_f32;
     if f32_nan lo \<or> f32_nan hi \<or> f32_greater lo hi then None else Some (lo, hi)
   }"

section \<open>Conv, then Relu or Clip\<close>

definition activation_attrs :: "(f32 \<times> f32) option \<Rightarrow> attributes \<Rightarrow> attributes" where
  "activation_attrs bounds attrs =
     (case bounds of
        None \<Rightarrow> put_string ''activation'' ''relu'' attrs
      | Some (lo, hi) \<Rightarrow>
          if f32_eq lo 0 \<and> f32_eq hi infinity_f32 then put_string ''activation'' ''relu'' attrs
          else put_float ''activation_max'' hi (put_float ''activation_min'' lo (put_string ''activation'' ''clip'' attrs)))"

definition fuse_activation :: "node list \<Rightarrow> tensor_map \<Rightarrow> tensor_usage \<Rightarrow> nat \<Rightarrow> node \<Rightarrow> fusion \<Rightarrow> fusion option" where
  "fuse_activation nodes weights usage i nd st = do {
     let is_clip = (n_op nd = ''Clip'');
     guard (n_op nd = ''Relu'' \<or> is_clip);
     guard (n_inputs nd \<noteq> [] \<and> n_outputs nd \<noteq> []);
     bounds \<leftarrow> (if is_clip then map_option Some (resolve_clip_bounds nd weights) else Some None);
     let conv_tensor = n_inputs nd ! 0;
     guard (is_fusable_intermediate usage conv_tensor);
     conv_idx \<leftarrow> producers nodes conv_tensor;
     guard (untouched st conv_idx);
     let conv = nodes ! conv_idx;
     guard (n_op conv = ''Conv'');
     guard (attr_s (n_attrs conv) ''activation'' = []);
     Some (replace conv_idx
       (Node ''Conv'' (n_name conv @ ''_fused_activation'') (n_inputs conv) (n_outputs nd)
         (activation_attrs bounds (n_attrs conv))) [i] st)
   }"

definition fuse_conv_relu :: "node list \<Rightarrow> tensor_map \<Rightarrow> string list \<Rightarrow> node list" where
  "fuse_conv_relu nodes weights output_names =
     (if length nodes < 2 then nodes
      else rebuild nodes (fuse_loop (fuse_activation nodes weights (usage_new nodes output_names)) nodes
        (fusion_start Map.empty [])))"

text \<open>Relu6: the range from 0 to 6.\<close>

definition fuse_relu6 :: "node list \<Rightarrow> tensor_map \<Rightarrow> tensor_usage \<Rightarrow> nat \<Rightarrow> node \<Rightarrow> fusion \<Rightarrow> fusion option" where
  "fuse_relu6 nodes weights usage i nd st = do {
     guard (n_op nd = ''Clip'');
     guard (n_inputs nd \<noteq> [] \<and> n_outputs nd \<noteq> []);
     (lo, hi) \<leftarrow> resolve_clip_bounds nd weights;
     guard (\<not> (f32_greater (f32_abs (f32_sub lo 0)) e7_f32 \<or> f32_greater (f32_abs (f32_sub hi six_f32)) e7_f32));
     let conv_tensor = n_inputs nd ! 0;
     guard (is_fusable_intermediate usage conv_tensor);
     conv_idx \<leftarrow> producers nodes conv_tensor;
     guard (untouched st conv_idx);
     let conv = nodes ! conv_idx;
     guard (n_op conv = ''Conv'');
     guard (attr_s (n_attrs conv) ''activation'' = []);
     Some (replace conv_idx
       (Node ''Conv'' (n_name conv @ ''_fused_relu6'') (n_inputs conv) (n_outputs nd)
         (put_float ''activation_max'' six_f32 (put_float ''activation_min'' 0
           (put_string ''activation'' ''clip'' (n_attrs conv))))) [i] st)
   }"

definition fuse_conv_clip_to_conv_relu6 :: "node list \<Rightarrow> tensor_map \<Rightarrow> string list \<Rightarrow> node list" where
  "fuse_conv_clip_to_conv_relu6 nodes weights output_names =
     (if length nodes < 2 then nodes
      else rebuild nodes (fuse_loop (fuse_relu6 nodes weights (usage_new nodes output_names)) nodes
        (fusion_start Map.empty [])))"

section \<open>Conv, Add, Relu\<close>

definition try_find_conv :: "node list \<Rightarrow> tensor_usage \<Rightarrow> fusion \<Rightarrow> string \<Rightarrow> string \<Rightarrow> (nat \<times> string) option" where
  "try_find_conv nodes usage st conv_candidate residual_candidate = do {
     guard (is_fusable_intermediate usage conv_candidate);
     idx \<leftarrow> producers nodes conv_candidate;
     guard (idx \<notin> set (fu_skip st));
     guard (n_op (nodes ! idx) = ''Conv'');
     guard (attr_s (n_attrs (nodes ! idx)) ''activation'' = []);
     Some (idx, residual_candidate)
   }"

definition fuse_residual :: "node list \<Rightarrow> tensor_usage \<Rightarrow> nat \<Rightarrow> node \<Rightarrow> fusion \<Rightarrow> fusion option" where
  "fuse_residual nodes usage i nd st = do {
     guard (n_op nd = ''Relu'');
     relu_input \<leftarrow> slot (n_inputs nd) 0;
     guard (is_fusable_intermediate usage relu_input);
     add_idx \<leftarrow> producers nodes relu_input;
     guard (add_idx \<notin> set (fu_skip st));
     let add = nodes ! add_idx;
     guard (n_op add = ''Add'');
     guard (length (n_inputs add) \<ge> 2);
     let add_inp0 = n_inputs add ! 0;
     let add_inp1 = n_inputs add ! 1;
     (conv_idx, residual_name) \<leftarrow>
       or_else (try_find_conv nodes usage st add_inp0 add_inp1) (try_find_conv nodes usage st add_inp1 add_inp0);
     let conv = nodes ! conv_idx;
     x \<leftarrow> slot (n_inputs conv) 0;
     w \<leftarrow> slot (n_inputs conv) 1;
     let b = (case slot (n_inputs conv) 2 of Some b \<Rightarrow> b | None \<Rightarrow> []);
     Some (replace conv_idx
       (Node ''ConvAddRelu'' (n_name conv @ ''_fused_conv_add_relu'') [x, w, b, residual_name] (n_outputs nd)
         (put_string ''fused_ops'' ''Add,Relu'' (n_attrs conv))) [add_idx, i] st)
   }"

definition fuse_conv_add_relu :: "node list \<Rightarrow> string list \<Rightarrow> node list" where
  "fuse_conv_add_relu nodes output_names =
     (if length nodes < 3 then nodes
      else rebuild nodes (fuse_loop (fuse_residual nodes (usage_new nodes output_names)) nodes (fusion_start Map.empty [])))"

section \<open>BatchNormalization\<close>

text \<open>The scale of a channel: \<open>scale * (1 / sqrt (var + epsilon))\<close>.\<close>

definition bn_factor :: "f32 \<Rightarrow> f32 \<Rightarrow> f32 \<Rightarrow> f32" where
  "bn_factor scale var epsilon = f32_mul scale (f32_div one_f32 (f32_sqrt (f32_add var epsilon)))"

record bn_parameters =
  bn_scale :: "f32 list"
  bn_bias :: "f32 list"
  bn_mean :: "f32 list"
  bn_var :: "f32 list"
  bn_epsilon :: f32

text \<open>The parameters, if all are constants of one length.\<close>

definition constant_bn_parameters :: "tensor_map \<Rightarrow> node \<Rightarrow> bn_parameters option" where
  "constant_bn_parameters weights nd = do {
     scale \<leftarrow> weights (n_inputs nd ! 1);
     bias \<leftarrow> weights (n_inputs nd ! 2);
     mean \<leftarrow> weights (n_inputs nd ! 3);
     var \<leftarrow> weights (n_inputs nd ! 4);
     let c_out = length (t_data scale);
     guard (c_out \<noteq> 0 \<and> length (t_data bias) = c_out \<and> length (t_data mean) = c_out \<and> length (t_data var) = c_out);
     Some \<lparr>bn_scale = t_data scale, bn_bias = t_data bias, bn_mean = t_data mean, bn_var = t_data var,
       bn_epsilon = attr_f (n_attrs nd) ''epsilon'' e5_f32\<rparr>
   }"

definition channel_factors :: "bn_parameters \<Rightarrow> f32 list" where
  "channel_factors bn = map2 (\<lambda>scale var. bn_factor scale var (bn_epsilon bn)) (bn_scale bn) (bn_var bn)"

text \<open>The weights of a Conv and its bias with the normalisation folded in.\<close>

definition folded_weight :: "bn_parameters \<Rightarrow> f32 list \<Rightarrow> f32 list" where
  "folded_weight bn weight =
     (let c_out = length (bn_scale bn); weight_per_channel = length weight div c_out in
      concat (map (\<lambda>c. map (\<lambda>w. f32_mul w (channel_factors bn ! c))
          (subslice (c * weight_per_channel) (c * weight_per_channel + weight_per_channel) weight))
        [0..<c_out]))"

definition folded_bias :: "bn_parameters \<Rightarrow> f32 list \<Rightarrow> f32 list" where
  "folded_bias bn bias =
     map (\<lambda>c. f32_add (f32_mul (f32_sub (bias ! c) (bn_mean bn ! c)) (channel_factors bn ! c)) (bn_bias bn ! c))
       [0..<length (bn_scale bn)]"

definition fuse_batchnorm :: "node list \<Rightarrow> tensor_usage \<Rightarrow> nat \<Rightarrow> node \<Rightarrow> fusion \<Rightarrow> fusion option" where
  "fuse_batchnorm nodes usage i nd st = do {
     guard (n_op nd = ''BatchNormalization'');
     guard (length (n_inputs nd) \<ge> 5);
     let conv_tensor = n_inputs nd ! 0;
     guard (is_fusable_intermediate usage conv_tensor);
     conv_idx \<leftarrow> producers nodes conv_tensor;
     guard (untouched st conv_idx);
     let conv = nodes ! conv_idx;
     guard (n_op conv = ''Conv'');
     guard (attr_s (n_attrs conv) ''activation'' = []);
     bn \<leftarrow> constant_bn_parameters (fu_weights st) nd;
     guard (length (n_inputs conv) \<ge> 2);
     conv_weight \<leftarrow> fu_weights st (n_inputs conv ! 1);
     let c_out = length (bn_scale bn);
     guard (slot (t_shape conv_weight) 0 = Some c_out \<and> length (t_data conv_weight) mod c_out = 0);
     conv_bias_data \<leftarrow>
       (case slot (n_inputs conv) 2 \<bind> fu_weights st of
          Some b \<Rightarrow> if length (t_data b) = c_out then Some (t_data b) else None
        | None \<Rightarrow> Some (replicate c_out 0));
     name_base \<leftarrow> first_name (n_outputs conv);
     let (fused_weight_name, names) = allocate (fu_names st) name_base ''_fused_weight'';
     let (fused_bias_name, names) = allocate names name_base ''_fused_bias'';
     let st = st\<lparr>fu_names := names,
       fu_weights := (fu_weights st)
         (fused_weight_name \<mapsto> \<lparr>t_data = folded_weight bn (t_data conv_weight), t_shape = t_shape conv_weight\<rparr>,
          fused_bias_name \<mapsto> \<lparr>t_data = folded_bias bn conv_bias_data, t_shape = [c_out]\<rparr>)\<rparr>;
     Some (replace conv_idx
       (Node ''Conv'' (n_name conv @ ''_fused_convbn'') [n_inputs conv ! 0, fused_weight_name, fused_bias_name]
         (n_outputs nd) (n_attrs conv)) [i] st)
   }"

definition fuse_conv_batchnorm ::
  "(tensor_map \<Rightarrow> string list) \<Rightarrow> string list \<Rightarrow> node list \<times> tensor_map \<Rightarrow> node list \<times> tensor_map" where
  "fuse_conv_batchnorm key_order output_names = (\<lambda>(nodes, weights).
     if length nodes < 2 then (nodes, weights)
     else let st = fuse_loop (fuse_batchnorm nodes (usage_new nodes output_names)) nodes
                     (fusion_start weights (allocator_new nodes (key_order weights)))
          in (rebuild nodes st, fu_weights st))"

text \<open>A BatchNormalization with no Conv before it: a product and a sum, if the rank of the input is known.\<close>

definition fold_batch_norm ::
  "node list \<Rightarrow> shapes \<Rightarrow> node \<Rightarrow> tensor_map \<times> string list \<Rightarrow> (node list \<times> tensor_map \<times> string list) option" where
  "fold_batch_norm nodes known_shapes nd = (\<lambda>(weights, names). do {
     guard (n_op nd = ''BatchNormalization'');
     guard (length (n_inputs nd) \<ge> 5);
     let x_name = n_inputs nd ! 0;
     guard (case producers nodes x_name of Some prev_idx \<Rightarrow> n_op (nodes ! prev_idx) \<noteq> ''Conv'' | None \<Rightarrow> True);
     bn \<leftarrow> constant_bn_parameters weights nd;
     let c_out = length (bn_scale bn);
     s \<leftarrow> known_shapes x_name;
     guard (length s \<ge> 2 \<and> s ! 1 = c_out);
     let bn_const_shape = (replicate (length s) 1)[1 := c_out];
     let factor_data = channel_factors bn;
     let shift_data = map (\<lambda>c. f32_sub (bn_bias bn ! c) (f32_mul (bn_mean bn ! c) (factor_data ! c))) [0..<c_out];
     name_base \<leftarrow> first_name (n_outputs nd);
     let (factor_name, names) = allocate names name_base ''_bn_factor'';
     let (shift_name, names) = allocate names name_base ''_bn_shift'';
     let (mul_out_name, names) = allocate names name_base ''_bn_mul_out'';
     Some
       ([Node ''Mul'' (n_name nd @ ''_bn_mul'') [x_name, factor_name] [mul_out_name] no_attrs,
         Node ''Add'' (n_name nd @ ''_bn_add'') [mul_out_name, shift_name] (n_outputs nd) no_attrs],
        weights(factor_name \<mapsto> \<lparr>t_data = factor_data, t_shape = bn_const_shape\<rparr>,
                shift_name \<mapsto> \<lparr>t_data = shift_data, t_shape = bn_const_shape\<rparr>),
        names)
   })"

fun fold_batch_norm_loop ::
  "node list \<Rightarrow> shapes \<Rightarrow> node list \<Rightarrow> tensor_map \<times> string list \<Rightarrow> node list \<times> tensor_map \<times> string list" where
  "fold_batch_norm_loop all known_shapes [] st = ([], st)"
| "fold_batch_norm_loop all known_shapes (nd # nodes) st =
     (let (new_nodes, st) = (case fold_batch_norm all known_shapes nd st of None \<Rightarrow> ([nd], st) | Some r \<Rightarrow> r);
          (rest, st) = fold_batch_norm_loop all known_shapes nodes st
      in (new_nodes @ rest, st))"

definition fold_batch_norm_inference ::
  "(tensor_map \<Rightarrow> string list) \<Rightarrow> shapes \<Rightarrow> node list \<times> tensor_map \<Rightarrow> node list \<times> tensor_map" where
  "fold_batch_norm_inference key_order known_shapes = (\<lambda>(nodes, weights).
     if nodes = [] then (nodes, weights)
     else let (result, weights, names) =
            fold_batch_norm_loop nodes known_shapes nodes (weights, allocator_new nodes (key_order weights))
          in (result, weights))"

end
