(* ===== verification/FuseMatmul.thy ===== *)
theory FuseMatmul
  imports Fusion
begin

text \<open>
  The passes that make a Gemm of a MatMul and its neighbour (\<open>src/optimizer/fusion/matmul\<close>): a
  bias added to the product, a transposition of the product, a bias added to the left factor.
\<close>

section \<open>MatMul, then Add\<close>

definition gemm_attrs :: "f32 \<Rightarrow> i64 \<Rightarrow> attributes" where
  "gemm_attrs beta transposed =
     put_int ''transB'' transposed (put_int ''transA'' transposed
       (put_float ''beta'' beta (put_float ''alpha'' one_f32 no_attrs)))"

definition fuse_bias :: "node list \<Rightarrow> tensor_map \<Rightarrow> shapes \<Rightarrow> tensor_usage \<Rightarrow> nat \<Rightarrow> node \<Rightarrow> fusion \<Rightarrow> fusion option" where
  "fuse_bias nodes weights known_shapes usage i nd st = do {
     guard (n_op nd = ''Add'');
     guard (length (n_inputs nd) \<ge> 2);
     let matmul_tensor = n_inputs nd ! 0;
     let bias_tensor = n_inputs nd ! 1;
     guard (is_fusable_intermediate usage matmul_tensor);
     matmul_idx \<leftarrow> producers nodes matmul_tensor;
     guard (untouched st matmul_idx);
     let matmul = nodes ! matmul_idx;
     guard (n_op matmul = ''MatMul'');
     guard (length (n_inputs matmul) \<ge> 2);
     let a_name = n_inputs matmul ! 0;
     let b_name = n_inputs matmul ! 1;
     guard (known_rank a_name weights known_shapes = Some 2 \<and> known_rank b_name weights known_shapes = Some 2);
     bias_t \<leftarrow> weights bias_tensor;
     guard (length (t_shape bias_t) = 1);
     Some (replace matmul_idx
       (Node ''Gemm'' (n_name matmul @ ''_fused_gemm'') [a_name, b_name, bias_tensor] (n_outputs nd) (gemm_attrs one_f32 0)) [i] st)
   }"

definition fuse_matmul_add :: "node list \<Rightarrow> tensor_map \<Rightarrow> shapes \<Rightarrow> string list \<Rightarrow> node list" where
  "fuse_matmul_add nodes weights known_shapes output_names =
     (if length nodes < 2 then nodes
      else rebuild nodes (fuse_loop (fuse_bias nodes weights known_shapes (usage_new nodes output_names)) nodes
        (fusion_start Map.empty [])))"

section \<open>MatMul, then Transpose\<close>

definition fuse_transposed :: "node list \<Rightarrow> tensor_usage \<Rightarrow> nat \<Rightarrow> node \<Rightarrow> fusion \<Rightarrow> fusion option" where
  "fuse_transposed nodes usage i nd st = do {
     guard (n_op nd = ''Transpose'');
     matmul_out \<leftarrow> slot (n_inputs nd) 0;
     perm \<leftarrow> map_of (at_int_lists (n_attrs nd)) ''perm'';
     guard (length perm = 2);
     guard (perm ! 0 = 1 \<and> perm ! 1 = 0);
     guard (is_fusable_intermediate usage matmul_out);
     matmul_idx \<leftarrow> producers nodes matmul_out;
     guard (untouched st matmul_idx);
     let matmul = nodes ! matmul_idx;
     guard (n_op matmul = ''MatMul'');
     guard (length (n_inputs matmul) \<ge> 2);
     let a_input = n_inputs matmul ! 0;
     let b_input = n_inputs matmul ! 1;
     Some (replace matmul_idx
       (Node ''Gemm'' (n_name matmul @ ''_fused_matmul_transpose'') [b_input, a_input] (n_outputs nd) (gemm_attrs 0 1)) [i] st)
   }"

definition fuse_matmul_transpose :: "node list \<Rightarrow> string list \<Rightarrow> node list" where
  "fuse_matmul_transpose nodes output_names =
     (if length nodes < 2 then nodes
      else rebuild nodes (fuse_loop (fuse_transposed nodes (usage_new nodes output_names)) nodes (fusion_start Map.empty [])))"

section \<open>Add, then MatMul\<close>

text \<open>\<open>bias @ W\<close>, in the order of the code's loops.\<close>

definition vector_matrix :: "f32 list \<Rightarrow> f32 list \<Rightarrow> nat \<Rightarrow> nat \<Rightarrow> f32 list" where
  "vector_matrix bias w k n =
     map (\<lambda>j. fold (\<lambda>ki sum. f32_add sum (f32_mul (bias ! ki) (w ! (ki * n + j)))) [0..<k] 0) [0..<n]"

text \<open>Which input of the Add is the data and which the bias: the second is tried first.\<close>

definition add_operands :: "tensor_map \<Rightarrow> node \<Rightarrow> (string \<times> string) option" where
  "add_operands weights add =
     (let inp0 = n_inputs add ! 0; inp1 = n_inputs add ! 1 in
      case weights inp1 of
        Some b \<Rightarrow> if length (t_shape b) = 1 then Some (inp0, inp1) else None
      | None \<Rightarrow> (case weights inp0 of
          Some b \<Rightarrow> if length (t_shape b) = 1 then Some (inp1, inp0) else None
        | None \<Rightarrow> None))"

definition fuse_input_bias :: "node list \<Rightarrow> shapes \<Rightarrow> tensor_usage \<Rightarrow> nat \<Rightarrow> node \<Rightarrow> fusion \<Rightarrow> fusion option" where
  "fuse_input_bias nodes known_shapes usage i nd st = do {
     guard (n_op nd = ''MatMul'');
     guard (length (n_inputs nd) \<ge> 2);
     let add_out = n_inputs nd ! 0;
     let w_name = n_inputs nd ! 1;
     w_tensor \<leftarrow> fu_weights st w_name;
     guard (length (t_shape w_tensor) = 2);
     guard (is_fusable_intermediate usage add_out);
     add_idx \<leftarrow> producers nodes add_out;
     guard (untouched st add_idx);
     let add = nodes ! add_idx;
     guard (n_op add = ''Add'');
     guard (length (n_inputs add) \<ge> 2);
     (x_name, bias_name) \<leftarrow> add_operands (fu_weights st) add;
     guard (known_rank x_name (fu_weights st) known_shapes = Some 2);
     bias \<leftarrow> fu_weights st bias_name;
     let k = t_shape w_tensor ! 0;
     let n = t_shape w_tensor ! 1;
     guard (t_shape bias = [k]);
     name_base \<leftarrow> first_name (n_outputs nd);
     let (fused_bias_name, st) = add_weight name_base ''_fused_add_matmul_bias''
       \<lparr>t_data = vector_matrix (t_data bias) (t_data w_tensor) k n, t_shape = [n]\<rparr> st;
     Some (replace add_idx
       (Node ''Gemm'' (n_name add @ ''_fused_add_matmul_gemm'') [x_name, w_name, fused_bias_name] (n_outputs nd)
         (gemm_attrs one_f32 0)) [i] st)
   }"

definition fuse_add_matmul_to_gemm ::
  "(tensor_map \<Rightarrow> string list) \<Rightarrow> shapes \<Rightarrow> string list \<Rightarrow> node list \<times> tensor_map \<Rightarrow> node list \<times> tensor_map" where
  "fuse_add_matmul_to_gemm key_order known_shapes output_names = (\<lambda>(nodes, weights).
     if length nodes < 2 then (nodes, weights)
     else let st = fuse_loop (fuse_input_bias nodes known_shapes (usage_new nodes output_names)) nodes
                     (fusion_start weights (allocator_new nodes (key_order weights)))
          in (rebuild nodes st, fu_weights st))"

end
