(* ===== verification/FuseNorm.thy ===== *)
theory FuseNorm
  imports Fusion
begin

text \<open>
  Chains of arithmetic that are a normalisation: LayerNormalization over the last axes
  (\<open>src/optimizer/fusion/matmul/layer_norm.rs\<close>) and the normalisation of every plane over its
  spatial axes (\<open>src/optimizer/fusion/instance_norm.rs\<close>).
\<close>

section \<open>Axes\<close>

text \<open>The axes of a reduction: the attribute, or else the constant second input.\<close>

definition reduce_axes :: "node \<Rightarrow> tensor_map \<Rightarrow> int list option" where
  "reduce_axes nd weights =
     (let attr_axes = attr_ints (n_attrs nd) ''axes'' in
      if attr_axes \<noteq> [] then Some (map sint attr_axes)
      else do {
        axes_name \<leftarrow> slot (n_inputs nd) 1;
        guard (axes_name \<noteq> []);
        axes_tensor \<leftarrow> weights axes_name;
        guard (t_data axes_tensor \<noteq> []);
        Some (map f32_to_i64 (t_data axes_tensor))
      })"

fun axes_from_end :: "nat option \<Rightarrow> int list \<Rightarrow> int list option" where
  "axes_from_end rank [] = Some []"
| "axes_from_end rank (axis # axes) = do {
     normalized \<leftarrow>
       (if axis < 0 then (case rank of Some r \<Rightarrow> if axis < - int r then None else Some axis | None \<Rightarrow> Some axis)
        else (case rank of Some r \<Rightarrow> if axis \<ge> int r then None else Some (axis - int r) | None \<Rightarrow> None));
     rest \<leftarrow> axes_from_end rank axes;
     Some (normalized # rest)
   }"

definition trailing_reduce_axis :: "node \<Rightarrow> tensor_map \<Rightarrow> shapes \<Rightarrow> int option" where
  "trailing_reduce_axis nd weights known_shapes = do {
     guard (attr_i (n_attrs nd) ''keepdims'' 1 = 1);
     raw \<leftarrow> reduce_axes nd weights;
     let rank = slot (n_inputs nd) 0 \<bind> (\<lambda>x_name. known_rank x_name weights known_shapes);
     axes \<leftarrow> axes_from_end rank raw;
     let from_end = remdups_adj (sort axes);
     let k = length from_end;
     guard (from_end = map (\<lambda>offset. int offset - int k) [0..<k]);
     Some (- int k)
   }"

definition reduces_over_spatial_axes :: "node \<Rightarrow> tensor_map \<Rightarrow> shapes \<Rightarrow> bool" where
  "reduces_over_spatial_axes nd weights known_shapes =
     ((do {
        guard (attr_i (n_attrs nd) ''keepdims'' 1 = 1);
        raw \<leftarrow> reduce_axes nd weights;
        x_name \<leftarrow> slot (n_inputs nd) 0;
        rank \<leftarrow> known_rank x_name weights known_shapes;
        guard (rank \<ge> 3);
        let axes = map (\<lambda>axis. if axis < 0 then axis + int rank else axis) raw;
        guard (list_all (\<lambda>axis. 0 \<le> axis \<and> axis < int rank) axes);
        guard (remdups_adj (sort axes) = map int [2..<rank])
      }) = Some ())"

section \<open>LayerNormalization\<close>

text \<open>The first element that a search accepts.\<close>

fun first_some :: "('a \<Rightarrow> 'b option) \<Rightarrow> 'a list \<Rightarrow> 'b option" where
  "first_some f [] = None"
| "first_some f (x # xs) = (case f x of Some y \<Rightarrow> Some y | None \<Rightarrow> first_some f xs)"

definition fusable_sole_output :: "tensor_usage \<Rightarrow> node \<Rightarrow> bool" where
  "fusable_sole_output usage nd =
     (case n_outputs nd of name # _ \<Rightarrow> is_fusable_intermediate usage name | [] \<Rightarrow> False)"

definition is_eps :: "tensor \<Rightarrow> bool" where
  "is_eps t \<longleftrightarrow> length (t_data t) = 1 \<and>
     \<not> f32_nan (hd (t_data t)) \<and> \<not> f32_less (hd (t_data t)) 0 \<and> f32_less (hd (t_data t)) hundredth_f32"

text \<open>The constant summand below 0.01 and the other one; the second summand is tried first.\<close>

definition eps_operand :: "tensor_map \<Rightarrow> string \<Rightarrow> f32 option" where
  "eps_operand weights name = (case weights name of Some t \<Rightarrow> if is_eps t then Some (hd (t_data t)) else None | None \<Rightarrow> None)"

definition var_and_eps :: "tensor_map \<Rightarrow> node \<Rightarrow> (string \<times> f32) option" where
  "var_and_eps weights add =
     (let inp0 = n_inputs add ! 0; inp1 = n_inputs add ! 1 in
      or_else (map_option (Pair inp0) (eps_operand weights inp1)) (map_option (Pair inp1) (eps_operand weights inp0)))"

text \<open>Of a node that multiplies (or adds) \<open>name\<close> and a constant: the constant's name.\<close>

definition constant_partner :: "tensor_map \<Rightarrow> string \<Rightarrow> node \<Rightarrow> string option" where
  "constant_partner weights name nd =
     (if n_inputs nd ! 0 = name \<and> weights (n_inputs nd ! 1) \<noteq> None then Some (n_inputs nd ! 1)
      else if n_inputs nd ! 1 = name \<and> weights (n_inputs nd ! 0) \<noteq> None then Some (n_inputs nd ! 0)
      else None)"

definition find_affine :: "node list \<Rightarrow> tensor_map \<Rightarrow> fusion \<Rightarrow> string \<Rightarrow> nat list \<Rightarrow> string \<Rightarrow> (nat \<times> string \<times> string) option" where
  "find_affine nodes weights st op excluded name =
     first_some (\<lambda>(j, next_node). do {
         guard (j \<notin> set (fu_skip st) \<and> j \<notin> set excluded);
         guard (n_op next_node = op);
         guard (length (n_inputs next_node) \<ge> 2 \<and> n_outputs next_node \<noteq> []);
         partner \<leftarrow> constant_partner weights name next_node;
         Some (j, partner, hd (n_outputs next_node))
       }) (enumerate 0 nodes)"

text \<open>A producer that no earlier match removed.\<close>

definition unskipped_producer :: "node list \<Rightarrow> fusion \<Rightarrow> string \<Rightarrow> nat option" where
  "unskipped_producer nodes st name = do {
     idx \<leftarrow> producers nodes name;
     guard (idx \<notin> set (fu_skip st));
     Some idx
   }"

definition fuse_norm_chain :: "node list \<Rightarrow> tensor_map \<Rightarrow> shapes \<Rightarrow> tensor_usage \<Rightarrow> nat \<Rightarrow> node \<Rightarrow> fusion \<Rightarrow> fusion option" where
  "fuse_norm_chain nodes weights known_shapes usage i nd st = do {
     guard (n_op nd = ''Div'');
     guard (length (n_inputs nd) \<ge> 2 \<and> n_outputs nd \<noteq> []);
     sqrt_idx \<leftarrow> unskipped_producer nodes st (n_inputs nd ! 1);
     guard (n_op (nodes ! sqrt_idx) = ''Sqrt'');
     guard (fusable_sole_output usage (nodes ! sqrt_idx));
     sqrt_input \<leftarrow> slot (n_inputs (nodes ! sqrt_idx)) 0;
     add_eps_idx \<leftarrow> unskipped_producer nodes st sqrt_input;
     guard (n_op (nodes ! add_eps_idx) = ''Add'');
     guard (fusable_sole_output usage (nodes ! add_eps_idx));
     guard (length (n_inputs (nodes ! add_eps_idx)) \<ge> 2);
     (var_tensor, epsilon) \<leftarrow> var_and_eps weights (nodes ! add_eps_idx);
     var_reduce_idx \<leftarrow> unskipped_producer nodes st var_tensor;
     guard (n_op (nodes ! var_reduce_idx) = ''ReduceMean'');
     guard (fusable_sole_output usage (nodes ! var_reduce_idx));
     sq \<leftarrow> slot (n_inputs (nodes ! var_reduce_idx)) 0;
     pow_idx \<leftarrow> unskipped_producer nodes st sq;
     guard (n_op (nodes ! pow_idx) = ''Pow'');
     guard (fusable_sole_output usage (nodes ! pow_idx));
     guard (length (n_inputs (nodes ! pow_idx)) \<ge> 2);
     exp_t \<leftarrow> weights (n_inputs (nodes ! pow_idx) ! 1);
     guard (length (t_data exp_t) = 1 \<and> f32_near e6_f32 two_f32 (hd (t_data exp_t)));
     let diff = n_inputs (nodes ! pow_idx) ! 0;
     guard (diff = n_inputs nd ! 0);
     guard (consumers usage diff = 2 \<and> \<not> is_graph_output usage diff);
     sub_idx \<leftarrow> unskipped_producer nodes st diff;
     guard (n_op (nodes ! sub_idx) = ''Sub'');
     guard (length (n_inputs (nodes ! sub_idx)) \<ge> 2);
     let x_name = n_inputs (nodes ! sub_idx) ! 0;
     mean_reduce_idx \<leftarrow> unskipped_producer nodes st (n_inputs (nodes ! sub_idx) ! 1);
     guard (n_op (nodes ! mean_reduce_idx) = ''ReduceMean'');
     guard (fusable_sole_output usage (nodes ! mean_reduce_idx));
     guard (slot (n_inputs (nodes ! mean_reduce_idx)) 0 = Some x_name);
     axis \<leftarrow> trailing_reduce_axis (nodes ! mean_reduce_idx) weights known_shapes;
     var_axis \<leftarrow> trailing_reduce_axis (nodes ! var_reduce_idx) weights known_shapes;
     guard (axis = var_axis);
     let div_out = hd (n_outputs nd);
     guard (is_fusable_intermediate usage div_out);
     (j, scale, mul_out) \<leftarrow> find_affine nodes weights st ''Mul'' [i] div_out;
     let affine = (if is_fusable_intermediate usage mul_out then find_affine nodes weights st ''Add'' [j, i] mul_out else None);
     let final_output = (case affine of Some (k, b, add_out) \<Rightarrow> add_out | None \<Rightarrow> mul_out);
     let bias = (case affine of Some (k, b, add_out) \<Rightarrow> [b] | None \<Rightarrow> []);
     let extra_skip = (case affine of Some (k, b, add_out) \<Rightarrow> [j, k] | None \<Rightarrow> [j]);
     Some (replace mean_reduce_idx
       (Node ''LayerNormalization'' (n_name (nodes ! mean_reduce_idx) @ ''_fused_layernorm'') ([x_name, scale] @ bias) [final_output]
         (put_int ''axis'' (of_int axis) (put_float ''epsilon'' epsilon no_attrs)))
       ([sub_idx, pow_idx, var_reduce_idx, add_eps_idx, sqrt_idx, i] @ extra_skip) st)
   }"

definition fuse_layer_norm :: "node list \<Rightarrow> tensor_map \<Rightarrow> shapes \<Rightarrow> string list \<Rightarrow> node list" where
  "fuse_layer_norm nodes weights known_shapes output_names =
     (if length nodes < 7 then nodes
      else rebuild nodes (fuse_loop (fuse_norm_chain nodes weights known_shapes (usage_new nodes output_names)) nodes
        (fusion_start Map.empty [])))"

section \<open>Normalisation over the spatial axes\<close>

datatype square_form = MulSelf | SquarePow

definition diff_slots :: "square_form \<Rightarrow> nat" where
  "diff_slots form = (case form of MulSelf \<Rightarrow> 2 | SquarePow \<Rightarrow> 1)"

definition usable_eps :: "f32 \<Rightarrow> bool" where
  "usable_eps v \<longleftrightarrow> f32_finite v \<and> \<not> f32_less v 0"

definition resolve_epsilon :: "node \<Rightarrow> tensor_map \<Rightarrow> (string \<times> f32) option" where
  "resolve_epsilon add weights =
     (if length (n_inputs add) < 2 then None
      else
        let lhs = n_inputs add ! 0; rhs = n_inputs add ! 1;
            from = (\<lambda>eps_name var_name.
              case const_scalar weights eps_name of
                Some eps \<Rightarrow> if usable_eps eps \<and> const_scalar weights var_name = None then Some (var_name, eps) else None
              | None \<Rightarrow> None)
        in or_else (from rhs lhs) (from lhs rhs))"

text \<open>The producers of this pass leave out the empty name.\<close>

definition named_producer :: "node list \<Rightarrow> string \<Rightarrow> nat option" where
  "named_producer nodes name = (if name = [] then None else producers nodes name)"

definition reciprocal_operand :: "node list \<Rightarrow> node \<Rightarrow> (string \<times> string) option" where
  "reciprocal_operand nodes mul =
     (let is_reciprocal = (\<lambda>name. case named_producer nodes name of
            Some idx \<Rightarrow> n_op (nodes ! idx) \<in> {''Reciprocal'', ''Div''}
          | None \<Rightarrow> False);
          lhs = n_inputs mul ! 0; rhs = n_inputs mul ! 1
      in if \<not> is_reciprocal lhs \<and> is_reciprocal rhs then Some (lhs, rhs)
         else if is_reciprocal lhs \<and> \<not> is_reciprocal rhs then Some (rhs, lhs)
         else None)"

record instance_match =
  im_consumed :: "nat list"
  im_x_name :: string
  im_out_name :: string
  im_epsilon :: f32

text \<open>The name of \<open>diff\<close>, the name of \<open>std\<close> and the node of the reciprocal, if there is one.\<close>

definition normalising_operands ::
  "node list \<Rightarrow> tensor_usage \<Rightarrow> tensor_map \<Rightarrow> node \<Rightarrow> (string \<times> string \<times> nat list) option" where
  "normalising_operands nodes usage weights norm =
     (if n_op norm = ''Mul'' then do {
        (diff, recip_out) \<leftarrow> reciprocal_operand nodes norm;
        recip_idx \<leftarrow> named_producer nodes recip_out;
        guard (is_fusable_intermediate usage recip_out);
        let recip = nodes ! recip_idx;
        std \<leftarrow>
          (if n_op recip = ''Reciprocal'' then slot (n_inputs recip) 0
           else if n_op recip = ''Div'' then do {
             guard (length (n_inputs recip) \<ge> 2);
             one \<leftarrow> const_scalar weights (n_inputs recip ! 0);
             guard (\<not> f32_greater (f32_abs (f32_sub one one_f32)) e6_f32);
             Some (n_inputs recip ! 1)
           }
           else None);
        Some (diff, std, [recip_idx])
      }
      else if n_op norm = ''Div'' then Some (n_inputs norm ! 0, n_inputs norm ! 1, [])
      else None)"

definition square_of :: "tensor_map \<Rightarrow> string \<Rightarrow> node \<Rightarrow> square_form option" where
  "square_of weights diff_name square =
     (if length (n_inputs square) < 2 then None
      else if n_op square = ''Mul'' \<and> n_inputs square ! 0 = diff_name \<and> n_inputs square ! 1 = diff_name then Some MulSelf
      else if n_op square = ''Pow'' \<and> n_inputs square ! 0 = diff_name then do {
        exponent \<leftarrow> const_scalar weights (n_inputs square ! 1);
        guard (\<not> f32_greater (f32_abs (f32_sub exponent two_f32)) e6_f32);
        Some SquarePow
      }
      else None)"

definition match_chain ::
  "node list \<Rightarrow> nat \<Rightarrow> tensor_usage \<Rightarrow> tensor_map \<Rightarrow> shapes \<Rightarrow> instance_match option" where
  "match_chain nodes norm_idx usage weights known_shapes = do {
     let norm = nodes ! norm_idx;
     guard (length (n_inputs norm) \<ge> 2);
     out_name \<leftarrow> first_name (n_outputs norm);
     (diff_name, std_name, recip) \<leftarrow> normalising_operands nodes usage weights norm;
     guard (is_fusable_intermediate usage std_name);
     sqrt_idx \<leftarrow> named_producer nodes std_name;
     guard (n_op (nodes ! sqrt_idx) = ''Sqrt'');
     vare_name \<leftarrow> slot (n_inputs (nodes ! sqrt_idx)) 0;
     guard (is_fusable_intermediate usage vare_name);
     add_idx \<leftarrow> named_producer nodes vare_name;
     guard (n_op (nodes ! add_idx) = ''Add'');
     (var_name, epsilon) \<leftarrow> resolve_epsilon (nodes ! add_idx) weights;
     guard (is_fusable_intermediate usage var_name);
     var_reduce_idx \<leftarrow> named_producer nodes var_name;
     guard (n_op (nodes ! var_reduce_idx) = ''ReduceMean'');
     guard (reduces_over_spatial_axes (nodes ! var_reduce_idx) weights known_shapes);
     sq_name \<leftarrow> slot (n_inputs (nodes ! var_reduce_idx)) 0;
     guard (is_fusable_intermediate usage sq_name);
     square_idx \<leftarrow> named_producer nodes sq_name;
     form \<leftarrow> square_of weights diff_name (nodes ! square_idx);
     guard (consumers usage diff_name = diff_slots form + 1 \<and> \<not> is_graph_output usage diff_name);
     sub_idx \<leftarrow> named_producer nodes diff_name;
     guard (n_op (nodes ! sub_idx) = ''Sub'');
     guard (length (n_inputs (nodes ! sub_idx)) \<ge> 2);
     let x_name = n_inputs (nodes ! sub_idx) ! 0;
     let mean_name = n_inputs (nodes ! sub_idx) ! 1;
     guard (is_fusable_intermediate usage mean_name);
     mean_reduce_idx \<leftarrow> named_producer nodes mean_name;
     guard (n_op (nodes ! mean_reduce_idx) = ''ReduceMean'');
     guard (slot (n_inputs (nodes ! mean_reduce_idx)) 0 = Some x_name);
     guard (reduces_over_spatial_axes (nodes ! mean_reduce_idx) weights known_shapes);
     let consumed = [norm_idx] @ recip @ [sqrt_idx, add_idx, var_reduce_idx, square_idx, sub_idx, mean_reduce_idx];
     guard (distinct consumed);
     Some \<lparr>im_consumed = consumed, im_x_name = x_name, im_out_name = out_name, im_epsilon = epsilon\<rparr>
   }"

text \<open>
  The code keeps a set of all indices a match has taken: those that are skipped and the
  anchors, which are the indices that have a replacement.
\<close>

definition fuse_instance :: "node list \<Rightarrow> tensor_map \<Rightarrow> shapes \<Rightarrow> tensor_usage \<Rightarrow> nat \<Rightarrow> node \<Rightarrow> fusion \<Rightarrow> fusion option" where
  "fuse_instance nodes weights known_shapes usage i nd st = do {
     guard (untouched st i);
     m \<leftarrow> match_chain nodes i usage weights known_shapes;
     guard (list_all (untouched st) (im_consumed m));
     let anchor = Min (set (im_consumed m));
     Some (replace anchor
       (Node ''OxiInstanceNorm'' (n_name (nodes ! anchor) @ ''_fused_instancenorm'') [im_x_name m] [im_out_name m]
         (put_float ''epsilon'' (im_epsilon m) no_attrs))
       (filter (\<lambda>idx. idx \<noteq> anchor) (im_consumed m)) st)
   }"

definition fuse_instance_norm :: "node list \<Rightarrow> tensor_map \<Rightarrow> shapes \<Rightarrow> string list \<Rightarrow> node list" where
  "fuse_instance_norm nodes weights known_shapes output_names =
     (if length nodes < 7 then nodes
      else rebuild nodes (fuse_loop (fuse_instance nodes weights known_shapes (usage_new nodes output_names)) nodes
        (fusion_start Map.empty [])))"

end
