(* ===== verification/Optimize.thy ===== *)
theory Optimize
  imports SessionBuild FuseSimplify FuseConv FuseMatmul FuseNorm
begin

text \<open>
  The passes of \<open>optimize_with_input_shapes\<close> (\<open>src/optimizer/mod.rs\<close>) after dead-node
  elimination, in their order, as the passes of the pipeline in \<open>SessionBuild\<close>. The inference of
  shapes stays an argument. The key order of a weight table is needed for the names that the
  passes allocate; nothing depends on which order it is.
\<close>

definition fusions ::
  "(tensor_map \<Rightarrow> string list) \<Rightarrow> (node list \<Rightarrow> tensor_map \<Rightarrow> shapes \<Rightarrow> shapes) \<Rightarrow> (string \<Rightarrow> operator option) \<Rightarrow>
     shapes \<Rightarrow> string list \<Rightarrow> node list \<times> tensor_map \<Rightarrow> node list \<times> tensor_map" where
  "fusions key_order infer_shapes registry input_shapes output_names = (\<lambda>(nodes, weights).
     let nodes = eliminate_dropout_inference weights output_names nodes;
         shapes = infer_shapes nodes weights input_shapes;
         nodes = fuse_matmul_add nodes weights shapes output_names;
         (nodes, weights) = fuse_conv_batchnorm key_order output_names (nodes, weights);
         nodes = fuse_conv_relu nodes weights output_names;
         nodes = fuse_conv_clip_to_conv_relu6 nodes weights output_names;
         nodes = fuse_mul_sigmoid_to_silu nodes output_names;
         nodes = fuse_div_sqrt_to_rsqrt nodes weights;
         pre_fold_shapes = infer_shapes nodes weights input_shapes;
         (nodes, weights) = fold_batch_norm_inference key_order pre_fold_shapes (nodes, weights);
         nodes = fuse_layer_norm nodes weights pre_fold_shapes output_names;
         nodes = (if registry ''OxiInstanceNorm'' \<noteq> None then fuse_instance_norm nodes weights pre_fold_shapes output_names
                  else nodes);
         nodes = cancel_consecutive_transpose nodes output_names;
         nodes = fuse_matmul_transpose nodes output_names;
         (nodes, weights) = fuse_add_matmul_to_gemm key_order pre_fold_shapes output_names (nodes, weights);
         (nodes, weights) = fuse_gather_composition key_order output_names (nodes, weights);
         nodes = (if registry ''ConvAddRelu'' \<noteq> None then fuse_conv_add_relu nodes output_names else nodes);
         nodes = simplify_transpose_reshape nodes weights pre_fold_shapes output_names;
         nodes = cancel_consecutive_reshape nodes weights pre_fold_shapes output_names
     in (nodes, weights))"

definition standard_passes ::
  "(tensor_map \<Rightarrow> string list) \<Rightarrow> (string \<Rightarrow> string) \<Rightarrow> (node list \<Rightarrow> tensor_map \<Rightarrow> shapes \<Rightarrow> shapes) \<Rightarrow>
     (string \<Rightarrow> operator option) \<Rightarrow> passes" where
  "standard_passes key_order debug infer_shapes registry =
     \<lparr>ps_infer_shapes = infer_shapes,
      ps_cse = eliminate_common_subexpressions debug,
      ps_fusions = fusions key_order infer_shapes registry\<rparr>"

end
