(* ===== verification/FusionProof.thy ===== *)
theory FusionProof
  imports Fusion Ordering
begin

text \<open>
  What the fusion passes have in common: which nodes and names the result has, and that the
  declared outputs of the graph stay produced. The contract of a pass is the locale
  \<open>output_keeping\<close>.
\<close>

section \<open>The result of a pass\<close>

text \<open>The node that stands at an index when the pass ends.\<close>

definition node_at :: "node list \<Rightarrow> fusion \<Rightarrow> nat \<Rightarrow> node" where
  "node_at nodes st i =
     (case fu_replacements st i of Some fused \<Rightarrow> fused | None \<Rightarrow> redirect_node (fu_redirects st) (nodes ! i))"

definition remaining :: "node list \<Rightarrow> fusion \<Rightarrow> nat list" where
  "remaining nodes st = filter (\<lambda>i. i \<notin> set (fu_skip st)) [0..<length nodes]"

lemma enumerate_upt: "enumerate 0 xs = map (\<lambda>i. (i, xs ! i)) [0..<length xs]"
  by (rule nth_equalityI) (simp_all add: nth_enumerate_eq)

lemma rebuild_eq: "rebuild nodes st = map (node_at nodes st) (remaining nodes st)"
  unfolding rebuild_def enumerate_upt filter_map remaining_def by (simp add: comp_def node_at_def)

lemma n_outputs_redirect [simp]: "n_outputs (redirect_node red nd) = n_outputs nd"
  by (simp add: redirect_node_def)

lemma outputs_at: "n_outputs (node_at nodes st i) =
    (case fu_replacements st i of Some fused \<Rightarrow> n_outputs fused | None \<Rightarrow> n_outputs (nodes ! i))"
  by (simp add: node_at_def split: option.split)

definition surviving :: "node list \<Rightarrow> fusion \<Rightarrow> string set" where
  "surviving nodes st = {y. \<exists>i<length nodes. i \<notin> set (fu_skip st) \<and> y \<in> set (n_outputs (node_at nodes st i))}"

lemma produced_rebuild: "produced (rebuild nodes st) = surviving nodes st - {[]}"
  unfolding produced_def rebuild_eq remaining_def surviving_def by auto

lemma surviving_start: "surviving nodes (fusion_start weights names) = (\<Union>nd\<in>set nodes. set (n_outputs nd))"
  unfolding surviving_def outputs_at by (simp add: set_conv_nth [of nodes]) blast

lemma outputs_of_producer:
  assumes "producers nodes x = Some p" and "length (n_outputs (nodes ! p)) = 1"
  shows "n_outputs (nodes ! p) = [x]"
  using producers_Some [OF assms(1)] assms(2) by (auto simp: length_Suc_conv)

lemma surviving_replace:
  assumes "k < length nodes" and "k \<notin> set (fu_skip st)" and "k \<notin> set removed"
    and "fu_replacements st k = None" and "\<And>j. j \<in> set removed \<Longrightarrow> fu_replacements st j = None"
    and "\<And>j y. j \<in> insert k (set removed) \<Longrightarrow> y \<in> set (n_outputs (nodes ! j)) \<Longrightarrow> y \<in> outs \<Longrightarrow> y \<in> set (n_outputs fused)"
  shows "surviving nodes st \<inter> outs \<subseteq> surviving nodes (replace k fused removed st)"
proof
  fix y assume "y \<in> surviving nodes st \<inter> outs"
  then obtain i where i: "i < length nodes" "i \<notin> set (fu_skip st)" "y \<in> set (n_outputs (node_at nodes st i))" "y \<in> outs"
    by (auto simp: surviving_def)
  show "y \<in> surviving nodes (replace k fused removed st)"
  proof (cases "i \<in> insert k (set removed)")
    case True
    with i assms(4,5) have "y \<in> set (n_outputs (nodes ! i))" by (auto simp: outputs_at)
    with True i assms(6) have "y \<in> set (n_outputs fused)" by blast
    with assms(1-3) show ?thesis unfolding surviving_def by (auto simp: outputs_at intro!: exI [of _ k])
  next
    case False
    with i show ?thesis unfolding surviving_def by (auto simp: outputs_at intro!: exI [of _ i])
  qed
qed

lemma surviving_remove:
  assumes "\<And>j. j \<in> set removed \<Longrightarrow> fu_replacements st j = None"
    and "\<And>j y. j \<in> set removed \<Longrightarrow> y \<in> set (n_outputs (nodes ! j)) \<Longrightarrow> y \<notin> outs"
  shows "surviving nodes st \<inter> outs \<subseteq> surviving nodes (remove_redirecting removed x x' st)"
proof
  fix y assume "y \<in> surviving nodes st \<inter> outs"
  then obtain i where i: "i < length nodes" "i \<notin> set (fu_skip st)" "y \<in> set (n_outputs (node_at nodes st i))" "y \<in> outs"
    by (auto simp: surviving_def)
  with assms have "i \<notin> set removed" by (auto simp: outputs_at split: option.splits)
  with i show "y \<in> surviving nodes (remove_redirecting removed x x' st)"
    unfolding surviving_def by (auto simp: outputs_at split: option.splits intro!: exI [of _ i])
qed

lemma surviving_weights [simp]:
  "surviving nodes (st\<lparr>fu_names := names, fu_weights := weights\<rparr>) = surviving nodes st"
  by (simp add: surviving_def outputs_at)

section \<open>The contract of a pass\<close>

definition declared :: "string list \<Rightarrow> string set" where
  "declared output_names = set output_names - {[]}"

lemma is_graph_output_new [simp]: "is_graph_output (usage_new nodes output_names) x \<longleftrightarrow> x \<in> declared output_names"
  by (auto simp: is_graph_output_def usage_new_def declared_def)

lemma fusable_not_declared: "is_fusable_intermediate (usage_new nodes output_names) x \<Longrightarrow> x \<notin> declared output_names"
  by (simp add: is_fusable_intermediate_def)

locale output_keeping =
  fixes nodes :: "node list" and outs :: "string set" and body :: "nat \<Rightarrow> node \<Rightarrow> fusion \<Rightarrow> fusion option"
    and inv :: "nat \<Rightarrow> fusion \<Rightarrow> bool"
  assumes later: "inv i st \<Longrightarrow> inv (Suc i) st"
    and step_inv: "i < length nodes \<Longrightarrow> i \<notin> set (fu_skip st) \<Longrightarrow> inv i st \<Longrightarrow> body i (nodes ! i) st = Some st' \<Longrightarrow> inv (Suc i) st'"
    and step_keeps: "i < length nodes \<Longrightarrow> i \<notin> set (fu_skip st) \<Longrightarrow> inv i st \<Longrightarrow> body i (nodes ! i) st = Some st' \<Longrightarrow>
      surviving nodes st \<inter> outs \<subseteq> surviving nodes st'"
begin

lemma node_step:
  assumes "i < length nodes" and "inv i st"
  shows "inv (Suc i) (fuse_node body (i, nodes ! i) st) \<and>
    surviving nodes st \<inter> outs \<subseteq> surviving nodes (fuse_node body (i, nodes ! i) st)"
  using assms later step_inv step_keeps by (auto simp: fuse_node_def split: option.split)

lemma loop_from:
  "i + n = length nodes \<Longrightarrow> inv i st \<Longrightarrow>
    inv (length nodes) (fold (fuse_node body) (map (\<lambda>i. (i, nodes ! i)) [i..<length nodes]) st) \<and>
    surviving nodes st \<inter> outs \<subseteq> surviving nodes (fold (fuse_node body) (map (\<lambda>i. (i, nodes ! i)) [i..<length nodes]) st)"
proof (induction n arbitrary: i st)
  case (Suc n)
  have upt: "[i..<length nodes] = i # [Suc i..<length nodes]" using Suc.prems(1) by (simp add: upt_conv_Cons)
  let ?st = "fuse_node body (i, nodes ! i) st"
  from Suc.prems have "i < length nodes" "inv i st" by simp_all
  note step = node_step [OF this]
  from Suc.IH [of "Suc i" ?st] Suc.prems step
  show ?case unfolding upt list.map fold_simps comp_def by auto
qed simp

lemma loop_keeps:
  assumes "inv 0 st"
  shows "inv (length nodes) (fuse_loop body nodes st) \<and> surviving nodes st \<inter> outs \<subseteq> surviving nodes (fuse_loop body nodes st)"
proof -
  from loop_from [of 0 "length nodes" st] assms show ?thesis by (simp add: fuse_loop_def enumerate_upt)
qed

lemma rebuild_keeps:
  assumes "inv 0 (fusion_start weights names)"
  shows "produced nodes \<inter> outs \<subseteq> produced (rebuild nodes (fuse_loop body nodes (fusion_start weights names)))"
  using loop_keeps [OF assms] unfolding produced_rebuild by (auto simp: surviving_start produced_def)

end

section \<open>Nodes with one output\<close>

text \<open>The kinds of nodes that the passes look at have one output, except that a Dropout may have a mask.\<close>

definition sole_output_ops :: "string list" where
  "sole_output_ops = [''Transpose'', ''Reshape'', ''Sigmoid'', ''Mul'', ''Div'', ''Sqrt'', ''Gather'', ''Conv'', ''Relu'', ''Clip'',
     ''BatchNormalization'', ''Add'', ''MatMul'', ''ReduceMean'', ''Pow'', ''Sub'', ''Reciprocal'']"

definition sole_outputs :: "node list \<Rightarrow> bool" where
  "sole_outputs nodes \<longleftrightarrow>
     (\<forall>nd\<in>set nodes. (n_op nd \<in> set sole_output_ops \<longrightarrow> length (n_outputs nd) = 1) \<and> (n_op nd = ''Dropout'' \<longrightarrow> length (n_outputs nd) \<le> 2))"

lemma sole_outputs_nth:
  "sole_outputs nodes \<Longrightarrow> i < length nodes \<Longrightarrow> n_op (nodes ! i) \<in> set sole_output_ops \<Longrightarrow> length (n_outputs (nodes ! i)) = 1"
  by (simp add: sole_outputs_def)

text \<open>What the replacements stand at, and that they have one output.\<close>

definition anchored :: "node list \<Rightarrow> string set \<Rightarrow> fusion \<Rightarrow> bool" where
  "anchored nodes ops st \<longleftrightarrow>
     (\<forall>k fused. fu_replacements st k = Some fused \<longrightarrow> n_op (nodes ! k) \<in> ops \<and> length (n_outputs fused) = 1)"

lemma anchored_start [simp]: "anchored nodes ops (fusion_start weights names)"
  by (simp add: anchored_def)

lemma anchored_weights [simp]: "anchored nodes ops (st\<lparr>fu_names := names, fu_weights := weights\<rparr>) = anchored nodes ops st"
  by (simp add: anchored_def)

lemma sole_outputs_rebuild:
  assumes "sole_outputs nodes" and "anchored nodes ops st"
  shows "sole_outputs (rebuild nodes st)"
proof -
  have "(n_op nd \<in> set sole_output_ops \<longrightarrow> length (n_outputs nd) = 1) \<and> (n_op nd = ''Dropout'' \<longrightarrow> length (n_outputs nd) \<le> 2)"
    if nd: "nd \<in> set (rebuild nodes st)" for nd
  proof -
    from nd obtain i where i: "i < length nodes" "nd = node_at nodes st i"
      by (auto simp: rebuild_eq remaining_def)
    show ?thesis
    proof (cases "fu_replacements st i")
      case None
      with i assms(1) show ?thesis by (simp add: node_at_def sole_outputs_def redirect_node_def)
    next
      case (Some fused)
      with i assms(2) show ?thesis by (simp add: node_at_def anchored_def)
    qed
  qed
  then show ?thesis by (simp add: sole_outputs_def)
qed

text \<open>The two ways to fuse a node with the producer of one of its inputs.\<close>

lemma fused_into_producer:
  assumes "sole_outputs nodes" and "anchored nodes ops st" and "i < length nodes" and "producers nodes x = Some p"
    and "is_fusable_intermediate (usage_new nodes output_names) x" and "untouched st p"
    and "n_op (nodes ! i) \<notin> ops" and "n_op (nodes ! p) \<in> ops" and "ops \<subseteq> set sole_output_ops"
    and "n_op (nodes ! i) \<in> set sole_output_ops" and "n_outputs fused = n_outputs (nodes ! i)"
  shows "anchored nodes ops (replace p fused [i] st) \<and>
    surviving nodes st \<inter> declared output_names \<subseteq> surviving nodes (replace p fused [i] st)"
proof
  have p: "p < length nodes" using producers_Some [OF assms(4)] by simp
  have outs: "n_outputs (nodes ! p) = [x]"
    using outputs_of_producer [OF assms(4)] sole_outputs_nth [OF assms(1) p] assms(8,9) by auto
  show "anchored nodes ops (replace p fused [i] st)"
    using assms(2,8,11) sole_outputs_nth [OF assms(1,3,10)] by (auto simp: anchored_def)
  show "surviving nodes st \<inter> declared output_names \<subseteq> surviving nodes (replace p fused [i] st)"
  proof (rule surviving_replace [OF p])
    show "p \<notin> set [i]" using assms(7,8) by auto
    show "fu_replacements st j = None" if "j \<in> set [i]" for j
      using assms(2,7) that by (cases "fu_replacements st i") (auto simp: anchored_def)
    show "y \<in> set (n_outputs fused)" if "j \<in> insert p (set [i])" "y \<in> set (n_outputs (nodes ! j))" "y \<in> declared output_names" for j y
      using that outs fusable_not_declared [OF assms(5)] assms(11) by auto
  qed (use assms(6) in \<open>auto simp: untouched_def\<close>)
qed

lemma fused_into_consumer:
  assumes "sole_outputs nodes" and "anchored nodes ops st" and "i < length nodes" and "i \<notin> set (fu_skip st)"
    and "fu_replacements st i = None" and "producers nodes x = Some p"
    and "is_fusable_intermediate (usage_new nodes output_names) x" and "fu_replacements st p = None" and "p \<noteq> i"
    and "n_op (nodes ! i) \<in> ops" and "ops \<subseteq> set sole_output_ops"
    and "n_op (nodes ! p) \<in> set sole_output_ops" and "n_outputs fused = n_outputs (nodes ! i)"
  shows "anchored nodes ops (replace i fused [p] st) \<and>
    surviving nodes st \<inter> declared output_names \<subseteq> surviving nodes (replace i fused [p] st)"
proof
  have p: "p < length nodes" using producers_Some [OF assms(6)] by simp
  have outs: "n_outputs (nodes ! p) = [x]"
    using outputs_of_producer [OF assms(6)] sole_outputs_nth [OF assms(1) p assms(12)] by simp
  show "anchored nodes ops (replace i fused [p] st)"
    using assms(2,10,11,13) sole_outputs_nth [OF assms(1,3)] by (auto simp: anchored_def)
  show "surviving nodes st \<inter> declared output_names \<subseteq> surviving nodes (replace i fused [p] st)"
  proof (rule surviving_replace [OF assms(3,4)])
    show "y \<in> set (n_outputs fused)" if "j \<in> insert i (set [p])" "y \<in> set (n_outputs (nodes ! j))" "y \<in> declared output_names" for j y
      using that outs fusable_not_declared [OF assms(7)] assms(13) by auto
  qed (use assms(5,8,9) in auto)
qed

section \<open>Readers\<close>

lemma consumers_sum:
  "x \<noteq> [] \<Longrightarrow> consumers (usage_new nodes output_names) x = (\<Sum>i<length nodes. count_list (n_inputs (nodes ! i)) x)"
proof -
  have "length (filter (\<lambda>y. y = x) xs) = count_list xs x" for xs :: "string list" by (induction xs) auto
  then have "length (filter (\<lambda>y. y = x) (concat (map n_inputs nodes))) = sum_list (map (\<lambda>nd. count_list (n_inputs nd) x) nodes)"
    by (induction nodes) simp_all
  then show "x \<noteq> [] \<Longrightarrow> ?thesis"
    by (simp add: consumers_new sum_list_sum_nth atLeast0LessThan)
qed

text \<open>A tensor that is read once has one reader.\<close>

lemma sole_reader:
  assumes "is_fusable_intermediate (usage_new nodes output_names) x" and "a < length nodes" and "b < length nodes"
    and "x \<in> set (n_inputs (nodes ! a))" and "x \<in> set (n_inputs (nodes ! b))"
  shows "a = b"
proof (rule ccontr)
  assume "a \<noteq> b"
  have one: "0 < count_list (n_inputs (nodes ! c)) x" if "x \<in> set (n_inputs (nodes ! c))" for c
    using that count_list_0_iff [of "n_inputs (nodes ! c)" x] by simp
  have "(\<Sum>i\<in>{a, b}. count_list (n_inputs (nodes ! i)) x) \<le> (\<Sum>i<length nodes. count_list (n_inputs (nodes ! i)) x)"
    by (rule sum_mono2) (use assms(2,3) in auto)
  moreover have "2 \<le> (\<Sum>i\<in>{a, b}. count_list (n_inputs (nodes ! i)) x)"
    using \<open>a \<noteq> b\<close> one [OF assms(4)] one [OF assms(5)] by simp
  ultimately show False
    using assms(1) consumers_sum [of x nodes output_names] by (simp add: is_fusable_intermediate_def)
qed

text \<open>Whoever read a node that was replaced at its producer's place is removed.\<close>

definition readers_removed :: "node list \<Rightarrow> fusion \<Rightarrow> bool" where
  "readers_removed nodes st \<longleftrightarrow>
     (\<forall>k x a. fu_replacements st k \<noteq> None \<longrightarrow> x \<in> set (n_outputs (nodes ! k)) \<longrightarrow> a < length nodes \<longrightarrow>
        x \<in> set (n_inputs (nodes ! a)) \<longrightarrow> a \<in> set (fu_skip st))"

lemma readers_removed_replace:
  assumes "readers_removed nodes st" and "n_outputs (nodes ! k) = [x]"
    and "is_fusable_intermediate (usage_new nodes output_names) x" and "a \<in> set removed" and "a < length nodes"
    and "x \<in> set (n_inputs (nodes ! a))"
  shows "readers_removed nodes (replace k fused removed st)"
  unfolding readers_removed_def
proof (intro allI impI)
  fix k' x' b
  assume b: "fu_replacements (replace k fused removed st) k' \<noteq> None" "x' \<in> set (n_outputs (nodes ! k'))" "b < length nodes"
    "x' \<in> set (n_inputs (nodes ! b))"
  show "b \<in> set (fu_skip (replace k fused removed st))"
  proof (cases "k' = k")
    case True
    with b assms(2) have "x \<in> set (n_inputs (nodes ! b))" by simp
    from sole_reader [OF assms(3) b(3) assms(5) this assms(6)] assms(4) show ?thesis by simp
  next
    case False
    with b assms(1) show ?thesis unfolding readers_removed_def by auto
  qed
qed

lemma unread_replacement:
  "readers_removed nodes st \<Longrightarrow> x \<in> set (n_outputs (nodes ! k)) \<Longrightarrow> a < length nodes \<Longrightarrow> x \<in> set (n_inputs (nodes ! a)) \<Longrightarrow>
     a \<notin> set (fu_skip st) \<Longrightarrow> fu_replacements st k = None"
  unfolding readers_removed_def by (cases "fu_replacements st k") auto

lemma readers_removed_start [simp]: "readers_removed nodes (fusion_start weights names)"
  by (simp add: readers_removed_def)

end
