(* ===== verification/OptimizeProof.thy ===== *)
theory OptimizeProof
  imports Optimize FusionProof
begin

text \<open>
  The declared outputs of a graph stay produced through the whole pass pipeline, pass by pass.
\<close>

section \<open>Fusions at the producer\<close>

lemmas option_simps = bind_eq_Some_conv Let_def

definition at_producers :: "node list \<Rightarrow> string \<Rightarrow> nat \<Rightarrow> fusion \<Rightarrow> bool" where
  "at_producers nodes op i st \<longleftrightarrow> sole_outputs nodes \<and> anchored nodes {op} st"

lemma at_producers_Suc: "at_producers nodes op i st \<Longrightarrow> at_producers nodes op (Suc i) st"
  by (simp add: at_producers_def)

text \<open>
  The step of a pass that puts a fused node of one output in the place of the producer of an
  input, or in the node's own place; the pass may have added weights before.
\<close>

definition same_nodes :: "fusion \<Rightarrow> fusion \<Rightarrow> bool" where
  "same_nodes st st' \<longleftrightarrow> fu_skip st = fu_skip st' \<and> fu_replacements st = fu_replacements st'"

definition fuses_at_producer ::
  "node list \<Rightarrow> tensor_usage \<Rightarrow> string \<Rightarrow> nat \<Rightarrow> node \<Rightarrow> fusion \<Rightarrow> fusion \<Rightarrow> bool" where
  "fuses_at_producer nodes usage op i nd st st' \<longleftrightarrow>
     (\<exists>x p fused st0. producers nodes x = Some p \<and> is_fusable_intermediate usage x \<and> untouched st p \<and>
        n_op (nodes ! p) = op \<and> n_outputs fused = n_outputs nd \<and> same_nodes st0 st \<and> st' = replace p fused [i] st0)"

lemma fuses_at_producerI:
  "st' = replace p fused [i] st0 \<Longrightarrow> producers nodes x = Some p \<Longrightarrow> is_fusable_intermediate usage x \<Longrightarrow> untouched st p \<Longrightarrow>
     n_op (nodes ! p) = op \<Longrightarrow> n_outputs fused = n_outputs nd \<Longrightarrow>
     fu_skip st0 = fu_skip st \<Longrightarrow> fu_replacements st0 = fu_replacements st \<Longrightarrow> fuses_at_producer nodes usage op i nd st st'"
  by (auto simp: fuses_at_producer_def same_nodes_def)

lemma same_nodes_eqs:
  assumes "same_nodes st0 st"
  shows "surviving nodes st0 = surviving nodes st" and "anchored nodes ops st0 = anchored nodes ops st"
    and "untouched st0 p = untouched st p"
  using assms by (simp_all add: same_nodes_def surviving_def outputs_at anchored_def untouched_def)

lemma at_producers_step:
  assumes "at_producers nodes op i st" and "i < length nodes"
    and "fuses_at_producer nodes (usage_new nodes output_names) op i (nodes ! i) st st'"
    and "n_op (nodes ! i) \<noteq> op" and "op \<in> set sole_output_ops" and "n_op (nodes ! i) \<in> set sole_output_ops"
  shows "at_producers nodes op (Suc i) st' \<and> surviving nodes st \<inter> declared output_names \<subseteq> surviving nodes st'"
proof -
  obtain x p fused st0 where f: "producers nodes x = Some p" "is_fusable_intermediate (usage_new nodes output_names) x"
    "untouched st p" "n_op (nodes ! p) = op" "n_outputs fused = n_outputs (nodes ! i)" "same_nodes st0 st"
    "st' = replace p fused [i] st0"
    using assms(3) by (auto simp: fuses_at_producer_def)
  show ?thesis
    using fused_into_producer [of nodes "{op}" st0 i x p output_names fused] f assms(1,2,4-6)
      same_nodes_eqs [OF f(6)] by (simp add: at_producers_def)
qed

lemmas pass_simps = bind_eq_Some_conv Let_def prod.case_eq_if

lemma fuse_activation_form:
  "fuse_activation nodes weights usage i nd st = Some st' \<Longrightarrow> n_op nd \<in> {''Relu'', ''Clip''} \<and> fuses_at_producer nodes usage ''Conv'' i nd st st'"
  unfolding fuse_activation_def by (auto simp: pass_simps intro!: fuses_at_producerI)

lemma fuse_relu6_form:
  "fuse_relu6 nodes weights usage i nd st = Some st' \<Longrightarrow> n_op nd = ''Clip'' \<and> fuses_at_producer nodes usage ''Conv'' i nd st st'"
  unfolding fuse_relu6_def by (auto simp: pass_simps intro!: fuses_at_producerI)

lemma fuse_batchnorm_form:
  "fuse_batchnorm nodes usage i nd st = Some st' \<Longrightarrow> n_op nd = ''BatchNormalization'' \<and> fuses_at_producer nodes usage ''Conv'' i nd st st'"
  unfolding fuse_batchnorm_def by (auto simp: pass_simps intro!: fuses_at_producerI)

lemma fuse_bias_form:
  "fuse_bias nodes weights known_shapes usage i nd st = Some st' \<Longrightarrow> n_op nd = ''Add'' \<and> fuses_at_producer nodes usage ''MatMul'' i nd st st'"
  unfolding fuse_bias_def by (auto simp: pass_simps intro!: fuses_at_producerI)

lemma fuse_transposed_form:
  "fuse_transposed nodes usage i nd st = Some st' \<Longrightarrow> n_op nd = ''Transpose'' \<and> fuses_at_producer nodes usage ''MatMul'' i nd st st'"
  unfolding fuse_transposed_def by (auto simp: pass_simps intro!: fuses_at_producerI)

lemma fuse_input_bias_form:
  "fuse_input_bias nodes known_shapes usage i nd st = Some st' \<Longrightarrow> n_op nd = ''MatMul'' \<and> fuses_at_producer nodes usage ''Add'' i nd st st'"
  unfolding fuse_input_bias_def
  by (auto simp: pass_simps add_weight_def split: prod.splits intro!: fuses_at_producerI)

locale producer_pass =
  fixes nodes :: "node list" and output_names :: "string list" and body :: "nat \<Rightarrow> node \<Rightarrow> fusion \<Rightarrow> fusion option"
    and op :: string and kinds :: "string set"
  assumes form: "body i nd st = Some st' \<Longrightarrow> n_op nd \<in> kinds \<and> fuses_at_producer nodes (usage_new nodes output_names) op i nd st st'"
    and kinds: "op \<notin> kinds" "insert op kinds \<subseteq> set sole_output_ops"

sublocale producer_pass \<subseteq> output_keeping nodes "declared output_names" body "at_producers nodes op"
proof
  fix i st st'
  assume "i < length nodes" "i \<notin> set (fu_skip st)" "at_producers nodes op i st" "body i (nodes ! i) st = Some st'"
  with at_producers_step [of nodes op i st output_names st'] form [of i "nodes ! i" st st'] kinds
  have "at_producers nodes op (Suc i) st' \<and> surviving nodes st \<inter> declared output_names \<subseteq> surviving nodes st'" by auto
  then show "at_producers nodes op (Suc i) st'" "surviving nodes st \<inter> declared output_names \<subseteq> surviving nodes st'" by simp_all
qed (rule at_producers_Suc)

interpretation conv_relu: producer_pass nodes output_names
    "fuse_activation nodes weights (usage_new nodes output_names)" "''Conv''" "{''Relu'', ''Clip''}" for nodes output_names weights
  by unfold_locales (auto dest: fuse_activation_form simp: sole_output_ops_def)

interpretation conv_relu6: producer_pass nodes output_names
    "fuse_relu6 nodes weights (usage_new nodes output_names)" "''Conv''" "{''Clip''}" for nodes output_names weights
  by unfold_locales (auto dest: fuse_relu6_form simp: sole_output_ops_def)

interpretation conv_batchnorm: producer_pass nodes output_names
    "fuse_batchnorm nodes (usage_new nodes output_names)" "''Conv''" "{''BatchNormalization''}" for nodes output_names
  by unfold_locales (auto dest: fuse_batchnorm_form simp: sole_output_ops_def)

interpretation matmul_add: producer_pass nodes output_names
    "fuse_bias nodes weights known_shapes (usage_new nodes output_names)" "''MatMul''" "{''Add''}"
  for nodes output_names weights known_shapes
  by unfold_locales (auto dest: fuse_bias_form simp: sole_output_ops_def)

interpretation matmul_transpose: producer_pass nodes output_names
    "fuse_transposed nodes (usage_new nodes output_names)" "''MatMul''" "{''Transpose''}" for nodes output_names
  by unfold_locales (auto dest: fuse_transposed_form simp: sole_output_ops_def)

interpretation add_matmul: producer_pass nodes output_names
    "fuse_input_bias nodes known_shapes (usage_new nodes output_names)" "''Add''" "{''MatMul''}"
  for nodes output_names known_shapes
  by unfold_locales (auto dest: fuse_input_bias_form simp: sole_output_ops_def)

section \<open>Fusions in place\<close>

definition in_place :: "node list \<Rightarrow> string \<Rightarrow> nat \<Rightarrow> fusion \<Rightarrow> bool" where
  "in_place nodes op i st \<longleftrightarrow> sole_outputs nodes \<and> anchored nodes {op} st \<and> (\<forall>k\<ge>i. fu_replacements st k = None)"

lemma in_place_Suc: "in_place nodes op i st \<Longrightarrow> in_place nodes op (Suc i) st"
  by (simp add: in_place_def)

definition removable :: "node list \<Rightarrow> tensor_usage \<Rightarrow> string \<Rightarrow> fusion \<Rightarrow> nat \<Rightarrow> bool" where
  "removable nodes usage op st p \<longleftrightarrow>
     (\<exists>x. producers nodes x = Some p \<and> is_fusable_intermediate usage x) \<and> n_op (nodes ! p) \<in> set sole_output_ops \<and>
     (untouched st p \<or> n_op (nodes ! p) \<noteq> op)"

definition fuses_in_place ::
  "node list \<Rightarrow> tensor_usage \<Rightarrow> string \<Rightarrow> nat \<Rightarrow> node \<Rightarrow> fusion \<Rightarrow> fusion \<Rightarrow> bool" where
  "fuses_in_place nodes usage op i nd st st' \<longleftrightarrow>
     (\<exists>fused removed st0. st' = replace i fused removed st0 \<and> same_nodes st0 st \<and> n_outputs fused = n_outputs nd \<and>
        list_all (removable nodes usage op st) removed) \<or>
     (\<exists>removed x y. st' = remove_redirecting removed x y st \<and> first_name (n_outputs nd) = Some x \<and> \<not> is_graph_output usage x \<and>
        list_all (\<lambda>p. p = i \<or> removable nodes usage op st p) removed)"

lemma fuses_in_placeI:
  "n_outputs fused = n_outputs nd \<Longrightarrow> fu_skip st0 = fu_skip st \<Longrightarrow> fu_replacements st0 = fu_replacements st \<Longrightarrow>
     list_all (removable nodes usage op st) removed \<Longrightarrow> fuses_in_place nodes usage op i nd st (replace i fused removed st0)"
  "first_name (n_outputs nd) = Some x \<Longrightarrow> \<not> is_graph_output usage x \<Longrightarrow>
     removable nodes usage op st p \<Longrightarrow> fuses_in_place nodes usage op i nd st (remove_redirecting [p, i] x y st)"
  unfolding fuses_in_place_def same_nodes_def by (auto 4 3)

lemma first_name_Some_iff: "first_name xs = Some x \<longleftrightarrow> x \<noteq> [] \<and> (\<exists>rest. xs = x # rest)"
  by (auto simp: first_name_def split: list.splits)

lemma surviving_mono_skip:
  assumes "fu_replacements st' = fu_replacements st" and "set (fu_skip st') \<subseteq> set (fu_skip st)"
  shows "surviving nodes st \<subseteq> surviving nodes st'"
  using assms unfolding surviving_def outputs_at by auto

lemma in_place_step:
  assumes inv: "in_place nodes op i st" and i: "i < length nodes" and skip: "i \<notin> set (fu_skip st)"
    and f: "fuses_in_place nodes (usage_new nodes output_names) op i (nodes ! i) st st'"
    and op: "n_op (nodes ! i) = op" and known: "op \<in> set sole_output_ops"
  shows "in_place nodes op (Suc i) st' \<and> surviving nodes st \<inter> declared output_names \<subseteq> surviving nodes st'"
proof -
  let ?u = "usage_new nodes output_names"
  have sole: "sole_outputs nodes" and anch: "anchored nodes {op} st" and none: "\<And>k. i \<le> k \<Longrightarrow> fu_replacements st k = None"
    using inv by (auto simp: in_place_def)
  have len: "length (n_outputs (nodes ! i)) = 1" using sole_outputs_nth [OF sole i] op known by simp
  have rem: "fu_replacements st p = None \<and> (\<forall>y\<in>set (n_outputs (nodes ! p)). y \<notin> declared output_names)"
    if p: "removable nodes ?u op st p" for p
  proof
    from p obtain x where x: "producers nodes x = Some p" "is_fusable_intermediate ?u x" "n_op (nodes ! p) \<in> set sole_output_ops"
      by (auto simp: removable_def)
    then have "n_outputs (nodes ! p) = [x]"
      using outputs_of_producer [OF x(1)] sole_outputs_nth [OF sole _ x(3)] producers_Some [OF x(1)] by simp
    with x(2) show "\<forall>y\<in>set (n_outputs (nodes ! p)). y \<notin> declared output_names"
      by (simp add: fusable_not_declared)
    show "fu_replacements st p = None"
      using p anch by (cases "fu_replacements st p") (auto simp: removable_def untouched_def anchored_def)
  qed
  from f consider
      (fused) fused removed st0 where "st' = replace i fused removed st0" "same_nodes st0 st"
        "n_outputs fused = n_outputs (nodes ! i)" "list_all (removable nodes ?u op st) removed"
    | (gone) removed x y where "st' = remove_redirecting removed x y st" "first_name (n_outputs (nodes ! i)) = Some x"
        "\<not> is_graph_output ?u x" "list_all (\<lambda>p. p = i \<or> removable nodes ?u op st p) removed"
    unfolding fuses_in_place_def by blast
  then show ?thesis
  proof cases
    case fused
    note same = same_nodes_eqs [OF fused(2)] fused(2) [unfolded same_nodes_def]
    have "in_place nodes op (Suc i) st'"
      using sole anch none len fused(3) op same by (auto simp: in_place_def fused(1) anchored_def)
    moreover have "surviving nodes st0 \<inter> declared output_names \<subseteq> surviving nodes (replace i fused removed st0)"
    proof (cases "i \<in> set removed")
      case False
      show ?thesis
      proof (rule surviving_replace [OF i])
        show "y \<in> set (n_outputs fused)" if "j \<in> insert i (set removed)" "y \<in> set (n_outputs (nodes ! j))"
          "y \<in> declared output_names" for j y
          using that rem fused(3,4) by (auto simp: list_all_iff)
      qed (use skip False same none rem fused(4) in \<open>auto simp: list_all_iff\<close>)
    next
      case True
      have "surviving nodes st0 \<inter> declared output_names \<subseteq> surviving nodes (remove_redirecting removed [] [] st0)"
        by (rule surviving_remove) (use rem same fused(4) in \<open>auto simp: list_all_iff\<close>)
      also have "\<dots> \<subseteq> surviving nodes (replace i fused removed st0)"
        using True unfolding surviving_def by (auto simp: outputs_at)
      finally show ?thesis .
    qed
    ultimately show ?thesis using same by (simp add: fused(1))
  next
    case gone
    have "n_outputs (nodes ! i) = [x]" using gone(2) len by (auto simp: first_name_Some_iff)
    then have "surviving nodes st \<inter> declared output_names \<subseteq> surviving nodes st'"
      unfolding gone(1) by (intro surviving_remove) (use rem none gone(3,4) in \<open>auto simp: list_all_iff\<close>)
    moreover have "in_place nodes op (Suc i) st'"
      using sole anch none by (simp add: in_place_def gone(1) anchored_def)
    ultimately show ?thesis by simp
  qed
qed

lemma removableI:
  "producers nodes x = Some p \<Longrightarrow> is_fusable_intermediate usage x \<Longrightarrow> n_op (nodes ! p) \<in> set sole_output_ops \<Longrightarrow>
     untouched st p \<or> n_op (nodes ! p) \<noteq> op \<Longrightarrow> removable nodes usage op st p"
  by (auto simp: removable_def)

lemma cancel_transpose_form:
  "cancel_transpose nodes usage i nd st = Some st' \<Longrightarrow> n_op nd = ''Transpose'' \<and> fuses_in_place nodes usage ''Transpose'' i nd st st'"
  unfolding cancel_transpose_def
  by (auto simp: pass_simps sole_output_ops_def split: if_splits intro!: fuses_in_placeI removableI)

lemma cancel_reshape_form:
  "cancel_reshape nodes weights known_shapes usage i nd st = Some st' \<Longrightarrow>
     n_op nd = ''Reshape'' \<and> fuses_in_place nodes usage ''Reshape'' i nd st st'"
  unfolding cancel_reshape_def
  by (auto simp: pass_simps sole_output_ops_def split: if_splits intro!: fuses_in_placeI removableI)

lemma or_else_Some: "or_else a b = Some x \<Longrightarrow> a = Some x \<or> b = Some x"
  by (auto simp: or_else_def split: option.splits)

lemma try_silu_form:
  "try_silu nodes usage st s x = Some (y, p) \<Longrightarrow>
     producers nodes s = Some p \<and> is_fusable_intermediate usage s \<and> n_op (nodes ! p) = ''Sigmoid'' \<and>
     slot (n_inputs (nodes ! p)) 0 = Some x \<and> y = x \<and> p \<notin> set (fu_skip st)"
  by (auto simp: try_silu_def pass_simps)

lemma fuse_silu_form:
  "fuse_silu nodes usage i nd st = Some st' \<Longrightarrow> n_op nd = ''Mul'' \<and> fuses_in_place nodes usage ''Mul'' i nd st st'"
  unfolding fuse_silu_def
  by (auto simp: bind_eq_Some_conv Let_def sole_output_ops_def split: prod.splits dest!: or_else_Some try_silu_form
      intro!: fuses_in_placeI removableI)

lemma fuse_rsqrt_form:
  "fuse_rsqrt nodes weights usage i nd st = Some st' \<Longrightarrow> n_op nd = ''Div'' \<and> fuses_in_place nodes usage' ''Div'' i nd st st'"
  unfolding fuse_rsqrt_def by (auto simp: pass_simps intro!: fuses_in_placeI)

lemma fuse_gather_form:
  "fuse_gather nodes usage i nd st = Some st' \<Longrightarrow> n_op nd = ''Gather'' \<and> fuses_in_place nodes usage ''Gather'' i nd st st'"
  unfolding fuse_gather_def
  by (auto simp: pass_simps add_weight_def sole_output_ops_def split: prod.splits intro!: fuses_in_placeI removableI)

lemma simplify_reshape_form:
  "simplify_reshape nodes weights known_shapes usage i nd st = Some st' \<Longrightarrow>
     n_op nd = ''Reshape'' \<and> fuses_in_place nodes usage ''Reshape'' i nd st st'"
  unfolding simplify_reshape_def
  by (auto simp: pass_simps sole_output_ops_def split: if_splits intro!: fuses_in_placeI removableI)

locale in_place_pass =
  fixes nodes :: "node list" and output_names :: "string list" and body :: "nat \<Rightarrow> node \<Rightarrow> fusion \<Rightarrow> fusion option"
    and op :: string
  assumes form: "body i nd st = Some st' \<Longrightarrow> n_op nd = op \<and> fuses_in_place nodes (usage_new nodes output_names) op i nd st st'"
    and kind: "op \<in> set sole_output_ops"

sublocale in_place_pass \<subseteq> output_keeping nodes "declared output_names" body "in_place nodes op"
proof
  fix i st st'
  assume "i < length nodes" "i \<notin> set (fu_skip st)" "in_place nodes op i st" "body i (nodes ! i) st = Some st'"
  with in_place_step [of nodes op i st output_names st'] form [of i "nodes ! i" st st'] kind
  have "in_place nodes op (Suc i) st' \<and> surviving nodes st \<inter> declared output_names \<subseteq> surviving nodes st'" by auto
  then show "in_place nodes op (Suc i) st'" "surviving nodes st \<inter> declared output_names \<subseteq> surviving nodes st'" by simp_all
qed (rule in_place_Suc)

interpretation transpose_cancel: in_place_pass nodes output_names
    "cancel_transpose nodes (usage_new nodes output_names)" "''Transpose''" for nodes output_names
  by unfold_locales (auto dest: cancel_transpose_form simp: sole_output_ops_def)

interpretation reshape_cancel: in_place_pass nodes output_names
    "cancel_reshape nodes weights known_shapes (usage_new nodes output_names)" "''Reshape''"
  for nodes output_names weights known_shapes
  by unfold_locales (auto dest: cancel_reshape_form simp: sole_output_ops_def)

interpretation silu: in_place_pass nodes output_names
    "fuse_silu nodes (usage_new nodes output_names)" "''Mul''" for nodes output_names
  by unfold_locales (auto dest: fuse_silu_form simp: sole_output_ops_def)

interpretation rsqrt: in_place_pass nodes output_names
    "fuse_rsqrt nodes weights (usage_new nodes [])" "''Div''" for nodes output_names weights
  by unfold_locales (auto dest: fuse_rsqrt_form simp: sole_output_ops_def)

interpretation gather: in_place_pass nodes output_names
    "fuse_gather nodes (usage_new nodes output_names)" "''Gather''" for nodes output_names
  by unfold_locales (auto dest: fuse_gather_form simp: sole_output_ops_def)

interpretation transpose_reshape: in_place_pass nodes output_names
    "simplify_reshape nodes weights known_shapes (usage_new nodes output_names)" "''Reshape''"
  for nodes output_names weights known_shapes
  by unfold_locales (auto dest: simplify_reshape_form simp: sole_output_ops_def)

section \<open>Dropout\<close>

interpretation dropout: output_keeping nodes "declared output_names"
    "eliminate_dropout weights (usage_new nodes output_names)"
    "\<lambda>i st. sole_outputs nodes \<and> fu_replacements st = Map.empty" for nodes output_names weights
proof
  fix i st st'
  assume i: "i < length nodes" "i \<notin> set (fu_skip st)" "sole_outputs nodes \<and> fu_replacements st = Map.empty"
    and b: "eliminate_dropout weights (usage_new nodes output_names) i (nodes ! i) st = Some st'"
  from b obtain x y where x: "n_op (nodes ! i) = ''Dropout''" "first_name (n_outputs (nodes ! i)) = Some x" "x \<notin> declared output_names"
    and mask: "case slot (n_outputs (nodes ! i)) 1 of None \<Rightarrow> True
       | Some m \<Rightarrow> m = [] \<or> consumers (usage_new nodes output_names) m = 0 \<and> \<not> is_graph_output (usage_new nodes output_names) m"
    and st': "st' = remove_redirecting [i] x y st"
    unfolding eliminate_dropout_def by (auto simp: pass_simps)
  show "sole_outputs nodes \<and> fu_replacements st' = Map.empty" using i(3) st' by simp
  have "length (n_outputs (nodes ! i)) \<le> 2" using i x(1) by (simp add: sole_outputs_def)
  then obtain rest where outs: "n_outputs (nodes ! i) = x # rest" "length rest \<le> 1"
    using x(2) by (auto simp: first_name_Some_iff)
  have "z \<notin> declared output_names" if "z \<in> set (n_outputs (nodes ! i))" for z
    using that outs mask x(3) by (cases rest) (auto simp: slot_def declared_def)
  with i(3) show "surviving nodes st \<inter> declared output_names \<subseteq> surviving nodes st'"
    unfolding st' by (intro surviving_remove) auto
qed

section \<open>Longer chains\<close>

definition chain_inv :: "node list \<Rightarrow> string \<Rightarrow> fusion \<Rightarrow> bool" where
  "chain_inv nodes op st \<longleftrightarrow> sole_outputs nodes \<and> anchored nodes {op} st \<and> readers_removed nodes st"

lemma sole_name:
  "sole_outputs nodes \<Longrightarrow> producers nodes x = Some p \<Longrightarrow> n_op (nodes ! p) \<in> set sole_output_ops \<Longrightarrow>
     p < length nodes \<and> n_outputs (nodes ! p) = [x]"
  using producers_Some outputs_of_producer sole_outputs_nth by blast

lemma slot_in: "slot xs k = Some x \<Longrightarrow> x \<in> set xs"
  by (auto simp: slot_def split: if_splits)

lemma chain_replaced:
  assumes "chain_inv nodes op st" and "producers nodes x = Some k" and "n_op (nodes ! k) = op" and "op \<in> set sole_output_ops"
    and "is_fusable_intermediate (usage_new nodes output_names) x" and "a \<in> set removed" and "a < length nodes"
    and "x \<in> set (n_inputs (nodes ! a))" and "a \<notin> set (fu_skip st)" and "k \<notin> set (fu_skip st)" and "k \<notin> set removed"
    and "length (n_outputs fused) = 1"
    and "\<And>j. j \<in> set removed \<Longrightarrow> fu_replacements st j = None \<and>
      (\<forall>y\<in>set (n_outputs (nodes ! j)). y \<in> declared output_names \<longrightarrow> y \<in> set (n_outputs fused))"
  shows "chain_inv nodes op (replace k fused removed st) \<and>
    surviving nodes st \<inter> declared output_names \<subseteq> surviving nodes (replace k fused removed st)"
proof
  have inv: "sole_outputs nodes" "anchored nodes {op} st" "readers_removed nodes st" using assms(1) by (simp_all add: chain_inv_def)
  have k: "k < length nodes" "n_outputs (nodes ! k) = [x]" using sole_name [OF inv(1) assms(2)] assms(3,4) by simp_all
  have "readers_removed nodes (replace k fused removed st)"
    by (rule readers_removed_replace [OF inv(3) k(2) assms(5-8)])
  with inv assms(3,12) show "chain_inv nodes op (replace k fused removed st)" by (simp add: chain_inv_def anchored_def)
  show "surviving nodes st \<inter> declared output_names \<subseteq> surviving nodes (replace k fused removed st)"
  proof (rule surviving_replace [OF k(1) assms(10,11)])
    show "fu_replacements st k = None"
      using unread_replacement [OF inv(3) _ assms(7,8,9)] k(2) by simp
    show "y \<in> set (n_outputs fused)" if "j \<in> insert k (set removed)" "y \<in> set (n_outputs (nodes ! j))" "y \<in> declared output_names" for j y
      using that k(2) fusable_not_declared [OF assms(5)] assms(13) by auto
  qed (use assms(13) in blast)
qed

lemma try_find_conv_form:
  "try_find_conv nodes usage st c r = Some (p, r') \<Longrightarrow>
     is_fusable_intermediate usage c \<and> producers nodes c = Some p \<and> p \<notin> set (fu_skip st) \<and> n_op (nodes ! p) = ''Conv''"
  by (auto simp: try_find_conv_def pass_simps)

lemma two_elements: "2 \<le> length xs \<Longrightarrow> xs ! 0 \<in> set xs \<and> xs ! 1 \<in> set xs"
  using nth_mem [of 0 xs] nth_mem [of 1 xs] by (cases "length xs") auto

lemma fuse_residual_step:
  assumes inv: "chain_inv nodes ''Conv'' st" and i: "i < length nodes"
    and b: "fuse_residual nodes (usage_new nodes output_names) i (nodes ! i) st = Some st'"
  shows "chain_inv nodes ''Conv'' st' \<and> surviving nodes st \<inter> declared output_names \<subseteq> surviving nodes st'"
proof -
  let ?u = "usage_new nodes output_names"
  obtain r a p q fused where st': "st' = replace p fused [a, i] st" and op: "n_op (nodes ! i) = ''Relu''" and r: "is_fusable_intermediate ?u r" "producers nodes r = Some a"
    and a: "a \<notin> set (fu_skip st)" "n_op (nodes ! a) = ''Add''" "length (n_inputs (nodes ! a)) \<ge> 2"
    and find: "or_else (try_find_conv nodes ?u st (n_inputs (nodes ! a) ! 0) (n_inputs (nodes ! a) ! 1))
      (try_find_conv nodes ?u st (n_inputs (nodes ! a) ! 1) (n_inputs (nodes ! a) ! 0)) = Some (p, q)"
    and f: "n_outputs fused = n_outputs (nodes ! i)"
    using b unfolding fuse_residual_def
    by (clarsimp simp: bind_eq_Some_conv Let_def split: prod.splits)
  have "n_inputs (nodes ! a) ! 0 \<in> set (n_inputs (nodes ! a))" "n_inputs (nodes ! a) ! 1 \<in> set (n_inputs (nodes ! a))"
    using two_elements [OF a(3)] by simp_all
  with or_else_Some [OF find] obtain c where
    c: "c \<in> set (n_inputs (nodes ! a))" "is_fusable_intermediate ?u c" "producers nodes c = Some p" "p \<notin> set (fu_skip st)"
      "n_op (nodes ! p) = ''Conv''"
    by (auto dest!: try_find_conv_form)
  have sole: "sole_outputs nodes" and anch: "anchored nodes {''Conv''} st" using inv by (simp_all add: chain_inv_def)
  have "a < length nodes" "n_outputs (nodes ! a) = [r]"
    using sole_name [OF sole r(2)] a(2) by (simp_all add: sole_output_ops_def)
  moreover have "fu_replacements st j = None" if "n_op (nodes ! j) \<noteq> ''Conv''" for j
    using anch that by (cases "fu_replacements st j") (auto simp: anchored_def)
  moreover have "length (n_outputs (nodes ! i)) = 1" using sole_outputs_nth [OF sole i] op by (simp add: sole_output_ops_def)
  ultimately show ?thesis
    unfolding st' using op a c f fusable_not_declared [OF r(1)]
    by (intro chain_replaced [OF inv c(3,5) _ c(2), of a]) (auto simp: sole_output_ops_def)
qed

interpretation conv_add_relu: output_keeping nodes "declared output_names"
    "fuse_residual nodes (usage_new nodes output_names)" "\<lambda>i. chain_inv nodes ''Conv''" for nodes output_names
  by unfold_locales (use fuse_residual_step in \<open>blast+\<close>)

section \<open>Normalisations\<close>

lemma known_ops: "''Sqrt'' \<in> set sole_output_ops" "''Add'' \<in> set sole_output_ops" "''ReduceMean'' \<in> set sole_output_ops"
  "''Pow'' \<in> set sole_output_ops" "''Sub'' \<in> set sole_output_ops" "''Div'' \<in> set sole_output_ops" "''Mul'' \<in> set sole_output_ops"
  "''Reciprocal'' \<in> set sole_output_ops"
  by (simp_all add: sole_output_ops_def)

lemma var_and_eps_form: "var_and_eps weights add = Some (v, e) \<Longrightarrow> v = n_inputs add ! 0 \<or> v = n_inputs add ! 1"
  by (auto simp: var_and_eps_def Let_def dest!: or_else_Some)

lemma first_some_form: "first_some f xs = Some y \<Longrightarrow> \<exists>x\<in>set xs. f x = Some y"
  by (induction xs) (auto split: option.splits)

lemma find_affine_form:
  assumes "find_affine nodes weights st op excluded name = Some (j, partner, out)"
  shows "j < length nodes \<and> j \<notin> set (fu_skip st) \<and> j \<notin> set excluded \<and> n_op (nodes ! j) = op \<and>
    (\<exists>rest. n_outputs (nodes ! j) = out # rest)"
  using first_some_form [OF assms [unfolded find_affine_def]]
  by (auto simp: bind_eq_Some_conv in_set_enumerate_eq neq_Nil_conv)

lemma unskipped_form: "unskipped_producer nodes st x = Some p \<longleftrightarrow> producers nodes x = Some p \<and> p \<notin> set (fu_skip st)"
  by (auto simp: unskipped_producer_def bind_eq_Some_conv)

lemma fusable_sole_form: "fusable_sole_output usage nd \<Longrightarrow> n_outputs nd = [x] \<Longrightarrow> is_fusable_intermediate usage x"
  by (simp add: fusable_sole_output_def)

lemma norm_chain_step:
  assumes inv: "chain_inv nodes ''ReduceMean'' st" and i: "i < length nodes"
    and b: "fuse_norm_chain nodes weights known_shapes (usage_new nodes output_names) i (nodes ! i) st = Some st'"
  shows "chain_inv nodes ''ReduceMean'' st' \<and> surviving nodes st \<inter> declared output_names \<subseteq> surviving nodes st'"
proof -
  let ?u = "usage_new nodes output_names"
  obtain fused sqrt_i add_i var_i pow_i sub_i mean_i j affine s a v q d e scale mul_out where
    st': "st' = replace mean_i fused ([sub_i, pow_i, var_i, add_i, sqrt_i, i] @
      (case affine of Some (k, bias, add_out) \<Rightarrow> [j, k] | None \<Rightarrow> [j])) st"
    and f: "n_outputs fused = [case affine of Some (k, bias, add_out) \<Rightarrow> add_out | None \<Rightarrow> mul_out]"
    and ops: "n_op (nodes ! i) = ''Div''" "n_op (nodes ! sqrt_i) = ''Sqrt''" "n_op (nodes ! add_i) = ''Add''"
      "n_op (nodes ! var_i) = ''ReduceMean''" "n_op (nodes ! pow_i) = ''Pow''" "n_op (nodes ! sub_i) = ''Sub''"
      "n_op (nodes ! mean_i) = ''ReduceMean''"
    and prods: "unskipped_producer nodes st s = Some sqrt_i" "unskipped_producer nodes st a = Some add_i"
      "unskipped_producer nodes st v = Some var_i" "unskipped_producer nodes st q = Some pow_i"
      "unskipped_producer nodes st d = Some sub_i" "unskipped_producer nodes st (n_inputs (nodes ! sub_i) ! 1) = Some mean_i"
    and fus: "fusable_sole_output ?u (nodes ! sqrt_i)" "fusable_sole_output ?u (nodes ! add_i)"
      "fusable_sole_output ?u (nodes ! var_i)" "fusable_sole_output ?u (nodes ! pow_i)" "fusable_sole_output ?u (nodes ! mean_i)"
    and lens: "length (n_inputs (nodes ! add_i)) \<ge> 2" "length (n_inputs (nodes ! sub_i)) \<ge> 2" "n_outputs (nodes ! i) \<noteq> []"
    and var: "var_and_eps weights (nodes ! add_i) = Some (v, e)"
    and d: "d \<notin> declared output_names" and div: "is_fusable_intermediate ?u (hd (n_outputs (nodes ! i)))"
    and mul: "find_affine nodes weights st ''Mul'' [i] (hd (n_outputs (nodes ! i))) = Some (j, scale, mul_out)"
    and affine: "affine = (if is_fusable_intermediate ?u mul_out then find_affine nodes weights st ''Add'' [j, i] mul_out else None)"
    using b unfolding fuse_norm_chain_def
    by (clarsimp simp: bind_eq_Some_conv Let_def split: prod.splits)
  have sole: "sole_outputs nodes" and anch: "anchored nodes {''ReduceMean''} st" and rr: "readers_removed nodes st"
    using inv by (simp_all add: chain_inv_def)
  note prods = prods [unfolded unskipped_form]
  let ?mean = "n_inputs (nodes ! sub_i) ! 1"
  have outs: "n_outputs (nodes ! sqrt_i) = [s]" "n_outputs (nodes ! add_i) = [a]" "n_outputs (nodes ! var_i) = [v]"
    "n_outputs (nodes ! pow_i) = [q]" "n_outputs (nodes ! sub_i) = [d]" "n_outputs (nodes ! mean_i) = [?mean]"
    and bounds: "sub_i < length nodes" "add_i < length nodes"
    using sole_name [OF sole conjunct1 [OF prods(1)]] sole_name [OF sole conjunct1 [OF prods(2)]]
      sole_name [OF sole conjunct1 [OF prods(3)]] sole_name [OF sole conjunct1 [OF prods(4)]]
      sole_name [OF sole conjunct1 [OF prods(5)]] sole_name [OF sole conjunct1 [OF prods(6)]] ops known_ops by simp_all
  have reads: "?mean \<in> set (n_inputs (nodes ! sub_i))" "v \<in> set (n_inputs (nodes ! add_i))"
    using two_elements [OF lens(2)] two_elements [OF lens(1)] var_and_eps_form [OF var] by auto
  have fusable: "is_fusable_intermediate ?u s" "is_fusable_intermediate ?u a" "is_fusable_intermediate ?u v"
    "is_fusable_intermediate ?u q" "is_fusable_intermediate ?u ?mean"
    using fusable_sole_form [OF fus(1) outs(1)] fusable_sole_form [OF fus(2) outs(2)] fusable_sole_form [OF fus(3) outs(3)]
      fusable_sole_form [OF fus(4) outs(4)] fusable_sole_form [OF fus(5) outs(6)] by simp_all
  have apart: "mean_i \<noteq> var_i"
  proof
    assume "mean_i = var_i"
    with outs have "v = ?mean" by simp
    with sole_reader [OF fusable(3) bounds(1,2)] reads have "sub_i = add_i" by simp
    with ops show False by simp
  qed
  have none: "fu_replacements st k = None" if "n_op (nodes ! k) \<noteq> ''ReduceMean''" for k
    using anch that by (cases "fu_replacements st k") (auto simp: anchored_def)
  have var_none: "fu_replacements st var_i = None"
    using unread_replacement [OF rr _ bounds(2) reads(2)] outs(3) prods(2) by simp
  have div_out: "n_outputs (nodes ! i) = [hd (n_outputs (nodes ! i))]"
    using sole_outputs_nth [OF sole i] ops(1) by (simp add: sole_output_ops_def length_Suc_conv) (metis list.sel(1))
  have single: "n_outputs (nodes ! k) = [y]"
    if "k < length nodes" "n_op (nodes ! k) \<in> {''Mul'', ''Add''}" "\<exists>rest. n_outputs (nodes ! k) = y # rest" for k y
    using sole_outputs_nth [OF sole that(1)] that(2,3) by (auto simp: sole_output_ops_def)
  have j: "j < length nodes" "n_op (nodes ! j) = ''Mul''" "n_outputs (nodes ! j) = [mul_out]"
    using find_affine_form [OF mul] single by auto
  let ?extra = "case affine of Some (k, bias, add_out) \<Rightarrow> [j, k] | None \<Rightarrow> [j]"
  have extra: "fu_replacements st k = None \<and> k \<noteq> mean_i \<and>
      (\<forall>y\<in>set (n_outputs (nodes ! k)). y \<in> declared output_names \<longrightarrow> y \<in> set (n_outputs fused))" if "k \<in> set ?extra" for k
  proof (cases affine)
    case None
    with that j none ops f show ?thesis by auto
  next
    case (Some r)
    obtain k' bias add_out where r: "r = (k', bias, add_out)" by (cases r)
    with Some affine have fu: "is_fusable_intermediate ?u mul_out"
      and find: "find_affine nodes weights st ''Add'' [j, i] mul_out = Some (k', bias, add_out)"
      by (simp_all split: if_splits)
    have k': "n_op (nodes ! k') = ''Add''" "n_outputs (nodes ! k') = [add_out]"
      using find_affine_form [OF find] single by auto
    from that Some r have "k = j \<or> k = k'" by auto
    with j k' none ops f Some r fusable_not_declared [OF fu] show ?thesis by auto
  qed
  show ?thesis
    unfolding st'
  proof (rule chain_replaced [OF inv prods(6) [THEN conjunct1] ops(7) _ fusable(5), of sub_i])
    show "fu_replacements st k = None \<and> (\<forall>y\<in>set (n_outputs (nodes ! k)). y \<in> declared output_names \<longrightarrow> y \<in> set (n_outputs fused))"
      if "k \<in> set ([sub_i, pow_i, var_i, add_i, sqrt_i, i] @ ?extra)" for k
      using that extra none var_none ops outs div_out d fusable_not_declared [OF fusable(1)] fusable_not_declared [OF fusable(2)]
        fusable_not_declared [OF fusable(3)] fusable_not_declared [OF fusable(4)] fusable_not_declared [OF div]
      by (auto simp del: set_append) (metis set_ConsD empty_iff empty_set)+
    show "mean_i \<notin> set ([sub_i, pow_i, var_i, add_i, sqrt_i, i] @ ?extra)"
      using extra apart ops by auto
  qed (use bounds reads prods f in \<open>auto simp: sole_output_ops_def\<close>)
qed

interpretation layer_norm: output_keeping nodes "declared output_names"
    "fuse_norm_chain nodes weights known_shapes (usage_new nodes output_names)" "\<lambda>i. chain_inv nodes ''ReduceMean''"
  for nodes output_names weights known_shapes
  by unfold_locales (use norm_chain_step in \<open>blast+\<close>)

lemma named_form: "named_producer nodes x = Some p \<Longrightarrow> producers nodes x = Some p"
  by (simp add: named_producer_def split: if_splits)

lemma normalising_form:
  "normalising_operands nodes usage weights norm = Some (diff, std, recip) \<Longrightarrow>
     n_op norm \<in> {''Mul'', ''Div''} \<and>
     (\<forall>k\<in>set recip. \<exists>x. producers nodes x = Some k \<and> is_fusable_intermediate usage x \<and> n_op (nodes ! k) \<in> set sole_output_ops)"
  unfolding normalising_operands_def
  by (auto simp: bind_eq_Some_conv Let_def known_ops split: if_splits prod.splits dest!: named_form)

lemma square_form: "square_of weights d nd = Some form \<Longrightarrow> n_op nd \<in> set sole_output_ops"
  by (auto simp: square_of_def known_ops split: if_splits)

text \<open>All nodes of a match have one output, and only the last one's may be an output of the graph.\<close>

lemma match_chain_form:
  assumes "match_chain nodes i (usage_new nodes output_names) weights known_shapes = Some m" and "sole_outputs nodes" and "i < length nodes"
  shows "n_outputs (nodes ! i) = [im_out_name m] \<and> i \<in> set (im_consumed m) \<and>
    (\<forall>k\<in>set (im_consumed m). k < length nodes \<and> n_op (nodes ! k) \<in> set sole_output_ops \<and>
      (\<forall>y\<in>set (n_outputs (nodes ! k)). y \<in> declared output_names \<longrightarrow> y = im_out_name m))"
proof -
  let ?u = "usage_new nodes output_names"
  obtain recip sqrt_i add_i var_i sq_i sub_i mean_i out diff std a v q form e where
    m: "im_consumed m = [i] @ recip @ [sqrt_i, add_i, var_i, sq_i, sub_i, mean_i]" "im_out_name m = out"
    and out: "first_name (n_outputs (nodes ! i)) = Some out"
    and norm: "normalising_operands nodes ?u weights (nodes ! i) = Some (diff, std, recip)"
    and ops: "n_op (nodes ! sqrt_i) = ''Sqrt''" "n_op (nodes ! add_i) = ''Add''" "n_op (nodes ! var_i) = ''ReduceMean''"
      "n_op (nodes ! sub_i) = ''Sub''" "n_op (nodes ! mean_i) = ''ReduceMean''"
    and prods: "named_producer nodes std = Some sqrt_i" "named_producer nodes a = Some add_i"
      "named_producer nodes v = Some var_i" "named_producer nodes q = Some sq_i"
      "named_producer nodes diff = Some sub_i" "named_producer nodes e = Some mean_i"
    and fus: "is_fusable_intermediate ?u std" "is_fusable_intermediate ?u a" "is_fusable_intermediate ?u v"
      "is_fusable_intermediate ?u q" "diff \<notin> declared output_names" "is_fusable_intermediate ?u e"
    and form: "square_of weights diff (nodes ! sq_i) = Some form"
    using assms(1) unfolding match_chain_def
    by (clarsimp simp: bind_eq_Some_conv Let_def split: prod.splits)
  have op: "n_op (nodes ! i) \<in> set sole_output_ops" using normalising_form [OF norm] by (auto simp: known_ops)
  have outs: "n_outputs (nodes ! i) = [out]"
    using out sole_outputs_nth [OF assms(2,3) op] by (auto simp: first_name_Some_iff)
  have hidden: "k < length nodes \<and> n_op (nodes ! k) \<in> set sole_output_ops \<and> (\<forall>y\<in>set (n_outputs (nodes ! k)). y \<notin> declared output_names)"
    if "producers nodes x = Some k" "x \<notin> declared output_names" "n_op (nodes ! k) \<in> set sole_output_ops" for x k
    using sole_name [OF assms(2) that(1,3)] that by simp
  have "k < length nodes \<and> n_op (nodes ! k) \<in> set sole_output_ops \<and> (\<forall>y\<in>set (n_outputs (nodes ! k)). y \<notin> declared output_names)"
    if k: "k \<in> set recip \<union> {sqrt_i, add_i, var_i, sq_i, sub_i, mean_i}" for k
  proof (cases "k \<in> set recip")
    case True
    with normalising_form [OF norm] hidden fusable_not_declared show ?thesis by blast
  next
    case False
    then show ?thesis
      using k hidden [OF named_form [OF prods(1)]] hidden [OF named_form [OF prods(2)]] hidden [OF named_form [OF prods(3)]]
        hidden [OF named_form [OF prods(4)]] hidden [OF named_form [OF prods(5)]] hidden [OF named_form [OF prods(6)]]
        fus(1-4,6) [THEN fusable_not_declared] fus(5) ops square_form [OF form] known_ops by auto
  qed
  then show ?thesis using op outs assms(3) by (auto simp: m)
qed

definition instance_inv :: "node list \<Rightarrow> fusion \<Rightarrow> bool" where
  "instance_inv nodes st \<longleftrightarrow> sole_outputs nodes \<and> anchored nodes (set sole_output_ops) st"

lemma instance_step:
  assumes inv: "instance_inv nodes st" and i: "i < length nodes"
    and b: "fuse_instance nodes weights known_shapes (usage_new nodes output_names) i (nodes ! i) st = Some st'"
  shows "instance_inv nodes st' \<and> surviving nodes st \<inter> declared output_names \<subseteq> surviving nodes st'"
proof -
  obtain m fused where m: "match_chain nodes i (usage_new nodes output_names) weights known_shapes = Some m"
    and free: "list_all (untouched st) (im_consumed m)"
    and st': "st' = replace (Min (set (im_consumed m))) fused (filter (\<lambda>idx. idx \<noteq> Min (set (im_consumed m))) (im_consumed m)) st"
    and f: "n_outputs fused = [im_out_name m]"
    using b unfolding fuse_instance_def by (auto simp: bind_eq_Some_conv Let_def)
  have sole: "sole_outputs nodes" and anch: "anchored nodes (set sole_output_ops) st" using inv by (simp_all add: instance_inv_def)
  note form = match_chain_form [OF m sole i]
  let ?a = "Min (set (im_consumed m))"
  have a: "?a \<in> set (im_consumed m)" using form by (intro Min_in) auto
  have "surviving nodes st \<inter> declared output_names \<subseteq> surviving nodes st'"
    unfolding st'
  proof (rule surviving_replace)
    show "y \<in> set (n_outputs fused)" if "j \<in> insert ?a (set (filter (\<lambda>idx. idx \<noteq> ?a) (im_consumed m)))"
      "y \<in> set (n_outputs (nodes ! j))" "y \<in> declared output_names" for j y
    proof -
      have "j \<in> set (im_consumed m)" using that(1) a by auto
      with that(2,3) form f show ?thesis by auto
    qed
  qed (use a form free in \<open>auto simp: list_all_iff untouched_def\<close>)
  moreover have "instance_inv nodes st'"
    using sole anch a form f by (simp add: st' instance_inv_def anchored_def)
  ultimately show ?thesis by simp
qed

interpretation instance_norm: output_keeping nodes "declared output_names"
    "fuse_instance nodes weights known_shapes (usage_new nodes output_names)" "\<lambda>i. instance_inv nodes"
  for nodes output_names weights known_shapes
  by unfold_locales (use instance_step in \<open>blast+\<close>)

section \<open>The passes\<close>

definition keeps :: "string list \<Rightarrow> node list \<Rightarrow> node list \<Rightarrow> bool" where
  "keeps output_names nodes nodes' \<longleftrightarrow>
     (sole_outputs nodes \<longrightarrow> sole_outputs nodes' \<and> produced nodes \<inter> declared output_names \<subseteq> produced nodes')"

lemma keeps_refl [simp]: "keeps output_names nodes nodes"
  by (simp add: keeps_def)

lemma keeps_trans: "keeps output_names a b \<Longrightarrow> keeps output_names b c \<Longrightarrow> keeps output_names a c"
  by (auto simp: keeps_def)

lemma pass_keeps:
  assumes "output_keeping nodes (declared output_names) body ok"
    and "sole_outputs nodes \<Longrightarrow> ok 0 (fusion_start weights names)"
    and "\<And>st. ok (length nodes) st \<Longrightarrow> \<exists>ops. anchored nodes ops st"
  shows "keeps output_names nodes (rebuild nodes (fuse_loop body nodes (fusion_start weights names)))"
proof -
  have "sole_outputs (rebuild nodes (fuse_loop body nodes (fusion_start weights names))) \<and>
      produced nodes \<inter> declared output_names \<subseteq> produced (rebuild nodes (fuse_loop body nodes (fusion_start weights names)))"
    if s: "sole_outputs nodes"
    using output_keeping.loop_keeps [OF assms(1) assms(2) [OF s]] output_keeping.rebuild_keeps [OF assms(1) assms(2) [OF s]]
      assms(3) sole_outputs_rebuild [OF s] by blast
  then show ?thesis by (simp add: keeps_def)
qed

lemma pass_anchored: "in_place nodes op i st \<Longrightarrow> \<exists>ops. anchored nodes ops st"
  "at_producers nodes op i st \<Longrightarrow> \<exists>ops. anchored nodes ops st"
  "chain_inv nodes op st \<Longrightarrow> \<exists>ops. anchored nodes ops st"
  "instance_inv nodes st \<Longrightarrow> \<exists>ops. anchored nodes ops st"
  by (auto simp: in_place_def at_producers_def chain_inv_def instance_inv_def)

lemma passes_start:
  "sole_outputs nodes \<Longrightarrow> in_place nodes op 0 (fusion_start weights names)"
  "sole_outputs nodes \<Longrightarrow> at_producers nodes op 0 (fusion_start weights names)"
  "sole_outputs nodes \<Longrightarrow> chain_inv nodes op (fusion_start weights names)"
  "sole_outputs nodes \<Longrightarrow> instance_inv nodes (fusion_start weights names)"
  by (simp_all add: in_place_def at_producers_def chain_inv_def instance_inv_def)

lemma keeps_dropout: "keeps output_names nodes (eliminate_dropout_inference weights output_names nodes)"
  by (auto simp: eliminate_dropout_inference_def Let_def anchored_def passes_start intro!: pass_keeps [OF dropout.output_keeping_axioms] dest: pass_anchored)

lemma keeps_matmul_add: "keeps output_names nodes (fuse_matmul_add nodes weights known_shapes output_names)"
  by (auto simp: fuse_matmul_add_def Let_def anchored_def passes_start intro!: pass_keeps [OF matmul_add.output_keeping_axioms] dest: pass_anchored)

lemma keeps_conv_batchnorm: "keeps output_names nodes (fst (fuse_conv_batchnorm key_order output_names (nodes, weights)))"
  by (auto simp: fuse_conv_batchnorm_def Let_def anchored_def passes_start intro!: pass_keeps [OF conv_batchnorm.output_keeping_axioms] dest: pass_anchored)

lemma keeps_conv_relu: "keeps output_names nodes (fuse_conv_relu nodes weights output_names)"
  by (auto simp: fuse_conv_relu_def Let_def anchored_def passes_start intro!: pass_keeps [OF conv_relu.output_keeping_axioms] dest: pass_anchored)

lemma keeps_conv_relu6: "keeps output_names nodes (fuse_conv_clip_to_conv_relu6 nodes weights output_names)"
  by (auto simp: fuse_conv_clip_to_conv_relu6_def Let_def anchored_def passes_start intro!: pass_keeps [OF conv_relu6.output_keeping_axioms] dest: pass_anchored)

lemma keeps_silu: "keeps output_names nodes (fuse_mul_sigmoid_to_silu nodes output_names)"
  by (auto simp: fuse_mul_sigmoid_to_silu_def Let_def anchored_def passes_start intro!: pass_keeps [OF silu.output_keeping_axioms] dest: pass_anchored)

lemma keeps_rsqrt: "keeps output_names nodes (fuse_div_sqrt_to_rsqrt nodes weights)"
  by (auto simp: fuse_div_sqrt_to_rsqrt_def Let_def anchored_def passes_start intro!: pass_keeps [OF rsqrt.output_keeping_axioms] dest: pass_anchored)

lemma keeps_layer_norm: "keeps output_names nodes (fuse_layer_norm nodes weights known_shapes output_names)"
  by (auto simp: fuse_layer_norm_def Let_def anchored_def passes_start intro!: pass_keeps [OF layer_norm.output_keeping_axioms] dest: pass_anchored)

lemma keeps_instance_norm: "keeps output_names nodes (fuse_instance_norm nodes weights known_shapes output_names)"
  by (auto simp: fuse_instance_norm_def Let_def anchored_def passes_start intro!: pass_keeps [OF instance_norm.output_keeping_axioms] dest: pass_anchored)

lemma keeps_transpose_cancel: "keeps output_names nodes (cancel_consecutive_transpose nodes output_names)"
  by (auto simp: cancel_consecutive_transpose_def Let_def anchored_def passes_start intro!: pass_keeps [OF transpose_cancel.output_keeping_axioms] dest: pass_anchored)

lemma keeps_matmul_transpose: "keeps output_names nodes (fuse_matmul_transpose nodes output_names)"
  by (auto simp: fuse_matmul_transpose_def Let_def anchored_def passes_start intro!: pass_keeps [OF matmul_transpose.output_keeping_axioms] dest: pass_anchored)

lemma keeps_add_matmul: "keeps output_names nodes (fst (fuse_add_matmul_to_gemm key_order known_shapes output_names (nodes, weights)))"
  by (auto simp: fuse_add_matmul_to_gemm_def Let_def anchored_def passes_start intro!: pass_keeps [OF add_matmul.output_keeping_axioms] dest: pass_anchored)

lemma keeps_gather: "keeps output_names nodes (fst (fuse_gather_composition key_order output_names (nodes, weights)))"
  by (auto simp: fuse_gather_composition_def Let_def anchored_def passes_start intro!: pass_keeps [OF gather.output_keeping_axioms] dest: pass_anchored)

lemma keeps_conv_add_relu: "keeps output_names nodes (fuse_conv_add_relu nodes output_names)"
  by (auto simp: fuse_conv_add_relu_def Let_def anchored_def passes_start intro!: pass_keeps [OF conv_add_relu.output_keeping_axioms] dest: pass_anchored)

lemma keeps_transpose_reshape: "keeps output_names nodes (simplify_transpose_reshape nodes weights known_shapes output_names)"
  by (auto simp: simplify_transpose_reshape_def Let_def anchored_def passes_start intro!: pass_keeps [OF transpose_reshape.output_keeping_axioms] dest: pass_anchored)

lemma keeps_reshape_cancel: "keeps output_names nodes (cancel_consecutive_reshape nodes weights known_shapes output_names)"
  by (auto simp: cancel_consecutive_reshape_def Let_def anchored_def passes_start intro!: pass_keeps [OF reshape_cancel.output_keeping_axioms] dest: pass_anchored)

text \<open>The passes that are no fusions.\<close>

lemma sole_outputs_append: "sole_outputs (xs @ ys) \<longleftrightarrow> sole_outputs xs \<and> sole_outputs ys"
  by (simp add: sole_outputs_def ball_Un)

lemma keeps_fold_batch_norm: "keeps output_names nodes (fst (fold_batch_norm_inference key_order known_shapes (nodes, weights)))"
proof -
  have body: "\<exists>mul_node add_node. new_nodes = [mul_node, add_node] \<and> n_op nd = ''BatchNormalization'' \<and>
      length (n_outputs mul_node) = 1 \<and> n_op mul_node = ''Mul'' \<and> n_outputs add_node = n_outputs nd \<and> n_op add_node = ''Add''"
    if "fold_batch_norm all known_shapes nd st = Some (new_nodes, st')" for all nd st new_nodes st'
    using that unfolding fold_batch_norm_def by (auto simp: pass_simps)
  have loop: "produced nds \<subseteq> produced r \<and> (sole_outputs nds \<longrightarrow> sole_outputs r)"
    if "fold_batch_norm_loop all known_shapes nds st = (r, st')" for all nds st r st'
    using that
  proof (induction nds arbitrary: st r st')
    case (Cons nd nds)
    obtain new_nodes st1 where
      new: "(case fold_batch_norm all known_shapes nd st of None \<Rightarrow> ([nd], st) | Some r \<Rightarrow> r) = (new_nodes, st1)" by (metis surj_pair)
    obtain rest st2 where rest: "fold_batch_norm_loop all known_shapes nds st1 = (rest, st2)" by (metis surj_pair)
    have r: "r = new_nodes @ rest" using Cons.prems by (simp add: new rest)
    have "produced [nd] \<subseteq> produced new_nodes \<and> (sole_outputs [nd] \<longrightarrow> sole_outputs new_nodes)"
    proof (cases "fold_batch_norm all known_shapes nd st")
      case None
      with new show ?thesis by simp
    next
      case (Some res)
      with new have "fold_batch_norm all known_shapes nd st = Some (new_nodes, st1)" by simp
      from body [OF this] obtain m a where "new_nodes = [m, a]" "n_op nd = ''BatchNormalization''" "length (n_outputs m) = 1"
        "n_op m = ''Mul''" "n_outputs a = n_outputs nd" "n_op a = ''Add''" by blast
      then show ?thesis by (auto simp: sole_outputs_def sole_output_ops_def)
    qed
    then have "produced ([nd] @ nds) \<subseteq> produced r \<and> (sole_outputs ([nd] @ nds) \<longrightarrow> sole_outputs r)"
      using Cons.IH [OF rest] unfolding r produced_simps(3) sole_outputs_append by blast
    then show ?case by simp
  qed simp
  obtain r w names where
    r: "fold_batch_norm_loop nodes known_shapes nodes (weights, allocator_new nodes (key_order weights)) = (r, w, names)"
    by (metis prod_cases3)
  show ?thesis using loop [OF r] by (auto simp: keeps_def fold_batch_norm_inference_def r)
qed

lemma keeps_subset:
  assumes "set nodes' \<subseteq> set nodes" and "\<And>nd y. nd \<in> set nodes \<Longrightarrow> y \<in> set (n_outputs nd) \<Longrightarrow> y \<in> declared output_names \<Longrightarrow> nd \<in> set nodes'"
  shows "keeps output_names nodes nodes'"
  using assms unfolding keeps_def sole_outputs_def produced_def by blast

lemma keeps_dead_code: "keeps output_names nodes (dead_node_elimination nodes output_names)"
proof -
  have live: "length (fst (mark_live nds lt)) = length nds \<and> set lt \<subseteq> set (snd (mark_live nds lt)) \<and>
      (\<forall>i<length nds. (\<exists>y\<in>set (n_outputs (nds ! i)). y \<in> set lt) \<longrightarrow> fst (mark_live nds lt) ! i)" for nds lt
  proof (induction nds)
    case (Cons nd nds)
    then show ?case by (auto simp: Let_def list_ex_iff less_Suc_eq_0_disj split: prod.splits)
  qed simp
  show ?thesis
  proof (rule keeps_subset)
    show "set (dead_node_elimination nodes output_names) \<subseteq> set nodes"
      by (auto simp: dead_node_elimination_def dest: set_zip_leftD)
    fix nd y assume "nd \<in> set nodes" "y \<in> set (n_outputs nd)" "y \<in> declared output_names"
    moreover from this obtain i where i: "i < length nodes" "nd = nodes ! i" by (auto simp: in_set_conv_nth)
    ultimately have "fst (mark_live nodes output_names) ! i" using live [of nodes output_names] by (auto simp: declared_def)
    moreover have "(nodes ! i, fst (mark_live nodes output_names) ! i) \<in> set (zip nodes (fst (mark_live nodes output_names)))"
      using i(1) live [of nodes output_names] by (auto simp: set_zip)
    ultimately show "nd \<in> set (dead_node_elimination nodes output_names)"
      unfolding dead_node_elimination_def by (force simp: i(2))
  qed
qed

lemma keeps_cse: "keeps output_names nodes (eliminate_common_subexpressions debug nodes output_names)"
proof -
  let ?u = "usage_new nodes output_names"
  have scan: "length flags = length nds \<and> (\<forall>i<length nds. flags ! i \<longrightarrow> none_is_graph_output usage (n_outputs (nds ! i)))"
    if "cse_scan debug usage nds seen red = (flags, red')" for usage nds seen red flags red'
    using that
  proof (induction nds arbitrary: seen red flags)
    case (Cons nd nds)
    obtain d seen1 red1 fl where rec: "cse_scan debug usage nds seen1 red1 = (fl, red')" and flags: "flags = d # fl"
      and d: "d \<longrightarrow> none_is_graph_output usage (n_outputs nd)"
      using Cons.prems by (auto simp: Let_def split: prod.splits if_splits option.splits)
    from Cons.IH [OF rec] d show ?case by (auto simp: flags less_Suc_eq_0_disj)
  qed simp
  obtain flags red where r: "cse_scan debug ?u nodes Map.empty Map.empty = (flags, red)" by fastforce
  note scan = scan [OF r]
  let ?kept = "map fst (filter (\<lambda>(_, duplicate). \<not> duplicate) (zip nodes flags))"
  have "keeps output_names nodes ?kept"
  proof (rule keeps_subset)
    show "set ?kept \<subseteq> set nodes" by (auto dest: set_zip_leftD)
    fix nd y assume nd: "nd \<in> set nodes" "y \<in> set (n_outputs nd)" "y \<in> declared output_names"
    then obtain i where i: "i < length nodes" "nd = nodes ! i" by (auto simp: in_set_conv_nth)
    have "\<not> none_is_graph_output ?u (n_outputs nd)" using nd by (auto simp: none_is_graph_output_def list_ex_iff)
    with i scan have "\<not> flags ! i" by auto
    moreover have "(nodes ! i, flags ! i) \<in> set (zip nodes flags)" using i(1) scan by (auto simp: set_zip)
    ultimately show "nd \<in> set ?kept" by (force simp: i(2))
  qed
  moreover have "eliminate_common_subexpressions debug nodes output_names = map (redirect_node red) ?kept"
    by (simp add: eliminate_common_subexpressions_def r)
  moreover have "keeps output_names ?kept (map (redirect_node red) ?kept)"
    by (auto simp: keeps_def sole_outputs_def produced_def redirect_node_def)
  ultimately show ?thesis using keeps_trans by metis
qed

lemma keeps_constant_fold: "keeps output_names nodes (fst (constant_fold registry output_names nodes weights))"
proof -
  have pass: "set keep \<subseteq> set nds \<and> (\<forall>nd\<in>set nds. \<forall>y\<in>set (n_outputs nd). y \<in> declared output_names \<longrightarrow> nd \<in> set keep)"
    if "fold_pass registry output_names nds w = (keep, w', folded)" for registry output_names nds w keep w' folded
    using that
  proof (induction nds arbitrary: w keep folded)
    case (Cons nd nds)
    have "y \<notin> declared output_names" if "fold_node registry output_names nd w = Some w1" "y \<in> set (n_outputs nd)" for w1 y
      using that by (auto simp: fold_node_def foldable_def list_ex_iff declared_def split: if_splits)
    with Cons show ?case by (force split: option.splits prod.splits)
  qed simp
  show ?thesis
  proof (induction registry output_names nodes weights rule: constant_fold.induct)
    case (1 registry output_names nodes weights)
    obtain keep w folded where p: "fold_pass registry output_names nodes weights = (keep, w, folded)" by (metis prod_cases3)
    have keep: "keeps output_names nodes keep" using pass [OF p] by (intro keeps_subset) auto
    show ?case
    proof (cases folded)
      case True
      with p have eq: "constant_fold registry output_names nodes weights = constant_fold registry output_names keep w"
        by (subst constant_fold.simps) simp
      from p True "1.IH" [OF p [symmetric] refl] have "keeps output_names keep (fst (constant_fold registry output_names keep w))" by simp
      with keep show ?thesis unfolding eq by (rule keeps_trans)
    next
      case False
      with p keep show ?thesis by (subst constant_fold.simps) simp
    qed
  qed
qed

section \<open>The pipeline\<close>

lemmas keeps_after = keeps_dropout keeps_matmul_add keeps_conv_batchnorm keeps_conv_relu keeps_conv_relu6 keeps_silu
  keeps_rsqrt keeps_layer_norm keeps_instance_norm keeps_transpose_cancel keeps_matmul_transpose keeps_add_matmul
  keeps_gather keeps_conv_add_relu keeps_transpose_reshape keeps_reshape_cancel keeps_fold_batch_norm keeps_constant_fold
  keeps_dead_code keeps_cse

lemma keeps_let: "keeps output_names a n \<Longrightarrow> (\<And>m. keeps output_names a m \<Longrightarrow> keeps output_names a (fst (f m))) \<Longrightarrow>
    keeps output_names a (fst (let m = n in f m))"
  by (simp add: Let_def)

lemma keeps_let_other: "(\<And>s. keeps output_names a (fst (f s))) \<Longrightarrow> keeps output_names a (fst (let s = t in f s))"
  by (simp add: Let_def)

lemma keeps_let_pair: "keeps output_names a (fst p) \<Longrightarrow> (\<And>m w. keeps output_names a m \<Longrightarrow> keeps output_names a (fst (f m w))) \<Longrightarrow>
    keeps output_names a (fst (let (m, w) = p in f m w))"
  by (simp add: case_prod_unfold)

lemma keeps_if: "keeps output_names a m \<Longrightarrow> keeps output_names a n \<Longrightarrow> keeps output_names a (if b then m else n)"
  by simp

lemma keeps_if_pair: "keeps output_names a (fst m) \<Longrightarrow> keeps output_names a (fst n) \<Longrightarrow> keeps output_names a (fst (if b then m else n))"
  by simp

lemmas keeps_composed = keeps_let keeps_let_pair keeps_let_other keeps_if keeps_if_pair keeps_after [THEN keeps_trans [rotated]]

lemma keeps_all_fusions: "keeps output_names a nodes \<Longrightarrow>
    keeps output_names a (fst (fusions key_order infer_shapes registry input_shapes output_names (nodes, weights)))"
  unfolding fusions_def prod.case by (intro keeps_composed) simp_all

text \<open>
  C8. The optimizer never loses an output of the graph: at every level, through constant folding,
  dead-node elimination, common subexpressions and all fusions, each declared output that some
  node produced is produced by a node of the result, if the nodes that the fusions look at have one
  output (and a Dropout at most a mask besides).
\<close>

theorem optimizer_keeps_outputs:
  assumes "sole_outputs nodes"
    and "optimize_with_input_shapes (standard_passes key_order debug infer_shapes registry) registry level input_shapes output_names
      (nodes, weights) = (nodes', weights')"
    and "x \<in> set output_names" and "x \<in> produced nodes"
  shows "x \<in> produced nodes'"
proof -
  let ?ps = "standard_passes key_order debug infer_shapes registry"
  have "keeps output_names nodes (fst (optimize_with_input_shapes ?ps registry level input_shapes output_names (nodes, weights)))"
    unfolding optimize_with_input_shapes_def standard_passes_def prod.case passes.simps
    by (intro keeps_composed keeps_all_fusions) (simp_all add: keeps_if)
  with assms show ?thesis by (auto simp: keeps_def declared_def produced_def)
qed

definition conv_relu_graph :: "node list" where
  "conv_relu_graph = [Node ''Conv'' [] [''x'', ''w''] [''c''] no_attrs, Node ''Relu'' [] [''c''] [''y''] no_attrs]"

theorem optimizer_keeps_outputs_witness:
  "''y'' \<in> produced (fst (optimize_with_input_shapes
     (standard_passes (\<lambda>_. [''w'']) (\<lambda>s. s) (\<lambda>_ _ shapes. shapes) Map.empty) Map.empty PassAll Map.empty [''y'']
     (conv_relu_graph, [''w'' \<mapsto> \<lparr>t_data = [1], t_shape = [1, 1, 1, 1]\<rparr>])))"
  by (rule optimizer_keeps_outputs [OF _ prod.collapse [symmetric], of conv_relu_graph _ "[''y'']"])
    (auto simp: conv_relu_graph_def sole_outputs_def sole_output_ops_def)

end
