(* ===== verification/FusionExamples.thy ===== *)
theory FusionExamples
  imports OptimizeProof
begin

text \<open>
  Graphs that the fusion passes change: names that no node produces any more, and a node that
  is replaced by one that does not compute the same.
\<close>

section \<open>Redirects that are not followed\<close>

lemmas fusion_evaluation = rebuild_def fuse_loop_def fuse_node_def fusion_start_def producers_def insert_outputs_def
  bind_eq_Some_conv guard_def slot_def first_name_def untouched_def replace_def remove_redirecting_def
  is_fusable_intermediate_def is_graph_output_def consumers_def usage_new_def redirect_node_def redirect_def

definition dropout_node :: "string \<Rightarrow> string \<Rightarrow> node" where
  "dropout_node x y = Node ''Dropout'' [] [x] [y] no_attrs"

text \<open>
  C98. Of two Dropout nodes in a row both are removed, but the reader of the second is redirected
  only once: it reads the output of the first one, which no node produces any more.
\<close>

theorem dropout_chain_dangles:
  "eliminate_dropout_inference weights [''y'']
     [dropout_node ''x'' ''a'', dropout_node ''a'' ''b'', Node ''Relu'' [] [''b''] [''y''] no_attrs] =
   [Node ''Relu'' [] [''a''] [''y''] no_attrs]"
  by (simp add: eliminate_dropout_inference_def eliminate_dropout_def dropout_node_def fusion_evaluation attr_i_def no_attrs_def)

definition transpose_node :: "string \<Rightarrow> string \<Rightarrow> node" where
  "transpose_node x y = Node ''Transpose'' [] [x] [y] (put_int_list ''perm'' [1, 0] no_attrs)"

text \<open>Two pairs of Transpose nodes that cancel, in a row: the reader is left with the output of the first pair.\<close>

theorem transpose_pairs_dangle:
  "cancel_consecutive_transpose
     [transpose_node ''x'' ''a'', transpose_node ''a'' ''b'', transpose_node ''b'' ''c'', transpose_node ''c'' ''d'',
      Node ''Relu'' [] [''d''] [''y''] no_attrs] [''y''] =
   [Node ''Relu'' [] [''b''] [''y''] no_attrs]"
  by (simp add: cancel_consecutive_transpose_def cancel_transpose_def transpose_node_def fusion_evaluation no_attrs_def
      composed_perm_def is_identity_def)

section \<open>A bias that is no constant\<close>

definition conv_bn_weights :: tensor_map where
  "conv_bn_weights =
     [''w'' \<mapsto> \<lparr>t_data = [one_f32], t_shape = [1, 1, 1, 1]\<rparr>, ''s'' \<mapsto> \<lparr>t_data = [one_f32], t_shape = [1]\<rparr>,
      ''o'' \<mapsto> \<lparr>t_data = [0], t_shape = [1]\<rparr>, ''m'' \<mapsto> \<lparr>t_data = [0], t_shape = [1]\<rparr>, ''v'' \<mapsto> \<lparr>t_data = [one_f32], t_shape = [1]\<rparr>]"

definition conv_bn_graph :: "node list" where
  "conv_bn_graph =
     [Node ''Conv'' [] [''x'', ''w'', ''b''] [''c''] no_attrs,
      Node ''BatchNormalization'' [] [''c'', ''s'', ''o'', ''m'', ''v''] [''y''] no_attrs]"

text \<open>
  C97. A Conv whose bias is computed by the graph, and not a constant, loses it when the
  BatchNormalization after it is folded: the pass takes the bias for absent, and no node of the
  result reads \<open>b\<close>.
\<close>

theorem batchnorm_drops_runtime_bias:
  "''b'' \<in> set (n_inputs (hd conv_bn_graph)) \<and>
   map (\<lambda>nd. (n_op nd, n_inputs nd, n_outputs nd))
     (fst (fuse_conv_batchnorm (\<lambda>_. [''w'', ''s'', ''o'', ''m'', ''v'']) [''y''] (conv_bn_graph, conv_bn_weights))) =
   [(''Conv'', [''x'', ''c_fused_weight'', ''c_fused_bias''], [''y''])]"
  by (simp add: conv_bn_graph_def fuse_conv_batchnorm_def fuse_batchnorm_def fusion_evaluation no_attrs_def attr_s_def
      conv_bn_weights_def constant_bn_parameters_def Let_def allocate_def allocator_new_def next_free.simps)

section \<open>Shapes that are not checked\<close>

definition bias_weights :: tensor_map where
  "bias_weights = [''w'' \<mapsto> \<lparr>t_data = [0, 0], t_shape = [2, 1]\<rparr>, ''b'' \<mapsto> \<lparr>t_data = [0, 0, 0], t_shape = [3]\<rparr>]"

text \<open>
  A product of one column plus a bias of three elements has three columns; the Gemm that
  replaces them has one, since its third operand may not widen the product.
\<close>

theorem matmul_bias_widens:
  "fuse_matmul_add [Node ''MatMul'' [] [''x'', ''w''] [''p''] no_attrs, Node ''Add'' [] [''p'', ''b''] [''y''] no_attrs]
     bias_weights [''x'' \<mapsto> [4, 2], ''w'' \<mapsto> [2, 1]] [''y''] =
   [Node ''Gemm'' ''_fused_gemm'' [''x'', ''w'', ''b''] [''y''] (gemm_attrs one_f32 0)]"
  by (simp add: fuse_matmul_add_def fuse_bias_def fusion_evaluation bias_weights_def known_rank_def Let_def)

end
